(* ===== verification/Prelude.thy ===== *)
theory Prelude
  imports Complex_Main "HOL-Library.Char_ord" "HOL-Library.List_Lexorder"
    "HOL-Library.Product_Lexorder"
begin

text \<open>
  Shared vocabulary of the development: the exceptions of the Python code as values, the
  result type of a fallible operation, JSON values, US-dollar amounts, the few string
  operations the code uses, \<open>min(xs, key=f)\<close> and the state-transition interface
  (\<open>lifecycle\<close>) that the task, attempt, session, plan-node and change-set status
  machines share.
\<close>

named_theorems res_simps \<open>unfolding the result type\<close>
named_theorems inv_intros \<open>introduction rules for component invariants\<close>

section \<open>Exceptions and results\<close>

text \<open>
  Every exception class the modelled code raises is a constructor; the string is the stable
  code or message the source passes to it.
\<close>

datatype py_exn =
    ValueError string
  | KeyError string
  | AssertionError string
  | IntegrityError string
  | RuntimeError string
  | PermissionError string
  | DomainTransitionError string
  | SessionTransitionError string
  | PlanValidationError string
  | FrameworkContractError string
  | JournalIdempotencyError string
  | BudgetBlockedError string
  | ReservationStateError string
  | TaskValidationError string
  | DecisionAdmissionError string
  | AccountingReconciliationRequired string
  | StaleRoutingSnapshot string
  | RunModelCallLimitExceeded int
  | OSError string
  | ChangeSetIntegrationError string
  | WorkspaceCaptureError string
  | ToolArgValidationError string
  | PathBoundaryError string
  | LeadIntentError string
  | StaleAnswerError string
  | ConfigValidationError string
  | ProjectConfigSecurityError string
  | LiteralSecretError string
  | CatalogConflictError string
  | TypeError string
  | SessionLockedError string
  | CheckpointUnavailableError string
  | CheckpointCorruptError string

type_synonym 'a res = "py_exn + 'a"

definition res_bind :: "'a res \<Rightarrow> ('a \<Rightarrow> 'b res) \<Rightarrow> 'b res" where
  "res_bind m f = (case m of Inl e \<Rightarrow> Inl e | Inr x \<Rightarrow> f x)"

definition raise_if :: "bool \<Rightarrow> py_exn \<Rightarrow> unit res" where
  "raise_if b e = (if b then Inl e else Inr ())"

lemma res_bind_Inl [simp, res_simps]: "res_bind (Inl e) f = Inl e"
  by (simp add: res_bind_def)

lemma res_bind_Inr [simp, res_simps]: "res_bind (Inr x) f = f x"
  by (simp add: res_bind_def)

lemma res_bind_eq_Inr [res_simps]:
  "res_bind m f = Inr y \<longleftrightarrow> (\<exists>x. m = Inr x \<and> f x = Inr y)"
  by (cases m) auto

lemma raise_if_eq_Inr [simp, res_simps]: "raise_if b e = Inr u \<longleftrightarrow> \<not> b"
  by (simp add: raise_if_def)

lemma raise_if_False [simp]: "raise_if False e = Inr ()"
  by (simp add: raise_if_def)

lemma raise_if_True [simp]: "raise_if True e = Inl e"
  by (simp add: raise_if_def)

definition is_ok :: "'a res \<Rightarrow> bool" where
  "is_ok r = (case r of Inl _ \<Rightarrow> False | Inr _ \<Rightarrow> True)"

lemma is_ok_simps [simp]: "is_ok (Inr x)" "\<not> is_ok (Inl e)"
  by (simp_all add: is_ok_def)

lemma is_ok_iff: "is_ok r \<longleftrightarrow> (\<exists>x. r = Inr x)"
  by (cases r) auto

section \<open>Amounts and JSON\<close>

text \<open>
  \<open>Decimal\<close> amounts are exact rationals: the code only adds, subtracts, compares, takes
  maxima and multiplies by token counts, and formats with \<open>format(x, "f")\<close>, which loses
  nothing.  The 28-digit context of Python's \<open>decimal\<close> is not modelled.
\<close>

type_synonym usd = rat

datatype json =
    JNull
  | JBool bool
  | JNum rat
  | JStr string
  | JList "json list"
  | JObj "(string \<times> json) list"

fun json_get :: "json \<Rightarrow> string \<Rightarrow> json option" where
  "json_get (JObj kvs) k = map_of kvs k"
| "json_get _ k = None"

section \<open>String operations\<close>

text \<open>
  Characters are code points below 256: \<open>str.isspace\<close> holds of the ASCII controls 9 to 13 and 28
  to 31, the blank, 0x85 and 0xA0; \<open>str.lower\<close> moves the ASCII and the Latin-1 capitals.
\<close>

definition is_space :: "char \<Rightarrow> bool" where
  "is_space c \<longleftrightarrow>
     (let n = of_char c :: nat in 9 \<le> n \<and> n \<le> 13 \<or> 28 \<le> n \<and> n \<le> 32 \<or> n = 133 \<or> n = 160)"

definition py_strip :: "string \<Rightarrow> string" where
  "py_strip s = rev (dropWhile is_space (rev (dropWhile is_space s)))"

definition lower_char :: "char \<Rightarrow> char" where
  "lower_char c =
     (let n = of_char c :: nat in
      if 65 \<le> n \<and> n \<le> 90 \<or> 192 \<le> n \<and> n \<le> 222 \<and> n \<noteq> 215 then char_of (n + 32) else c)"

definition py_lower :: "string \<Rightarrow> string" where
  "py_lower s = map lower_char s"

definition starts_with :: "string \<Rightarrow> string \<Rightarrow> bool" where
  "starts_with s p \<longleftrightarrow> take (length p) s = p"

fun split_on :: "char \<Rightarrow> string \<Rightarrow> string list" where
  "split_on c [] = [[]]"
| "split_on c (x # xs) =
     (if x = c then [] # split_on c xs
      else (case split_on c xs of [] \<Rightarrow> [[x]] | p # ps \<Rightarrow> (x # p) # ps))"

lemma split_on_ne [simp]: "split_on c s \<noteq> []"
  by (induction s) (auto split: list.splits)

text \<open>The parts of a relative POSIX path.\<close>

definition posix_parts :: "string \<Rightarrow> string list" where
  "posix_parts s = filter (\<lambda>p. p \<noteq> [] \<and> p \<noteq> ''.'') (split_on CHR ''/'' s)"

section \<open>Ordered choice\<close>

text \<open>\<open>min(xs, key=f)\<close>: the first element with the least key, None where Python raises.\<close>

fun min_by :: "('a \<Rightarrow> 'k::linorder) \<Rightarrow> 'a list \<Rightarrow> 'a option" where
  "min_by f [] = None"
| "min_by f (x # xs) =
     (case min_by f xs of
        None \<Rightarrow> Some x
      | Some y \<Rightarrow> if f x \<le> f y then Some x else Some y)"

lemma min_by_None [simp]: "min_by f xs = None \<longleftrightarrow> xs = []"
  by (cases xs) (auto split: option.splits)

lemma min_by_in: "min_by f xs = Some x \<Longrightarrow> x \<in> set xs"
  by (induction xs arbitrary: x) (auto split: option.splits if_splits)

lemma min_by_le: "min_by f xs = Some x \<Longrightarrow> y \<in> set xs \<Longrightarrow> f x \<le> f y"
proof (induction xs arbitrary: x y)
  case Nil
  then show ?case by simp
next
  case (Cons a xs)
  then show ?case
    by (cases "min_by f xs") (auto split: if_splits intro: order_trans)
qed

text \<open>Positions of the first match, as \<open>list.index\<close> and \<open>next(x for x in xs if p(x))\<close>.\<close>

definition first_such :: "('a \<Rightarrow> bool) \<Rightarrow> 'a list \<Rightarrow> 'a option" where
  "first_such p xs = List.find p xs"

lemma first_such_Some:
  "first_such p xs = Some x \<Longrightarrow> x \<in> set xs \<and> p x"
  unfolding first_such_def by (induction xs) (auto split: if_splits)

lemma first_such_None: "first_such p xs = None \<longleftrightarrow> (\<forall>x \<in> set xs. \<not> p x)"
  unfolding first_such_def by (induction xs) auto

section \<open>Dictionary updates as they appear in tables\<close>

lemma map_upds_other [simp]: "x \<noteq> k \<Longrightarrow> (m(k \<mapsto> v)) x = m x"
  by simp

lemma sum_list_filter_split:
  "sum_list (map f (filter p xs)) + sum_list (map f (filter (\<lambda>x. \<not> p x) xs))
     = (sum_list (map f xs) :: 'a :: comm_monoid_add)"
  by (induction xs) (auto simp: algebra_simps)

lemma sum_list_nonneg_rat:
  "(\<And>x. x \<in> set xs \<Longrightarrow> 0 \<le> (f x :: rat)) \<Longrightarrow> 0 \<le> sum_list (map f xs)"
  by (induction xs) auto

section \<open>Status machines\<close>

text \<open>
  The interface of a compare-and-transition status machine: \<open>step s t\<close> is the operation
  (its result is the new status), \<open>edge\<close> the table of legal moves, \<open>final\<close> the
  statuses with no exit.  A repeated move onto a final status may be tolerated, every other
  success is an edge of the table.
\<close>

locale lifecycle =
  fixes step :: "'s \<Rightarrow> 's \<Rightarrow> 's res"
    and edge :: "'s \<Rightarrow> 's \<Rightarrow> bool"
    and final :: "'s \<Rightarrow> bool"
  assumes step_target: "step s t = Inr u \<Longrightarrow> u = t"
    and step_edge: "step s t = Inr u \<Longrightarrow> s = t \<or> edge s t"
    and final_no_edge: "final s \<Longrightarrow> \<not> edge s t"
begin

lemma final_absorbs: "final s \<Longrightarrow> step s t = Inr u \<Longrightarrow> t = s \<and> u = s"
  using step_edge step_target final_no_edge by metis

fun run_steps :: "'s \<Rightarrow> 's list \<Rightarrow> 's res" where
  "run_steps s [] = Inr s"
| "run_steps s (t # ts) = (case step s t of Inl e \<Rightarrow> Inl e | Inr u \<Rightarrow> run_steps u ts)"

lemma run_final: "final s \<Longrightarrow> run_steps s ts = Inr u \<Longrightarrow> u = s"
proof (induction ts arbitrary: s)
  case Nil
  then show ?case by simp
next
  case (Cons t ts)
  then show ?case
    by (auto split: sum.splits dest: final_absorbs)
qed

lemma run_reaches: "run_steps s ts = Inr u \<Longrightarrow> edge\<^sup>*\<^sup>* s u"
proof (induction ts arbitrary: s)
  case Nil
  then show ?case by simp
next
  case (Cons t ts)
  then obtain v where "step s t = Inr v" "run_steps v ts = Inr u"
    by (auto split: sum.splits)
  then have "edge\<^sup>*\<^sup>* v u" "v = t" "s = t \<or> edge s t"
    using Cons.IH step_target step_edge by blast+
  then show ?case
    by (auto intro: converse_rtranclp_into_rtranclp)
qed

end

end
