(* ===== verification/Dependency_Graph.thy ===== *)
theory Dependency_Graph
  imports Prelude
begin

text \<open>
  The depth-first cycle check that \<open>domain/plans.py\<close> (\<open>ExecutionPlan.validate_graph\<close>)
  and \<open>runtime/task_registry.py\<close> (\<open>_has_dependency_cycle\<close>) both contain, and the
  \<open>while\<close> loop that closes a set of blocked nodes under "depends on".  Both are proved
  against the relation \<open>dep_rel\<close>: the check accepts exactly the acyclic graphs, the loop
  computes exactly the transitive dependents.
\<close>

section \<open>Depth-first visit\<close>

text \<open>
  \<open>visit\<close> raises (here: None) when it meets a node on its own stack, skips a visited one,
  and otherwise visits the dependencies in order.  The recursion depth is bounded by the number
  of nodes; the fuel counts it, and \<open>visit_fuel\<close> below shows the bound is never hit.
\<close>

fun visit :: "nat \<Rightarrow> ('n \<Rightarrow> 'n list) \<Rightarrow> 'n list \<Rightarrow> 'n list \<Rightarrow> 'n list \<Rightarrow> 'n list option" where
  "visit fuel adj visiting visited [] = Some visited"
| "visit fuel adj visiting visited (n # ns) =
     (if n \<in> set visiting then None
      else if n \<in> set visited then visit fuel adj visiting visited ns
      else (case fuel of
              0 \<Rightarrow> None
            | Suc k \<Rightarrow>
                (case visit k adj (n # visiting) visited (adj n) of
                   None \<Rightarrow> None
                 | Some visited' \<Rightarrow> visit fuel adj visiting (n # visited') ns)))"

definition dep_rel :: "('n \<Rightarrow> 'n list) \<Rightarrow> 'n set \<Rightarrow> ('n \<times> 'n) set" where
  "dep_rel adj V = {(n, d). n \<in> V \<and> d \<in> set (adj n)}"

text \<open>A list is in dependency order when each node's dependencies stand after it.\<close>

fun topo :: "('n \<Rightarrow> 'n list) \<Rightarrow> 'n list \<Rightarrow> bool" where
  "topo adj [] = True"
| "topo adj (n # ns) \<longleftrightarrow> n \<notin> set ns \<and> set (adj n) \<subseteq> set ns \<and> topo adj ns"

fun stack_path :: "('n \<Rightarrow> 'n list) \<Rightarrow> 'n list \<Rightarrow> bool" where
  "stack_path adj [] = True"
| "stack_path adj [n] = True"
| "stack_path adj (n # m # ns) \<longleftrightarrow> n \<in> set (adj m) \<and> stack_path adj (m # ns)"

lemma visit_topo:
  "visit fuel adj visiting visited ns = Some vs \<Longrightarrow> topo adj visited \<Longrightarrow>
     set visiting \<inter> set visited = {} \<Longrightarrow>
     topo adj vs \<and> set ns \<union> set visited \<subseteq> set vs \<and> set visiting \<inter> set vs = {}"
proof (induction fuel adj visiting visited ns arbitrary: vs rule: visit.induct)
  case (1 fuel adj visiting visited)
  then show ?case by simp
next
  case (2 fuel adj visiting visited n ns)
  show ?case
  proof (cases "n \<in> set visited")
    case True
    with 2 have "n \<notin> set visiting" "visit fuel adj visiting visited ns = Some vs"
      by (auto split: if_splits)
    with 2 True show ?thesis by auto
  next
    case False
    with "2.prems" obtain k vs' where f: "fuel = Suc k" "n \<notin> set visiting"
      and v: "visit k adj (n # visiting) visited (adj n) = Some vs'"
      and r: "visit fuel adj visiting (n # vs') ns = Some vs"
      by (auto split: if_splits nat.splits option.splits)
    have i: "topo adj vs' \<and> set (adj n) \<union> set visited \<subseteq> set vs' \<and>
             set (n # visiting) \<inter> set vs' = {}"
      using "2.IH"(2) [OF f(2) False f(1) v] "2.prems" False by auto
    then have "topo adj (n # vs')" "set visiting \<inter> set (n # vs') = {}"
      using f(2) by auto
    then have "topo adj vs \<and> set ns \<union> set (n # vs') \<subseteq> set vs \<and> set visiting \<inter> set vs = {}"
      using "2.IH"(3) [OF f(2) False f(1) v r] by simp
    with i show ?thesis by auto
  qed
qed

lemma stack_path_trancl:
  "stack_path adj (s # ss) \<Longrightarrow> n \<in> set (s # ss) \<Longrightarrow> set (s # ss) \<subseteq> V \<Longrightarrow>
     (n, s) \<in> (dep_rel adj V)\<^sup>*"
proof (induction ss arbitrary: s)
  case Nil
  then show ?case by simp
next
  case (Cons m ss)
  show ?case
  proof (cases "n = s")
    case True
    then show ?thesis by simp
  next
    case False
    with Cons have "(n, m) \<in> (dep_rel adj V)\<^sup>*" by auto
    moreover have "(m, s) \<in> dep_rel adj V"
      using Cons.prems by (auto simp: dep_rel_def)
    ultimately show ?thesis by (rule rtrancl_into_rtrancl)
  qed
qed

lemma visit_None:
  "visit fuel adj visiting visited ns = None \<Longrightarrow>
     finite V \<Longrightarrow> set ns \<subseteq> V \<Longrightarrow> set visiting \<subseteq> V \<Longrightarrow>
     (\<And>n. n \<in> V \<Longrightarrow> set (adj n) \<subseteq> V) \<Longrightarrow>
     stack_path adj visiting \<Longrightarrow>
     (visiting = [] \<or> set ns \<subseteq> set (adj (hd visiting))) \<Longrightarrow>
     card (V - set visiting) \<le> fuel \<Longrightarrow>
     \<exists>c. (c, c) \<in> (dep_rel adj V)\<^sup>+"
proof (induction fuel adj visiting visited ns rule: visit.induct)
  case (1 fuel adj visiting visited)
  then show ?case by simp
next
  case (2 fuel adj visiting visited n ns)
  show ?case
  proof (cases "n \<in> set visiting")
    case True
    then obtain s ss where ss: "visiting = s # ss" by (cases visiting) auto
    with 2 True have "(n, s) \<in> (dep_rel adj V)\<^sup>*"
      by (intro stack_path_trancl) auto
    moreover have "(s, n) \<in> dep_rel adj V"
      using 2 ss by (auto simp: dep_rel_def)
    ultimately show ?thesis by (meson rtrancl_into_trancl1)
  next
    case ni: False
    show ?thesis
    proof (cases "n \<in> set visited")
      case True
      with 2 ni show ?thesis by (auto split: if_splits)
    next
      case False
      have "n \<in> V - set visiting" using 2 ni by auto
      then have pos: "0 < card (V - set visiting)"
        using \<open>finite V\<close> by (auto simp: card_gt_0_iff)
      then obtain k where k: "fuel = Suc k" using "2.prems" by (cases fuel) auto
      have card_k: "card (V - set (n # visiting)) \<le> k"
      proof -
        have "V - set (n # visiting) = (V - set visiting) - {n}" by auto
        then show ?thesis
          using \<open>n \<in> V - set visiting\<close> k "2.prems" by simp
      qed
      have sp: "stack_path adj (n # visiting)"
        using 2 by (cases visiting) auto
      show ?thesis
      proof (cases "visit k adj (n # visiting) visited (adj n)")
        case None
        show ?thesis
          by (rule "2.IH"(2) [OF ni False k None]) (use 2 card_k sp in auto)
      next
        case (Some vs')
        then have "visit fuel adj visiting (n # vs') ns = None"
          using "2.prems" k ni False by auto
        from "2.IH"(3) [OF ni False k Some this] show ?thesis
          using "2.prems" by auto
      qed
    qed
  qed
qed

fun idx :: "'n list \<Rightarrow> 'n \<Rightarrow> nat" where
  "idx [] x = 0"
| "idx (v # vs) x = (if x = v then 0 else Suc (idx vs x))"

lemma topo_closed: "topo adj vs \<Longrightarrow> n \<in> set vs \<Longrightarrow> set (adj n) \<subseteq> set vs"
  by (induction vs) auto

lemma topo_idx: "topo adj vs \<Longrightarrow> (n, m) \<in> dep_rel adj (set vs) \<Longrightarrow> idx vs n < idx vs m"
proof (induction vs)
  case Nil
  then show ?case by (simp add: dep_rel_def)
next
  case (Cons v vs)
  then have "n = v \<or> n \<in> set vs" and "m \<in> set (adj n)" by (auto simp: dep_rel_def)
  then show ?case
    using Cons topo_closed by (fastforce simp: dep_rel_def)
qed

lemma topo_acyclic: "topo adj vs \<Longrightarrow> acyclic (dep_rel adj (set vs))"
proof -
  assume t: "topo adj vs"
  have "(n, m) \<in> (dep_rel adj (set vs))\<^sup>+ \<Longrightarrow> idx vs n < idx vs m" for n m
    by (induction rule: trancl_induct) (use topo_idx [OF t] in \<open>force intro: less_trans\<close>)+
  then show ?thesis by (force simp: acyclic_def)
qed

section \<open>The check on a closed graph\<close>

text \<open>
  \<open>has_cycle adj ns\<close> runs the visit from every node of \<open>ns\<close> in turn with a shared
  visited set, as both call sites do.
\<close>

definition has_cycle :: "('n \<Rightarrow> 'n list) \<Rightarrow> 'n list \<Rightarrow> bool" where
  "has_cycle adj ns \<longleftrightarrow> visit (length ns) adj [] [] ns = None"

lemma has_cycle_False_topo:
  assumes "\<not> has_cycle adj ns"
  shows "\<exists>vs. topo adj vs \<and> set ns \<subseteq> set vs"
proof -
  from assms obtain vs where "visit (length ns) adj [] [] ns = Some vs"
    by (auto simp: has_cycle_def)
  from visit_topo [OF this] show ?thesis by auto
qed

lemma has_cycle_iff:
  assumes closed: "\<And>n. n \<in> set ns \<Longrightarrow> set (adj n) \<subseteq> set ns"
  shows "has_cycle adj ns \<longleftrightarrow> \<not> acyclic (dep_rel adj (set ns))"
proof
  assume "has_cycle adj ns"
  then have "visit (length ns) adj [] [] ns = None" by (simp add: has_cycle_def)
  then have "\<exists>c. (c, c) \<in> (dep_rel adj (set ns))\<^sup>+"
    by (rule visit_None) (use closed card_length in auto)
  then show "\<not> acyclic (dep_rel adj (set ns))" by (auto simp: acyclic_def)
next
  assume cyc: "\<not> acyclic (dep_rel adj (set ns))"
  show "has_cycle adj ns"
  proof (rule ccontr)
    assume "\<not> has_cycle adj ns"
    then obtain vs where "topo adj vs" "set ns \<subseteq> set vs"
      using has_cycle_False_topo by blast
    moreover from this(2) have "dep_rel adj (set ns) \<subseteq> dep_rel adj (set vs)"
      by (auto simp: dep_rel_def)
    ultimately have "acyclic (dep_rel adj (set ns))"
      using topo_acyclic acyclic_subset by blast
    with cyc show False by simp
  qed
qed

text \<open>
  Well-founded descent along dependencies: a property that passes from all dependencies of a
  node to the node holds everywhere, and a nonempty set of nodes has one without a dependency
  in the set.
\<close>

lemma acyclic_minimal:
  assumes "acyclic (dep_rel adj V)" and "finite V"
    and closed: "\<And>n. n \<in> V \<Longrightarrow> set (adj n) \<subseteq> V"
    and "S \<subseteq> V" and "S \<noteq> {}"
  shows "\<exists>n \<in> S. set (adj n) \<inter> S = {}"
proof -
  have "dep_rel adj V \<subseteq> V \<times> V" using closed by (auto simp: dep_rel_def)
  then have "finite (dep_rel adj V)" by (rule finite_subset) (simp add: \<open>finite V\<close>)
  then have "wf ((dep_rel adj V)\<inverse>)"
    using assms(1) by (simp add: finite_acyclic_wf_converse)
  then obtain n where "n \<in> S" and m: "\<And>y. (y, n) \<in> (dep_rel adj V)\<inverse> \<Longrightarrow> y \<notin> S"
    using \<open>S \<noteq> {}\<close> by (metis ex_in_conv wfE_min)
  then show ?thesis
    using \<open>S \<subseteq> V\<close> by (auto simp: dep_rel_def)
qed

section \<open>Closing a set of blocked nodes\<close>

text \<open>
  One round collects the nodes outside the set that depend on a member; the loop stops when a
  round adds nothing.
\<close>

definition newly_blocked :: "('n \<Rightarrow> 'n list) \<Rightarrow> 'n list \<Rightarrow> 'n list \<Rightarrow> 'n list" where
  "newly_blocked adj ns B =
     filter (\<lambda>n. n \<notin> set B \<and> (\<exists>d \<in> set (adj n). d \<in> set B)) ns"

function blocked_closure :: "('n \<Rightarrow> 'n list) \<Rightarrow> 'n list \<Rightarrow> 'n list \<Rightarrow> 'n list" where
  "blocked_closure adj ns B =
     (let new = newly_blocked adj ns B
      in if new = [] then B else blocked_closure adj ns (new @ B))"
  by pat_completeness auto
termination
proof (relation "measure (\<lambda>(adj, ns, B). length (filter (\<lambda>n. n \<notin> set B) ns))", goal_cases)
  case 1
  then show ?case by simp
next
  case (2 adj ns B new)
  let ?n = "hd new"
  from 2 have n: "?n \<in> set new" by simp
  then have "?n \<in> set ns" "?n \<notin> set B"
    using 2(1) by (auto simp: newly_blocked_def)
  note n = this n
  have "length (filter (\<lambda>x. x \<notin> set (new @ B)) ns)
          = length (filter (\<lambda>x. x \<notin> set new) (filter (\<lambda>x. x \<notin> set B) ns))"
    by (simp add: conj_commute)
  also have "\<dots> < length (filter (\<lambda>x. x \<notin> set B) ns)"
    by (rule length_filter_less [of ?n]) (use n in auto)
  finally show ?case by simp
qed

declare blocked_closure.simps [simp del]

definition dependents :: "('n \<Rightarrow> 'n list) \<Rightarrow> 'n set \<Rightarrow> 'n set \<Rightarrow> 'n set" where
  "dependents adj V S = {n. \<exists>b \<in> S. (n, b) \<in> (dep_rel adj V)\<^sup>*}"

lemma blocked_closure_sound:
  "set B \<subseteq> dependents adj (set ns) S \<Longrightarrow>
     set (blocked_closure adj ns B) \<subseteq> dependents adj (set ns) S"
proof (induction adj ns B rule: blocked_closure.induct)
  case (1 adj ns B)
  let ?new = "newly_blocked adj ns B"
  have "set ?new \<subseteq> dependents adj (set ns) S"
  proof
    fix n assume "n \<in> set ?new"
    then obtain d where "n \<in> set ns" "d \<in> set (adj n)" "d \<in> set B"
      by (auto simp: newly_blocked_def)
    then have "(n, d) \<in> dep_rel adj (set ns)" "d \<in> dependents adj (set ns) S"
      using 1 by (auto simp: dep_rel_def)
    then show "n \<in> dependents adj (set ns) S"
      by (auto simp: dependents_def intro: converse_rtrancl_into_rtrancl)
  qed
  with 1 show ?case
    by (subst blocked_closure.simps) (auto simp: Let_def)
qed

lemma blocked_closure_mono: "set B \<subseteq> set (blocked_closure adj ns B)"
proof (induction adj ns B rule: blocked_closure.induct)
  case (1 adj ns B)
  then show ?case
    by (subst blocked_closure.simps) (auto simp: Let_def)
qed

lemma blocked_closure_closed:
  "n \<in> set ns \<Longrightarrow> d \<in> set (adj n) \<Longrightarrow> d \<in> set (blocked_closure adj ns B) \<Longrightarrow>
     n \<in> set (blocked_closure adj ns B)"
proof (induction adj ns B rule: blocked_closure.induct)
  case (1 adj ns B)
  show ?case
  proof (cases "newly_blocked adj ns B = []")
    case True
    with 1 show ?thesis
      by (auto simp: blocked_closure.simps [of adj ns B] newly_blocked_def filter_empty_conv)
  next
    case False
    with 1 show ?thesis
      by (auto simp: blocked_closure.simps [of adj ns B] Let_def)
  qed
qed

lemma set_blocked_closure:
  "set (blocked_closure adj ns B) = dependents adj (set ns) (set B)"
proof
  show "set (blocked_closure adj ns B) \<subseteq> dependents adj (set ns) (set B)"
    by (rule blocked_closure_sound) (auto simp: dependents_def)
next
  show "dependents adj (set ns) (set B) \<subseteq> set (blocked_closure adj ns B)"
  proof
    fix n assume "n \<in> dependents adj (set ns) (set B)"
    then obtain b where b: "b \<in> set B" and r: "(n, b) \<in> (dep_rel adj (set ns))\<^sup>*"
      unfolding dependents_def by blast
    from r show "n \<in> set (blocked_closure adj ns B)"
    proof (induction rule: converse_rtrancl_induct)
      case base
      show ?case using b blocked_closure_mono [of B adj ns] by (rule subsetD [rotated])
    next
      case (step y z)
      from step.hyps(1) have "y \<in> set ns" "z \<in> set (adj y)" by (auto simp: dep_rel_def)
      then show ?case using step.IH by (rule blocked_closure_closed)
    qed
  qed
qed

end
