(* ===== verification/Plan_Domain.thy ===== *)
theory Plan_Domain
  imports Dependency_Graph
begin

text \<open>
  The plan contract of \<open>src/src/skail/domain/plans.py\<close> and the execution decision of
  \<open>src/src/skail/domain/decisions.py\<close>: the value types with their field constraints and
  the two model validators, in the order the checks run.
\<close>

section \<open>Plan values\<close>

datatype plan_node_kind = K_AGENT | K_TOOL | K_VERIFICATION | K_INTEGRATION | K_CHECKPOINT

datatype plan_node_state =
    N_WAITING | N_READY | N_LAUNCHING | N_RUNNING | N_SUCCEEDED | N_FAILED | N_BLOCKED | N_CANCELLED

datatype effect_scope = E_READ | E_WORKSPACE_WRITE | E_EXTERNAL_WRITE | E_UNKNOWN

record plan_node =
  local_id :: string
  node_kind :: plan_node_kind
  objective :: string
  depends_on :: "string list"
  acceptance_criteria :: "string list"
  node_inputs :: "string list"
  output_contract :: "string option"
  effect_scope :: effect_scope
  resource_scopes :: "string list"
  task_features :: "(string \<times> json) list"
  artifact_refs :: "string list"
  task_lineage :: "string option"

record execution_plan =
  schema_version :: int
  policy_version :: string
  plan_revision :: int
  plan_nodes :: "plan_node list"

record plan_delta =
  expected_revision :: int
  added_nodes :: "plan_node list"
  replaced_local_ids :: "string list"
  cancelled_local_ids :: "string list"
  justification :: string
  evidence_refs :: "string list"

definition SUPPORTED_PLAN_SCHEMA_VERSION :: int where
  "SUPPORTED_PLAN_SCHEMA_VERSION = 1"

definition SUPPORTED_EXECUTION_POLICY_VERSION :: string where
  "SUPPORTED_EXECUTION_POLICY_VERSION = ''adaptive-v1''"

text \<open>Field constraints: \<open>min_length=1\<close> on stripped strings, \<open>ge=1\<close> on the versions.\<close>

definition plan_node_fields_ok :: "plan_node \<Rightarrow> bool" where
  "plan_node_fields_ok n \<longleftrightarrow> local_id n \<noteq> [] \<and> objective n \<noteq> []"

definition plan_fields_ok :: "execution_plan \<Rightarrow> bool" where
  "plan_fields_ok p \<longleftrightarrow> 1 \<le> schema_version p \<and> policy_version p \<noteq> [] \<and>
     1 \<le> plan_revision p \<and> plan_nodes p \<noteq> [] \<and> list_all plan_node_fields_ok (plan_nodes p)"

text \<open>The dictionary from local ids to nodes, and the dependencies of a local id in it.\<close>

definition node_by_local :: "plan_node list \<Rightarrow> string \<Rightarrow> plan_node option" where
  "node_by_local ns l = List.find (\<lambda>n. local_id n = l) ns"

definition deps_of :: "plan_node list \<Rightarrow> string \<Rightarrow> string list" where
  "deps_of ns l = (case node_by_local ns l of None \<Rightarrow> [] | Some n \<Rightarrow> depends_on n)"

definition plan_ids :: "plan_node list \<Rightarrow> string list" where
  "plan_ids ns = map local_id ns"

definition dependency_invalid :: "plan_node list \<Rightarrow> plan_node \<Rightarrow> bool" where
  "dependency_invalid ns n \<longleftrightarrow>
     local_id n \<in> set (depends_on n) \<or> (\<exists>d \<in> set (depends_on n). d \<notin> set (plan_ids ns))"

definition validate_graph :: "execution_plan \<Rightarrow> execution_plan res" where
  "validate_graph p =
     (let ns = plan_nodes p in
      if \<not> distinct (plan_ids ns) then Inl (PlanValidationError ''plan.duplicate_node'')
      else if \<not> distinct (map (\<lambda>n. py_lower (py_strip (objective n))) ns)
        then Inl (PlanValidationError ''plan.duplicate_objective'')
      else if list_ex (dependency_invalid ns) ns
        then Inl (PlanValidationError ''plan.invalid_dependency'')
      else if has_cycle (deps_of ns) (plan_ids ns) then Inl (PlanValidationError ''plan.cycle'')
      else Inr p)"

lemma node_by_local_Some:
  "node_by_local ns l = Some n \<Longrightarrow> n \<in> set ns \<and> local_id n = l"
  unfolding node_by_local_def by (induction ns) (auto split: if_splits)

lemma node_by_local_distinct:
  "distinct (plan_ids ns) \<Longrightarrow> n \<in> set ns \<Longrightarrow> node_by_local ns (local_id n) = Some n"
  unfolding node_by_local_def plan_ids_def by (induction ns) auto

lemma node_by_local_None: "node_by_local ns l = None \<longleftrightarrow> l \<notin> set (plan_ids ns)"
  unfolding node_by_local_def plan_ids_def by (induction ns) auto

lemma deps_of_node:
  "distinct (plan_ids ns) \<Longrightarrow> n \<in> set ns \<Longrightarrow> deps_of ns (local_id n) = depends_on n"
  by (simp add: deps_of_def node_by_local_distinct)

lemma deps_of_closed:
  assumes "\<forall>n \<in> set ns. \<not> dependency_invalid ns n"
  shows "set (deps_of ns l) \<subseteq> set (plan_ids ns)"
proof (cases "node_by_local ns l")
  case None
  then show ?thesis by (simp add: deps_of_def)
next
  case (Some n)
  with node_by_local_Some assms show ?thesis
    by (fastforce simp: deps_of_def dependency_invalid_def)
qed

text \<open>The declarative contract of a plan graph.\<close>

definition plan_graph_ok :: "plan_node list \<Rightarrow> bool" where
  "plan_graph_ok ns \<longleftrightarrow>
     distinct (plan_ids ns) \<and>
     distinct (map (\<lambda>n. py_lower (py_strip (objective n))) ns) \<and>
     (\<forall>n \<in> set ns. local_id n \<notin> set (depends_on n) \<and> set (depends_on n) \<subseteq> set (plan_ids ns)) \<and>
     acyclic (dep_rel (deps_of ns) (set (plan_ids ns)))"

lemma validate_graph_iff: "validate_graph p = Inr q \<longleftrightarrow> q = p \<and> plan_graph_ok (plan_nodes p)"
proof -
  let ?ns = "plan_nodes p"
  have inv: "list_ex (dependency_invalid ?ns) ?ns \<longleftrightarrow>
      \<not> (\<forall>n \<in> set ?ns. local_id n \<notin> set (depends_on n) \<and>
            set (depends_on n) \<subseteq> set (plan_ids ?ns))"
    by (auto simp: list_ex_iff dependency_invalid_def)
  have cyc: "has_cycle (deps_of ?ns) (plan_ids ?ns) \<longleftrightarrow>
      \<not> acyclic (dep_rel (deps_of ?ns) (set (plan_ids ?ns)))"
    if "\<not> list_ex (dependency_invalid ?ns) ?ns"
    using that by (intro has_cycle_iff deps_of_closed) (auto simp: list_ex_iff)
  show ?thesis
    unfolding validate_graph_def plan_graph_ok_def Let_def
    using inv cyc by auto
qed

text \<open>\<open>ExecutionPlan.model_validate_json\<close>: the field constraints, then the graph validator.\<close>

definition load_plan :: "execution_plan \<Rightarrow> execution_plan res" where
  "load_plan p =
     (if \<not> plan_fields_ok p then Inl (ValueError ''plan.fields'') else validate_graph p)"

lemma load_plan_iff:
  "load_plan p = Inr q \<longleftrightarrow> q = p \<and> plan_fields_ok p \<and> plan_graph_ok (plan_nodes p)"
  by (auto simp: load_plan_def validate_graph_iff)

lemma plan_graph_ok_deps:
  "plan_graph_ok ns \<Longrightarrow> set (deps_of ns l) \<subseteq> set (plan_ids ns)"
  by (rule deps_of_closed) (auto simp: plan_graph_ok_def dependency_invalid_def)

section \<open>Execution decisions\<close>

datatype execution_mode = M_DIRECT | M_DISCOVERY | M_PLANNED

record execution_decision =
  dec_mode :: execution_mode
  dec_objective :: string
  dec_constraints :: "string list"
  dec_reason :: string
  dec_plan :: "execution_plan option"
  dec_revision :: "plan_delta option"

definition validate_revision_metadata ::
  "execution_plan \<Rightarrow> plan_delta option \<Rightarrow> unit res" where
  "validate_revision_metadata p rv =
     (if plan_revision p = 1 \<and> rv \<noteq> None
        then Inl (ValueError ''decision.initial_revision_metadata_forbidden'')
      else if 1 < plan_revision p then
        (case rv of
           None \<Rightarrow> Inl (ValueError ''decision.revision_required'')
         | Some r \<Rightarrow>
             raise_if (expected_revision r + 1 \<noteq> plan_revision p)
               (ValueError ''decision.revision_mismatch''))
      else Inr ())"

definition validate_mode :: "execution_decision \<Rightarrow> execution_decision res" where
  "validate_mode d =
     (if dec_mode d = M_DIRECT then
        (if dec_plan d \<noteq> None then Inl (ValueError ''decision.direct_plan_forbidden'')
         else if dec_revision d \<noteq> None then Inl (ValueError ''decision.direct_revision_forbidden'')
         else Inr d)
      else
        (case dec_plan d of
           None \<Rightarrow> Inl (ValueError ''decision.plan_required'')
         | Some p \<Rightarrow>
             res_bind (validate_revision_metadata p (dec_revision d)) (\<lambda>_.
               if dec_mode d = M_DISCOVERY then
                 (if \<not> list_ex (\<lambda>n. node_kind n = K_CHECKPOINT) (plan_nodes p)
                    then Inl (ValueError ''decision.discovery_checkpoint_required'')
                  else if list_ex (\<lambda>n. effect_scope n \<noteq> E_READ) (plan_nodes p)
                    then Inl (ValueError ''decision.discovery_effect_forbidden'')
                  else Inr d)
               else Inr d)))"

text \<open>What an accepted decision promises to the runtime.\<close>

definition decision_contract :: "execution_decision \<Rightarrow> bool" where
  "decision_contract d \<longleftrightarrow>
     (dec_mode d = M_DIRECT \<longleftrightarrow> dec_plan d = None) \<and>
     (\<forall>r. dec_revision d = Some r \<longrightarrow>
        (\<exists>p. dec_plan d = Some p \<and> plan_revision p \<noteq> 1 \<and>
           (1 < plan_revision p \<longrightarrow> plan_revision p = expected_revision r + 1))) \<and>
     (\<forall>p. dec_plan d = Some p \<and> 1 < plan_revision p \<longrightarrow> dec_revision d \<noteq> None) \<and>
     (dec_mode d = M_DISCOVERY \<longrightarrow>
        (\<forall>p. dec_plan d = Some p \<longrightarrow>
           (\<exists>n \<in> set (plan_nodes p). node_kind n = K_CHECKPOINT) \<and>
           (\<forall>n \<in> set (plan_nodes p). effect_scope n = E_READ)))"

lemma validate_mode_iff: "validate_mode d = Inr e \<longleftrightarrow> e = d \<and> decision_contract d"
proof (cases "dec_plan d")
  case None
  then show ?thesis
    by (cases "dec_mode d") (auto simp: validate_mode_def decision_contract_def)
next
  case (Some p)
  then show ?thesis
    by (cases "dec_mode d"; cases "dec_revision d")
      (auto simp: validate_mode_def decision_contract_def validate_revision_metadata_def
         list_ex_iff raise_if_def res_simps split: if_splits)
qed

end
