(* ===== verification/Status_Machines.thy ===== *)
theory Status_Machines
  imports Prelude
begin

text \<open>
  The status machines of \<open>src/src/skail/domain/tasks.py\<close> (tasks and attempts) and
  \<open>src/src/skail/domain/sessions.py\<close> (sessions): the enumerations, the transition tables
  and the guarded transition functions, each an interpretation of \<open>lifecycle\<close>.
\<close>

section \<open>Tasks\<close>

datatype task_status =
    PROPOSED | QUEUED | RUNNING | SUCCEEDED | FAILED | RETURNED_TO_LEAD
  | BLOCKED | BUDGET_BLOCKED | CANCELLED

definition TERMINAL_TASK_STATUSES :: "task_status list" where
  "TERMINAL_TASK_STATUSES = [SUCCEEDED, RETURNED_TO_LEAD, BLOCKED, BUDGET_BLOCKED, CANCELLED]"

fun TASK_TRANSITIONS :: "task_status \<Rightarrow> task_status list" where
  "TASK_TRANSITIONS PROPOSED = [QUEUED, BLOCKED]"
| "TASK_TRANSITIONS QUEUED = [RUNNING, BLOCKED, CANCELLED]"
| "TASK_TRANSITIONS RUNNING =
     [SUCCEEDED, FAILED, RETURNED_TO_LEAD, BLOCKED, BUDGET_BLOCKED, CANCELLED]"
| "TASK_TRANSITIONS FAILED = [QUEUED, RETURNED_TO_LEAD]"
| "TASK_TRANSITIONS _ = []"

definition transition_task :: "task_status \<Rightarrow> task_status \<Rightarrow> int \<Rightarrow> task_status res" where
  "transition_task current target attempt_number =
     (if current = target \<and> current \<in> set TERMINAL_TASK_STATUSES then Inr current
      else if target \<notin> set (TASK_TRANSITIONS current)
        then Inl (DomainTransitionError ''illegal task transition'')
      else if current = FAILED \<and> target = QUEUED \<and> attempt_number \<noteq> 1
        then Inl (DomainTransitionError
               ''only attempt one may transition a failed task back to queued'')
      else Inr target)"

definition task_final :: "task_status \<Rightarrow> bool" where
  "task_final s \<longleftrightarrow> s \<in> set TERMINAL_TASK_STATUSES"

lemma task_final_simps [simp]:
  "task_final SUCCEEDED" "task_final RETURNED_TO_LEAD" "task_final BLOCKED"
  "task_final BUDGET_BLOCKED" "task_final CANCELLED"
  "\<not> task_final PROPOSED" "\<not> task_final QUEUED" "\<not> task_final RUNNING" "\<not> task_final FAILED"
  by (simp_all add: task_final_def TERMINAL_TASK_STATUSES_def)

lemma task_transitions_final: "TASK_TRANSITIONS s = [] \<longleftrightarrow> task_final s"
  by (cases s) simp_all

lemma transition_task_Inr:
  "transition_task s t n = Inr u \<longleftrightarrow>
     u = t \<and> ((s = t \<and> task_final s) \<or>
       (t \<in> set (TASK_TRANSITIONS s) \<and> (s = FAILED \<and> t = QUEUED \<longrightarrow> n = 1)))"
  by (cases s; cases t) (auto simp: transition_task_def TERMINAL_TASK_STATUSES_def)

interpretation task_cycle: lifecycle
  "\<lambda>s t. transition_task s t n" "\<lambda>s t. t \<in> set (TASK_TRANSITIONS s)" task_final
  for n
  by unfold_locales (auto simp: transition_task_Inr task_transitions_final [symmetric])

text \<open>
  The whole history of one task: the statuses it is moved through, each with the attempt number
  the caller passes.  A second return to QUEUED needs \<open>attempt_number = 1\<close> again, so bounding
  the retries is the task graph's part (theory \<open>Task_Lifecycle\<close>).
\<close>

fun task_history :: "task_status \<Rightarrow> (task_status \<times> int) list \<Rightarrow> task_status res" where
  "task_history s [] = Inr s"
| "task_history s ((t, n) # ms) =
     (case transition_task s t n of Inl e \<Rightarrow> Inl e | Inr u \<Rightarrow> task_history u ms)"

lemma task_history_final: "task_final s \<Longrightarrow> task_history s ms = Inr u \<Longrightarrow> u = s"
proof (induction s ms rule: task_history.induct)
  case (1 s)
  then show ?case by simp
next
  case (2 s t n ms)
  then show ?case
    using task_cycle.final_absorbs by (auto split: sum.splits)
qed

lemma task_history_second_attempt:
  "task_history s ms = Inr u \<Longrightarrow> \<forall>m \<in> set ms. snd m = 2 \<Longrightarrow>
     s \<in> {FAILED, RETURNED_TO_LEAD} \<Longrightarrow> u \<in> {FAILED, RETURNED_TO_LEAD}"
proof (induction s ms rule: task_history.induct)
  case (1 s)
  then show ?case by simp
next
  case (2 s t n ms)
  from "2.prems"(1) obtain v where v: "transition_task s t n = Inr v" "task_history v ms = Inr u"
    by (auto split: sum.splits)
  then have "v \<in> {FAILED, RETURNED_TO_LEAD}"
    using "2.prems"(2,3) by (auto simp: transition_task_Inr)
  with 2 v show ?case by simp
qed

section \<open>Attempts\<close>

datatype attempt_status =
    A_ASSIGNED | A_RUNNING | A_SUCCEEDED | A_FAILED | A_BLOCKED | A_CANCELLED | A_INTERRUPTED

fun ATTEMPT_TRANSITIONS :: "attempt_status \<Rightarrow> attempt_status list" where
  "ATTEMPT_TRANSITIONS A_ASSIGNED = [A_RUNNING, A_BLOCKED, A_CANCELLED, A_INTERRUPTED]"
| "ATTEMPT_TRANSITIONS A_RUNNING =
     [A_SUCCEEDED, A_FAILED, A_BLOCKED, A_CANCELLED, A_INTERRUPTED]"
| "ATTEMPT_TRANSITIONS _ = []"

definition transition_attempt :: "attempt_status \<Rightarrow> attempt_status \<Rightarrow> attempt_status res" where
  "transition_attempt current target =
     (if current = target \<and> current \<notin> {A_ASSIGNED, A_RUNNING} then Inr current
      else if target \<notin> set (ATTEMPT_TRANSITIONS current)
        then Inl (DomainTransitionError ''illegal attempt transition'')
      else Inr target)"

definition attempt_final :: "attempt_status \<Rightarrow> bool" where
  "attempt_final s \<longleftrightarrow> ATTEMPT_TRANSITIONS s = []"

lemma transition_attempt_Inr:
  "transition_attempt s t = Inr u \<longleftrightarrow>
     u = t \<and> (t \<in> set (ATTEMPT_TRANSITIONS s) \<or> (s = t \<and> attempt_final s))"
  by (cases s; cases t) (auto simp: transition_attempt_def attempt_final_def)

interpretation attempt_cycle: lifecycle
  transition_attempt "\<lambda>s t. t \<in> set (ATTEMPT_TRANSITIONS s)" attempt_final
  by unfold_locales (auto simp: transition_attempt_Inr attempt_final_def)

section \<open>Sessions\<close>

datatype session_status = S_ACTIVE | S_IDLE | S_INTERRUPTED | S_COMPLETED | S_ARCHIVED

fun SESSION_TRANSITIONS :: "session_status \<Rightarrow> session_status list" where
  "SESSION_TRANSITIONS S_ACTIVE = [S_IDLE, S_INTERRUPTED, S_COMPLETED, S_ARCHIVED]"
| "SESSION_TRANSITIONS S_IDLE = [S_ACTIVE, S_COMPLETED, S_ARCHIVED]"
| "SESSION_TRANSITIONS S_INTERRUPTED = [S_ACTIVE, S_COMPLETED, S_ARCHIVED]"
| "SESSION_TRANSITIONS S_COMPLETED = [S_ACTIVE, S_ARCHIVED]"
| "SESSION_TRANSITIONS S_ARCHIVED = []"

text \<open>\<open>SessionStatus(x)\<close> on a string raises \<open>ValueError\<close> for an unknown value.\<close>

definition session_of_string :: "string \<Rightarrow> session_status res" where
  "session_of_string v =
     (if v = ''active'' then Inr S_ACTIVE
      else if v = ''idle'' then Inr S_IDLE
      else if v = ''interrupted'' then Inr S_INTERRUPTED
      else if v = ''completed'' then Inr S_COMPLETED
      else if v = ''archived'' then Inr S_ARCHIVED
      else Inl (ValueError v))"

definition transition_session :: "session_status \<Rightarrow> session_status \<Rightarrow> session_status res" where
  "transition_session current target =
     (if current = target then Inr current
      else if target \<notin> set (SESSION_TRANSITIONS current)
        then Inl (SessionTransitionError ''illegal session transition'')
      else Inr target)"

definition transition_session_str :: "string \<Rightarrow> string \<Rightarrow> session_status res" where
  "transition_session_str current target =
     res_bind (session_of_string current) (\<lambda>c.
     res_bind (session_of_string target) (\<lambda>t. transition_session c t))"

interpretation session_cycle: lifecycle
  transition_session "\<lambda>s t. t \<in> set (SESSION_TRANSITIONS s)" "\<lambda>s. s = S_ARCHIVED"
  by unfold_locales (auto simp: transition_session_def split: if_splits)

section \<open>Properties\<close>

text \<open>
  Whatever moves a task in a terminal status is asked to make, in any number and with any
  attempt number, the task stays in that status: the only accepted move is the repetition of the
  same status.
\<close>
theorem terminal_task_absorbing:
  assumes "task_final s" and "task_history s ms = Inr u"
  shows "u = s"
  using assms by (rule task_history_final)

theorem terminal_task_absorbing_witness:
  "task_history CANCELLED [(CANCELLED, 1), (CANCELLED, 2)] = Inr CANCELLED"
proof -
  obtain u where u: "task_history CANCELLED [(CANCELLED, 1), (CANCELLED, 2)] = Inr u"
    by (simp add: transition_task_def TERMINAL_TASK_STATUSES_def)
  have "task_final CANCELLED" by simp
  from terminal_task_absorbing [OF this u] have "u = CANCELLED" .
  with u show ?thesis by metis
qed

end
