(* ===== verification/Plan_Store.thy ===== *)
theory Plan_Store
  imports Plan_Domain Status_Machines
begin

text \<open>
  The durable plan store of \<open>src/src/skail/sessions/journal.py\<close>: admission of a plan,
  compare-and-set node transitions with promotion and failure cascade, revisions, node
  executions, task bindings, recovery of interrupted launches, and the events each writes.

  A table is a list of rows in rowid order, or a map where the primary key is all that is
  read.  A transaction is a function that returns the new tables, or the exception after which
  SQLite has rolled back.  Timestamps and event ids are not read back by any modelled
  operation and are left out.
\<close>

section \<open>Tables\<close>

record run_row =
  run_session :: string
  run_status :: string
  run_schema :: "int option"
  run_policy :: "string option"

record plan_row =
  pr_plan_id :: string
  pr_run_id :: string
  pr_schema :: int
  pr_policy :: string
  pr_current :: int
  pr_payload :: execution_plan

record node_row =
  nr_node_id :: string
  nr_plan_id :: string
  nr_local_id :: string
  nr_payload :: plan_node
  nr_retired :: "int option"

record exec_row =
  ex_node :: string
  ex_key :: string
  ex_status :: string
  ex_result :: "json option"

record binding_row =
  bn_node :: string
  bn_task :: string
  bn_attempt :: string

record event_row =
  ev_run :: string
  ev_session :: string
  ev_seq :: int
  ev_type :: string
  ev_plan :: string
  ev_revision :: int
  ev_node :: "string option"
  ev_reason :: "string option"

record revision_row =
  rv_plan :: string
  rv_revision :: int
  rv_expected :: int

record plan_db =
  pd_runs :: "string \<Rightarrow> run_row option"
  pd_plans :: "plan_row list"
  pd_nodes :: "node_row list"
  pd_states :: "string \<Rightarrow> plan_node_state option"
  pd_bindings :: "binding_row list"
  pd_execs :: "exec_row list"
  pd_revisions :: "revision_row list"
  pd_events :: "event_row list"
  pd_tasks :: "string \<Rightarrow> task_status option"
  pd_attempts :: "string \<Rightarrow> attempt_status option"

type_synonym node_snapshot = "string \<times> string \<times> plan_node_state"

fun node_state_value :: "plan_node_state \<Rightarrow> string" where
  "node_state_value N_WAITING = ''waiting''"
| "node_state_value N_READY = ''ready''"
| "node_state_value N_LAUNCHING = ''launching''"
| "node_state_value N_RUNNING = ''running''"
| "node_state_value N_SUCCEEDED = ''succeeded''"
| "node_state_value N_FAILED = ''failed''"
| "node_state_value N_BLOCKED = ''blocked''"
| "node_state_value N_CANCELLED = ''cancelled''"

section \<open>Queries\<close>

text \<open>
  \<open>plan_nodes JOIN plan_node_states ... WHERE plan_id=? AND retired_revision IS NULL\<close>,
  in rowid order.
\<close>

definition active_rows :: "plan_db \<Rightarrow> string \<Rightarrow> (node_row \<times> plan_node_state) list" where
  "active_rows db pid =
     List.map_filter
       (\<lambda>r. if nr_plan_id r = pid \<and> nr_retired r = None
             then map_option (Pair r) (pd_states db (nr_node_id r)) else None)
       (pd_nodes db)"

definition plan_by_id :: "plan_db \<Rightarrow> string \<Rightarrow> plan_row option" where
  "plan_by_id db pid = List.find (\<lambda>p. pr_plan_id p = pid) (pd_plans db)"

definition local_states :: "(node_row \<times> plan_node_state) list \<Rightarrow> string \<Rightarrow> plan_node_state option" where
  "local_states rows = map_of (map (\<lambda>(r, s). (nr_local_id r, s)) rows)"

definition row_by_node :: "(node_row \<times> plan_node_state) list \<Rightarrow> string \<Rightarrow> (node_row \<times> plan_node_state) option" where
  "row_by_node rows nid = List.find (\<lambda>(r, s). nr_node_id r = nid) rows"

definition node_id_of :: "(node_row \<times> plan_node_state) list \<Rightarrow> string \<Rightarrow> string option" where
  "node_id_of rows l =
     map_option (\<lambda>(r, s). nr_node_id r) (List.find (\<lambda>(r, s). nr_local_id r = l) rows)"

definition exec_of :: "plan_db \<Rightarrow> string \<Rightarrow> exec_row option" where
  "exec_of db nid = List.find (\<lambda>e. ex_node e = nid) (pd_execs db)"

definition binding_of :: "plan_db \<Rightarrow> string \<Rightarrow> binding_row option" where
  "binding_of db nid = List.find (\<lambda>b. bn_node b = nid) (pd_bindings db)"

definition max_sequence :: "event_row list \<Rightarrow> string \<Rightarrow> int" where
  "max_sequence evs run = fold max (map ev_seq (filter (\<lambda>e. ev_run e = run) evs)) 0"

section \<open>Legal moves\<close>

definition legal_node_moves :: "(plan_node_state \<times> plan_node_state) list" where
  "legal_node_moves =
     [(N_READY, N_LAUNCHING), (N_LAUNCHING, N_RUNNING), (N_LAUNCHING, N_BLOCKED),
      (N_RUNNING, N_SUCCEEDED), (N_RUNNING, N_FAILED), (N_RUNNING, N_BLOCKED),
      (N_RUNNING, N_CANCELLED)]"

definition failure_states :: "plan_node_state list" where
  "failure_states = [N_FAILED, N_BLOCKED, N_CANCELLED]"

definition terminal_states :: "plan_node_state list" where
  "terminal_states = [N_SUCCEEDED, N_FAILED, N_BLOCKED, N_CANCELLED]"

lemmas state_lists = legal_node_moves_def failure_states_def terminal_states_def

section \<open>Promotion and cascade\<close>

text \<open>
  \<open>all(states[d] is SUCCEEDED for d in deps)\<close> stops at the first dependency that has not
  succeeded; a missing key raises.
\<close>

fun all_succeeded :: "(string \<Rightarrow> plan_node_state option) \<Rightarrow> string list \<Rightarrow> bool res" where
  "all_succeeded S [] = Inr True"
| "all_succeeded S (d # ds) =
     (case S d of
        None \<Rightarrow> Inl (KeyError d)
      | Some s \<Rightarrow> if s = N_SUCCEEDED then all_succeeded S ds else Inr False)"

fun promote :: "(string \<Rightarrow> plan_node_state option) \<Rightarrow> plan_node list \<Rightarrow> string list res" where
  "promote S [] = Inr []"
| "promote S (n # ns) =
     (case S (local_id n) of
        None \<Rightarrow> Inl (KeyError (local_id n))
      | Some s \<Rightarrow>
          if s = N_WAITING then
            res_bind (all_succeeded S (depends_on n)) (\<lambda>b.
              if b then res_bind (promote (S(local_id n \<mapsto> N_READY)) ns)
                          (\<lambda>ls. Inr (local_id n # ls))
              else promote S ns)
          else promote S ns)"

fun cascade :: "(string \<Rightarrow> plan_node_state option) \<Rightarrow> string list \<Rightarrow> plan_node list \<Rightarrow> string list res" where
  "cascade S B [] = Inr []"
| "cascade S B (n # ns) =
     (if local_id n \<in> set B then
        (case S (local_id n) of
           None \<Rightarrow> Inl (KeyError (local_id n))
         | Some s \<Rightarrow>
             if s = N_WAITING
             then res_bind (cascade (S(local_id n \<mapsto> N_BLOCKED)) B ns)
                    (\<lambda>ls. Inr (local_id n # ls))
             else cascade S B ns)
      else cascade S B ns)"

text \<open>
  The local ids one transition changes besides the node itself, each with its new state: the
  waiting nodes a success releases, or the waiting dependents a failure blocks.
\<close>

definition consequences ::
  "plan_node list \<Rightarrow> (string \<Rightarrow> plan_node_state option) \<Rightarrow> string \<Rightarrow> plan_node_state \<Rightarrow>
     (string list \<times> plan_node_state) res" where
  "consequences ns S l target =
     (if target = N_SUCCEEDED then res_bind (promote S ns) (\<lambda>ls. Inr (ls, N_READY))
      else if target \<in> set failure_states then
        res_bind (cascade S (blocked_closure (deps_of ns) (plan_ids ns) [l]) ns)
          (\<lambda>ls. Inr (ls, N_BLOCKED))
      else Inr ([], target))"

definition locate :: "(node_row \<times> plan_node_state) list \<Rightarrow> plan_node_state \<Rightarrow> string list \<Rightarrow> node_snapshot list" where
  "locate rows st ls =
     List.map_filter (\<lambda>l. map_option (\<lambda>nid. (nid, l, st)) (node_id_of rows l)) ls"

fun store_states ::
  "(string \<Rightarrow> plan_node_state option) \<Rightarrow> node_snapshot list \<Rightarrow> (string \<Rightarrow> plan_node_state option)" where
  "store_states m [] = m"
| "store_states m ((nid, l, st) # cs) = store_states (m(nid \<mapsto> st)) cs"

section \<open>Events\<close>

definition scrub_blocked_text :: "(string \<Rightarrow> string) \<Rightarrow> string \<Rightarrow> string" where
  "scrub_blocked_text scrub v =
     (let t = take 500 (py_strip (scrub v)) in if t = [] then ''unexplained_block'' else t)"

definition blocked_reason :: "(string \<Rightarrow> string) \<Rightarrow> plan_db \<Rightarrow> string \<Rightarrow> string" where
  "blocked_reason scrub db nid =
     (case map_option ex_result (exec_of db nid) of
        Some (Some (JObj kvs)) \<Rightarrow>
          (case first_such (\<lambda>v. case v of Some (JStr t) \<Rightarrow> py_strip t \<noteq> [] | _ \<Rightarrow> False)
                  [map_of kvs ''summary'', map_of kvs ''status''] of
             Some (Some (JStr t)) \<Rightarrow> scrub_blocked_text scrub t
           | _ \<Rightarrow> ''unexplained_block'')
      | _ \<Rightarrow> ''unexplained_block'')"

fun change_events ::
  "(string \<Rightarrow> string) \<Rightarrow> plan_db \<Rightarrow> plan_row \<Rightarrow> string \<Rightarrow> int \<Rightarrow> node_snapshot list \<Rightarrow> event_row list" where
  "change_events scrub db p sess sq [] = []"
| "change_events scrub db p sess sq ((nid, l, st) # cs) =
     \<lparr>ev_run = pr_run_id p, ev_session = sess, ev_seq = sq + 1,
      ev_type = ''plan.node_'' @ node_state_value st, ev_plan = pr_plan_id p,
      ev_revision = pr_current p, ev_node = Some nid,
      ev_reason = (if st = N_BLOCKED then Some (blocked_reason scrub db nid) else None)\<rparr>
     # change_events scrub db p sess (sq + 1) cs"

section \<open>Transition of a node\<close>

text \<open>The writes of an accepted transition: the state rows, then one event per change.\<close>

definition commit_changes ::
  "(string \<Rightarrow> string) \<Rightarrow> plan_db \<Rightarrow> plan_row \<Rightarrow> run_row \<Rightarrow> node_snapshot list \<Rightarrow> plan_db" where
  "commit_changes scrub db p run changed =
     db\<lparr>pd_states := store_states (pd_states db) changed,
        pd_events := pd_events db @
          change_events scrub db p (run_session run)
            (max_sequence (pd_events db) (pr_run_id p)) changed\<rparr>"

definition transition_plan_node_state ::
  "(string \<Rightarrow> string) \<Rightarrow> plan_db \<Rightarrow> string \<Rightarrow> string \<Rightarrow> plan_node_state \<Rightarrow> plan_node_state \<Rightarrow>
     (plan_db \<times> node_snapshot list) res" where
  "transition_plan_node_state scrub db pid nid expected target =
     (if (expected, target) \<notin> set legal_node_moves
        then Inl (FrameworkContractError ''plan.node_state_illegal'')
      else
        (case plan_by_id db pid of
           None \<Rightarrow> Inl (KeyError pid)
         | Some p \<Rightarrow>
        (case pd_runs db (pr_run_id p) of
           None \<Rightarrow> Inl (KeyError pid)
         | Some run \<Rightarrow>
        (let rows = active_rows db pid in
         case row_by_node rows nid of
           None \<Rightarrow>
             (if list_ex (\<lambda>r. nr_plan_id r = pid \<and> nr_node_id r = nid \<and> nr_retired r \<noteq> None)
                   (pd_nodes db)
              then Inl (FrameworkContractError ''plan.node_stale_revision'')
              else Inl (KeyError nid))
         | Some (r, current) \<Rightarrow>
             if current \<noteq> expected
               then Inl (FrameworkContractError ''plan.node_state_conflict'')
             else
               res_bind (load_plan (pr_payload p)) (\<lambda>plan.
                let l = nr_local_id r;
                    ns = plan_nodes plan
                in res_bind (consequences ns ((local_states rows)(l \<mapsto> target)) l target)
                     (\<lambda>(ls, st).
                        let changed = (nid, l, target) # locate rows st ls
                        in Inr (commit_changes scrub db p run changed, changed)))))))"

section \<open>Plan row level view\<close>

text \<open>
  The abstract plan of one id: its nodes and the state of each by local id.  \<open>plan_view\<close>
  is what the correctness statements speak about.
\<close>

definition plan_view :: "plan_db \<Rightarrow> string \<Rightarrow> string \<Rightarrow> plan_node_state option" where
  "plan_view db pid = local_states (active_rows db pid)"

definition stored_nodes :: "plan_db \<Rightarrow> string \<Rightarrow> plan_node list" where
  "stored_nodes db pid =
     (case plan_by_id db pid of None \<Rightarrow> [] | Some p \<Rightarrow> plan_nodes (pr_payload p))"

text \<open>
  The abstract step: the node takes its new state; a success makes READY every waiting node
  whose dependencies have now all succeeded; a failure makes BLOCKED every waiting transitive
  dependent; everything else keeps its state.
\<close>

definition abs_step ::
  "plan_node list \<Rightarrow> (string \<Rightarrow> plan_node_state option) \<Rightarrow> string \<Rightarrow> plan_node_state \<Rightarrow>
     string \<Rightarrow> plan_node_state option" where
  "abs_step ns S l target =
     (let S1 = S(l \<mapsto> target) in
      (\<lambda>x. if S1 x = Some N_WAITING \<and> x \<in> set (plan_ids ns) then
              (if target = N_SUCCEEDED \<and> (\<forall>d \<in> set (deps_of ns x). S1 d = Some N_SUCCEEDED)
                 then Some N_READY
               else if target \<in> set failure_states \<and>
                       x \<in> dependents (deps_of ns) (set (plan_ids ns)) {l}
                 then Some N_BLOCKED
               else S1 x)
            else S1 x))"

section \<open>Well-formed stores\<close>

definition wf_plan_store :: "plan_db \<Rightarrow> string \<Rightarrow> bool" where
  "wf_plan_store db pid \<longleftrightarrow>
     (\<exists>p run. plan_by_id db pid = Some p \<and> pd_runs db (pr_run_id p) = Some run \<and>
        plan_fields_ok (pr_payload p) \<and> plan_graph_ok (plan_nodes (pr_payload p))) \<and>
     distinct (map nr_node_id (pd_nodes db)) \<and>
     (\<forall>r \<in> set (pd_nodes db). pd_states db (nr_node_id r) \<noteq> None) \<and>
     distinct (map (nr_local_id \<circ> fst) (active_rows db pid)) \<and>
     (nr_local_id \<circ> fst) ` set (active_rows db pid) = set (plan_ids (stored_nodes db pid))"

lemma wf_plan_storeD:
  assumes "wf_plan_store db pid"
  shows "distinct (map nr_node_id (pd_nodes db))"
    and "r \<in> set (pd_nodes db) \<Longrightarrow> pd_states db (nr_node_id r) \<noteq> None"
    and "distinct (map (nr_local_id \<circ> fst) (active_rows db pid))"
    and "(nr_local_id \<circ> fst) ` set (active_rows db pid) = set (plan_ids (stored_nodes db pid))"
    and "plan_graph_ok (stored_nodes db pid)"
  using assms by (auto simp: wf_plan_store_def stored_nodes_def)

definition live_nodes :: "plan_db \<Rightarrow> string \<Rightarrow> node_row list" where
  "live_nodes db pid = filter (\<lambda>r. nr_plan_id r = pid \<and> nr_retired r = None) (pd_nodes db)"

lemma active_rows_alt:
  "(\<forall>r \<in> set (pd_nodes db). pd_states db (nr_node_id r) \<noteq> None) \<Longrightarrow>
     active_rows db pid = map (\<lambda>r. (r, the (pd_states db (nr_node_id r)))) (live_nodes db pid)"
proof -
  have "\<forall>r \<in> set rs. pd_states db (nr_node_id r) \<noteq> None \<Longrightarrow>
    List.map_filter (\<lambda>r. if nr_plan_id r = pid \<and> nr_retired r = None
             then map_option (Pair r) (pd_states db (nr_node_id r)) else None) rs
    = map (\<lambda>r. (r, the (pd_states db (nr_node_id r))))
        (filter (\<lambda>r. nr_plan_id r = pid \<and> nr_retired r = None) rs)" for rs
    by (induction rs) (auto simp: List.map_filter_simps)
  then show "(\<forall>r \<in> set (pd_nodes db). pd_states db (nr_node_id r) \<noteq> None) \<Longrightarrow> ?thesis"
    by (simp add: active_rows_def live_nodes_def)
qed

definition live_by_local :: "plan_db \<Rightarrow> string \<Rightarrow> string \<Rightarrow> node_row option" where
  "live_by_local db pid l = List.find (\<lambda>r. nr_local_id r = l) (live_nodes db pid)"

lemma find_map: "List.find p (map f xs) = map_option f (List.find (p \<circ> f) xs)"
  by (induction xs) auto

lemma map_of_find:
  "map_of (map (\<lambda>r. (k r, v r)) rs) l = map_option v (List.find (\<lambda>r. k r = l) rs)"
  by (induction rs) auto

lemma find_distinct:
  "distinct (map f xs) \<Longrightarrow> x \<in> set xs \<Longrightarrow> List.find (\<lambda>y. f y = f x) xs = Some x"
  by (induction xs) auto

lemma find_Some_in: "List.find p xs = Some x \<Longrightarrow> x \<in> set xs \<and> p x"
  by (induction xs) (auto split: if_splits)

lemma find_None_iff2: "List.find p xs = None \<longleftrightarrow> (\<forall>x \<in> set xs. \<not> p x)"
  by (induction xs) auto

lemmas wf_rows = wf_plan_storeD(2) [THEN ballI, THEN active_rows_alt]

lemma wf_active_rows:
  "wf_plan_store db pid \<Longrightarrow>
     active_rows db pid = map (\<lambda>r. (r, the (pd_states db (nr_node_id r)))) (live_nodes db pid)"
  by (rule active_rows_alt) (auto dest: wf_plan_storeD(2))

lemma node_id_of_wf:
  "wf_plan_store db pid \<Longrightarrow>
     node_id_of (active_rows db pid) l = map_option nr_node_id (live_by_local db pid l)"
  by (simp add: wf_active_rows node_id_of_def find_map live_by_local_def comp_def
      option.map_comp)

lemma plan_view_wf:
  "wf_plan_store db pid \<Longrightarrow>
     plan_view db pid l = Option.bind (live_by_local db pid l) (\<lambda>r. pd_states db (nr_node_id r))"
proof -
  assume wf: "wf_plan_store db pid"
  have "plan_view db pid l = map_option (\<lambda>r. the (pd_states db (nr_node_id r)))
          (List.find (\<lambda>r. nr_local_id r = l) (live_nodes db pid))"
    using wf by (simp add: plan_view_def local_states_def wf_active_rows comp_def map_of_find)
  then show ?thesis
    using wf_plan_storeD(2) [OF wf]
    by (cases "live_by_local db pid l")
      (auto simp: live_by_local_def live_nodes_def dest: find_Some_in)
qed

lemma live_by_local_iff:
  assumes wf: "wf_plan_store db pid"
  shows "live_by_local db pid l = Some r \<longleftrightarrow> r \<in> set (live_nodes db pid) \<and> nr_local_id r = l"
proof -
  have "distinct (map nr_local_id (live_nodes db pid))"
    using wf_plan_storeD(3) [OF wf] wf by (simp add: wf_active_rows comp_def)
  then show ?thesis
    unfolding live_by_local_def by (auto dest: find_Some_in find_distinct)
qed

lemma live_by_local_dom:
  assumes wf: "wf_plan_store db pid"
  shows "live_by_local db pid l \<noteq> None \<longleftrightarrow> l \<in> set (plan_ids (stored_nodes db pid))"
proof -
  have "nr_local_id ` set (live_nodes db pid) = set (plan_ids (stored_nodes db pid))"
    using wf_plan_storeD(4) [OF wf] wf by (simp add: wf_active_rows image_image)
  moreover have "live_by_local db pid l \<noteq> None \<longleftrightarrow> l \<in> nr_local_id ` set (live_nodes db pid)"
    unfolding live_by_local_def by (auto simp: find_None_iff2)
  ultimately show ?thesis by simp
qed

lemma plan_view_dom:
  assumes wf: "wf_plan_store db pid"
  shows "plan_view db pid l \<noteq> None \<longleftrightarrow> l \<in> set (plan_ids (stored_nodes db pid))"
proof -
  have "plan_view db pid l \<noteq> None \<longleftrightarrow> live_by_local db pid l \<noteq> None"
    using wf_plan_storeD(2) [OF wf]
    by (cases "live_by_local db pid l")
      (auto simp: plan_view_wf [OF wf] live_by_local_def live_nodes_def dest: find_Some_in)
  with live_by_local_dom [OF wf, of l] show ?thesis by blast
qed

section \<open>The two loops against their specification\<close>

lemma all_succeeded_eq:
  "(\<And>d. d \<in> set ds \<Longrightarrow> S d \<noteq> None) \<Longrightarrow>
     all_succeeded S ds = Inr (\<forall>d \<in> set ds. S d = Some N_SUCCEEDED)"
  by (induction ds) (auto split: option.splits)

lemma distinct_ids_ne: "distinct (plan_ids (n # ns)) \<Longrightarrow> m \<in> set ns \<Longrightarrow> local_id m \<noteq> local_id n"
  unfolding plan_ids_def by (metis distinct.simps(2) image_eqI list.simps(9) set_map)

lemma promote_eq:
  "distinct (plan_ids ns) \<Longrightarrow>
     (\<And>n. n \<in> set ns \<Longrightarrow> S (local_id n) \<noteq> None \<and> (\<forall>d \<in> set (depends_on n). S d \<noteq> None)) \<Longrightarrow>
     promote S ns = Inr (map local_id (filter (\<lambda>n. S (local_id n) = Some N_WAITING \<and>
        (\<forall>d \<in> set (depends_on n). S d = Some N_SUCCEEDED)) ns))"
proof (induction ns arbitrary: S)
  case Nil
  then show ?case by simp
next
  case (Cons n ns)
  obtain s where s: "S (local_id n) = Some s"
    using Cons.prems(2) [of n] by auto
  have ne: "local_id m \<noteq> local_id n" if "m \<in> set ns" for m
    by (rule distinct_ids_ne [OF Cons.prems(1) that])
  have d: "all_succeeded S (depends_on n) = Inr (\<forall>d \<in> set (depends_on n). S d = Some N_SUCCEEDED)"
    by (rule all_succeeded_eq) (use Cons.prems(2) [of n] in auto)
  have rest: "promote S ns = Inr (map local_id (filter (\<lambda>n. S (local_id n) = Some N_WAITING \<and>
        (\<forall>d \<in> set (depends_on n). S d = Some N_SUCCEEDED)) ns))"
    by (rule Cons.IH) (use Cons.prems in \<open>auto simp: plan_ids_def\<close>)
  show ?case
  proof (cases "s = N_WAITING \<and> (\<forall>d \<in> set (depends_on n). S d = Some N_SUCCEEDED)")
    case False
    with s d rest show ?thesis by auto
  next
    case True
    let ?S = "S(local_id n \<mapsto> N_READY)"
    have "promote ?S ns = Inr (map local_id (filter (\<lambda>n. ?S (local_id n) = Some N_WAITING \<and>
        (\<forall>d \<in> set (depends_on n). ?S d = Some N_SUCCEEDED)) ns))"
      by (rule Cons.IH) (use Cons.prems in \<open>auto simp: plan_ids_def\<close>)
    also have "filter (\<lambda>n. ?S (local_id n) = Some N_WAITING \<and>
        (\<forall>d \<in> set (depends_on n). ?S d = Some N_SUCCEEDED)) ns
      = filter (\<lambda>n. S (local_id n) = Some N_WAITING \<and>
        (\<forall>d \<in> set (depends_on n). S d = Some N_SUCCEEDED)) ns"
      by (rule filter_cong) (use ne s True in auto)
    finally have rec: "promote ?S ns = Inr (map local_id (filter (\<lambda>n. S (local_id n) = Some N_WAITING \<and>
        (\<forall>d \<in> set (depends_on n). S d = Some N_SUCCEEDED)) ns))" .
    show ?thesis using s True by (simp add: d rec)
  qed
qed

lemma cascade_eq:
  "distinct (plan_ids ns) \<Longrightarrow> (\<And>n. n \<in> set ns \<Longrightarrow> S (local_id n) \<noteq> None) \<Longrightarrow>
     cascade S B ns = Inr (map local_id (filter (\<lambda>n. local_id n \<in> set B \<and>
        S (local_id n) = Some N_WAITING) ns))"
proof (induction ns arbitrary: S)
  case Nil
  then show ?case by simp
next
  case (Cons n ns)
  obtain s where s: "S (local_id n) = Some s"
    using Cons.prems(2) [of n] by auto
  have ne: "local_id m \<noteq> local_id n" if "m \<in> set ns" for m
    by (rule distinct_ids_ne [OF Cons.prems(1) that])
  have rest: "cascade S B ns = Inr (map local_id (filter (\<lambda>n. local_id n \<in> set B \<and>
        S (local_id n) = Some N_WAITING) ns))"
    by (rule Cons.IH) (use Cons.prems in \<open>auto simp: plan_ids_def\<close>)
  show ?case
  proof (cases "local_id n \<in> set B \<and> s = N_WAITING")
    case False
    with s rest show ?thesis by auto
  next
    case True
    let ?S = "S(local_id n \<mapsto> N_BLOCKED)"
    have "cascade ?S B ns = Inr (map local_id (filter (\<lambda>n. local_id n \<in> set B \<and>
        ?S (local_id n) = Some N_WAITING) ns))"
      by (rule Cons.IH) (use Cons.prems in \<open>auto simp: plan_ids_def\<close>)
    also have "filter (\<lambda>n. local_id n \<in> set B \<and> ?S (local_id n) = Some N_WAITING) ns
      = filter (\<lambda>n. local_id n \<in> set B \<and> S (local_id n) = Some N_WAITING) ns"
      by (rule filter_cong) (use ne in auto)
    finally have rec: "cascade ?S B ns = Inr (map local_id (filter (\<lambda>n. local_id n \<in> set B \<and>
        S (local_id n) = Some N_WAITING) ns))" .
    show ?thesis using s True by (simp add: rec)
  qed
qed

text \<open>Which waiting nodes a transition to \<open>target\<close> moves, in plan order.\<close>

definition moved ::
  "plan_node list \<Rightarrow> (string \<Rightarrow> plan_node_state option) \<Rightarrow> string \<Rightarrow> plan_node_state \<Rightarrow> string list" where
  "moved ns S l target =
     map local_id (filter (\<lambda>n. S (local_id n) = Some N_WAITING \<and>
       ((target = N_SUCCEEDED \<and> (\<forall>d \<in> set (depends_on n). S d = Some N_SUCCEEDED)) \<or>
        (target \<in> set failure_states \<and>
           local_id n \<in> dependents (deps_of ns) (set (plan_ids ns)) {l}))) ns)"

definition moved_to :: "plan_node_state \<Rightarrow> plan_node_state" where
  "moved_to target =
     (if target = N_SUCCEEDED then N_READY
      else if target \<in> set failure_states then N_BLOCKED else target)"

lemma consequences_eq:
  assumes ok: "plan_graph_ok ns" and dom: "\<And>x. x \<in> set (plan_ids ns) \<Longrightarrow> S x \<noteq> None"
  shows "consequences ns S l target = Inr (moved ns S l target, moved_to target)"
proof -
  have d: "distinct (plan_ids ns)" using ok by (simp add: plan_graph_ok_def)
  have dep: "set (depends_on n) \<subseteq> set (plan_ids ns)" if "n \<in> set ns" for n
    using ok that by (auto simp: plan_graph_ok_def)
  have S: "S (local_id n) \<noteq> None \<and> (\<forall>x \<in> set (depends_on n). S x \<noteq> None)" if "n \<in> set ns" for n
    using dom dep [OF that] that by (auto simp: plan_ids_def)
  show ?thesis
  proof (cases "target = N_SUCCEEDED")
    case True
    then show ?thesis
      using promote_eq [OF d S] by (simp add: consequences_def moved_def moved_to_def failure_states_def)
  next
    case False
    have "cascade S B ns = Inr (map local_id (filter (\<lambda>n. local_id n \<in> set B \<and>
        S (local_id n) = Some N_WAITING) ns))" for B
      by (rule cascade_eq [OF d]) (use S in blast)
    with False show ?thesis
      by (auto simp: consequences_def moved_def moved_to_def set_blocked_closure conj_commute
          intro!: arg_cong [where f = "map local_id"])
  qed
qed

lemma set_moved:
  assumes "distinct (plan_ids ns)"
  shows "x \<in> set (moved ns S l target) \<longleftrightarrow>
     x \<in> set (plan_ids ns) \<and> S x = Some N_WAITING \<and>
     ((target = N_SUCCEEDED \<and> (\<forall>d \<in> set (deps_of ns x). S d = Some N_SUCCEEDED)) \<or>
      (target \<in> set failure_states \<and> x \<in> dependents (deps_of ns) (set (plan_ids ns)) {l}))"
  using deps_of_node [OF assms] by (force simp: moved_def plan_ids_def)

lemma distinct_moved: "distinct (plan_ids ns) \<Longrightarrow> distinct (moved ns S l target)"
  by (auto simp: moved_def plan_ids_def intro: distinct_map_filter)

lemma abs_step_moved:
  assumes "distinct (plan_ids ns)"
  shows "abs_step ns S l target x =
     (if x = l \<and> target \<noteq> N_WAITING then Some target
      else if x \<in> set (moved ns (S(l \<mapsto> target)) l target) then Some (moved_to target)
      else (S(l \<mapsto> target)) x)"
  unfolding abs_step_def Let_def set_moved [OF assms]
  by (auto simp: moved_to_def failure_states_def)

lemma store_states_other:
  "nid \<notin> fst ` set cs \<Longrightarrow> store_states m cs nid = m nid"
  by (induction m cs rule: store_states.induct) auto

lemma store_states_in:
  "distinct (map fst cs) \<Longrightarrow> (nid, l, st) \<in> set cs \<Longrightarrow> store_states m cs nid = Some st"
  by (induction m cs rule: store_states.induct) (force simp: store_states_other)+

lemma store_states_dom: "m nid \<noteq> None \<Longrightarrow> store_states m cs nid \<noteq> None"
  by (induction m cs rule: store_states.induct) auto

lemma locate_wf:
  assumes wf: "wf_plan_store db pid"
  shows "locate (active_rows db pid) st ls =
     List.map_filter (\<lambda>l. map_option (\<lambda>r. (nr_node_id r, l, st)) (live_by_local db pid l)) ls"
  by (simp add: locate_def node_id_of_wf [OF wf] option.map_comp comp_def)

lemma set_map_filter: "y \<in> set (List.map_filter f xs) \<longleftrightarrow> (\<exists>x \<in> set xs. f x = Some y)"
  by (induction xs) (auto simp: List.map_filter_simps split: option.splits)

lemma set_locate:
  assumes wf: "wf_plan_store db pid"
  shows "(nid, l, s) \<in> set (locate (active_rows db pid) st ls) \<longleftrightarrow>
     l \<in> set ls \<and> s = st \<and> (\<exists>r. live_by_local db pid l = Some r \<and> nr_node_id r = nid)"
  by (auto simp: locate_wf [OF wf] set_map_filter)

lemma live_by_local_inj:
  assumes wf: "wf_plan_store db pid"
    and "live_by_local db pid l = Some r" "live_by_local db pid l' = Some r'"
    and "nr_node_id r = nr_node_id r'"
  shows "l = l'"
proof -
  have "r \<in> set (pd_nodes db)" "r' \<in> set (pd_nodes db)"
    using assms(2,3) by (auto simp: live_by_local_iff [OF wf] live_nodes_def)
  with assms(4) wf_plan_storeD(1) [OF wf] have "r = r'"
    by (auto dest: distinct_map [THEN iffD1] inj_onD)
  with assms(2,3) show ?thesis by (simp add: live_by_local_iff [OF wf])
qed

lemma distinct_locate:
  assumes wf: "wf_plan_store db pid"
  shows "distinct ls \<Longrightarrow> distinct (map fst (locate (active_rows db pid) st ls))"
proof (induction ls)
  case Nil
  then show ?case by (simp add: locate_def List.map_filter_simps)
next
  case (Cons l ls)
  have "nr_node_id r \<notin> fst ` set (locate (active_rows db pid) st ls)"
    if "live_by_local db pid l = Some r" for r
  proof
    assume "nr_node_id r \<in> fst ` set (locate (active_rows db pid) st ls)"
    then obtain l' r' where "l' \<in> set ls" "live_by_local db pid l' = Some r'"
      "nr_node_id r' = nr_node_id r"
      by (auto simp: set_locate [OF wf])
    with live_by_local_inj [OF wf that] Cons.prems show False by (metis distinct.simps(2))
  qed
  with Cons show ?case
    by (auto simp: locate_wf [OF wf] List.map_filter_simps split: option.splits)
qed

lemma distinct_changes:
  assumes wf: "wf_plan_store db pid" and live: "live_by_local db pid l = Some r"
    and notm: "l \<notin> set ms" and dis: "distinct ms"
  shows "distinct (map fst ((nr_node_id r, l, t) # locate (active_rows db pid) st ms))"
proof -
  have "nr_node_id r \<notin> fst ` set (locate (active_rows db pid) st ms)"
  proof
    assume "nr_node_id r \<in> fst ` set (locate (active_rows db pid) st ms)"
    then obtain l' r' where "l' \<in> set ms" "live_by_local db pid l' = Some r'"
      "nr_node_id r' = nr_node_id r"
      by (auto simp: set_locate [OF wf])
    with live_by_local_inj [OF wf live] notm show False by metis
  qed
  then show ?thesis using distinct_locate [OF wf dis] by simp
qed

section \<open>Refinement\<close>

lemma active_rows_row:
  assumes wf: "wf_plan_store db pid"
  shows "row_by_node (active_rows db pid) nid = Some (r, st) \<longleftrightarrow>
     r \<in> set (live_nodes db pid) \<and> nr_node_id r = nid \<and> pd_states db nid = Some st"
proof -
  have d: "distinct (map nr_node_id (live_nodes db pid))"
    unfolding live_nodes_def using wf_plan_storeD(1) [OF wf] by (rule distinct_map_filter)
  have "row_by_node (active_rows db pid) nid =
      map_option (\<lambda>r. (r, the (pd_states db (nr_node_id r))))
        (List.find (\<lambda>r. nr_node_id r = nid) (live_nodes db pid))"
    by (simp add: row_by_node_def wf_active_rows [OF wf] find_map comp_def)
  moreover have f: "List.find (\<lambda>r. nr_node_id r = nid) (live_nodes db pid) = Some r' \<longleftrightarrow>
      r' \<in> set (live_nodes db pid) \<and> nr_node_id r' = nid" for r'
    using find_distinct [OF d] by (auto dest: find_Some_in)
  moreover have "r' \<in> set (live_nodes db pid) \<Longrightarrow> pd_states db (nr_node_id r') \<noteq> None" for r'
    using wf_plan_storeD(2) [OF wf] by (simp add: live_nodes_def)
  ultimately show ?thesis
    using f [of r]
    by (cases "List.find (\<lambda>r. nr_node_id r = nid) (live_nodes db pid)") force+
qed

text \<open>What an accepted transition did, spelled out over the tables.\<close>

lemma transition_Inr:
  assumes wf: "wf_plan_store db pid"
    and tr: "transition_plan_node_state scrub db pid nid expected target = Inr (db', cs)"
  obtains r p run where
    "(expected, target) \<in> set legal_node_moves"
    "r \<in> set (live_nodes db pid)" "nr_node_id r = nid" "pd_states db nid = Some expected"
    "plan_by_id db pid = Some p" "pd_runs db (pr_run_id p) = Some run"
    "cs = (nid, nr_local_id r, target) #
       locate (active_rows db pid) (moved_to target)
         (moved (stored_nodes db pid) ((plan_view db pid)(nr_local_id r \<mapsto> target))
            (nr_local_id r) target)"
    "db' = commit_changes scrub db p run cs"
proof -
  from wf obtain p run where p: "plan_by_id db pid = Some p" "pd_runs db (pr_run_id p) = Some run"
    by (auto simp: wf_plan_store_def)
  have sn: "stored_nodes db pid = plan_nodes (pr_payload p)"
    by (simp add: stored_nodes_def p)
  have ld: "load_plan (pr_payload p) = Inr (pr_payload p)"
    using wf p by (simp add: wf_plan_store_def load_plan_iff)
  from tr have leg: "(expected, target) \<in> set legal_node_moves"
    by (auto simp: transition_plan_node_state_def split: if_splits)
  from tr leg p obtain r st where row: "row_by_node (active_rows db pid) nid = Some (r, st)"
    by (auto simp: transition_plan_node_state_def Let_def split: option.splits if_splits)
  from tr leg p row ld have st: "st = expected"
    by (auto simp: transition_plan_node_state_def Let_def split: if_splits)
  have dom: "((plan_view db pid)(nr_local_id r \<mapsto> target)) x \<noteq> None"
    if "x \<in> set (plan_ids (stored_nodes db pid))" for x
    using plan_view_dom [OF wf, of x] that by auto
  note cons = consequences_eq [where S = "(plan_view db pid)(nr_local_id r \<mapsto> target)",
      OF wf_plan_storeD(5) [OF wf] dom, where l = "nr_local_id r" and target = target]
  show ?thesis
  proof (rule that [OF leg _ _ _ p])
    show "r \<in> set (live_nodes db pid)" "nr_node_id r = nid" "pd_states db nid = Some expected"
      using row st by (simp_all add: active_rows_row [OF wf])
    let ?cs = "(nid, nr_local_id r, target) #
       locate (active_rows db pid) (moved_to target)
         (moved (stored_nodes db pid) ((plan_view db pid)(nr_local_id r \<mapsto> target))
            (nr_local_id r) target)"
    have "transition_plan_node_state scrub db pid nid expected target =
        Inr (commit_changes scrub db p run ?cs, ?cs)"
      using leg p row st cons ld
      by (simp add: transition_plan_node_state_def Let_def sn plan_view_def)
    with tr show "cs = ?cs"
      and "db' = commit_changes scrub db p run cs"
      by auto
  qed
qed

lemma transition_Inr_conv:
  assumes wf: "wf_plan_store db pid"
    and "(expected, target) \<in> set legal_node_moves"
    and "live_by_local db pid l = Some r" and "pd_states db (nr_node_id r) = Some expected"
  shows "is_ok (transition_plan_node_state scrub db pid (nr_node_id r) expected target)"
proof -
  from wf obtain p run where p: "plan_by_id db pid = Some p" "pd_runs db (pr_run_id p) = Some run"
    by (auto simp: wf_plan_store_def)
  have sn: "stored_nodes db pid = plan_nodes (pr_payload p)"
    by (simp add: stored_nodes_def p)
  have ld: "load_plan (pr_payload p) = Inr (pr_payload p)"
    using wf p by (simp add: wf_plan_store_def load_plan_iff)
  have row: "row_by_node (active_rows db pid) (nr_node_id r) = Some (r, expected)"
    using assms by (simp add: active_rows_row [OF wf] live_by_local_iff [OF wf])
  have dom: "((plan_view db pid)(nr_local_id r \<mapsto> target)) x \<noteq> None"
    if "x \<in> set (plan_ids (stored_nodes db pid))" for x
    using plan_view_dom [OF wf, of x] that by auto
  show ?thesis
    using assms(2) p row ld consequences_eq [where S = "(plan_view db pid)(nr_local_id r \<mapsto> target)",
      OF wf_plan_storeD(5) [OF wf] dom, where l = "nr_local_id r" and target = target]
    by (simp add: transition_plan_node_state_def Let_def sn plan_view_def)
qed

text \<open>The tables after a transition: rows are untouched, only states and events change.\<close>

lemma wf_store_update:
  assumes wf: "wf_plan_store db pid"
    and same: "pd_plans db' = pd_plans db" "pd_runs db' = pd_runs db" "pd_nodes db' = pd_nodes db"
    and dom: "\<And>nid. pd_states db nid \<noteq> None \<Longrightarrow> pd_states db' nid \<noteq> None"
  shows "wf_plan_store db' pid"
    and "stored_nodes db' pid = stored_nodes db pid"
    and "live_by_local db' pid l = live_by_local db pid l"
proof -
  have pb: "plan_by_id db' pid = plan_by_id db pid" by (simp add: plan_by_id_def same)
  show sn: "stored_nodes db' pid = stored_nodes db pid" by (simp add: stored_nodes_def pb)
  have ln: "live_nodes db' pid = live_nodes db pid" by (simp add: live_nodes_def same)
  then show "live_by_local db' pid l = live_by_local db pid l" by (simp add: live_by_local_def)
  have st: "\<forall>r \<in> set (pd_nodes db'). pd_states db' (nr_node_id r) \<noteq> None"
    using wf dom by (auto simp: wf_plan_store_def same)
  have rows: "map (nr_local_id \<circ> fst) (active_rows db' pid)
      = map (nr_local_id \<circ> fst) (active_rows db pid)"
    by (simp add: active_rows_alt [OF st] wf_active_rows [OF wf] ln)
  have "(nr_local_id \<circ> fst) ` set (active_rows db' pid)
      = (nr_local_id \<circ> fst) ` set (active_rows db pid)"
    using arg_cong [OF rows, of set] by (simp only: set_map)
  with wf st rows show "wf_plan_store db' pid"
    unfolding wf_plan_store_def by (simp add: pb same sn)
qed

lemma transition_abstract:
  assumes wf: "wf_plan_store db pid"
    and tr: "transition_plan_node_state scrub db pid nid expected target = Inr (db', cs)"
  shows "wf_plan_store db' pid" and "stored_nodes db' pid = stored_nodes db pid"
    and "\<exists>l r. live_by_local db pid l = Some r \<and> nr_node_id r = nid \<and>
           plan_view db pid l = Some expected \<and>
           plan_view db' pid = abs_step (stored_nodes db pid) (plan_view db pid) l target"
proof -
  obtain r p run where
    leg: "(expected, target) \<in> set legal_node_moves" and
    r: "r \<in> set (live_nodes db pid)" "nr_node_id r = nid" "pd_states db nid = Some expected" and
    "plan_by_id db pid = Some p" "pd_runs db (pr_run_id p) = Some run" and
    cs: "cs = (nid, nr_local_id r, target) #
       locate (active_rows db pid) (moved_to target)
         (moved (stored_nodes db pid) ((plan_view db pid)(nr_local_id r \<mapsto> target))
            (nr_local_id r) target)" and
    db': "db' = commit_changes scrub db p run cs"
    by (rule transition_Inr [OF wf tr])
  note upd = wf_store_update [OF wf, of db']
  have dom: "pd_states db' x \<noteq> None" if "pd_states db x \<noteq> None" for x
    using store_states_dom [of "pd_states db" x, OF that] by (simp add: db' commit_changes_def)
  show wf': "wf_plan_store db' pid" and "stored_nodes db' pid = stored_nodes db pid"
    using upd(1,2) dom by (simp_all add: db' commit_changes_def)
  let ?l = "nr_local_id r"
  let ?ms = "moved (stored_nodes db pid) ((plan_view db pid)(?l \<mapsto> target)) ?l target"
  have live: "live_by_local db pid ?l = Some r" using r by (simp add: live_by_local_iff [OF wf])
  have dids: "distinct (plan_ids (stored_nodes db pid))"
    using wf_plan_storeD(5) [OF wf] by (simp add: plan_graph_ok_def)
  have tw: "target \<noteq> N_WAITING" using leg by (auto simp: legal_node_moves_def)
  have notm: "?l \<notin> set ?ms" using tw by (auto simp: set_moved [OF dids])
  have d: "distinct (map fst cs)"
    using distinct_changes [OF wf live notm distinct_moved [OF dids]] r(2) by (simp add: cs)
  have view: "plan_view db' pid x =
      Option.bind (live_by_local db pid x) (\<lambda>r. store_states (pd_states db) cs (nr_node_id r))" for x
    using plan_view_wf [OF wf', of x] upd(3) [of x] dom by (simp add: db' commit_changes_def)
  have "plan_view db' pid x = abs_step (stored_nodes db pid) (plan_view db pid) ?l target x" for x
  proof (cases "live_by_local db pid x")
    case None
    then have no: "plan_view db pid x = None" "x \<notin> set (plan_ids (stored_nodes db pid))" "x \<noteq> ?l"
      using live_by_local_dom [OF wf, of x] live by (auto simp: plan_view_wf [OF wf])
    then have "x \<notin> set ?ms" by (auto simp: set_moved [OF dids])
    with None no show ?thesis by (simp add: view abs_step_moved [OF dids])
  next
    case (Some rx)
    have vx: "plan_view db pid x = pd_states db (nr_node_id rx)"
      by (simp add: plan_view_wf [OF wf] Some)
    consider (self) "x = ?l" | (mv) "x \<noteq> ?l" "x \<in> set ?ms" | (other) "x \<noteq> ?l" "x \<notin> set ?ms"
      by blast
    then show ?thesis
    proof cases
      case self
      then have "rx = r" using Some live by simp
      then have "store_states (pd_states db) cs (nr_node_id rx) = Some target"
        using store_states_in [OF d, of nid ?l target] r(2) by (simp add: cs)
      with self Some tw show ?thesis by (simp add: view abs_step_moved [OF dids])
    next
      case mv
      then have "(nr_node_id rx, x, moved_to target) \<in> set cs"
        using Some by (auto simp: cs set_locate [OF wf])
      from store_states_in [OF d this] mv Some show ?thesis
        by (simp add: view abs_step_moved [OF dids])
    next
      case other
      have "nr_node_id rx \<notin> fst ` set cs"
      proof
        assume "nr_node_id rx \<in> fst ` set cs"
        then consider "nr_node_id rx = nr_node_id r"
          | l' r' where "l' \<in> set ?ms" "live_by_local db pid l' = Some r'" "nr_node_id r' = nr_node_id rx"
          using r(2) by (auto simp: cs set_locate [OF wf])
        then show False
          using live_by_local_inj [OF wf Some] live other by cases metis+
      qed
      from store_states_other [OF this] other Some vx show ?thesis
        by (simp add: view abs_step_moved [OF dids])
    qed
  qed
  then have "plan_view db' pid = abs_step (stored_nodes db pid) (plan_view db pid) ?l target"
    by (rule ext)
  with live r show "\<exists>l r. live_by_local db pid l = Some r \<and> nr_node_id r = nid \<and>
           plan_view db pid l = Some expected \<and>
           plan_view db' pid = abs_step (stored_nodes db pid) (plan_view db pid) l target"
    by (intro exI [of _ ?l] exI [of _ r]) (simp add: plan_view_wf [OF wf])
qed


text \<open>
  What a transition leaves alone: every table but states and events, and the state of every
  other node unless it was WAITING.
\<close>

lemma transition_frame:
  assumes wf: "wf_plan_store db pid"
    and tr: "transition_plan_node_state scrub db pid nid expected target = Inr (db', cs)"
  shows "pd_states db' nid = Some target"
    and "x \<noteq> nid \<Longrightarrow> pd_states db x \<noteq> Some N_WAITING \<Longrightarrow> pd_states db' x = pd_states db x"
    and "pd_states db' x = pd_states db x \<or> x = nid \<or>
      (pd_states db x = Some N_WAITING \<and> pd_states db' x = Some (moved_to target) \<and>
       moved_to target \<in> {N_READY, N_BLOCKED})"
    and "pd_plans db' = pd_plans db" "pd_runs db' = pd_runs db" "pd_nodes db' = pd_nodes db"
      "pd_execs db' = pd_execs db" "pd_bindings db' = pd_bindings db"
      "pd_tasks db' = pd_tasks db" "pd_attempts db' = pd_attempts db"
proof -
  obtain r p run where
    leg: "(expected, target) \<in> set legal_node_moves" and
    r: "r \<in> set (live_nodes db pid)" "nr_node_id r = nid" "pd_states db nid = Some expected" and
    "plan_by_id db pid = Some p" "pd_runs db (pr_run_id p) = Some run" and
    cs: "cs = (nid, nr_local_id r, target) #
       locate (active_rows db pid) (moved_to target)
         (moved (stored_nodes db pid) ((plan_view db pid)(nr_local_id r \<mapsto> target))
            (nr_local_id r) target)" and
    db': "db' = commit_changes scrub db p run cs"
    by (rule transition_Inr [OF wf tr])
  let ?l = "nr_local_id r"
  let ?ms = "moved (stored_nodes db pid) ((plan_view db pid)(?l \<mapsto> target)) ?l target"
  have dids: "distinct (plan_ids (stored_nodes db pid))"
    using wf_plan_storeD(5) [OF wf] by (simp add: plan_graph_ok_def)
  have live: "live_by_local db pid ?l = Some r" using r by (simp add: live_by_local_iff [OF wf])
  have tw: "target \<noteq> N_WAITING" using leg by (auto simp: legal_node_moves_def)
  then have notm: "?l \<notin> set ?ms" by (auto simp: set_moved [OF dids])
  have d: "distinct (map fst cs)"
    using distinct_changes [OF wf live notm distinct_moved [OF dids]] r(2) by (simp add: cs)
  have states: "pd_states db' = store_states (pd_states db) cs"
    by (simp add: db' commit_changes_def)
  show "pd_states db' nid = Some target"
    using store_states_in [OF d, of nid ?l target] by (simp add: states cs)
  have other: "pd_states db' x = pd_states db x \<or> x = nid \<or>
      (pd_states db x = Some N_WAITING \<and> pd_states db' x = Some (moved_to target) \<and>
       moved_to target \<in> {N_READY, N_BLOCKED})" for x
  proof (cases "x \<in> fst ` set cs \<and> x \<noteq> nid")
    case False
    then show ?thesis using store_states_other [of x cs "pd_states db"] by (auto simp: states)
  next
    case True
    then obtain l' r' where l': "l' \<in> set ?ms" "live_by_local db pid l' = Some r'" "nr_node_id r' = x"
      and in_cs: "(x, l', moved_to target) \<in> set cs"
      by (auto simp: cs set_locate [OF wf])
    have "plan_view db pid l' = Some N_WAITING"
      using l'(1) notm by (auto simp: set_moved [OF dids] split: if_splits)
    moreover have "target = N_SUCCEEDED \<or> target \<in> set failure_states"
      using l'(1) by (auto simp: set_moved [OF dids])
    ultimately show ?thesis
      using store_states_in [OF d in_cs] l'(2,3)
      by (auto simp: states plan_view_wf [OF wf] moved_to_def failure_states_def)
  qed
  then show "pd_states db' x = pd_states db x \<or> x = nid \<or>
      (pd_states db x = Some N_WAITING \<and> pd_states db' x = Some (moved_to target) \<and>
       moved_to target \<in> {N_READY, N_BLOCKED})" .
  show "x \<noteq> nid \<Longrightarrow> pd_states db x \<noteq> Some N_WAITING \<Longrightarrow> pd_states db' x = pd_states db x"
    using other [of x] by blast
qed (use tr wf in \<open>auto elim!: transition_Inr simp: commit_changes_def\<close>)


section \<open>The event log\<close>

text \<open>The sequence numbers of one run, in table order, are 1, 2, 3, ...\<close>

definition run_events :: "event_row list \<Rightarrow> string \<Rightarrow> event_row list" where
  "run_events evs run = filter (\<lambda>e. ev_run e = run) evs"

definition gapless :: "event_row list \<Rightarrow> string \<Rightarrow> bool" where
  "gapless evs run \<longleftrightarrow>
     map ev_seq (run_events evs run) = map int [1..<Suc (length (run_events evs run))]"

lemma fold_max_upto: "fold max (map int [1..<Suc n]) 0 = int n"
  by (induction n) (auto simp: max_def)

lemma max_sequence_gapless: "gapless evs run \<Longrightarrow> max_sequence evs run = int (length (run_events evs run))"
  using fold_max_upto [of "length (run_events evs run)"]
  by (simp add: gapless_def max_sequence_def run_events_def del: upt_Suc)

lemma gapless_append:
  assumes "gapless evs run" and "gapless evs owner" and "\<forall>e \<in> set es. ev_run e = owner"
    and "map ev_seq es = map (\<lambda>i. max_sequence evs owner + 1 + int i) [0..<length es]"
  shows "gapless (evs @ es) run"
proof (cases "run = owner")
  case False
  with assms(3) have "filter (\<lambda>e. ev_run e = run) es = []" by (auto simp: filter_empty_conv)
  with assms(1) show ?thesis by (simp add: gapless_def run_events_def)
next
  case True
  let ?n = "length (run_events evs run)"
  have fe: "filter (\<lambda>e. ev_run e = run) es = es" using assms(3) True by (simp add: filter_id_conv)
  have "map ev_seq es = map (\<lambda>i. int ?n + 1 + int i) [0..<length es]"
    using assms(4) max_sequence_gapless [OF assms(2)] True by simp
  also have "\<dots> = map int (map (\<lambda>i. i + Suc ?n) [0..<length es])" by simp
  also have "map (\<lambda>i. i + Suc ?n) [0..<length es] = [Suc ?n..<length es + Suc ?n]"
    by (rule map_add_upt)
  finally have "map ev_seq es = map int [Suc ?n..<Suc (?n + length es)]" by (simp only: add_Suc_right add.commute)
  moreover have "[1..<Suc (?n + length es)] = [1..<Suc ?n] @ [Suc ?n..<Suc (?n + length es)]"
    using upt_add_eq_append [of 1 "Suc ?n" "length es"] by simp
  ultimately show ?thesis
    using assms(1) by (simp add: gapless_def run_events_def fe del: upt_Suc)
qed

lemma change_events_props:
  "\<forall>e \<in> set (change_events scrub db p sess sq cs). ev_run e = pr_run_id p"
  "map ev_node (change_events scrub db p sess sq cs) = map (Some \<circ> fst) cs"
  "map ev_type (change_events scrub db p sess sq cs)
     = map (\<lambda>(nid, l, st). ''plan.node_'' @ node_state_value st) cs"
  by (induction scrub db p sess sq cs rule: change_events.induct) simp_all

lemma upt_shift: "map (\<lambda>i. a + 1 + int i) [0..<Suc n] = (a + 1) # map (\<lambda>i. (a + 1) + 1 + int i) [0..<n]"
proof -
  have "[0..<Suc n] = 0 # map Suc [0..<n]" by (simp add: map_Suc_upt upt_conv_Cons del: upt_Suc)
  then show ?thesis by (simp add: comp_def algebra_simps del: upt_Suc)
qed

lemma change_events_seq:
  "map ev_seq (change_events scrub db p sess sq cs) = map (\<lambda>i. sq + 1 + int i) [0..<length cs]"
  by (induction scrub db p sess sq cs rule: change_events.induct)
    (simp, simp only: change_events.simps list.map length_Cons upt_shift event_row.simps)

lemma length_change_events: "length (change_events scrub db p sess sq cs) = length cs"
  using arg_cong [OF change_events_props(2) [of scrub db p sess sq cs], of length] by simp

lemma transition_events:
  assumes wf: "wf_plan_store db pid"
    and tr: "transition_plan_node_state scrub db pid nid expected target = Inr (db', cs)"
  obtains p and run :: run_row where "plan_by_id db pid = Some p"
    "pd_events db' = pd_events db @ change_events scrub db p (run_session run)
       (max_sequence (pd_events db) (pr_run_id p)) cs"
proof (rule transition_Inr [OF wf tr])
  fix p run
  assume "plan_by_id db pid = Some p" "db' = commit_changes scrub db p run cs"
  then show ?thesis by (intro that [of p run]) (simp_all add: commit_changes_def)
qed

end
