(* ===== verification/Plan_Contract.thy ===== *)
theory Plan_Contract
  imports Plan_Store
begin

text \<open>
  What the plan store promises about an admitted plan, over the states of its nodes by local
  id: no node runs before its dependencies have succeeded (\<open>plan_safe\<close>), a waiting node is
  waiting for something that can still succeed (\<open>plan_flowing\<close>), and every accepted
  transition makes progress (\<open>remaining\<close>).  The invariants are proved for the abstract step
  and carried to the tables by the refinement lemma of \<open>Plan_Store\<close>.
\<close>

type_synonym node_states = "string \<Rightarrow> plan_node_state option"

section \<open>The contract\<close>

definition deps_succeeded :: "plan_node list \<Rightarrow> node_states \<Rightarrow> string \<Rightarrow> bool" where
  "deps_succeeded ns S x \<longleftrightarrow> (\<forall>d \<in> set (deps_of ns x). S d = Some N_SUCCEEDED)"

definition plan_safe :: "plan_node list \<Rightarrow> node_states \<Rightarrow> bool" where
  "plan_safe ns S \<longleftrightarrow>
     (\<forall>x \<in> set (plan_ids ns). S x \<notin> {Some N_WAITING, Some N_BLOCKED, Some N_CANCELLED} \<longrightarrow>
        deps_succeeded ns S x)"

definition plan_flowing :: "plan_node list \<Rightarrow> node_states \<Rightarrow> bool" where
  "plan_flowing ns S \<longleftrightarrow>
     (\<forall>x \<in> set (plan_ids ns). S x = Some N_WAITING \<longrightarrow>
        \<not> deps_succeeded ns S x \<and>
        (\<forall>d \<in> set (deps_of ns x). \<forall>f \<in> set failure_states. S d \<noteq> Some f))"

definition plan_inv :: "plan_node list \<Rightarrow> node_states \<Rightarrow> bool" where
  "plan_inv ns S \<longleftrightarrow> plan_graph_ok ns \<and>
     (\<forall>x. S x \<noteq> None \<longleftrightarrow> x \<in> set (plan_ids ns)) \<and> plan_safe ns S \<and> plan_flowing ns S"

lemma plan_invI [inv_intros]:
  "plan_graph_ok ns \<Longrightarrow> (\<And>x. S x \<noteq> None \<longleftrightarrow> x \<in> set (plan_ids ns)) \<Longrightarrow>
     plan_safe ns S \<Longrightarrow> plan_flowing ns S \<Longrightarrow> plan_inv ns S"
  by (auto simp: plan_inv_def)

lemma plan_invD:
  assumes "plan_inv ns S"
  shows "plan_graph_ok ns" "S x \<noteq> None \<longleftrightarrow> x \<in> set (plan_ids ns)" "plan_safe ns S" "plan_flowing ns S"
  using assms by (auto simp: plan_inv_def)

text \<open>The states admission gives: READY exactly the nodes without dependencies.\<close>

definition initial_state :: "plan_node \<Rightarrow> plan_node_state" where
  "initial_state n = (if depends_on n = [] then N_READY else N_WAITING)"

definition initial_states :: "plan_node list \<Rightarrow> node_states" where
  "initial_states ns l = map_option initial_state (node_by_local ns l)"

lemma initial_states_inv:
  assumes ok: "plan_graph_ok ns"
  shows "plan_inv ns (initial_states ns)"
proof (rule plan_invI [OF ok])
  have not_succ: "initial_states ns d \<noteq> Some s" if "s \<noteq> N_READY" "s \<noteq> N_WAITING" for d s
    using that by (auto simp: initial_states_def initial_state_def split: if_splits)
  show "initial_states ns x \<noteq> None \<longleftrightarrow> x \<in> set (plan_ids ns)" for x
    using node_by_local_None [of ns x] by (auto simp: initial_states_def)
  show "plan_safe ns (initial_states ns)"
    unfolding plan_safe_def deps_succeeded_def
  proof (intro ballI impI)
    fix x d
    assume x: "x \<in> set (plan_ids ns)" and d: "d \<in> set (deps_of ns x)"
      and st: "initial_states ns x \<notin> {Some N_WAITING, Some N_BLOCKED, Some N_CANCELLED}"
    obtain n where n: "node_by_local ns x = Some n"
      using x node_by_local_None [of ns x] by auto
    with st d show "initial_states ns d = Some N_SUCCEEDED"
      by (auto simp: initial_states_def initial_state_def deps_of_def split: if_splits)
  qed
  have ne: "deps_of ns x \<noteq> []" if "initial_states ns x = Some N_WAITING" for x
    using that
    by (auto simp: initial_states_def initial_state_def deps_of_def split: if_splits option.splits)
  have "\<exists>d \<in> set (deps_of ns x). initial_states ns d \<noteq> Some N_SUCCEEDED"
    if "initial_states ns x = Some N_WAITING" for x
    using ne [OF that] not_succ [of N_SUCCEEDED] by (cases "deps_of ns x") auto
  then show "plan_flowing ns (initial_states ns)"
    unfolding plan_flowing_def deps_succeeded_def
    using not_succ by (fastforce simp: failure_states_def)
qed

section \<open>A transition keeps the contract\<close>

lemma dependents_step:
  "d \<in> dependents adj V B \<Longrightarrow> x \<in> V \<Longrightarrow> d \<in> set (adj x) \<Longrightarrow> x \<in> dependents adj V B"
  by (auto simp: dependents_def dep_rel_def intro: converse_rtrancl_into_rtrancl)

lemma dependents_refl: "b \<in> B \<Longrightarrow> b \<in> dependents adj V B"
  by (auto simp: dependents_def)

lemma legal_source: "(e, t) \<in> set legal_node_moves \<Longrightarrow> e \<in> {N_READY, N_LAUNCHING, N_RUNNING}"
  by (auto simp: legal_node_moves_def)

lemma legal_target: "(e, t) \<in> set legal_node_moves \<Longrightarrow> t \<noteq> N_WAITING \<and> t \<noteq> N_READY"
  by (auto simp: legal_node_moves_def)

lemma abs_step_self: "t \<noteq> N_WAITING \<Longrightarrow> abs_step ns S l t l = Some t"
  by (simp add: abs_step_def Let_def)

lemma abs_step_settled: "x \<noteq> l \<Longrightarrow> S x \<noteq> Some N_WAITING \<Longrightarrow> abs_step ns S l t x = S x"
  by (simp add: abs_step_def Let_def)

lemma abs_step_succ_iff:
  "t \<noteq> N_WAITING \<Longrightarrow>
     abs_step ns S l t x = Some N_SUCCEEDED \<longleftrightarrow> (S(l \<mapsto> t)) x = Some N_SUCCEEDED"
  by (auto simp: abs_step_def Let_def)

lemma abs_step_waiting:
  "x \<noteq> l \<Longrightarrow> S x = Some N_WAITING \<Longrightarrow> x \<in> set (plan_ids ns) \<Longrightarrow> t \<noteq> N_WAITING \<Longrightarrow>
     abs_step ns S l t x =
       (if t = N_SUCCEEDED \<and> deps_succeeded ns (S(l \<mapsto> t)) x then Some N_READY
        else if t \<in> set failure_states \<and> x \<in> dependents (deps_of ns) (set (plan_ids ns)) {l}
          then Some N_BLOCKED
        else Some N_WAITING)"
  by (simp add: abs_step_def Let_def deps_succeeded_def)

lemma abs_step_dom:
  assumes "\<And>x. S x \<noteq> None \<longleftrightarrow> x \<in> set (plan_ids ns)" and "l \<in> set (plan_ids ns)"
  shows "abs_step ns S l t x \<noteq> None \<longleftrightarrow> x \<in> set (plan_ids ns)"
  using assms by (auto simp: abs_step_def Let_def)

lemma deps_succeeded_mono:
  assumes "deps_succeeded ns S x" "S l = Some e" "e \<noteq> N_SUCCEEDED" "t \<noteq> N_WAITING"
  shows "deps_succeeded ns (abs_step ns S l t) x"
  using assms by (auto simp: deps_succeeded_def abs_step_succ_iff)

lemma abs_step_safe:
  assumes inv: "plan_inv ns S" and l: "S l = Some e" and leg: "(e, t) \<in> set legal_node_moves"
  shows "plan_safe ns (abs_step ns S l t)"
  unfolding plan_safe_def
proof (intro ballI impI)
  fix x assume x: "x \<in> set (plan_ids ns)"
    and st: "abs_step ns S l t x \<notin> {Some N_WAITING, Some N_BLOCKED, Some N_CANCELLED}"
  have e: "e \<noteq> N_SUCCEEDED" "e \<noteq> N_WAITING" "e \<noteq> N_BLOCKED" "e \<noteq> N_CANCELLED" and t: "t \<noteq> N_WAITING"
    using legal_source [OF leg] legal_target [OF leg] by auto
  note safe = plan_invD(3) [OF inv, unfolded plan_safe_def, rule_format]
  show "deps_succeeded ns (abs_step ns S l t) x"
  proof (cases "x \<noteq> l \<and> S x = Some N_WAITING")
    case False
    then have "S x \<notin> {Some N_WAITING, Some N_BLOCKED, Some N_CANCELLED}"
      using st l e abs_step_settled [of x l S ns t] by (cases "x = l") auto
    from safe [OF x this] show ?thesis by (rule deps_succeeded_mono [where S = S]) (use l e t in auto)
  next
    case True
    with st x t have "deps_succeeded ns (S(l \<mapsto> t)) x"
      by (auto simp: abs_step_waiting split: if_splits)
    then show ?thesis using t by (auto simp: deps_succeeded_def abs_step_succ_iff)
  qed
qed

lemma abs_step_flowing:
  assumes inv: "plan_inv ns S" and l: "S l = Some e" and leg: "(e, t) \<in> set legal_node_moves"
  shows "plan_flowing ns (abs_step ns S l t)"
  unfolding plan_flowing_def
proof (intro ballI impI)
  fix x assume x: "x \<in> set (plan_ids ns)" and st: "abs_step ns S l t x = Some N_WAITING"
  have e: "e \<noteq> N_SUCCEEDED" and t: "t \<noteq> N_WAITING"
    using legal_source [OF leg] legal_target [OF leg] by auto
  have xl: "x \<noteq> l" and Sx: "S x = Some N_WAITING"
    using st t by (auto simp: abs_step_self abs_step_def Let_def split: if_splits)
  note wait = abs_step_waiting [where S = S and ns = ns, OF xl Sx x t]
  have old: "\<not> deps_succeeded ns S x"
    "\<And>d f. d \<in> set (deps_of ns x) \<Longrightarrow> f \<in> set failure_states \<Longrightarrow> S d \<noteq> Some f"
    using plan_invD(4) [OF inv] x Sx by (auto simp: plan_flowing_def)
  have "\<not> deps_succeeded ns (S(l \<mapsto> t)) x"
    using st wait old(1) by (auto simp: deps_succeeded_def split: if_splits)
  then have "\<not> deps_succeeded ns (abs_step ns S l t) x"
    using t by (auto simp: deps_succeeded_def abs_step_succ_iff)
  moreover have "abs_step ns S l t d \<noteq> Some f"
    if d: "d \<in> set (deps_of ns x)" and f: "f \<in> set failure_states" for d f
  proof
    assume eq: "abs_step ns S l t d = Some f"
    have "t \<in> set failure_states \<and> d \<in> dependents (deps_of ns) (set (plan_ids ns)) {l}"
    proof (cases "d = l")
      case True
      with eq f t show ?thesis by (simp add: abs_step_self dependents_refl)
    next
      case False
      with eq f old(2) [OF d f] show ?thesis
        by (auto simp: abs_step_def Let_def failure_states_def split: if_splits)
    qed
    then have "t \<in> set failure_states \<and> x \<in> dependents (deps_of ns) (set (plan_ids ns)) {l}"
      using dependents_step [where adj = "deps_of ns" and x = x and d = d] x d by blast
    then show False using st wait by (auto simp: failure_states_def split: if_splits)
  qed
  ultimately show "\<not> deps_succeeded ns (abs_step ns S l t) x \<and>
      (\<forall>d \<in> set (deps_of ns x). \<forall>f \<in> set failure_states. abs_step ns S l t d \<noteq> Some f)"
    by blast
qed

lemma abs_step_inv:
  assumes inv: "plan_inv ns S" and l: "S l = Some e" and leg: "(e, t) \<in> set legal_node_moves"
  shows "plan_inv ns (abs_step ns S l t)"
proof (rule plan_invI)
  have "l \<in> set (plan_ids ns)" using plan_invD(2) [OF inv, of l] l by simp
  then show "abs_step ns S l t x \<noteq> None \<longleftrightarrow> x \<in> set (plan_ids ns)" for x
    by (rule abs_step_dom [OF plan_invD(2) [OF inv]])
qed (use plan_invD(1) [OF inv] abs_step_safe [OF assms] abs_step_flowing [OF assms] in auto)

section \<open>Progress\<close>

definition active_states :: "plan_node_state list" where
  "active_states = [N_READY, N_LAUNCHING, N_RUNNING]"

lemma waiting_has_active:
  assumes inv: "plan_inv ns S" and w: "S x = Some N_WAITING"
  shows "\<exists>y \<in> set (plan_ids ns). \<exists>a \<in> set active_states. S y = Some a"
proof -
  let ?W = "{y \<in> set (plan_ids ns). S y = Some N_WAITING}"
  have ok: "plan_graph_ok ns" by (rule plan_invD(1) [OF inv])
  have "x \<in> ?W" using plan_invD(2) [OF inv, of x] w by simp
  then have ne: "?W \<noteq> {}" by blast
  have ac: "acyclic (dep_rel (deps_of ns) (set (plan_ids ns)))"
    using ok by (simp add: plan_graph_ok_def)
  obtain y where y: "y \<in> ?W" "set (deps_of ns y) \<inter> ?W = {}"
    using acyclic_minimal [OF ac finite_set plan_graph_ok_deps [OF ok] _ ne] by blast
  have yw: "y \<in> set (plan_ids ns)" "S y = Some N_WAITING" using y(1) by simp_all
  have flow: "\<not> deps_succeeded ns S y"
      "\<forall>d \<in> set (deps_of ns y). \<forall>f \<in> set failure_states. S d \<noteq> Some f"
    using plan_invD(4) [OF inv, unfolded plan_flowing_def, rule_format, OF yw] by auto
  then obtain d where d: "d \<in> set (deps_of ns y)" "S d \<noteq> Some N_SUCCEEDED"
    by (auto simp: deps_succeeded_def)
  have dids: "d \<in> set (plan_ids ns)" using plan_graph_ok_deps [OF ok] d(1) by blast
  then obtain s where s: "S d = Some s" using plan_invD(2) [OF inv, of d] by auto
  have "s \<noteq> N_WAITING" using y(2) d(1) dids s by auto
  moreover have "s \<notin> set failure_states" using flow(2) d(1) s by blast
  ultimately have "s \<in> set active_states"
    using d(2) s by (cases s) (auto simp: active_states_def failure_states_def)
  with dids s show ?thesis by blast
qed

text \<open>How many transitions a node still has in front of it.\<close>

fun node_fuel :: "plan_node_state option \<Rightarrow> nat" where
  "node_fuel (Some N_WAITING) = 4"
| "node_fuel (Some N_READY) = 3"
| "node_fuel (Some N_LAUNCHING) = 2"
| "node_fuel (Some N_RUNNING) = 1"
| "node_fuel _ = 0"

definition remaining :: "plan_node list \<Rightarrow> node_states \<Rightarrow> nat" where
  "remaining ns S = (\<Sum>l\<leftarrow>plan_ids ns. node_fuel (S l))"

lemma abs_step_fuel_le:
  assumes "S l = Some e" "(e, t) \<in> set legal_node_moves"
  shows "node_fuel (abs_step ns S l t x) \<le> node_fuel (S x)"
    and "node_fuel (abs_step ns S l t l) < node_fuel (S l)"
proof -
  have lt: "node_fuel (Some t) < node_fuel (Some e)"
    using assms(2) by (auto simp: legal_node_moves_def)
  have tw: "t \<noteq> N_WAITING" using legal_target [OF assms(2)] by simp
  from lt tw assms(1) show "node_fuel (abs_step ns S l t l) < node_fuel (S l)"
    by (simp add: abs_step_self)
  with lt tw assms(1) show "node_fuel (abs_step ns S l t x) \<le> node_fuel (S x)"
    by (auto simp: abs_step_def Let_def)
qed

lemma sum_list_less:
  fixes f g :: "'a \<Rightarrow> nat"
  assumes "\<And>x. f x \<le> g x" "f l < g l"
  shows "l \<in> set xs \<Longrightarrow> (\<Sum>x\<leftarrow>xs. f x) < (\<Sum>x\<leftarrow>xs. g x)"
proof (induction xs)
  case Nil
  then show ?case by simp
next
  case (Cons y ys)
  have "(\<Sum>x\<leftarrow>ys. f x) \<le> (\<Sum>x\<leftarrow>ys. g x)" by (rule sum_list_mono) (rule assms(1))
  with Cons assms(1) [of y] assms(2) show ?case by (cases "y = l") (auto intro: add_less_le_mono add_le_less_mono)
qed

lemma remaining_decreases:
  assumes "S l = Some e" "(e, t) \<in> set legal_node_moves" "l \<in> set (plan_ids ns)"
  shows "remaining ns (abs_step ns S l t) < remaining ns S"
  unfolding remaining_def
  by (rule sum_list_less [where l = l])
    (use abs_step_fuel_le [where S = S and ns = ns, OF assms(1,2)] assms(3) in auto)

end
