(* ===== verification/Plan_Admission.thy ===== *)
theory Plan_Admission
  imports Plan_Contract
begin

text \<open>
  Admission and reading of a plan (\<open>Journal.admit_plan\<close>, \<open>get_plan\<close>,
  \<open>ready_plan_nodes\<close> of \<open>src/src/skail/sessions/journal.py\<close>).

  The redactor is an argument of the journal: \<open>rd\<close> is what scrubbing does to one node of
  the stored payload.  The identifiers \<open>new_plan_id()\<close> and \<open>new_plan_node_id()\<close>
  are random: \<open>pid\<close> is the first and \<open>fresh i\<close> the \<open>i\<close>-th of the second; a
  collision is the IntegrityError of the primary key.
\<close>

record persisted_plan =
  pp_plan_id :: string
  pp_run_id :: string
  pp_plan :: execution_plan
  pp_node_ids :: "(string \<times> string) list"
  pp_node_states :: "(string \<times> plan_node_state) list"

definition plan_versions_ok :: "execution_plan \<Rightarrow> unit res" where
  "plan_versions_ok p =
     (if schema_version p \<noteq> SUPPORTED_PLAN_SCHEMA_VERSION
        then Inl (FrameworkContractError ''plan.schema_unsupported'')
      else if policy_version p \<noteq> SUPPORTED_EXECUTION_POLICY_VERSION
        then Inl (FrameworkContractError ''plan.policy_unsupported'')
      else Inr ())"

lemma plan_versions_ok_Inr [res_simps]:
  "plan_versions_ok p = Inr u \<longleftrightarrow> schema_version p = SUPPORTED_PLAN_SCHEMA_VERSION \<and>
     policy_version p = SUPPORTED_EXECUTION_POLICY_VERSION"
  by (auto simp: plan_versions_ok_def)

definition redact_plan :: "(plan_node \<Rightarrow> plan_node) \<Rightarrow> execution_plan \<Rightarrow> execution_plan" where
  "redact_plan rd p = p\<lparr>plan_nodes := map rd (plan_nodes p)\<rparr>"

section \<open>Inserting node rows\<close>

text \<open>
  One node row and its state row.  \<open>node_id\<close> is the primary key of both tables and
  \<open>(plan_id, local_id)\<close> is unique over all rows, retired ones included.
\<close>

definition insert_node ::
  "plan_db \<Rightarrow> string \<Rightarrow> string \<Rightarrow> string \<Rightarrow> plan_node \<Rightarrow> plan_node_state \<Rightarrow> plan_db res" where
  "insert_node db nid pid l payload st =
     (if list_ex (\<lambda>r. nr_node_id r = nid \<or> nr_plan_id r = pid \<and> nr_local_id r = l) (pd_nodes db)
        then Inl (IntegrityError ''plan_nodes'')
      else if pd_states db nid \<noteq> None then Inl (IntegrityError ''plan_node_states'')
      else Inr (db\<lparr>pd_nodes := pd_nodes db @
                    [\<lparr>nr_node_id = nid, nr_plan_id = pid, nr_local_id = l, nr_payload = payload,
                      nr_retired = None\<rparr>],
                  pd_states := (pd_states db)(nid \<mapsto> st)\<rparr>))"

fun insert_nodes ::
  "(plan_node \<Rightarrow> plan_node) \<Rightarrow> string \<Rightarrow> (plan_node \<times> string) list \<Rightarrow> plan_db \<Rightarrow> plan_db res" where
  "insert_nodes rd pid [] db = Inr db"
| "insert_nodes rd pid ((n, nid) # ps) db =
     res_bind (insert_node db nid pid (local_id n) (rd n) (initial_state n))
       (insert_nodes rd pid ps)"

definition new_row :: "(plan_node \<Rightarrow> plan_node) \<Rightarrow> string \<Rightarrow> plan_node \<times> string \<Rightarrow> node_row" where
  "new_row rd pid = (\<lambda>(n, nid).
     \<lparr>nr_node_id = nid, nr_plan_id = pid, nr_local_id = local_id n, nr_payload = rd n,
      nr_retired = None\<rparr>)"

lemma new_row_simps [simp]:
  "nr_node_id (new_row rd pid p) = snd p" "nr_plan_id (new_row rd pid p) = pid"
  "nr_local_id (new_row rd pid p) = local_id (fst p)" "nr_retired (new_row rd pid p) = None"
  by (simp_all add: new_row_def split: prod.splits)

lemma insert_nodes_Inr:
  "insert_nodes rd pid ps db = Inr db' \<Longrightarrow>
     pd_nodes db' = pd_nodes db @ map (new_row rd pid) ps \<and>
     distinct (map snd ps) \<and> snd ` set ps \<inter> nr_node_id ` set (pd_nodes db) = {} \<and>
     (\<forall>(n, nid) \<in> set ps. pd_states db' nid = Some (initial_state n)) \<and>
     (\<forall>x. x \<notin> snd ` set ps \<longrightarrow> pd_states db' x = pd_states db x) \<and>
     pd_plans db' = pd_plans db \<and> pd_runs db' = pd_runs db \<and> pd_events db' = pd_events db"
proof (induction ps arbitrary: db)
  case Nil
  then show ?case by simp
next
  case (Cons p ps)
  obtain n nid where p: "p = (n, nid)" by (cases p)
  from Cons.prems p obtain d1 where
    d1: "insert_node db nid pid (local_id n) (rd n) (initial_state n) = Inr d1"
    and rest: "insert_nodes rd pid ps d1 = Inr db'"
    by (auto simp: res_simps)
  from d1 have nodes: "pd_nodes d1 = pd_nodes db @ [new_row rd pid p]"
    and st: "pd_states d1 = (pd_states db)(nid \<mapsto> initial_state n)"
    and same: "pd_plans d1 = pd_plans db" "pd_runs d1 = pd_runs db" "pd_events d1 = pd_events db"
    and fresh: "nid \<notin> nr_node_id ` set (pd_nodes db)"
    by (auto simp: insert_node_def new_row_def p list_ex_iff split: if_splits)
  from Cons.IH [OF rest] show ?case
    using fresh by (auto simp: nodes st same p)
qed

section \<open>Admission\<close>

fun plan_events :: "string \<Rightarrow> string \<Rightarrow> string \<Rightarrow> int \<Rightarrow> int \<Rightarrow> (string \<times> string option) list \<Rightarrow> event_row list" where
  "plan_events run sess pid rn sq [] = []"
| "plan_events run sess pid rn sq ((ty, nid) # es) =
     \<lparr>ev_run = run, ev_session = sess, ev_seq = sq + 1, ev_type = ty, ev_plan = pid,
      ev_revision = rn, ev_node = nid, ev_reason = None\<rparr>
     # plan_events run sess pid rn (sq + 1) es"

definition admit_checks :: "execution_plan \<Rightarrow> effect_scope list \<Rightarrow> unit res" where
  "admit_checks plan authorized =
     res_bind (plan_versions_ok plan) (\<lambda>_.
     if plan_revision plan \<noteq> 1
       then Inl (FrameworkContractError ''plan.initial_revision_invalid'')
     else raise_if (list_ex (\<lambda>n. effect_scope n \<notin> set authorized) (plan_nodes plan))
            (FrameworkContractError ''plan.effect_unauthorized''))"

definition admit_plan ::
  "(plan_node \<Rightarrow> plan_node) \<Rightarrow> (nat \<Rightarrow> string) \<Rightarrow> plan_db \<Rightarrow> string \<Rightarrow> string \<Rightarrow> execution_plan \<Rightarrow>
     effect_scope list \<Rightarrow> (plan_db \<times> persisted_plan) res" where
  "admit_plan rd fresh db pid run_id plan authorized =
     res_bind (admit_checks plan authorized) (\<lambda>_.
     (case pd_runs db run_id of
        None \<Rightarrow> Inl (KeyError run_id)
      | Some run \<Rightarrow>
          if list_ex (\<lambda>p. pr_run_id p = run_id) (pd_plans db)
            then Inl (FrameworkContractError ''plan.already_admitted'')
          else if list_ex (\<lambda>p. pr_plan_id p = pid) (pd_plans db)
            then Inl (IntegrityError ''execution_plans'')
          else
            (let ids = zip (plan_nodes plan) (map fresh [0..<length (plan_nodes plan)]);
                 row = \<lparr>pr_plan_id = pid, pr_run_id = run_id, pr_schema = schema_version plan,
                        pr_policy = policy_version plan, pr_current = 1,
                        pr_payload = redact_plan rd plan\<rparr>
             in res_bind (insert_nodes rd pid ids (db\<lparr>pd_plans := pd_plans db @ [row]\<rparr>)) (\<lambda>db2.
                let run' = run\<lparr>run_schema := Some (schema_version plan),
                               run_policy := Some (policy_version plan)\<rparr>;
                    evs = plan_events run_id (run_session run) pid (plan_revision plan)
                            (max_sequence (pd_events db2) run_id)
                            ((''plan.admitted'', None) #
                             map (\<lambda>(n, nid). (''plan.node_admitted'', Some nid)) ids)
                in Inr (db2\<lparr>pd_revisions := pd_revisions db2 @
                              [\<lparr>rv_plan = pid, rv_revision = 1, rv_expected = 0\<rparr>],
                            pd_runs := (pd_runs db2)(run_id \<mapsto> run'),
                            pd_events := pd_events db2 @ evs\<rparr>,
                        \<lparr>pp_plan_id = pid, pp_run_id = run_id, pp_plan = plan,
                         pp_node_ids = map (\<lambda>(n, nid). (local_id n, nid)) ids,
                         pp_node_states = map (\<lambda>n. (local_id n, initial_state n))
                                            (plan_nodes plan)\<rparr>)))))"

definition get_plan :: "plan_db \<Rightarrow> string \<Rightarrow> persisted_plan res" where
  "get_plan db pid =
     (case plan_by_id db pid of
        None \<Rightarrow> Inl (KeyError pid)
      | Some p \<Rightarrow>
          if pr_schema p \<noteq> SUPPORTED_PLAN_SCHEMA_VERSION
            then Inl (FrameworkContractError ''plan.schema_unsupported'')
          else if pr_policy p \<noteq> SUPPORTED_EXECUTION_POLICY_VERSION
            then Inl (FrameworkContractError ''plan.policy_unsupported'')
          else res_bind (load_plan (pr_payload p)) (\<lambda>plan.
            Inr \<lparr>pp_plan_id = pid, pp_run_id = pr_run_id p, pp_plan = plan,
                 pp_node_ids = map (\<lambda>(r, s). (nr_local_id r, nr_node_id r)) (active_rows db pid),
                 pp_node_states = map (\<lambda>(r, s). (nr_local_id r, s)) (active_rows db pid)\<rparr>))"

definition ready_plan_nodes :: "plan_db \<Rightarrow> string \<Rightarrow> node_snapshot list" where
  "ready_plan_nodes db pid =
     map (\<lambda>(r, s). (nr_node_id r, nr_local_id r, s))
       (filter (\<lambda>(r, s). s = N_READY) (active_rows db pid))"

section \<open>Correctness of admission\<close>

text \<open>The keys SQLite enforces: node ids are unique, every node has a state and a plan.\<close>

definition plan_keys_ok :: "plan_db \<Rightarrow> bool" where
  "plan_keys_ok db \<longleftrightarrow>
     distinct (map nr_node_id (pd_nodes db)) \<and>
     (\<forall>r \<in> set (pd_nodes db). pd_states db (nr_node_id r) \<noteq> None \<and>
        nr_plan_id r \<in> pr_plan_id ` set (pd_plans db))"

text \<open>Redaction that leaves the graph of the plan alone and the payload loadable.\<close>

definition redaction_ok :: "(plan_node \<Rightarrow> plan_node) \<Rightarrow> execution_plan \<Rightarrow> bool" where
  "redaction_ok rd p \<longleftrightarrow>
     (\<forall>n \<in> set (plan_nodes p). local_id (rd n) = local_id n \<and> depends_on (rd n) = depends_on n) \<and>
     is_ok (load_plan (redact_plan rd p))"

lemma admit_Inr:
  assumes "admit_plan rd fresh db pid run_id plan authorized = Inr (db', pp)"
  obtains run db2 ids where
    "pd_runs db run_id = Some run"
    "\<forall>p \<in> set (pd_plans db). pr_run_id p \<noteq> run_id \<and> pr_plan_id p \<noteq> pid"
    "ids = zip (plan_nodes plan) (map fresh [0..<length (plan_nodes plan)])"
    "insert_nodes rd pid ids (db\<lparr>pd_plans := pd_plans db @
        [\<lparr>pr_plan_id = pid, pr_run_id = run_id, pr_schema = schema_version plan,
          pr_policy = policy_version plan, pr_current = 1, pr_payload = redact_plan rd plan\<rparr>]\<rparr>)
       = Inr db2"
    "pd_nodes db' = pd_nodes db2" "pd_states db' = pd_states db2" "pd_plans db' = pd_plans db2"
    "pd_runs db' run_id \<noteq> None"
    "pp = \<lparr>pp_plan_id = pid, pp_run_id = run_id, pp_plan = plan,
           pp_node_ids = map (\<lambda>(n, nid). (local_id n, nid)) ids,
           pp_node_states = map (\<lambda>n. (local_id n, initial_state n)) (plan_nodes plan)\<rparr>"
    "admit_checks plan authorized = Inr ()"
  using assms
  by (auto simp: admit_plan_def res_simps Let_def list_ex_iff split: option.splits if_splits)

lemma find_append:
  "List.find p (xs @ ys) = (case List.find p xs of None \<Rightarrow> List.find p ys | Some x \<Rightarrow> Some x)"
  by (induction xs) auto

lemma fst_ids: "map fst (zip ns (map f [0..<length ns])) = ns"
  by simp

lemma map_local_zip:
  "map (\<lambda>p. g (fst p)) (zip ns (map f [0..<length ns])) = map g ns"
  by (metis (no_types, lifting) comp_apply fst_ids map_map map_cong)

lemma find_by_local: "List.find (\<lambda>n. local_id n = l) ns = node_by_local ns l"
  by (simp add: node_by_local_def)

lemma map_of_local:
  "map_of (map (\<lambda>n. (local_id n, f n)) ns) l = map_option f (node_by_local ns l)"
  unfolding node_by_local_def by (induction ns) auto

text \<open>The rows of a freshly admitted plan, in plan order.\<close>

lemma admitted_rows:
  assumes keys: "plan_keys_ok db"
    and adm: "admit_plan rd fresh db pid run_id plan authorized = Inr (db', pp)"
  shows "active_rows db' pid =
      map (\<lambda>p. (new_row rd pid p, initial_state (fst p)))
        (zip (plan_nodes plan) (map fresh [0..<length (plan_nodes plan)]))"
    and "plan_keys_ok db'"
    and "plan_by_id db' pid =
      Some \<lparr>pr_plan_id = pid, pr_run_id = run_id, pr_schema = schema_version plan,
            pr_policy = policy_version plan, pr_current = 1, pr_payload = redact_plan rd plan\<rparr>"
proof -
  obtain run db2 ids where
    new: "\<forall>p \<in> set (pd_plans db). pr_run_id p \<noteq> run_id \<and> pr_plan_id p \<noteq> pid" and
    ids: "ids = zip (plan_nodes plan) (map fresh [0..<length (plan_nodes plan)])" and
    ins: "insert_nodes rd pid ids (db\<lparr>pd_plans := pd_plans db @
        [\<lparr>pr_plan_id = pid, pr_run_id = run_id, pr_schema = schema_version plan,
          pr_policy = policy_version plan, pr_current = 1, pr_payload = redact_plan rd plan\<rparr>]\<rparr>)
       = Inr db2" and
    db': "pd_nodes db' = pd_nodes db2" "pd_states db' = pd_states db2" "pd_plans db' = pd_plans db2"
    by (rule admit_Inr [OF adm]) blast
  note I = insert_nodes_Inr [OF ins, simplified]
  have nodes: "pd_nodes db' = pd_nodes db @ map (new_row rd pid) ids" using I db' by simp
  have old: "pd_states db' (nr_node_id r) = pd_states db (nr_node_id r)"
    if "r \<in> set (pd_nodes db)" for r
  proof -
    have "nr_node_id r \<notin> snd ` set ids" using I that by blast
    then show ?thesis using I by (simp add: db')
  qed
  have Ist: "\<forall>(n, nid) \<in> set ids. pd_states db2 nid = Some (initial_state n)"
    using I by (elim conjE)
  have st: "pd_states db' (snd p) = Some (initial_state (fst p))" if "p \<in> set ids" for p
    using bspec [OF Ist that] by (simp add: db' case_prod_beta)
  have dis: "distinct (map snd ids)" "snd ` set ids \<inter> nr_node_id ` set (pd_nodes db) = {}"
    and plans: "pd_plans db' = pd_plans db @
        [\<lparr>pr_plan_id = pid, pr_run_id = run_id, pr_schema = schema_version plan,
          pr_policy = policy_version plan, pr_current = 1, pr_payload = redact_plan rd plan\<rparr>]"
    using I by (simp_all add: db')
  show keys': "plan_keys_ok db'"
    using keys dis st old by (auto simp: plan_keys_ok_def nodes plans comp_def)
  have "nr_plan_id r \<noteq> pid" if "r \<in> set (pd_nodes db)" for r
    using keys new that unfolding plan_keys_ok_def by (metis imageE)
  then have "live_nodes db pid = []" by (simp add: live_nodes_def filter_empty_conv)
  then have live: "live_nodes db' pid = map (new_row rd pid) ids"
    by (simp add: live_nodes_def nodes filter_map comp_def)
  have "\<forall>r \<in> set (pd_nodes db'). pd_states db' (nr_node_id r) \<noteq> None"
    using keys' by (simp add: plan_keys_ok_def)
  from active_rows_alt [OF this, of pid] show "active_rows db' pid =
      map (\<lambda>p. (new_row rd pid p, initial_state (fst p)))
        (zip (plan_nodes plan) (map fresh [0..<length (plan_nodes plan)]))"
    using st by (auto simp: live ids [symmetric])
  show "plan_by_id db' pid =
      Some \<lparr>pr_plan_id = pid, pr_run_id = run_id, pr_schema = schema_version plan,
            pr_policy = policy_version plan, pr_current = 1, pr_payload = redact_plan rd plan\<rparr>"
    using new by (auto simp: plan_by_id_def plans find_append dest: find_Some_in split: option.splits)
qed


lemma redacted_graph:
  assumes "redaction_ok rd plan"
  shows "plan_ids (map rd (plan_nodes plan)) = plan_ids (plan_nodes plan)"
    and "initial_states (map rd (plan_nodes plan)) = initial_states (plan_nodes plan)"
    and "plan_graph_ok (map rd (plan_nodes plan))" and "plan_fields_ok (redact_plan rd plan)"
proof -
  have same: "local_id (rd n) = local_id n" "depends_on (rd n) = depends_on n"
    if "n \<in> set (plan_nodes plan)" for n
    using assms that by (auto simp: redaction_ok_def)
  then show "plan_ids (map rd (plan_nodes plan)) = plan_ids (plan_nodes plan)"
    by (simp add: plan_ids_def)
  have "map_option initial_state (node_by_local (map rd ns) l)
      = map_option initial_state (node_by_local ns l)"
    if "set ns \<subseteq> set (plan_nodes plan)" for ns l
    using that unfolding node_by_local_def
    by (induction ns) (auto simp: same initial_state_def)
  then show "initial_states (map rd (plan_nodes plan)) = initial_states (plan_nodes plan)"
    by (auto simp: initial_states_def)
  show "plan_graph_ok (map rd (plan_nodes plan))" "plan_fields_ok (redact_plan rd plan)"
    using assms by (auto simp: redaction_ok_def is_ok_iff load_plan_iff redact_plan_def)
qed

lemma admitted_store:
  assumes keys: "plan_keys_ok db" and red: "redaction_ok rd plan"
    and adm: "admit_plan rd fresh db pid run_id plan authorized = Inr (db', pp)"
  shows "wf_plan_store db' pid" and "stored_nodes db' pid = map rd (plan_nodes plan)"
    and "plan_view db' pid = initial_states (plan_nodes plan)"
proof -
  note rows = admitted_rows [OF keys adm]
  show sn: "stored_nodes db' pid = map rd (plan_nodes plan)"
    by (simp add: stored_nodes_def rows(3) redact_plan_def)
  have locals: "map (nr_local_id \<circ> fst) (active_rows db' pid) = plan_ids (plan_nodes plan)"
    by (simp add: rows(1) comp_def map_local_zip plan_ids_def)
  have imgs: "(nr_local_id \<circ> fst) ` set (active_rows db' pid) = set (plan_ids (plan_nodes plan))"
    using arg_cong [OF locals, of set] by (simp only: set_map)
  have "pd_runs db' run_id \<noteq> None"
    by (rule admit_Inr [OF adm]) blast
  moreover have "distinct (plan_ids (plan_nodes plan))"
    using redacted_graph(1,3) [OF red] by (simp add: plan_graph_ok_def)
  ultimately show "wf_plan_store db' pid"
    using rows(2) redacted_graph [OF red] locals imgs
    by (auto simp: wf_plan_store_def rows(3) sn plan_keys_ok_def redact_plan_def)
  have "plan_view db' pid l = initial_states (plan_nodes plan) l" for l
    by (simp add: plan_view_def local_states_def rows(1) comp_def
        map_local_zip [where g = "\<lambda>n. (local_id n, initial_state n)"]
        map_of_local initial_states_def)
  then show "plan_view db' pid = initial_states (plan_nodes plan)" by (rule ext)
qed

text \<open>The store keeps its contract for a plan.\<close>

definition plan_store_ok :: "plan_db \<Rightarrow> string \<Rightarrow> bool" where
  "plan_store_ok db pid \<longleftrightarrow>
     wf_plan_store db pid \<and> plan_inv (stored_nodes db pid) (plan_view db pid)"

lemma admitted_store_ok:
  assumes "plan_keys_ok db" "redaction_ok rd plan"
    and "admit_plan rd fresh db pid run_id plan authorized = Inr (db', pp)"
  shows "plan_store_ok db' pid"
  using admitted_store [OF assms] initial_states_inv [OF redacted_graph(3) [OF assms(2)]]
    redacted_graph(2) [OF assms(2)]
  by (simp add: plan_store_ok_def)

lemma transition_store_ok:
  assumes ok: "plan_store_ok db pid"
    and tr: "transition_plan_node_state scrub db pid nid expected target = Inr (db', cs)"
  shows "plan_store_ok db' pid" "stored_nodes db' pid = stored_nodes db pid"
    and "remaining (stored_nodes db' pid) (plan_view db' pid)
       < remaining (stored_nodes db pid) (plan_view db pid)"
proof -
  have wf: "wf_plan_store db pid" and inv: "plan_inv (stored_nodes db pid) (plan_view db pid)"
    using ok by (simp_all add: plan_store_ok_def)
  note abs = transition_abstract [OF wf tr]
  obtain l where l: "plan_view db pid l = Some expected"
    "plan_view db' pid = abs_step (stored_nodes db pid) (plan_view db pid) l target"
    using abs(3) by blast
  have leg: "(expected, target) \<in> set legal_node_moves"
    by (rule transition_Inr [OF wf tr])
  show "plan_store_ok db' pid"
    using abs_step_inv [where S = "plan_view db pid", OF inv l(1) leg] abs(1,2) l(2)
    by (simp add: plan_store_ok_def)
  show "stored_nodes db' pid = stored_nodes db pid" by (rule abs(2))
  have "l \<in> set (plan_ids (stored_nodes db pid))"
    using plan_invD(2) [OF inv, of l] l(1) by simp
  then show "remaining (stored_nodes db' pid) (plan_view db' pid)
       < remaining (stored_nodes db pid) (plan_view db pid)"
    using remaining_decreases [where S = "plan_view db pid", OF l(1) leg] abs(2) l(2) by simp
qed

section \<open>Histories of a plan\<close>

text \<open>The states of the store that accepted transitions of one plan lead to.\<close>

inductive plan_run :: "(string \<Rightarrow> string) \<Rightarrow> string \<Rightarrow> plan_db \<Rightarrow> nat \<Rightarrow> plan_db \<Rightarrow> bool"
  for scrub pid where
  start: "plan_run scrub pid db 0 db"
| move: "plan_run scrub pid db k db1 \<Longrightarrow>
     transition_plan_node_state scrub db1 pid nid expected target = Inr (db2, cs) \<Longrightarrow>
     plan_run scrub pid db (Suc k) db2"

inductive_cases plan_run_SucE: "plan_run scrub pid db (Suc k) db2"

lemma plan_run_ok:
  "plan_run scrub pid db k db' \<Longrightarrow> plan_store_ok db pid \<Longrightarrow>
     plan_store_ok db' pid \<and> stored_nodes db' pid = stored_nodes db pid \<and>
     remaining (stored_nodes db' pid) (plan_view db' pid) + k
       \<le> remaining (stored_nodes db pid) (plan_view db pid)"
proof (induction rule: plan_run.induct)
  case (start db)
  then show ?case by simp
next
  case (move db k db1 nid expected target db2 cs)
  then have ok1: "plan_store_ok db1 pid" by blast
  from transition_store_ok [OF ok1 move.hyps(2)] move show ?case by auto
qed

lemma remaining_bound: "remaining ns S \<le> 4 * length ns"
proof -
  have "node_fuel s \<le> 4" for s by (cases s rule: node_fuel.cases) auto
  then have "(\<Sum>l\<leftarrow>xs. node_fuel (S l)) \<le> 4 * length xs" for xs :: "string list"
    by (induction xs) (auto intro: add_mono)
  from this [of "plan_ids ns"] show ?thesis by (simp add: remaining_def plan_ids_def)
qed


section \<open>A small plan\<close>

text \<open>Two nodes, the second waiting for the first; the witnesses below run it.\<close>

definition mk_node :: "string \<Rightarrow> plan_node_kind \<Rightarrow> string list \<Rightarrow> plan_node" where
  "mk_node l k ds = \<lparr>local_id = l, node_kind = k, objective = ''do '' @ l, depends_on = ds,
     acceptance_criteria = [], node_inputs = [], output_contract = None, effect_scope = E_READ,
     resource_scopes = [], task_features = [], artifact_refs = [], task_lineage = None\<rparr>"

definition ex_plan :: execution_plan where
  "ex_plan = \<lparr>schema_version = 1, policy_version = ''adaptive-v1'', plan_revision = 1,
     plan_nodes = [mk_node ''a'' K_AGENT [], mk_node ''b'' K_TOOL [''a'']]\<rparr>"

definition ex_fresh :: "nat \<Rightarrow> string" where "ex_fresh i = (if i = 0 then ''n0'' else ''n1'')"

definition ex_db0 :: plan_db where
  "ex_db0 = \<lparr>pd_runs = [''r'' \<mapsto> \<lparr>run_session = ''s'', run_status = ''running'',
       run_schema = None, run_policy = None\<rparr>],
     pd_plans = [], pd_nodes = [], pd_states = Map.empty, pd_bindings = [], pd_execs = [],
     pd_revisions = [], pd_events = [], pd_tasks = Map.empty, pd_attempts = Map.empty\<rparr>"

definition db_of :: "(plan_db \<times> 'b) res \<Rightarrow> plan_db" where
  "db_of r = (case r of Inr (d, _) \<Rightarrow> d | Inl _ \<Rightarrow> ex_db0)"

definition snd_of :: "('a \<times> 'b list) res \<Rightarrow> 'b list" where
  "snd_of r = (case r of Inr (_, x) \<Rightarrow> x | Inl _ \<Rightarrow> [])"

lemma db_of_Inr: "is_ok (r :: (plan_db \<times> 'b) res) \<Longrightarrow> \<exists>x. r = Inr (db_of r, x)"
  by (auto simp: is_ok_iff db_of_def)

lemma db_snd_Inr: "is_ok (r :: (plan_db \<times> 'b list) res) \<Longrightarrow> r = Inr (db_of r, snd_of r)"
  by (auto simp: is_ok_iff db_of_def snd_of_def)

definition ex_db1 :: plan_db where
  "ex_db1 = db_of (admit_plan id ex_fresh ex_db0 ''p'' ''r'' ex_plan [E_READ])"

text \<open>The first node launched, then running, then succeeded.\<close>

definition ex_step :: "plan_db \<Rightarrow> string \<Rightarrow> plan_node_state \<Rightarrow> plan_node_state \<Rightarrow> plan_db" where
  "ex_step db nid e t = db_of (transition_plan_node_state id db ''p'' nid e t)"

definition ex_db2 :: plan_db where "ex_db2 = ex_step ex_db1 ''n0'' N_READY N_LAUNCHING"
definition ex_db3 :: plan_db where "ex_db3 = ex_step ex_db2 ''n0'' N_LAUNCHING N_RUNNING"
definition ex_db4 :: plan_db where "ex_db4 = ex_step ex_db3 ''n0'' N_RUNNING N_SUCCEEDED"

lemma ex_keys: "plan_keys_ok ex_db0" by code_simp

lemma ex_redaction: "redaction_ok id ex_plan" by code_simp

lemma ex_admitted:
  "\<exists>pp. admit_plan id ex_fresh ex_db0 ''p'' ''r'' ex_plan [E_READ] = Inr (ex_db1, pp)"
proof -
  have "is_ok (admit_plan id ex_fresh ex_db0 ''p'' ''r'' ex_plan [E_READ])" by code_simp
  then show ?thesis unfolding ex_db1_def by (rule db_of_Inr)
qed

lemma ex_ok1: "plan_store_ok ex_db1 ''p''"
  using ex_admitted admitted_store_ok [OF ex_keys ex_redaction] by blast

lemma ex_move:
  assumes "is_ok (transition_plan_node_state id db ''p'' nid e t)"
  shows "\<exists>cs. transition_plan_node_state id db ''p'' nid e t = Inr (ex_step db nid e t, cs)"
  unfolding ex_step_def by (rule db_of_Inr [OF assms])

lemma ex_steps:
  "\<exists>cs. transition_plan_node_state id ex_db1 ''p'' ''n0'' N_READY N_LAUNCHING = Inr (ex_db2, cs)"
  "\<exists>cs. transition_plan_node_state id ex_db2 ''p'' ''n0'' N_LAUNCHING N_RUNNING = Inr (ex_db3, cs)"
  "\<exists>cs. transition_plan_node_state id ex_db3 ''p'' ''n0'' N_RUNNING N_SUCCEEDED = Inr (ex_db4, cs)"
  unfolding ex_db2_def ex_db3_def ex_db4_def
  by (rule ex_move, code_simp)+

lemma ex_run: "plan_run id ''p'' ex_db1 1 ex_db2" "plan_run id ''p'' ex_db1 3 ex_db4"
proof -
  have 1: "plan_run id ''p'' ex_db1 (Suc 0) ex_db2"
    using ex_steps(1) plan_run.move [OF plan_run.start] by blast
  then show "plan_run id ''p'' ex_db1 1 ex_db2" by simp
  have 2: "plan_run id ''p'' ex_db1 (Suc (Suc 0)) ex_db3"
    using ex_steps(2) plan_run.move [OF 1] by blast
  have "plan_run id ''p'' ex_db1 (Suc (Suc (Suc 0))) ex_db4"
    using ex_steps(3) plan_run.move [OF 2] by blast
  then show "plan_run id ''p'' ex_db1 3 ex_db4" by (simp add: numeral_3_eq_3)
qed

section \<open>Properties\<close>

lemma history_inv:
  assumes "plan_keys_ok db" "redaction_ok rd plan"
    and "admit_plan rd fresh db pid run_id plan authorized = Inr (db1, pp)"
    and "plan_run scrub pid db1 k db2"
  shows "plan_store_ok db2 pid" "stored_nodes db2 pid = map rd (plan_nodes plan)"
    and "remaining (map rd (plan_nodes plan)) (plan_view db2 pid) + k \<le> 4 * length (plan_nodes plan)"
proof -
  note adm = admitted_store [OF assms(1-3)]
  note run = plan_run_ok [OF assms(4) admitted_store_ok [OF assms(1-3)]]
  show "plan_store_ok db2 pid" using run by blast
  show sn: "stored_nodes db2 pid = map rd (plan_nodes plan)" using run adm(2) by simp
  have "remaining (map rd (plan_nodes plan)) (plan_view db1 pid) \<le> 4 * length (plan_nodes plan)"
    using remaining_bound [of "map rd (plan_nodes plan)"] by simp
  with run sn adm(2)
  show "remaining (map rd (plan_nodes plan)) (plan_view db2 pid) + k \<le> 4 * length (plan_nodes plan)"
    by simp
qed

lemma redacted_deps:
  assumes "redaction_ok rd plan" and "n \<in> set (plan_nodes plan)"
  shows "deps_of (map rd (plan_nodes plan)) (local_id n) = depends_on n"
    and "local_id n \<in> set (plan_ids (map rd (plan_nodes plan)))"
proof -
  have "distinct (plan_ids (map rd (plan_nodes plan)))"
    using redacted_graph(3) [OF assms(1)] by (simp add: plan_graph_ok_def)
  from deps_of_node [OF this, of "rd n"] assms
  show "deps_of (map rd (plan_nodes plan)) (local_id n) = depends_on n"
    by (auto simp: redaction_ok_def)
  show "local_id n \<in> set (plan_ids (map rd (plan_nodes plan)))"
    using assms redacted_graph(1) [OF assms(1)] by (simp add: plan_ids_def)
qed

text \<open>
  C1: dependency safety.  After any history of accepted transitions of an admitted plan, a node
  that is READY, LAUNCHING, RUNNING, SUCCEEDED or FAILED has only dependencies that SUCCEEDED;
  no dependent of an unfinished or failed node is ever offered for launch.
\<close>

theorem launched_after_dependencies:
  assumes "plan_keys_ok db" "redaction_ok rd plan"
    and "admit_plan rd fresh db pid run_id plan authorized = Inr (db1, pp)"
    and "plan_run scrub pid db1 k db2"
    and "n \<in> set (plan_nodes plan)" and "plan_view db2 pid (local_id n) = Some s"
    and "s \<in> {N_READY, N_LAUNCHING, N_RUNNING, N_SUCCEEDED, N_FAILED}" and "d \<in> set (depends_on n)"
  shows "plan_view db2 pid d = Some N_SUCCEEDED"
proof -
  note H = history_inv [OF assms(1-4)] and R = redacted_deps [OF assms(2,5)]
  have "plan_safe (map rd (plan_nodes plan)) (plan_view db2 pid)"
    using H(1,2) by (simp add: plan_store_ok_def plan_inv_def)
  moreover have "plan_view db2 pid (local_id n) \<notin> {Some N_WAITING, Some N_BLOCKED, Some N_CANCELLED}"
    using assms(6,7) by auto
  ultimately have "deps_succeeded (map rd (plan_nodes plan)) (plan_view db2 pid) (local_id n)"
    using R(2) unfolding plan_safe_def by blast
  then show ?thesis using assms(8) unfolding deps_succeeded_def R(1) by blast
qed

theorem launched_after_dependencies_witness:
  "plan_view ex_db4 ''p'' ''a'' = Some N_SUCCEEDED \<and> plan_view ex_db4 ''p'' ''b'' = Some N_READY"
proof -
  obtain pp where adm: "admit_plan id ex_fresh ex_db0 ''p'' ''r'' ex_plan [E_READ] = Inr (ex_db1, pp)"
    using ex_admitted by blast
  have b: "plan_view ex_db4 ''p'' ''b'' = Some N_READY" by code_simp
  have "plan_view ex_db4 ''p'' (local_id (mk_node ''b'' K_TOOL [''a''])) = Some N_READY"
    using b by (simp add: mk_node_def)
  from launched_after_dependencies [OF ex_keys ex_redaction adm ex_run(2) _ this, of "''a''"] b
  show ?thesis by (simp add: ex_plan_def mk_node_def)
qed

text \<open>
  C2: progress.  In any state of an admitted plan reached by transitions, either no node is
  waiting, or some node is READY, LAUNCHING or RUNNING and the next transition of that node is
  accepted: a plan never gets stuck with waiting nodes and nothing to run.
\<close>

theorem plan_never_stuck:
  assumes "plan_keys_ok db" "redaction_ok rd plan"
    and "admit_plan rd fresh db pid run_id plan authorized = Inr (db1, pp)"
    and "plan_run scrub pid db1 k db2"
    and "plan_view db2 pid x = Some N_WAITING"
  shows "\<exists>y a t nid. plan_view db2 pid y = Some a \<and> a \<in> {N_READY, N_LAUNCHING, N_RUNNING} \<and>
     node_id_of (active_rows db2 pid) y = Some nid \<and>
     is_ok (transition_plan_node_state scrub db2 pid nid a t)"
proof -
  have ok: "plan_store_ok db2 pid" by (rule history_inv(1) [OF assms(1-4)])
  then have wf: "wf_plan_store db2 pid" by (simp add: plan_store_ok_def)
  obtain y a where y: "y \<in> set (plan_ids (stored_nodes db2 pid))" "plan_view db2 pid y = Some a"
    and a: "a \<in> set active_states"
    using waiting_has_active [where S = "plan_view db2 pid" and x = x
        and ns = "stored_nodes db2 pid"] ok assms(5)
    by (auto simp: plan_store_ok_def)
  obtain r where r: "live_by_local db2 pid y = Some r"
    using live_by_local_dom [OF wf, of y] y(1) by auto
  have st: "pd_states db2 (nr_node_id r) = Some a" using y(2) r by (simp add: plan_view_wf [OF wf])
  obtain t where "(a, t) \<in> set legal_node_moves"
    using a by (auto simp: active_states_def legal_node_moves_def)
  from transition_Inr_conv [OF wf this r st] y(2) a r show ?thesis
    by (intro exI [of _ y] exI [of _ a] exI [of _ t] exI [of _ "nr_node_id r"])
      (simp add: node_id_of_wf [OF wf] active_states_def)
qed

theorem plan_never_stuck_witness:
  "plan_view ex_db2 ''p'' ''b'' = Some N_WAITING \<and>
   (\<exists>y a t nid. plan_view ex_db2 ''p'' y = Some a \<and> a \<in> {N_READY, N_LAUNCHING, N_RUNNING} \<and>
     node_id_of (active_rows ex_db2 ''p'') y = Some nid \<and>
     is_ok (transition_plan_node_state id ex_db2 ''p'' nid a t))"
proof -
  have w: "plan_view ex_db2 ''p'' ''b'' = Some N_WAITING" by code_simp
  obtain pp where adm: "admit_plan id ex_fresh ex_db0 ''p'' ''r'' ex_plan [E_READ] = Inr (ex_db1, pp)"
    using ex_admitted by blast
  from plan_never_stuck [OF ex_keys ex_redaction adm ex_run(1) w] w show ?thesis by blast
qed

text \<open>
  C3: termination.  A plan of n nodes accepts at most 4 n transitions, whatever they are; with
  C2 the execution of a plan ends with every node settled.
\<close>

theorem plan_history_bounded:
  assumes "plan_keys_ok db" "redaction_ok rd plan"
    and "admit_plan rd fresh db pid run_id plan authorized = Inr (db1, pp)"
    and "plan_run scrub pid db1 k db2"
  shows "k \<le> 4 * length (plan_nodes plan)"
  using history_inv(3) [OF assms] by simp

theorem plan_history_bounded_witness: "(3::nat) \<le> 4 * length (plan_nodes ex_plan)"
  using ex_admitted plan_history_bounded [OF ex_keys ex_redaction _ ex_run(2)] by blast

text \<open>
  C4: refinement.  An accepted transition of a well-formed store acts on the states by local
  id exactly as the abstract step: the node takes its target, a success releases precisely the
  waiting nodes whose dependencies have all succeeded, a failure blocks precisely the waiting
  transitive dependents, nothing else moves; and the store stays well formed.
\<close>

theorem transition_refines_step:
  assumes "wf_plan_store db pid"
    and "transition_plan_node_state scrub db pid nid expected target = Inr (db', cs)"
  shows "wf_plan_store db' pid \<and> stored_nodes db' pid = stored_nodes db pid \<and>
     (\<exists>l. node_id_of (active_rows db pid) l = Some nid \<and> plan_view db pid l = Some expected \<and>
        plan_view db' pid = abs_step (stored_nodes db pid) (plan_view db pid) l target)"
  using transition_abstract [OF assms] by (force simp: node_id_of_wf [OF assms(1)])

theorem transition_refines_step_witness:
  "plan_view ex_db4 ''p'' = abs_step (stored_nodes ex_db3 ''p'') (plan_view ex_db3 ''p'') ''a'' N_SUCCEEDED"
proof -
  have "plan_store_ok ex_db3 ''p''"
    using transition_store_ok(1) ex_ok1 ex_steps(1,2) by blast
  then have wf: "wf_plan_store ex_db3 ''p''" by (simp add: plan_store_ok_def)
  obtain cs where tr: "transition_plan_node_state id ex_db3 ''p'' ''n0'' N_RUNNING N_SUCCEEDED = Inr (ex_db4, cs)"
    using ex_steps(3) by blast
  from transition_refines_step [OF wf tr] obtain l where
    l: "node_id_of (active_rows ex_db3 ''p'') l = Some ''n0''"
    "plan_view ex_db4 ''p'' = abs_step (stored_nodes ex_db3 ''p'') (plan_view ex_db3 ''p'') l N_SUCCEEDED"
    by blast
  have "node_id_of (active_rows ex_db3 ''p'') ''a'' = Some ''n0''" by code_simp
  then have "l = ''a''"
    using l(1) live_by_local_inj [OF wf] by (auto simp: node_id_of_wf [OF wf])
  with l(2) show ?thesis by simp
qed

text \<open>
  A settled node never moves.  No history of transitions changes a node that is SUCCEEDED,
  FAILED, BLOCKED or CANCELLED.
\<close>

theorem settled_node_final:
  assumes "plan_store_ok db1 pid" and "plan_run scrub pid db1 k db2"
    and "plan_view db1 pid l = Some s" and "s \<in> set terminal_states"
  shows "plan_view db2 pid l = Some s"
  using assms(2,1,3)
proof (induction rule: plan_run.induct)
  case (start db)
  then show ?case by simp
next
  case (move db k db1 nid expected target db2 cs)
  then have v: "plan_view db1 pid l = Some s" and ok: "plan_store_ok db1 pid"
    using plan_run_ok [OF move.hyps(1)] by blast+
  have wf: "wf_plan_store db1 pid" using ok by (simp add: plan_store_ok_def)
  obtain l' where l': "plan_view db1 pid l' = Some expected"
    "plan_view db2 pid = abs_step (stored_nodes db1 pid) (plan_view db1 pid) l' target"
    using transition_abstract(3) [OF wf move.hyps(2)] by blast
  have "(expected, target) \<in> set legal_node_moves" by (rule transition_Inr [OF wf move.hyps(2)])
  from legal_source [OF this] have "l \<noteq> l'" using v l'(1) assms(4) by (auto simp: terminal_states_def)
  moreover have "plan_view db1 pid l \<noteq> Some N_WAITING" using v assms(4) by (auto simp: terminal_states_def)
  ultimately show ?case by (simp add: l'(2) abs_step_settled v)
qed

theorem settled_node_final_witness:
  "\<exists>cs db. transition_plan_node_state id ex_db4 ''p'' ''n1'' N_READY N_LAUNCHING = Inr (db, cs) \<and>
     plan_view db ''p'' ''a'' = Some N_SUCCEEDED"
proof -
  have ok: "plan_store_ok ex_db4 ''p''" using plan_run_ok [OF ex_run(2) ex_ok1] by blast
  have "is_ok (transition_plan_node_state id ex_db4 ''p'' ''n1'' N_READY N_LAUNCHING)" by code_simp
  from ex_move [OF this] obtain cs where
    tr: "transition_plan_node_state id ex_db4 ''p'' ''n1'' N_READY N_LAUNCHING
       = Inr (ex_step ex_db4 ''n1'' N_READY N_LAUNCHING, cs)" by blast
  have a: "plan_view ex_db4 ''p'' ''a'' = Some N_SUCCEEDED" by code_simp
  from settled_node_final [OF ok plan_run.move [OF plan_run.start tr] a] tr show ?thesis
    by (auto simp: terminal_states_def)
qed

text \<open>
  The event log.  A transition appends one event per changed node, in the order of the
  changes it reports, and keeps the sequence numbers of every run contiguous from 1.
\<close>

theorem transition_event_log:
  assumes "wf_plan_store db pid" and "\<forall>run. gapless (pd_events db) run"
    and "transition_plan_node_state scrub db pid nid expected target = Inr (db', cs)"
  shows "(\<forall>run. gapless (pd_events db') run) \<and>
     (\<exists>es. pd_events db' = pd_events db @ es \<and> map ev_node es = map (Some \<circ> fst) cs \<and>
        map ev_type es = map (\<lambda>(nid, l, st). ''plan.node_'' @ node_state_value st) cs)"
proof -
  obtain p and run :: run_row where ev: "pd_events db' = pd_events db @ change_events scrub db p (run_session run)
       (max_sequence (pd_events db) (pr_run_id p)) cs"
    by (rule transition_events [OF assms(1,3)])
  show ?thesis
    unfolding ev
  proof (intro conjI allI exI)
    show "gapless (pd_events db @ change_events scrub db p (run_session run)
        (max_sequence (pd_events db) (pr_run_id p)) cs) r" for r
      by (rule gapless_append [where owner = "pr_run_id p"])
        (use assms(2) change_events_props(1) in \<open>auto simp: change_events_seq length_change_events\<close>)
  qed (rule refl change_events_props)+
qed

theorem transition_event_log_witness:
  "gapless (pd_events ex_db4) ''r'' \<and>
   map ev_type (pd_events ex_db4) = [''plan.admitted'', ''plan.node_admitted'', ''plan.node_admitted'',
     ''plan.node_launching'', ''plan.node_running'', ''plan.node_succeeded'', ''plan.node_ready'']"
proof -
  have "plan_store_ok ex_db3 ''p''"
    using transition_store_ok(1) ex_ok1 ex_steps(1,2) by blast
  then have wf: "wf_plan_store ex_db3 ''p''" by (simp add: plan_store_ok_def)
  have "gapless (pd_events ex_db3) run" for run
  proof (cases "run = ''r''")
    case True
    have "gapless (pd_events ex_db3) ''r''" by code_simp
    with True show ?thesis by simp
  next
    case False
    have "list_all (\<lambda>e. ev_run e = ''r'') (pd_events ex_db3)" by code_simp
    with False have "run_events (pd_events ex_db3) run = []"
      by (auto simp: run_events_def filter_empty_conv list_all_iff)
    then show ?thesis by (simp add: gapless_def)
  qed
  then have g: "\<forall>run. gapless (pd_events ex_db3) run" by blast
  have t: "map ev_type (pd_events ex_db4) = [''plan.admitted'', ''plan.node_admitted'', ''plan.node_admitted'',
     ''plan.node_launching'', ''plan.node_running'', ''plan.node_succeeded'', ''plan.node_ready'']"
    by code_simp
  obtain cs where "transition_plan_node_state id ex_db3 ''p'' ''n0'' N_RUNNING N_SUCCEEDED = Inr (ex_db4, cs)"
    using ex_steps(3) by blast
  from transition_event_log [OF wf g this] t show ?thesis by blast
qed




end
