(* ===== verification/Plan_Revision.thy ===== *)
theory Plan_Revision
  imports Plan_Admission
begin

text \<open>
  \<open>Journal.revise_plan\<close> (\<open>src/src/skail/sessions/journal.py\<close>): a compare-and-set
  replacement of the current plan.  The checks are separate functions in the order the method
  runs them; the writes follow.  A Python set is a list here; where the method walks one and
  the order decides which of two errors is raised, the model walks in row or plan order.
\<close>

type_synonym node_rows = "(node_row \<times> plan_node_state) list"

definition existing_row :: "node_rows \<Rightarrow> string \<Rightarrow> (node_row \<times> plan_node_state) option" where
  "existing_row rows l = List.find (\<lambda>(r, s). nr_local_id r = l) rows"

definition row_locals :: "node_rows \<Rightarrow> string list" where
  "row_locals rows = map (nr_local_id \<circ> fst) rows"

section \<open>Checks\<close>

definition revision_checks :: "plan_delta \<Rightarrow> execution_plan \<Rightarrow> effect_scope list \<Rightarrow> unit res" where
  "revision_checks rv plan authorized =
     (if evidence_refs rv = []
        then Inl (FrameworkContractError ''plan.revision_evidence_required'')
      else res_bind (plan_versions_ok plan) (\<lambda>_.
        if plan_revision plan \<noteq> expected_revision rv + 1
          then Inl (FrameworkContractError ''plan.revision_invalid'')
        else raise_if (list_ex (\<lambda>n. effect_scope n \<notin> set authorized) (plan_nodes plan))
               (FrameworkContractError ''plan.effect_unauthorized'')))"

definition delta_describes :: "node_rows \<Rightarrow> plan_node list \<Rightarrow> plan_delta \<Rightarrow> bool" where
  "delta_describes rows wanted rv \<longleftrightarrow>
     (let ex = set (row_locals rows); wa = set (plan_ids wanted);
          repl = set (replaced_local_ids rv); canc = set (cancelled_local_ids rv);
          decl = added_nodes rv
      in distinct (plan_ids decl) \<and>
         set (plan_ids decl) = wa - ex \<and>
         (\<forall>n \<in> set decl. node_by_local wanted (local_id n) = Some n) \<and>
         distinct (replaced_local_ids rv) \<and> distinct (cancelled_local_ids rv) \<and>
         repl \<inter> canc = {} \<and> ex - wa = repl \<and> repl \<subseteq> ex \<and> canc \<subseteq> ex \<and> canc \<subseteq> wa)"

definition lineage_of :: "plan_node \<Rightarrow> string" where
  "lineage_of n = (case task_lineage n of Some t \<Rightarrow> if t = [] then local_id n else t
                   | None \<Rightarrow> local_id n)"

fun lineage_checks :: "plan_node list \<Rightarrow> plan_node list \<Rightarrow> string list \<Rightarrow> unit res" where
  "lineage_checks prev added [] = Inr ()"
| "lineage_checks prev added (l # ls) =
     (case node_by_local prev l of
        None \<Rightarrow> Inl (KeyError l)
      | Some n \<Rightarrow>
          if node_kind n = K_AGENT \<and>
             \<not> list_ex (\<lambda>a. node_kind a = K_AGENT \<and> task_lineage a = Some (lineage_of n)) added
            then Inl (FrameworkContractError ''plan.replacement_lineage_required'')
          else lineage_checks prev added ls)"

fun rewrite_checks :: "plan_node list \<Rightarrow> node_rows \<Rightarrow> unit res" where
  "rewrite_checks wanted [] = Inr ()"
| "rewrite_checks wanted ((r, s) # rows) =
     (case node_by_local wanted (nr_local_id r) of
        None \<Rightarrow> rewrite_checks wanted rows
      | Some n \<Rightarrow>
          if nr_payload r \<noteq> n then
            Inl (FrameworkContractError
              (if s \<in> set terminal_states then ''plan.completed_node_immutable''
               else ''plan.revision_mutation_requires_replacement''))
          else rewrite_checks wanted rows)"

definition evidence_for :: "string \<Rightarrow> string" where
  "evidence_for d = ''plan-node:'' @ d @ '':succeeded''"

definition node_status :: "node_rows \<Rightarrow> string \<Rightarrow> plan_node_state option" where
  "node_status rows l = map_option snd (existing_row rows l)"

text \<open>A revision that changes nothing acknowledges the one running checkpoint.\<close>

definition checkpoint_checks :: "plan_node list \<Rightarrow> node_rows \<Rightarrow> string list \<Rightarrow> unit res" where
  "checkpoint_checks prev rows evidence =
     (case filter (\<lambda>n. node_kind n = K_CHECKPOINT \<and>
                       node_status rows (local_id n) = Some N_RUNNING) prev of
        [c] \<Rightarrow>
          raise_if (depends_on c = [] \<or>
              \<not> set (map evidence_for (depends_on c)) \<subseteq> set evidence \<or>
              list_ex (\<lambda>d. node_status rows d \<noteq> Some N_SUCCEEDED) (depends_on c))
            (FrameworkContractError ''plan.checkpoint_evidence_incomplete'')
      | _ \<Rightarrow> Inl (FrameworkContractError ''plan.revision_no_progress''))"

section \<open>Writes\<close>

fun cancel_nodes :: "node_rows \<Rightarrow> string list \<Rightarrow> plan_db \<Rightarrow> plan_db res" where
  "cancel_nodes rows [] db = Inr db"
| "cancel_nodes rows (l # ls) db =
     (case existing_row rows l of
        None \<Rightarrow> Inl (KeyError l)
      | Some (r, s) \<Rightarrow>
          if s \<in> set terminal_states
            then Inl (FrameworkContractError ''plan.completed_node_immutable'')
          else cancel_nodes rows ls
                 (db\<lparr>pd_states := (pd_states db)(nr_node_id r \<mapsto> N_CANCELLED)\<rparr>))"

fun block_nodes :: "node_rows \<Rightarrow> string list \<Rightarrow> plan_db \<Rightarrow> plan_db res" where
  "block_nodes rows [] db = Inr db"
| "block_nodes rows (l # ls) db =
     (case existing_row rows l of
        None \<Rightarrow> Inl (KeyError l)
      | Some (r, s) \<Rightarrow>
          if s \<in> set terminal_states then block_nodes rows ls db
          else block_nodes rows ls
                 (db\<lparr>pd_states := (pd_states db)(nr_node_id r \<mapsto> N_BLOCKED)\<rparr>))"

definition retire_nodes :: "node_rows \<Rightarrow> string list \<Rightarrow> int \<Rightarrow> plan_db \<Rightarrow> plan_db" where
  "retire_nodes rows ls revision db =
     (let ids = List.map_filter (\<lambda>l. map_option (nr_node_id \<circ> fst) (existing_row rows l)) ls
      in db\<lparr>pd_nodes := map (\<lambda>r. if nr_node_id r \<in> set ids
               then r\<lparr>nr_retired := Some revision\<rparr> else r) (pd_nodes db)\<rparr>)"

definition revised_state :: "(string \<Rightarrow> plan_node_state option) \<Rightarrow> plan_node \<Rightarrow> plan_node_state" where
  "revised_state act n =
     (if list_all (\<lambda>d. act d = Some N_SUCCEEDED) (depends_on n) then N_READY else N_WAITING)"

fun insert_revised ::
  "(plan_node \<Rightarrow> plan_node) \<Rightarrow> (nat \<Rightarrow> string) \<Rightarrow> string \<Rightarrow> string list \<Rightarrow> nat \<Rightarrow>
     (string \<Rightarrow> plan_node_state option) \<Rightarrow> plan_node list \<Rightarrow> plan_db \<Rightarrow> plan_db res" where
  "insert_revised rd fresh pid ex i act [] db = Inr db"
| "insert_revised rd fresh pid ex i act (n # ns) db =
     (if local_id n \<in> set ex then insert_revised rd fresh pid ex i act ns db
      else
        res_bind (insert_node db (fresh i) pid (local_id n) (rd n) (revised_state act n))
          (insert_revised rd fresh pid ex (i + 1) (act(local_id n \<mapsto> revised_state act n)) ns))"

definition set_current :: "string \<Rightarrow> execution_plan \<Rightarrow> plan_db \<Rightarrow> plan_db" where
  "set_current pid payload db =
     db\<lparr>pd_plans := map (\<lambda>p. if pr_plan_id p = pid
          then p\<lparr>pr_current := plan_revision payload, pr_payload := payload\<rparr> else p) (pd_plans db)\<rparr>"

definition record_revision :: "string \<Rightarrow> int \<Rightarrow> int \<Rightarrow> plan_row \<Rightarrow> plan_db \<Rightarrow> plan_db res" where
  "record_revision pid revision expected p db =
     (if list_ex (\<lambda>v. rv_plan v = pid \<and> rv_revision v = revision) (pd_revisions db)
        then Inl (IntegrityError ''plan_revisions'')
      else
        (case pd_runs db (pr_run_id p) of
           None \<Rightarrow> Inl (ValueError ''owner'')
         | Some run \<Rightarrow>
             Inr (db\<lparr>pd_revisions := pd_revisions db @
                       [\<lparr>rv_plan = pid, rv_revision = revision, rv_expected = expected\<rparr>],
                     pd_events := pd_events db @
                       plan_events (pr_run_id p) (run_session run) pid revision
                         (max_sequence (pd_events db) (pr_run_id p)) [(''plan.revised'', None)]\<rparr>)))"

definition revise_writes ::
  "(plan_node \<Rightarrow> plan_node) \<Rightarrow> (nat \<Rightarrow> string) \<Rightarrow> plan_db \<Rightarrow> plan_row \<Rightarrow> plan_node list \<Rightarrow>
     plan_delta \<Rightarrow> execution_plan \<Rightarrow> plan_db res" where
  "revise_writes rd fresh db p prev rv plan =
     (let pid = pr_plan_id p; rows = active_rows db pid;
          doomed = filter (\<lambda>l. l \<notin> set (cancelled_local_ids rv))
                     (blocked_closure (deps_of prev) (plan_ids prev) (cancelled_local_ids rv))
      in res_bind (cancel_nodes rows (replaced_local_ids rv @ cancelled_local_ids rv) db) (\<lambda>db1.
         res_bind (block_nodes rows doomed db1) (\<lambda>db2.
         let db3 = retire_nodes rows (replaced_local_ids rv) (plan_revision plan) db2 in
         res_bind (insert_revised rd fresh pid (row_locals rows) 0
                     (local_states (active_rows db3 pid)) (plan_nodes plan) db3) (\<lambda>db4.
         record_revision pid (plan_revision plan) (expected_revision rv) p
           (set_current pid (redact_plan rd plan) db4)))))"

definition revise_commit ::
  "(plan_node \<Rightarrow> plan_node) \<Rightarrow> (nat \<Rightarrow> string) \<Rightarrow> plan_db \<Rightarrow> string \<Rightarrow> plan_delta \<Rightarrow>
     execution_plan \<Rightarrow> effect_scope list \<Rightarrow> plan_db res" where
  "revise_commit rd fresh db pid rv plan authorized =
     res_bind (revision_checks rv plan authorized) (\<lambda>_.
     (case plan_by_id db pid of
        None \<Rightarrow> Inl (KeyError pid)
      | Some p \<Rightarrow>
          if pr_current p \<noteq> expected_revision rv
            then Inl (FrameworkContractError ''plan.revision_conflict'')
          else res_bind (load_plan (pr_payload p)) (\<lambda>previous.
            let rows = active_rows db pid; prev = plan_nodes previous in
            if \<not> delta_describes rows (plan_nodes plan) rv
              then Inl (FrameworkContractError ''plan.revision_delta_invalid'')
            else
              res_bind (lineage_checks prev (added_nodes rv) (replaced_local_ids rv)) (\<lambda>_.
              res_bind (rewrite_checks (plan_nodes plan) rows) (\<lambda>_.
              res_bind (if added_nodes rv = [] \<and> replaced_local_ids rv = [] \<and>
                           cancelled_local_ids rv = []
                        then checkpoint_checks prev rows (evidence_refs rv) else Inr ()) (\<lambda>_.
              revise_writes rd fresh db p prev rv plan))))))"

text \<open>The method commits first and reads the plan back afterwards.\<close>

definition revise_plan ::
  "(plan_node \<Rightarrow> plan_node) \<Rightarrow> (nat \<Rightarrow> string) \<Rightarrow> plan_db \<Rightarrow> string \<Rightarrow> plan_delta \<Rightarrow>
     execution_plan \<Rightarrow> effect_scope list \<Rightarrow> plan_db \<times> persisted_plan res" where
  "revise_plan rd fresh db pid rv plan authorized =
     (case revise_commit rd fresh db pid rv plan authorized of
        Inl e \<Rightarrow> (db, Inl e)
      | Inr db' \<Rightarrow> (db', get_plan db' pid))"


section \<open>The writes, one by one\<close>

definition ids_of :: "node_rows \<Rightarrow> string list \<Rightarrow> string set" where
  "ids_of rows ls = {nid. \<exists>l \<in> set ls. node_id_of rows l = Some nid}"

lemma ids_of_simps [simp]:
  "ids_of rows [] = {}"
  "node_id_of rows l = Some nid \<Longrightarrow> ids_of rows (l # ls) = insert nid (ids_of rows ls)"
  "node_id_of rows l = None \<Longrightarrow> ids_of rows (l # ls) = ids_of rows ls"
  by (auto simp: ids_of_def)

lemma node_id_of_existing:
  "node_id_of rows l = map_option (\<lambda>(r, s). nr_node_id r) (existing_row rows l)"
  by (simp add: node_id_of_def existing_row_def)

definition only_states :: "plan_db \<Rightarrow> plan_db \<Rightarrow> bool" where
  "only_states db db' \<longleftrightarrow> pd_nodes db' = pd_nodes db \<and> pd_plans db' = pd_plans db \<and>
     pd_runs db' = pd_runs db \<and> pd_revisions db' = pd_revisions db \<and> pd_events db' = pd_events db"

lemma only_states_simps [simp]:
  "only_states db db" "only_states (db\<lparr>pd_states := S\<rparr>) db' \<longleftrightarrow> only_states db db'"
  by (simp_all add: only_states_def)

lemma cancel_nodes_Inr:
  "cancel_nodes rows ls db = Inr db' \<Longrightarrow>
     (\<forall>l \<in> set ls. \<exists>s. node_status rows l = Some s \<and> s \<notin> set terminal_states) \<and>
     only_states db db' \<and>
     (\<forall>x. pd_states db' x = (if x \<in> ids_of rows ls then Some N_CANCELLED else pd_states db x))"
proof (induction ls arbitrary: db)
  case Nil
  then show ?case by simp
next
  case (Cons l ls)
  then obtain r s where ex: "existing_row rows l = Some (r, s)" and s: "s \<notin> set terminal_states"
    by (auto split: option.splits if_splits)
  let ?d = "db\<lparr>pd_states := (pd_states db)(nr_node_id r \<mapsto> N_CANCELLED)\<rparr>"
  have "cancel_nodes rows ls ?d = Inr db'" using Cons.prems ex s by simp
  from Cons.IH [OF this] ex s show ?case
    by (auto simp: node_status_def node_id_of_existing)
qed

lemma block_nodes_Inr:
  "block_nodes rows ls db = Inr db' \<Longrightarrow>
     only_states db db' \<and>
     (\<forall>x. pd_states db' x =
        (if x \<in> ids_of rows (filter (\<lambda>l. \<forall>s \<in> set terminal_states. node_status rows l \<noteq> Some s) ls)
         then Some N_BLOCKED else pd_states db x))"
proof (induction ls arbitrary: db)
  case Nil
  then show ?case by simp
next
  case (Cons l ls)
  then obtain r s where ex: "existing_row rows l = Some (r, s)"
    by (auto split: option.splits)
  let ?d = "if s \<in> set terminal_states then db
            else db\<lparr>pd_states := (pd_states db)(nr_node_id r \<mapsto> N_BLOCKED)\<rparr>"
  have "block_nodes rows ls ?d = Inr db'" using Cons.prems ex by (auto split: if_splits)
  from Cons.IH [OF this] ex show ?case
    by (auto simp: node_status_def node_id_of_existing split: if_splits)
qed

lemma insert_revised_Inr:
  "insert_revised rd fresh pid ex i act ns db = Inr db' \<Longrightarrow>
   (\<And>l. l \<notin> set ex \<Longrightarrow> act l \<noteq> Some N_SUCCEEDED) \<Longrightarrow>
   \<exists>ps. map fst ps = filter (\<lambda>n. local_id n \<notin> set ex) ns \<and>
     pd_nodes db' = pd_nodes db @ map (new_row rd pid) ps \<and>
     distinct (map snd ps) \<and> snd ` set ps \<inter> nr_node_id ` set (pd_nodes db) = {} \<and>
     (\<forall>p \<in> set ps. pd_states db' (snd p) = Some (revised_state act (fst p))) \<and>
     (\<forall>x. x \<notin> snd ` set ps \<longrightarrow> pd_states db' x = pd_states db x) \<and>
     pd_plans db' = pd_plans db \<and> pd_runs db' = pd_runs db \<and> pd_revisions db' = pd_revisions db \<and>
     pd_events db' = pd_events db"
proof (induction rd fresh pid ex i act ns db rule: insert_revised.induct)
  case (1 rd fresh pid ex i act db)
  then show ?case by (intro exI [of _ "[]"]) simp
next
  case (2 rd fresh pid ex i act n ns db)
  show ?case
  proof (cases "local_id n \<in> set ex")
    case True
    with 2 show ?thesis by simp
  next
    case False
    let ?s = "revised_state act n"
    let ?act = "act(local_id n \<mapsto> ?s)"
    from 2(3) False obtain d1 where
      d1: "insert_node db (fresh i) pid (local_id n) (rd n) ?s = Inr d1"
      and rest: "insert_revised rd fresh pid ex (i + 1) ?act ns d1 = Inr db'"
      by (auto simp: res_simps)
    have s: "?s \<noteq> N_SUCCEEDED" by (simp add: revised_state_def)
    then have "?act l \<noteq> Some N_SUCCEEDED" if "l \<notin> set ex" for l using 2(4) [OF that] by simp
    from 2(2) [OF False rest this] obtain ps where ps:
      "map fst ps = filter (\<lambda>n. local_id n \<notin> set ex) ns"
      "pd_nodes db' = pd_nodes d1 @ map (new_row rd pid) ps" "distinct (map snd ps)"
      "snd ` set ps \<inter> nr_node_id ` set (pd_nodes d1) = {}"
      "\<forall>p \<in> set ps. pd_states db' (snd p) = Some (revised_state ?act (fst p))"
      "\<forall>x. x \<notin> snd ` set ps \<longrightarrow> pd_states db' x = pd_states d1 x"
      "pd_plans db' = pd_plans d1" "pd_runs db' = pd_runs d1" "pd_revisions db' = pd_revisions d1"
      "pd_events db' = pd_events d1"
      by blast
    have eq: "revised_state ?act m = revised_state act m" for m
      using s 2(4) [OF False] by (auto simp: revised_state_def list_all_iff)
    from d1 have d1': "pd_nodes d1 = pd_nodes db @ [new_row rd pid (n, fresh i)]"
      "pd_states d1 = (pd_states db)(fresh i \<mapsto> ?s)" "pd_plans d1 = pd_plans db"
      "pd_runs d1 = pd_runs db" "pd_revisions d1 = pd_revisions db" "pd_events d1 = pd_events db"
      "fresh i \<notin> nr_node_id ` set (pd_nodes db)"
      by (auto simp: insert_node_def new_row_def list_ex_iff split: if_splits)
    have "fresh i \<notin> snd ` set ps" using ps(4) d1' by auto
    with ps d1' False show ?thesis
      by (intro exI [of _ "(n, fresh i) # ps"]) (auto simp: eq)
  qed
qed

section \<open>The revised plan\<close>

text \<open>
  The states after an accepted revision: a kept node is cancelled on request, blocked when it
  depends on a cancelled one and was not yet settled, and otherwise untouched; an added node is
  READY when all its dependencies had succeeded.
\<close>

definition revised_view ::
  "plan_node list \<Rightarrow> plan_node list \<Rightarrow> node_states \<Rightarrow> string list \<Rightarrow> node_states" where
  "revised_view ns ws S canc l =
     (if l \<notin> set (plan_ids ws) then None
      else (case S l of
          Some s \<Rightarrow>
            if l \<in> set canc then Some N_CANCELLED
            else if s \<notin> set terminal_states \<and>
                    l \<in> dependents (deps_of ns) (set (plan_ids ns)) (set canc)
              then Some N_BLOCKED
            else Some s
        | None \<Rightarrow>
            if \<forall>d \<in> set (deps_of ws l). S d = Some N_SUCCEEDED then Some N_READY
            else Some N_WAITING))"

lemma retire_nodes_simps:
  "retire_nodes rows ls v db = db\<lparr>pd_nodes := map (\<lambda>r. if nr_node_id r \<in> ids_of rows ls
       then r\<lparr>nr_retired := Some v\<rparr> else r) (pd_nodes db)\<rparr>"
proof -
  have "set (List.map_filter (\<lambda>l. map_option (nr_node_id \<circ> fst) (existing_row rows l)) ls)
      = ids_of rows ls"
    by (force simp: set_map_filter ids_of_def node_id_of_existing case_prod_beta)
  then show ?thesis by (simp add: retire_nodes_def)
qed

lemma record_revision_Inr:
  "record_revision pid v e p db = Inr db' \<Longrightarrow>
     pd_nodes db' = pd_nodes db \<and> pd_states db' = pd_states db \<and> pd_plans db' = pd_plans db \<and>
     pd_runs db' = pd_runs db \<and> pd_runs db (pr_run_id p) \<noteq> None"
  by (auto simp: record_revision_def split: if_splits option.splits)

lemma set_current_simps:
  "pd_nodes (set_current pid pl db) = pd_nodes db" "pd_states (set_current pid pl db) = pd_states db"
  "pd_runs (set_current pid pl db) = pd_runs db"
  by (simp_all add: set_current_def)

lemma plan_by_id_set_current:
  "plan_by_id (set_current pid pl db) pid =
     map_option (\<lambda>p. p\<lparr>pr_current := plan_revision pl, pr_payload := pl\<rparr>) (plan_by_id db pid)"
proof -
  have "List.find (\<lambda>p. pr_plan_id p = pid) (map (\<lambda>p. if pr_plan_id p = pid
          then p\<lparr>pr_current := c, pr_payload := pl\<rparr> else p) ps)
      = map_option (\<lambda>p. p\<lparr>pr_current := c, pr_payload := pl\<rparr>)
          (List.find (\<lambda>p. pr_plan_id p = pid) ps)" for ps c
    by (induction ps) auto
  then show ?thesis by (simp add: plan_by_id_def set_current_def)
qed

lemma revise_commit_Inr:
  assumes "revise_commit rd fresh db pid rv plan authorized = Inr db'"
  obtains p where "plan_by_id db pid = Some p" "pr_current p = expected_revision rv"
    "load_plan (pr_payload p) = Inr (pr_payload p)"
    "delta_describes (active_rows db pid) (plan_nodes plan) rv"
    "rewrite_checks (plan_nodes plan) (active_rows db pid) = Inr ()"
    "revise_writes rd fresh db p (plan_nodes (pr_payload p)) rv plan = Inr db'"
    "revision_checks rv plan authorized = Inr ()"
  using assms
  by (auto simp: revise_commit_def res_simps Let_def load_plan_iff split: option.splits if_splits)

lemma rewrite_checks_Inr:
  "rewrite_checks ws rows = Inr u \<Longrightarrow> (r, s) \<in> set rows \<Longrightarrow>
     node_by_local ws (nr_local_id r) = Some n \<Longrightarrow> nr_payload r = n"
  by (induction ws rows rule: rewrite_checks.induct) (auto split: option.splits if_splits)


section \<open>The effect of an accepted revision\<close>

lemma map_of_pairs:
  "map_of (map (\<lambda>(r, s). (k r, s)) rows) l = map_option snd (List.find (\<lambda>(r, s). k r = l) rows)"
  by (induction rows) auto

lemma node_status_view: "node_status (active_rows db pid) l = plan_view db pid l"
  by (simp add: node_status_def existing_row_def plan_view_def local_states_def map_of_pairs)

lemma view_iff:
  assumes st: "\<forall>r \<in> set (pd_nodes db). pd_states db (nr_node_id r) \<noteq> None"
    and d: "distinct (map nr_local_id (live_nodes db pid))"
  shows "plan_view db pid l = Some s \<longleftrightarrow>
     (\<exists>r \<in> set (live_nodes db pid). nr_local_id r = l \<and> pd_states db (nr_node_id r) = Some s)"
proof -
  have "plan_view db pid l = map_option (\<lambda>r. the (pd_states db (nr_node_id r)))
          (List.find (\<lambda>r. nr_local_id r = l) (live_nodes db pid))"
    by (simp add: plan_view_def local_states_def active_rows_alt [OF st] comp_def map_of_find)
  moreover have "r \<in> set (live_nodes db pid) \<Longrightarrow> pd_states db (nr_node_id r) \<noteq> None" for r
    using st by (auto simp: live_nodes_def)
  moreover have "List.find (\<lambda>r. nr_local_id r = l) (live_nodes db pid) = Some r \<longleftrightarrow>
      r \<in> set (live_nodes db pid) \<and> nr_local_id r = l" for r
    using find_distinct [OF d] by (auto dest: find_Some_in)
  ultimately show ?thesis
    by (cases "List.find (\<lambda>r. nr_local_id r = l) (live_nodes db pid)")
      (simp add: find_None_iff2, force)
qed

lemma wf_live:
  assumes "wf_plan_store db pid"
  shows "\<forall>r \<in> set (pd_nodes db). pd_states db (nr_node_id r) \<noteq> None"
    and "distinct (map nr_local_id (live_nodes db pid))"
    and "nr_local_id ` set (live_nodes db pid) = set (plan_ids (stored_nodes db pid))"
    and "row_locals (active_rows db pid) = map nr_local_id (live_nodes db pid)"
proof -
  show "\<forall>r \<in> set (pd_nodes db). pd_states db (nr_node_id r) \<noteq> None"
    using wf_plan_storeD(2) [OF assms] by blast
  have eq: "map (nr_local_id \<circ> fst) (active_rows db pid) = map nr_local_id (live_nodes db pid)"
    by (simp add: wf_active_rows [OF assms] comp_def)
  then show "row_locals (active_rows db pid) = map nr_local_id (live_nodes db pid)"
    by (simp add: row_locals_def)
  show "distinct (map nr_local_id (live_nodes db pid))"
    using wf_plan_storeD(3) [OF assms] eq by simp
  show "nr_local_id ` set (live_nodes db pid) = set (plan_ids (stored_nodes db pid))"
    using wf_plan_storeD(4) [OF assms] arg_cong [OF eq, of set] by (simp only: set_map)
qed

lemma ids_of_live:
  assumes wf: "wf_plan_store db pid" and r: "r \<in> set (live_nodes db pid)"
  shows "nr_node_id r \<in> ids_of (active_rows db pid) ls \<longleftrightarrow> nr_local_id r \<in> set ls"
proof -
  have live: "live_by_local db pid (nr_local_id r) = Some r"
    using r by (simp add: live_by_local_iff [OF wf])
  show ?thesis
  proof
    assume "nr_node_id r \<in> ids_of (active_rows db pid) ls"
    then obtain l r' where "l \<in> set ls" "live_by_local db pid l = Some r'" "nr_node_id r' = nr_node_id r"
      by (auto simp: ids_of_def node_id_of_wf [OF wf])
    with live_by_local_inj [OF wf this(2) live] show "nr_local_id r \<in> set ls" by simp
  next
    assume "nr_local_id r \<in> set ls"
    with live show "nr_node_id r \<in> ids_of (active_rows db pid) ls"
      by (auto simp: ids_of_def node_id_of_wf [OF wf])
  qed
qed

lemma live_retire:
  "live_nodes (db\<lparr>pd_nodes := map (\<lambda>r. if nr_node_id r \<in> B then r\<lparr>nr_retired := Some v\<rparr> else r)
       (pd_nodes db)\<rparr>) pid = filter (\<lambda>r. nr_node_id r \<notin> B) (live_nodes db pid)"
proof -
  have "filter (\<lambda>r. nr_plan_id r = pid \<and> nr_retired r = None)
      (map (\<lambda>r. if nr_node_id r \<in> B then r\<lparr>nr_retired := Some v\<rparr> else r) rs)
    = filter (\<lambda>r. nr_node_id r \<notin> B) (filter (\<lambda>r. nr_plan_id r = pid \<and> nr_retired r = None) rs)"
    for rs by (induction rs) auto
  then show ?thesis by (simp add: live_nodes_def)
qed

lemma live_nodes_cong: "pd_nodes db' = pd_nodes db \<Longrightarrow> live_nodes db' pid = live_nodes db pid"
  by (simp add: live_nodes_def)

definition doomed_ids :: "plan_node list \<Rightarrow> node_states \<Rightarrow> string list \<Rightarrow> string list" where
  "doomed_ids ns S canc =
     filter (\<lambda>l. \<forall>s \<in> set terminal_states. S l \<noteq> Some s)
       (filter (\<lambda>l. l \<notin> set canc) (blocked_closure (deps_of ns) (plan_ids ns) canc))"

text \<open>The tables after the writes: states, retired rows, new rows.\<close>

lemma revise_tables:
  assumes wf: "wf_plan_store db pid"
    and rc: "revise_commit rd fresh db pid rv plan authorized = Inr db'"
  obtains p ps db3 where
    "plan_by_id db pid = Some p" "pr_current p = expected_revision rv"
    "plan_by_id db' pid = Some (p\<lparr>pr_current := plan_revision plan, pr_payload := redact_plan rd plan\<rparr>)"
    "pd_runs db' (pr_run_id p) \<noteq> None"
    "\<forall>l \<in> set (replaced_local_ids rv @ cancelled_local_ids rv). \<exists>s.
        plan_view db pid l = Some s \<and> s \<notin> set terminal_states"
    "\<forall>x. pd_states db3 x =
       (if x \<in> ids_of (active_rows db pid)
                 (doomed_ids (stored_nodes db pid) (plan_view db pid) (cancelled_local_ids rv))
        then Some N_BLOCKED
        else if x \<in> ids_of (active_rows db pid) (replaced_local_ids rv @ cancelled_local_ids rv)
        then Some N_CANCELLED else pd_states db x)"
    "pd_nodes db3 = map (\<lambda>r. if nr_node_id r \<in> ids_of (active_rows db pid) (replaced_local_ids rv)
       then r\<lparr>nr_retired := Some (plan_revision plan)\<rparr> else r) (pd_nodes db)"
    "(\<And>l. l \<notin> set (row_locals (active_rows db pid)) \<Longrightarrow> plan_view db3 pid l \<noteq> Some N_SUCCEEDED) \<Longrightarrow>
       map fst ps = filter (\<lambda>n. local_id n \<notin> set (row_locals (active_rows db pid))) (plan_nodes plan) \<and>
       pd_nodes db' = pd_nodes db3 @ map (new_row rd pid) ps \<and>
       distinct (map snd ps) \<and> snd ` set ps \<inter> nr_node_id ` set (pd_nodes db3) = {} \<and>
       (\<forall>q \<in> set ps. pd_states db' (snd q) = Some (revised_state (plan_view db3 pid) (fst q))) \<and>
       (\<forall>x. x \<notin> snd ` set ps \<longrightarrow> pd_states db' x = pd_states db3 x)"
proof -
  obtain p where p: "plan_by_id db pid = Some p" "pr_current p = expected_revision rv"
    and w: "revise_writes rd fresh db p (plan_nodes (pr_payload p)) rv plan = Inr db'"
    by (rule revise_commit_Inr [OF rc])
  have pid: "pr_plan_id p = pid" using p(1) by (auto simp: plan_by_id_def dest: find_Some_in)
  have sn: "stored_nodes db pid = plan_nodes (pr_payload p)" by (simp add: stored_nodes_def p)
  let ?rows = "active_rows db pid"
  let ?doomed = "filter (\<lambda>l. l \<notin> set (cancelled_local_ids rv))
      (blocked_closure (deps_of (plan_nodes (pr_payload p))) (plan_ids (plan_nodes (pr_payload p)))
        (cancelled_local_ids rv))"
  from w obtain db1 db2 db4 where
    c: "cancel_nodes ?rows (replaced_local_ids rv @ cancelled_local_ids rv) db = Inr db1" and
    b: "block_nodes ?rows ?doomed db1 = Inr db2" and
    i: "insert_revised rd fresh pid (row_locals ?rows) 0
         (local_states (active_rows (retire_nodes ?rows (replaced_local_ids rv) (plan_revision plan) db2) pid))
         (plan_nodes plan) (retire_nodes ?rows (replaced_local_ids rv) (plan_revision plan) db2) = Inr db4" and
    rr: "record_revision pid (plan_revision plan) (expected_revision rv) p
         (set_current pid (redact_plan rd plan) db4) = Inr db'"
    by (auto simp: revise_writes_def Let_def res_simps pid)
  let ?db3 = "retire_nodes ?rows (replaced_local_ids rv) (plan_revision plan) db2"
  note C = cancel_nodes_Inr [OF c] and B = block_nodes_Inr [OF b]
    and R = record_revision_Inr [OF rr, unfolded set_current_simps]
  have dm: "filter (\<lambda>l. \<forall>s \<in> set terminal_states. node_status ?rows l \<noteq> Some s) ?doomed
      = doomed_ids (stored_nodes db pid) (plan_view db pid) (cancelled_local_ids rv)"
    by (simp add: doomed_ids_def sn node_status_view)
  have n2: "pd_nodes db2 = pd_nodes db" "pd_plans db2 = pd_plans db"
    using C B by (simp_all add: only_states_def)
  note I = insert_revised_Inr [OF i]
  have I2: "\<exists>ps. (\<forall>l. l \<notin> set (row_locals ?rows) \<longrightarrow> plan_view ?db3 pid l \<noteq> Some N_SUCCEEDED) \<longrightarrow>
       map fst ps = filter (\<lambda>n. local_id n \<notin> set (row_locals ?rows)) (plan_nodes plan) \<and>
       pd_nodes db' = pd_nodes ?db3 @ map (new_row rd pid) ps \<and>
       distinct (map snd ps) \<and> snd ` set ps \<inter> nr_node_id ` set (pd_nodes ?db3) = {} \<and>
       (\<forall>q \<in> set ps. pd_states db' (snd q) = Some (revised_state (plan_view ?db3 pid) (fst q))) \<and>
       (\<forall>x. x \<notin> snd ` set ps \<longrightarrow> pd_states db' x = pd_states ?db3 x)"
  proof (cases "\<forall>l. l \<notin> set (row_locals ?rows) \<longrightarrow> plan_view ?db3 pid l \<noteq> Some N_SUCCEEDED")
    case True
    then have "l \<notin> set (row_locals ?rows) \<Longrightarrow>
        local_states (active_rows ?db3 pid) l \<noteq> Some N_SUCCEEDED" for l
      by (simp add: plan_view_def)
    note I1 = I [OF this, folded plan_view_def]
    have Rn: "pd_nodes db' = pd_nodes db4" and Rs: "pd_states db' = pd_states db4" using R by simp_all
    show ?thesis unfolding Rn Rs using I1 by blast
  next
    case False
    then show ?thesis by blast
  qed
  have plans4: "pd_plans db4 = pd_plans db"
  proof -
    have "insert_revised rd fresh pid ex k act ns d = Inr d' \<Longrightarrow> pd_plans d' = pd_plans d"
      for ex k act ns d d'
      by (induction rd fresh pid ex k act ns d rule: insert_revised.induct)
        (auto simp: res_simps insert_node_def split: if_splits)
    from this [OF i] show ?thesis by (simp add: retire_nodes_simps n2)
  qed
  have pl: "plan_by_id db' pid
      = Some (p\<lparr>pr_current := plan_revision plan, pr_payload := redact_plan rd plan\<rparr>)"
  proof -
    have "plan_by_id db' pid = plan_by_id (set_current pid (redact_plan rd plan) db4) pid"
      using R by (simp add: plan_by_id_def)
    also have "plan_by_id db4 pid = Some p" using p(1) plans4 by (simp add: plan_by_id_def)
    then have "plan_by_id (set_current pid (redact_plan rd plan) db4) pid
        = Some (p\<lparr>pr_current := plan_revision plan, pr_payload := redact_plan rd plan\<rparr>)"
      by (simp add: plan_by_id_set_current redact_plan_def)
    finally show ?thesis .
  qed
  from I2 obtain ps where ps: "(\<And>l. l \<notin> set (row_locals ?rows) \<Longrightarrow> plan_view ?db3 pid l \<noteq> Some N_SUCCEEDED) \<Longrightarrow>
       map fst ps = filter (\<lambda>n. local_id n \<notin> set (row_locals ?rows)) (plan_nodes plan) \<and>
       pd_nodes db' = pd_nodes ?db3 @ map (new_row rd pid) ps \<and>
       distinct (map snd ps) \<and> snd ` set ps \<inter> nr_node_id ` set (pd_nodes ?db3) = {} \<and>
       (\<forall>q \<in> set ps. pd_states db' (snd q) = Some (revised_state (plan_view ?db3 pid) (fst q))) \<and>
       (\<forall>x. x \<notin> snd ` set ps \<longrightarrow> pd_states db' x = pd_states ?db3 x)"
    by blast
  show ?thesis
  proof (rule that [OF p pl _ _ _ _ ps])
    show "pd_runs db' (pr_run_id p) \<noteq> None" using R by simp
    show "\<forall>l \<in> set (replaced_local_ids rv @ cancelled_local_ids rv). \<exists>s.
        plan_view db pid l = Some s \<and> s \<notin> set terminal_states"
      using C by (simp add: node_status_view)
    show "\<forall>x. pd_states ?db3 x =
       (if x \<in> ids_of ?rows (doomed_ids (stored_nodes db pid) (plan_view db pid) (cancelled_local_ids rv))
        then Some N_BLOCKED
        else if x \<in> ids_of ?rows (replaced_local_ids rv @ cancelled_local_ids rv)
        then Some N_CANCELLED else pd_states db x)"
      using C B unfolding dm by (simp add: retire_nodes_simps)
    show "pd_nodes ?db3 = map (\<lambda>r. if nr_node_id r \<in> ids_of ?rows (replaced_local_ids rv)
       then r\<lparr>nr_retired := Some (plan_revision plan)\<rparr> else r) (pd_nodes db)"
      by (simp add: retire_nodes_simps n2)
  qed
qed


lemma delta_describesD:
  assumes "delta_describes rows ws rv"
  shows "set (row_locals rows) - set (plan_ids ws) = set (replaced_local_ids rv)"
    and "set (cancelled_local_ids rv) \<subseteq> set (row_locals rows) \<inter> set (plan_ids ws)"
    and "set (replaced_local_ids rv) \<inter> set (cancelled_local_ids rv) = {}"
    and "set (plan_ids (added_nodes rv)) = set (plan_ids ws) - set (row_locals rows)"
    and "n \<in> set (added_nodes rv) \<Longrightarrow> node_by_local ws (local_id n) = Some n"
  using assms by (auto simp: delta_describes_def Let_def)

text \<open>A success is never undone by the writes, so it is read the same before and after.\<close>

lemma succ_after_writes:
  assumes wf: "wf_plan_store db pid"
    and nonterm: "\<forall>l \<in> set (repl @ canc). \<exists>s. plan_view db pid l = Some s \<and> s \<notin> set terminal_states"
    and st3: "\<forall>x. pd_states db3 x = (if x \<in> ids_of (active_rows db pid)
          (doomed_ids (stored_nodes db pid) (plan_view db pid) canc) then Some N_BLOCKED
        else if x \<in> ids_of (active_rows db pid) (repl @ canc) then Some N_CANCELLED else pd_states db x)"
    and n3: "pd_nodes db3 = map (\<lambda>r. if nr_node_id r \<in> ids_of (active_rows db pid) repl
       then r\<lparr>nr_retired := Some v\<rparr> else r) (pd_nodes db)"
  shows "plan_view db3 pid l = Some N_SUCCEEDED \<longleftrightarrow> plan_view db pid l = Some N_SUCCEEDED"
    and "l \<notin> set (row_locals (active_rows db pid)) \<Longrightarrow> plan_view db3 pid l \<noteq> Some N_SUCCEEDED"
proof -
  let ?rows = "active_rows db pid" and ?S = "plan_view db pid"
  let ?doomed = "doomed_ids (stored_nodes db pid) ?S canc"
  note L = wf_live [OF wf]
  have live3: "live_nodes db3 pid
      = filter (\<lambda>r. nr_node_id r \<notin> ids_of ?rows repl) (live_nodes db pid)"
    using live_retire [where db = db and B = "ids_of ?rows repl" and v = v and pid = pid] n3
    by (simp add: live_nodes_def)
  have st3_ne: "\<forall>r \<in> set (pd_nodes db3). pd_states db3 (nr_node_id r) \<noteq> None"
    using L(1) st3 by (auto simp: n3)
  have d3: "distinct (map nr_local_id (live_nodes db3 pid))"
    using L(2) by (simp add: live3 distinct_map_filter)
  have unlisted: "x \<notin> set (repl @ canc)" if "?S x = Some N_SUCCEEDED" for x
  proof
    assume "x \<in> set (repl @ canc)"
    from bspec [OF nonterm this] that show False by (simp add: terminal_states_def)
  qed
  have undoomed: "x \<notin> set ?doomed" if "?S x = Some N_SUCCEEDED" for x
    using that by (auto simp: doomed_ids_def terminal_states_def)
  have S_live: "?S l = Some s \<longleftrightarrow> (\<exists>r \<in> set (live_nodes db pid). nr_local_id r = l \<and>
      pd_states db (nr_node_id r) = Some s)" for l s
    by (rule view_iff [OF L(1,2)])
  have keep: "pd_states db3 (nr_node_id r) = Some N_SUCCEEDED \<longleftrightarrow>
      pd_states db (nr_node_id r) = Some N_SUCCEEDED"
    and no_repl: "pd_states db (nr_node_id r) = Some N_SUCCEEDED \<Longrightarrow> r \<in> set (live_nodes db3 pid)"
    if r: "r \<in> set (live_nodes db pid)" for r
  proof -
    have SS: "pd_states db (nr_node_id r) = Some N_SUCCEEDED \<Longrightarrow> ?S (nr_local_id r) = Some N_SUCCEEDED"
      using S_live r by blast
    show "pd_states db3 (nr_node_id r) = Some N_SUCCEEDED \<longleftrightarrow>
        pd_states db (nr_node_id r) = Some N_SUCCEEDED"
      using unlisted undoomed SS r by (auto simp: st3 ids_of_live [OF wf])
    show "pd_states db (nr_node_id r) = Some N_SUCCEEDED \<Longrightarrow> r \<in> set (live_nodes db3 pid)"
      using unlisted SS r ids_of_live [OF wf r, of repl] by (auto simp: live3)
  qed
  show eq: "plan_view db3 pid l = Some N_SUCCEEDED \<longleftrightarrow> ?S l = Some N_SUCCEEDED" for l
    unfolding view_iff [OF st3_ne d3] S_live using keep no_repl by (auto simp: live3)
  show "l \<notin> set (row_locals ?rows) \<Longrightarrow> plan_view db3 pid l \<noteq> Some N_SUCCEEDED"
    using eq [of l] plan_view_dom [OF wf, of l] L(3,4) by auto
qed

lemma revised_rows:
  assumes wf: "wf_plan_store db pid" and red: "redaction_ok rd plan"
    and rc: "revise_commit rd fresh db pid rv plan authorized = Inr db'"
  obtains ps and db3 :: plan_db where
    "pd_nodes db3 = map (\<lambda>r. if nr_node_id r \<in> ids_of (active_rows db pid) (replaced_local_ids rv)
       then r\<lparr>nr_retired := Some (plan_revision plan)\<rparr> else r) (pd_nodes db)"
    "pd_nodes db' = pd_nodes db3 @ map (new_row rd pid) ps"
    "map fst ps = filter (\<lambda>n. local_id n \<notin> set (row_locals (active_rows db pid))) (plan_nodes plan)"
proof (rule revise_tables [OF wf rc], goal_cases)
  case (1 p ps db3)
  from 1(9) [OF succ_after_writes(2) [OF wf 1(6-8)]] 1(8) show ?thesis
    by (intro that [of db3 ps]) blast+
qed

lemma revise_effect:
  assumes wf: "wf_plan_store db pid" and red: "redaction_ok rd plan"
    and rc: "revise_commit rd fresh db pid rv plan authorized = Inr db'"
  shows "wf_plan_store db' pid" and "stored_nodes db' pid = map rd (plan_nodes plan)"
    and "plan_view db' pid = revised_view (stored_nodes db pid) (plan_nodes plan) (plan_view db pid)
           (cancelled_local_ids rv)"
proof -
  let ?rows = "active_rows db pid" and ?S = "plan_view db pid" and ?ns = "stored_nodes db pid"
  let ?ws = "plan_nodes plan" and ?repl = "replaced_local_ids rv" and ?canc = "cancelled_local_ids rv"
  let ?doomed = "doomed_ids ?ns ?S ?canc"
  obtain p ps db3 where p: "plan_by_id db pid = Some p"
    and pl: "plan_by_id db' pid = Some (p\<lparr>pr_current := plan_revision plan, pr_payload := redact_plan rd plan\<rparr>)"
    and run: "pd_runs db' (pr_run_id p) \<noteq> None"
    and nonterm: "\<forall>l \<in> set (?repl @ ?canc). \<exists>s. ?S l = Some s \<and> s \<notin> set terminal_states"
    and st3: "\<forall>x. pd_states db3 x = (if x \<in> ids_of ?rows ?doomed then Some N_BLOCKED
        else if x \<in> ids_of ?rows (?repl @ ?canc) then Some N_CANCELLED else pd_states db x)"
    and n3: "pd_nodes db3 = map (\<lambda>r. if nr_node_id r \<in> ids_of ?rows ?repl
       then r\<lparr>nr_retired := Some (plan_revision plan)\<rparr> else r) (pd_nodes db)"
    and new: "(\<And>l. l \<notin> set (row_locals ?rows) \<Longrightarrow> plan_view db3 pid l \<noteq> Some N_SUCCEEDED) \<Longrightarrow>
       map fst ps = filter (\<lambda>n. local_id n \<notin> set (row_locals ?rows)) ?ws \<and>
       pd_nodes db' = pd_nodes db3 @ map (new_row rd pid) ps \<and>
       distinct (map snd ps) \<and> snd ` set ps \<inter> nr_node_id ` set (pd_nodes db3) = {} \<and>
       (\<forall>q \<in> set ps. pd_states db' (snd q) = Some (revised_state (plan_view db3 pid) (fst q))) \<and>
       (\<forall>x. x \<notin> snd ` set ps \<longrightarrow> pd_states db' x = pd_states db3 x)"
    by (rule revise_tables [OF wf rc]) blast
  have dd: "delta_describes ?rows ?ws rv" by (rule revise_commit_Inr [OF rc])
  note D = delta_describesD [OF dd] and L = wf_live [OF wf]
  have ex: "set (row_locals ?rows) = nr_local_id ` set (live_nodes db pid)" by (simp add: L(4))
  have ids3: "map nr_node_id (pd_nodes db3) = map nr_node_id (pd_nodes db)"
    by (simp add: n3 comp_def)
  have live3: "live_nodes db3 pid
      = filter (\<lambda>r. nr_node_id r \<notin> ids_of ?rows ?repl) (live_nodes db pid)"
    using live_retire [where db = db and B = "ids_of ?rows ?repl" and v = "plan_revision plan"
        and pid = pid] n3
    by (simp add: live_nodes_def)
  have kept: "r \<in> set (live_nodes db3 pid) \<longleftrightarrow> r \<in> set (live_nodes db pid) \<and> nr_local_id r \<in> set (plan_ids ?ws)" for r
    using ids_of_live [OF wf, of r ?repl] D(1) ex by (auto simp: live3)
  have st3_ne: "\<forall>r \<in> set (pd_nodes db3). pd_states db3 (nr_node_id r) \<noteq> None"
    using L(1) st3 by (auto simp: n3)
  have d3: "distinct (map nr_local_id (live_nodes db3 pid))"
    using L(2) by (simp add: live3 distinct_map_filter)
  have state3: "pd_states db3 (nr_node_id r) =
      (if nr_local_id r \<in> set ?doomed then Some N_BLOCKED
       else if nr_local_id r \<in> set (?repl @ ?canc) then Some N_CANCELLED
       else pd_states db (nr_node_id r))" if "r \<in> set (live_nodes db pid)" for r
    using that by (simp add: st3 ids_of_live [OF wf])
  have stS: "?S (nr_local_id r) = pd_states db (nr_node_id r)" if "r \<in> set (live_nodes db pid)" for r
    using that live_by_local_iff [OF wf, of "nr_local_id r" r] by (simp add: plan_view_wf [OF wf])
  have S_dom: "?S l \<noteq> None \<longleftrightarrow> l \<in> set (row_locals ?rows)" for l
    using plan_view_dom [OF wf, of l] L(3) ex by simp
  note succ3 = succ_after_writes(1) [OF wf nonterm st3 n3]
  note N = new [OF succ_after_writes(2) [OF wf nonterm st3 n3]]
  have fstps: "map fst ps = filter (\<lambda>n. local_id n \<notin> set (row_locals ?rows)) ?ws" using N by blast
  have nodes': "pd_nodes db' = pd_nodes db3 @ map (new_row rd pid) ps" using N by blast
  have dps: "distinct (map snd ps)" "snd ` set ps \<inter> nr_node_id ` set (pd_nodes db3) = {}" using N by blast+
  have stnew: "pd_states db' (snd q) = Some (revised_state (plan_view db3 pid) (fst q))"
    if "q \<in> set ps" for q using N that by blast
  have stold: "pd_states db' (nr_node_id r) = pd_states db3 (nr_node_id r)"
    if "r \<in> set (pd_nodes db3)" for r
    using N dps(2) that by blast
  have live': "live_nodes db' pid = live_nodes db3 pid @ map (new_row rd pid) ps"
    by (simp add: live_nodes_def nodes' filter_map comp_def)
  have st': "\<forall>r \<in> set (pd_nodes db'). pd_states db' (nr_node_id r) \<noteq> None"
    using st3_ne stold stnew by (auto simp: nodes')
  have locals_new: "map (\<lambda>q. local_id (fst q)) ps = filter (\<lambda>l. l \<notin> set (row_locals ?rows)) (plan_ids ?ws)"
    using arg_cong [OF fstps, of "map local_id"] by (simp add: plan_ids_def filter_map comp_def)
  note RG = redacted_graph [OF red]
  have dws: "distinct (plan_ids ?ws)" using RG(1,3) by (simp add: plan_graph_ok_def)
  have kept_ex: "r \<in> set (live_nodes db3 pid) \<Longrightarrow> nr_local_id r \<in> set (row_locals ?rows)" for r
    using kept ex by auto
  have new_nex: "q \<in> set ps \<Longrightarrow> local_id (fst q) \<notin> set (row_locals ?rows) \<and> local_id (fst q) \<in> set (plan_ids ?ws)" for q
    using arg_cong [OF locals_new, of set] by auto
  have d': "distinct (map nr_local_id (live_nodes db' pid))"
    using d3 dws kept_ex new_nex locals_new
    by (auto simp: live' comp_def distinct_filter)
  have cov: "nr_local_id ` set (live_nodes db' pid) = set (plan_ids ?ws)"
  proof -
    have "nr_local_id ` set (live_nodes db3 pid) = set (row_locals ?rows) \<inter> set (plan_ids ?ws)"
      using kept by (auto simp: ex)
    moreover have "(\<lambda>q. local_id (fst q)) ` set ps = set (plan_ids ?ws) - set (row_locals ?rows)"
      using arg_cong [OF locals_new, of set] by auto
    ultimately show ?thesis by (simp add: live' image_Un image_image) blast
  qed
  show sn: "stored_nodes db' pid = map rd ?ws"
    by (simp add: stored_nodes_def pl redact_plan_def)
  have rows': "active_rows db' pid = map (\<lambda>r. (r, the (pd_states db' (nr_node_id r)))) (live_nodes db' pid)"
    by (rule active_rows_alt [OF st'])
  have img: "(nr_local_id \<circ> fst) ` set (active_rows db' pid) = nr_local_id ` set (live_nodes db' pid)"
    by (simp add: rows' image_image)
  have dn: "distinct (map nr_node_id (pd_nodes db'))"
    using dps wf_plan_storeD(1) [OF wf] ids3 by (auto simp: nodes' comp_def simp flip: set_map)
  show "wf_plan_store db' pid"
    unfolding wf_plan_store_def
  proof (intro conjI)
    show "(nr_local_id \<circ> fst) ` set (active_rows db' pid) = set (plan_ids (stored_nodes db' pid))"
      unfolding img cov sn RG(1) .. 
    show "distinct (map (nr_local_id \<circ> fst) (active_rows db' pid))"
      using d' by (simp add: rows' comp_def)
  qed (use pl run RG dn st' in \<open>auto simp: redact_plan_def\<close>)
  show "plan_view db' pid = revised_view ?ns ?ws ?S ?canc"
  proof
    fix l
    show "plan_view db' pid l = revised_view ?ns ?ws ?S ?canc l"
    proof (cases "l \<in> set (plan_ids ?ws)")
      case False
      then have "plan_view db' pid l \<noteq> Some s" for s
        using cov by (auto simp: view_iff [OF st' d'])
      with False show ?thesis
        by (cases "plan_view db' pid l") (auto simp: revised_view_def)
    next
      case True
      show ?thesis
      proof (cases "l \<in> set (row_locals ?rows)")
        case old: True
        then obtain r where r: "r \<in> set (live_nodes db pid)" "nr_local_id r = l" using ex by auto
        then have r3: "r \<in> set (live_nodes db3 pid)" using kept True by simp
        then have "r \<in> set (pd_nodes db3)" by (simp add: live_nodes_def)
        have nrepl: "l \<notin> set ?repl" using D(1) True by blast
        obtain s where s: "?S l = Some s" using old S_dom [of l] by auto
        have "pd_states db' (nr_node_id r) = (if l \<in> set ?doomed then Some N_BLOCKED
            else if l \<in> set ?canc then Some N_CANCELLED else Some s)"
          using stold [OF \<open>r \<in> set (pd_nodes db3)\<close>] state3 [OF r(1)] stS [OF r(1)] r(2) nrepl s by simp
        also have "\<dots> = revised_view ?ns ?ws ?S ?canc l"
          using s True by (auto simp: revised_view_def doomed_ids_def set_blocked_closure)
        finally have "\<exists>r \<in> set (live_nodes db' pid). nr_local_id r = l \<and>
            pd_states db' (nr_node_id r) = revised_view ?ns ?ws ?S ?canc l"
          using r3 r(2) live' by auto
        moreover have "revised_view ?ns ?ws ?S ?canc l \<noteq> None"
          using s True by (simp add: revised_view_def)
        ultimately show ?thesis using view_iff [OF st' d', of l] by fastforce
      next
        case new: False
        have "l \<in> set (filter (\<lambda>l. l \<notin> set (row_locals ?rows)) (plan_ids ?ws))"
          using new True by simp
        then obtain q where q: "q \<in> set ps" "local_id (fst q) = l"
          unfolding locals_new [symmetric] by auto
        have "fst q \<in> set ?ws" using arg_cong [OF fstps, of set] q(1) by (auto simp: image_iff)
        then have "depends_on (fst q) = deps_of ?ws l" using deps_of_node [OF dws] q(2) by metis
        then have "pd_states db' (snd q) = revised_view ?ns ?ws ?S ?canc l"
          using stnew [OF q(1)] S_dom [of l] new True
          by (simp add: revised_view_def revised_state_def list_all_iff succ3)
        moreover have "new_row rd pid q \<in> set (live_nodes db' pid)" using q(1) live' by auto
        ultimately have "\<exists>r \<in> set (live_nodes db' pid). nr_local_id r = l \<and>
            pd_states db' (nr_node_id r) = revised_view ?ns ?ws ?S ?canc l"
          using q(2) by (intro bexI [of _ "new_row rd pid q"]) auto
        moreover have "revised_view ?ns ?ws ?S ?canc l \<noteq> None"
          using True new S_dom [of l] by (simp add: revised_view_def)
        ultimately show ?thesis using view_iff [OF st' d', of l] by fastforce
      qed
    qed
  qed
qed


section \<open>What a revision keeps\<close>

lemma deps_of_redacted:
  assumes "redaction_ok rd plan"
  shows "deps_of (map rd (plan_nodes plan)) = deps_of (plan_nodes plan)"
proof -
  have same: "local_id (rd n) = local_id n" "depends_on (rd n) = depends_on n"
    if "n \<in> set (plan_nodes plan)" for n
    using assms that by (auto simp: redaction_ok_def)
  have "map_option depends_on (node_by_local (map rd ns) l) = map_option depends_on (node_by_local ns l)"
    if "set ns \<subseteq> set (plan_nodes plan)" for ns l
    using that unfolding node_by_local_def by (induction ns) (auto simp: same)
  then have "map_option depends_on (node_by_local (map rd (plan_nodes plan)) l)
      = map_option depends_on (node_by_local (plan_nodes plan) l)" for l by simp
  moreover have "deps_of ns l = (case map_option depends_on (node_by_local ns l) of
      None \<Rightarrow> [] | Some ds \<Rightarrow> ds)" for ns l by (simp add: deps_of_def split: option.splits)
  ultimately show ?thesis by (metis ext)
qed

lemma inv_cong_deps:
  assumes "redaction_ok rd plan"
  shows "plan_safe (map rd (plan_nodes plan)) V = plan_safe (plan_nodes plan) V"
    and "plan_flowing (map rd (plan_nodes plan)) V = plan_flowing (plan_nodes plan) V"
  by (simp_all add: plan_safe_def plan_flowing_def deps_succeeded_def deps_of_redacted [OF assms]
      redacted_graph(1) [OF assms])

text \<open>The payload stored in a node row has the dependencies of the plan payload.\<close>

definition payload_deps_ok :: "plan_db \<Rightarrow> string \<Rightarrow> bool" where
  "payload_deps_ok db pid \<longleftrightarrow>
     (\<forall>r \<in> set (live_nodes db pid).
        depends_on (nr_payload r) = deps_of (stored_nodes db pid) (nr_local_id r))"

lemma revised_kept_deps:
  assumes wf: "wf_plan_store db pid" and pd: "payload_deps_ok db pid"
    and rc: "revise_commit rd fresh db pid rv plan authorized = Inr db'"
    and l: "l \<in> set (plan_ids (plan_nodes plan))" "plan_view db pid l \<noteq> None"
  shows "deps_of (plan_nodes plan) l = deps_of (stored_nodes db pid) l"
proof -
  have rw: "rewrite_checks (plan_nodes plan) (active_rows db pid) = Inr ()"
    by (rule revise_commit_Inr [OF rc])
  obtain n where n: "node_by_local (plan_nodes plan) l = Some n"
    using l(1) node_by_local_None [of "plan_nodes plan" l] by auto
  obtain r where r: "live_by_local db pid l = Some r"
    using l(2) by (auto simp: plan_view_wf [OF wf] split: Option.bind_splits)
  then have rl: "r \<in> set (live_nodes db pid)" "nr_local_id r = l"
    by (simp_all add: live_by_local_iff [OF wf])
  have "(r, the (pd_states db (nr_node_id r))) \<in> set (active_rows db pid)"
    using rl by (auto simp: wf_active_rows [OF wf])
  from rewrite_checks_Inr [OF rw this] n rl have "nr_payload r = n" by simp
  then show ?thesis
    using pd rl n by (auto simp: payload_deps_ok_def deps_of_def)
qed

lemma revised_view_facts:
  assumes wf: "wf_plan_store db pid"
    and rc: "revise_commit rd fresh db pid rv plan authorized = Inr db'"
    and s: "s \<in> set terminal_states" and l: "plan_view db pid l = Some s"
  shows "l \<in> set (plan_ids (plan_nodes plan))" "l \<notin> set (cancelled_local_ids rv)"
    and "revised_view (stored_nodes db pid) (plan_nodes plan) (plan_view db pid)
           (cancelled_local_ids rv) l = Some s"
proof -
  have dd: "delta_describes (active_rows db pid) (plan_nodes plan) rv"
    by (rule revise_commit_Inr [OF rc])
  have nonterm: "\<forall>l \<in> set (replaced_local_ids rv @ cancelled_local_ids rv). \<exists>s.
        plan_view db pid l = Some s \<and> s \<notin> set terminal_states"
    by (rule revise_tables [OF wf rc])
  have "l \<in> set (row_locals (active_rows db pid))"
    using l plan_view_dom [OF wf, of l] wf_live(3,4) [OF wf] by auto
  moreover have un: "l \<notin> set (replaced_local_ids rv @ cancelled_local_ids rv)"
  proof
    assume "l \<in> set (replaced_local_ids rv @ cancelled_local_ids rv)"
    from bspec [OF nonterm this] l s show False by auto
  qed
  ultimately show "l \<in> set (plan_ids (plan_nodes plan))" "l \<notin> set (cancelled_local_ids rv)"
    using delta_describesD(1) [OF dd] by auto
  then show "revised_view (stored_nodes db pid) (plan_nodes plan) (plan_view db pid)
           (cancelled_local_ids rv) l = Some s"
    using l s by (simp add: revised_view_def)
qed

lemma revised_view_succ:
  assumes wf: "wf_plan_store db pid"
    and rc: "revise_commit rd fresh db pid rv plan authorized = Inr db'"
  shows "revised_view (stored_nodes db pid) (plan_nodes plan) (plan_view db pid)
           (cancelled_local_ids rv) l = Some N_SUCCEEDED \<longleftrightarrow> plan_view db pid l = Some N_SUCCEEDED"
proof
  assume "plan_view db pid l = Some N_SUCCEEDED"
  then show "revised_view (stored_nodes db pid) (plan_nodes plan) (plan_view db pid)
           (cancelled_local_ids rv) l = Some N_SUCCEEDED"
    by (intro revised_view_facts(3) [OF wf rc]) (simp_all add: terminal_states_def)
qed (auto simp: revised_view_def split: if_splits option.splits)

lemma revision_safe:
  assumes wf: "wf_plan_store db pid" and pd: "payload_deps_ok db pid"
    and safe: "plan_safe (stored_nodes db pid) (plan_view db pid)"
    and rc: "revise_commit rd fresh db pid rv plan authorized = Inr db'"
  shows "plan_safe (plan_nodes plan) (revised_view (stored_nodes db pid) (plan_nodes plan)
           (plan_view db pid) (cancelled_local_ids rv))" (is "plan_safe _ ?V")
  unfolding plan_safe_def
proof (intro ballI impI)
  fix x assume x: "x \<in> set (plan_ids (plan_nodes plan))"
    and st: "?V x \<notin> {Some N_WAITING, Some N_BLOCKED, Some N_CANCELLED}"
  note succ = revised_view_succ [OF wf rc]
  show "deps_succeeded (plan_nodes plan) ?V x"
  proof (cases "plan_view db pid x")
    case None
    with st x show ?thesis
      by (auto simp: deps_succeeded_def succ) (auto simp: revised_view_def split: if_splits)
  next
    case (Some s)
    then have "s \<notin> {N_WAITING, N_BLOCKED, N_CANCELLED}"
      using st x by (auto simp: revised_view_def split: if_splits)
    moreover have "x \<in> set (plan_ids (stored_nodes db pid))"
      using Some plan_view_dom [OF wf, of x] by simp
    ultimately have "deps_succeeded (stored_nodes db pid) (plan_view db pid) x"
      using safe Some by (auto simp: plan_safe_def)
    then show ?thesis
      using revised_kept_deps [OF wf pd rc x] Some by (simp add: deps_succeeded_def succ)
  qed
qed

lemma revision_flowing:
  assumes wf: "wf_plan_store db pid" and pd: "payload_deps_ok db pid"
    and flow: "plan_flowing (stored_nodes db pid) (plan_view db pid)"
    and rc: "revise_commit rd fresh db pid rv plan authorized = Inr db'"
    and fresh_ok: "\<And>x d. x \<in> set (plan_ids (plan_nodes plan)) \<Longrightarrow> plan_view db pid x = None \<Longrightarrow>
        d \<in> set (deps_of (plan_nodes plan) x) \<Longrightarrow>
        revised_view (stored_nodes db pid) (plan_nodes plan) (plan_view db pid)
          (cancelled_local_ids rv) d \<notin> Some ` set failure_states"
  shows "plan_flowing (plan_nodes plan) (revised_view (stored_nodes db pid) (plan_nodes plan)
           (plan_view db pid) (cancelled_local_ids rv))" (is "plan_flowing _ ?V")
  unfolding plan_flowing_def
proof (intro ballI impI)
  fix x assume x: "x \<in> set (plan_ids (plan_nodes plan))" and st: "?V x = Some N_WAITING"
  let ?S = "plan_view db pid" and ?ns = "stored_nodes db pid"
  let ?D = "dependents (deps_of ?ns) (set (plan_ids ?ns)) (set (cancelled_local_ids rv))"
  note succ = revised_view_succ [OF wf rc]
  show "\<not> deps_succeeded (plan_nodes plan) ?V x \<and>
     (\<forall>d \<in> set (deps_of (plan_nodes plan) x). \<forall>f \<in> set failure_states. ?V d \<noteq> Some f)"
  proof (cases "?S x")
    case None
    then have "\<not> deps_succeeded (plan_nodes plan) ?V x"
      using st x by (auto simp: deps_succeeded_def succ) (auto simp: revised_view_def split: if_splits)
    with fresh_ok [OF x None] show ?thesis by blast
  next
    case (Some s)
    then have s: "s = N_WAITING" "x \<notin> set (cancelled_local_ids rv)" "x \<notin> ?D"
      using st x by (auto simp: revised_view_def terminal_states_def split: if_splits)
    have xin: "x \<in> set (plan_ids ?ns)" using Some plan_view_dom [OF wf, of x] by simp
    have deps: "deps_of (plan_nodes plan) x = deps_of ?ns x"
      by (rule revised_kept_deps [OF wf pd rc x]) (simp add: Some)
    have old: "\<not> deps_succeeded ?ns ?S x"
      "\<forall>d \<in> set (deps_of ?ns x). \<forall>f \<in> set failure_states. ?S d \<noteq> Some f"
      using flow xin Some s(1) by (auto simp: plan_flowing_def)
    have "?V d \<noteq> Some f" if d: "d \<in> set (deps_of ?ns x)" and f: "f \<in> set failure_states" for d f
    proof
      assume V: "?V d = Some f"
      have "d \<notin> ?D" using dependents_step [where adj = "deps_of ?ns" and d = d and x = x] xin d s(3) by blast
      moreover have "d \<notin> set (cancelled_local_ids rv)" using \<open>d \<notin> ?D\<close>
          dependents_refl [of d "set (cancelled_local_ids rv)" "deps_of ?ns" "set (plan_ids ?ns)"] by fast
      moreover have "f \<noteq> N_READY" "f \<noteq> N_WAITING" using f by (auto simp: failure_states_def)
      ultimately have "?S d = Some f"
        using V unfolding revised_view_def
        by (cases "?S d"; cases "d \<in> set (plan_ids (plan_nodes plan))") (simp_all split: if_split_asm)
      then show False using old(2) d f by metis
    qed
    moreover have "\<not> deps_succeeded (plan_nodes plan) ?V x"
      using old(1) by (simp add: deps_succeeded_def succ deps)
    ultimately show ?thesis by (simp add: deps)
  qed
qed

lemma transition_keeps_payload_deps:
  assumes wf: "wf_plan_store db pid" and pd: "payload_deps_ok db pid"
    and tr: "transition_plan_node_state scrub db pid nid expected target = Inr (db', cs)"
  shows "payload_deps_ok db' pid"
  using pd transition_abstract(2) [OF wf tr] live_nodes_cong [OF transition_frame(6) [OF wf tr]]
  by (simp add: payload_deps_ok_def)


text \<open>The rows of the revised plan: kept ones and new ones.\<close>

lemma revised_live:
  assumes wf: "wf_plan_store db pid" and red: "redaction_ok rd plan"
    and rc: "revise_commit rd fresh db pid rv plan authorized = Inr db'"
    and r: "r \<in> set (live_nodes db' pid)"
  shows "r \<in> set (live_nodes db pid) \<or> (\<exists>n \<in> set (plan_nodes plan). nr_local_id r = local_id n \<and> nr_payload r = rd n)"
proof -
  obtain ps and db3 :: plan_db where n3: "pd_nodes db3 = map (\<lambda>r. if nr_node_id r \<in> ids_of (active_rows db pid) (replaced_local_ids rv)
       then r\<lparr>nr_retired := Some (plan_revision plan)\<rparr> else r) (pd_nodes db)"
    and new: "pd_nodes db' = pd_nodes db3 @ map (new_row rd pid) ps"
      "map fst ps = filter (\<lambda>n. local_id n \<notin> set (row_locals (active_rows db pid))) (plan_nodes plan)"
    by (rule revised_rows [OF wf red rc])
  have fst_in: "fst q \<in> set (plan_nodes plan)" if "q \<in> set ps" for q
  proof -
    have "fst q \<in> set (map fst ps)" using that by simp
    then show ?thesis unfolding new(2) by simp
  qed
  from r new(1) consider "r \<in> set (live_nodes db3 pid)" | q where "q \<in> set ps" "r = new_row rd pid q"
    by (auto simp: live_nodes_def)
  then show ?thesis
  proof cases
    case 1
    then have "r \<in> set (live_nodes (db\<lparr>pd_nodes := pd_nodes db3\<rparr>) pid)" by (simp add: live_nodes_def)
    then show ?thesis unfolding n3 live_retire by simp
  next
    case 2
    then have "nr_local_id r = local_id (fst q)" "nr_payload r = rd (fst q)"
      by (simp_all add: new_row_def case_prod_beta)
    with fst_in [OF 2(1)] show ?thesis by blast
  qed
qed

lemma revision_payload_deps:
  assumes wf: "wf_plan_store db pid" and pd: "payload_deps_ok db pid" and red: "redaction_ok rd plan"
    and rc: "revise_commit rd fresh db pid rv plan authorized = Inr db'"
  shows "payload_deps_ok db' pid"
  unfolding payload_deps_ok_def
proof
  fix r assume r: "r \<in> set (live_nodes db' pid)"
  note E = revise_effect [OF wf red rc]
  have dws: "distinct (plan_ids (plan_nodes plan))"
    using redacted_graph(1,3) [OF red] by (simp add: plan_graph_ok_def)
  have deps': "deps_of (stored_nodes db' pid) = deps_of (plan_nodes plan)"
    by (simp add: E(2) deps_of_redacted [OF red])
  from revised_live [OF wf red rc r]
  show "depends_on (nr_payload r) = deps_of (stored_nodes db' pid) (nr_local_id r)"
  proof
    assume old: "r \<in> set (live_nodes db pid)"
    have "nr_local_id r \<in> set (plan_ids (plan_nodes plan))"
      using r wf_live(3) [OF E(1)] redacted_graph(1) [OF red] by (auto simp: E(2))
    moreover have "plan_view db pid (nr_local_id r) \<noteq> None"
      using old wf_live(3) [OF wf] plan_view_dom [OF wf] by auto
    ultimately show ?thesis
      using revised_kept_deps [OF wf pd rc] pd old by (simp add: payload_deps_ok_def deps')
  next
    assume "\<exists>n \<in> set (plan_nodes plan). nr_local_id r = local_id n \<and> nr_payload r = rd n"
    then obtain n where n: "n \<in> set (plan_nodes plan)" "nr_local_id r = local_id n" "nr_payload r = rd n"
      by blast
    then show ?thesis
      using red deps_of_node [OF dws n(1)] by (simp add: deps' redaction_ok_def)
  qed
qed

lemma added_node:
  assumes wf: "wf_plan_store db pid"
    and rc: "revise_commit rd fresh db pid rv plan authorized = Inr db'"
    and x: "x \<in> set (plan_ids (plan_nodes plan))" "plan_view db pid x = None"
  obtains n where "n \<in> set (added_nodes rv)" "node_by_local (plan_nodes plan) x = Some n"
proof -
  have dd: "delta_describes (active_rows db pid) (plan_nodes plan) rv"
    by (rule revise_commit_Inr [OF rc])
  have "x \<notin> set (row_locals (active_rows db pid))"
    using x(2) plan_view_dom [OF wf, of x] wf_live(3,4) [OF wf] by auto
  then have "x \<in> set (plan_ids (added_nodes rv))" using delta_describesD(4) [OF dd] x(1) by blast
  then obtain n where "n \<in> set (added_nodes rv)" "local_id n = x" by (auto simp: plan_ids_def)
  with delta_describesD(5) [OF dd this(1)] that show ?thesis by blast
qed

section \<open>Properties\<close>

lemma plan_by_id_revised:
  assumes wf: "wf_plan_store db pid"
    and rc: "revise_commit rd fresh db pid rv plan authorized = Inr db'"
  obtains p where "plan_by_id db pid = Some p" "pr_current p = expected_revision rv"
    "plan_by_id db' pid = Some (p\<lparr>pr_current := plan_revision plan, pr_payload := redact_plan rd plan\<rparr>)"
  by (rule revise_tables [OF wf rc]) (rule that)

text \<open>
  Compare-and-set.  A revision is committed only against the revision it expects, moves the
  plan to the next one, and makes every further revision that expects the old one fail with
  \<open>plan.revision_conflict\<close> and leave the tables alone.
\<close>

theorem revision_compare_and_set:
  assumes "wf_plan_store db pid"
    and "revise_commit rd fresh db pid rv plan authorized = Inr db'"
    and "revision_checks rv2 plan2 authorized = Inr ()" "expected_revision rv2 = expected_revision rv"
  shows "map_option pr_current (plan_by_id db pid) = Some (expected_revision rv) \<and>
     map_option pr_current (plan_by_id db' pid) = Some (expected_revision rv + 1) \<and>
     revise_plan rd fresh db' pid rv2 plan2 authorized =
       (db', Inl (FrameworkContractError ''plan.revision_conflict''))"
proof -
  have "revision_checks rv plan authorized = Inr ()" by (rule revise_commit_Inr [OF assms(2)])
  then have next_rev: "plan_revision plan = expected_revision rv + 1"
    by (auto simp: revision_checks_def res_simps split: if_splits)
  obtain p where "plan_by_id db pid = Some p" "pr_current p = expected_revision rv"
    "plan_by_id db' pid = Some (p\<lparr>pr_current := plan_revision plan, pr_payload := redact_plan rd plan\<rparr>)"
    by (rule plan_by_id_revised [OF assms(1,2)])
  with next_rev assms(3,4) show ?thesis
    by (simp add: revise_plan_def revise_commit_def)
qed

text \<open>A revision of the small plan: the waiting node is cancelled and a new one added.\<close>

definition ex_plan2 :: execution_plan where
  "ex_plan2 = \<lparr>schema_version = 1, policy_version = ''adaptive-v1'', plan_revision = 2,
     plan_nodes = [mk_node ''a'' K_AGENT [], mk_node ''b'' K_TOOL [''a''], mk_node ''c'' K_TOOL [''a'']]\<rparr>"

definition ex_delta :: plan_delta where
  "ex_delta = \<lparr>expected_revision = 1, added_nodes = [mk_node ''c'' K_TOOL [''a'']],
     replaced_local_ids = [], cancelled_local_ids = [''b''], justification = ''why'',
     evidence_refs = [''e'']\<rparr>"

definition ex_fresh2 :: "nat \<Rightarrow> string" where "ex_fresh2 i = ''n2''"

definition ex_revised :: plan_db where
  "ex_revised = (case revise_commit id ex_fresh2 ex_db4 ''p'' ex_delta ex_plan2 [E_READ] of
     Inr d \<Rightarrow> d | Inl _ \<Rightarrow> ex_db4)"

lemma ex_revision: "revise_commit id ex_fresh2 ex_db4 ''p'' ex_delta ex_plan2 [E_READ] = Inr ex_revised"
proof -
  have "is_ok (revise_commit id ex_fresh2 ex_db4 ''p'' ex_delta ex_plan2 [E_READ])" by code_simp
  then show ?thesis by (auto simp: ex_revised_def is_ok_iff)
qed

lemma ex_ok4: "plan_store_ok ex_db4 ''p''"
  using plan_run_ok [OF ex_run(2) ex_ok1] by blast

lemma ex_wf4: "wf_plan_store ex_db4 ''p''"
  using ex_ok4 by (simp add: plan_store_ok_def)

theorem revision_compare_and_set_witness:
  "snd (revise_plan id ex_fresh2 ex_revised ''p'' ex_delta ex_plan2 [E_READ]) =
     Inl (FrameworkContractError ''plan.revision_conflict'')"
proof -
  have "is_ok (revision_checks ex_delta ex_plan2 [E_READ])" by code_simp
  then have "revision_checks ex_delta ex_plan2 [E_READ] = Inr ()" by (auto simp: is_ok_iff)
  from revision_compare_and_set [OF ex_wf4 ex_revision this refl] show ?thesis by simp
qed

text \<open>
  C6: a revision never rewrites history.  Every node that was SUCCEEDED, FAILED, BLOCKED or
  CANCELLED is still in the revised plan, in the same state and with the same dependencies,
  whatever delta was accepted; and the states after the revision are exactly \<open>revised_view\<close>.
\<close>

theorem revision_keeps_settled_nodes:
  assumes "wf_plan_store db pid" "payload_deps_ok db pid" "redaction_ok rd plan"
    and "revise_commit rd fresh db pid rv plan authorized = Inr db'"
    and "plan_view db pid l = Some s" "s \<in> set terminal_states"
  shows "plan_view db' pid l = Some s \<and> deps_of (stored_nodes db' pid) l = deps_of (stored_nodes db pid) l \<and>
     plan_view db' pid = revised_view (stored_nodes db pid) (plan_nodes plan) (plan_view db pid)
       (cancelled_local_ids rv)"
  using revise_effect [OF assms(1,3,4)] revised_view_facts [OF assms(1,4,6,5)]
    revised_kept_deps [OF assms(1,2,4)] assms(5) deps_of_redacted [OF assms(3)]
  by simp

lemma ex_payload4: "payload_deps_ok ex_db4 ''p''" by code_simp

lemma ex_redaction2: "redaction_ok id ex_plan2" by code_simp

theorem revision_keeps_settled_nodes_witness:
  "plan_view ex_revised ''p'' ''a'' = Some N_SUCCEEDED \<and>
   plan_view ex_revised ''p'' ''b'' = Some N_CANCELLED \<and> plan_view ex_revised ''p'' ''c'' = Some N_READY"
proof -
  have a: "plan_view ex_db4 ''p'' ''a'' = Some N_SUCCEEDED" by code_simp
  have b: "plan_view ex_revised ''p'' ''b'' = Some N_CANCELLED" by code_simp
  have c: "plan_view ex_revised ''p'' ''c'' = Some N_READY" by code_simp
  have "N_SUCCEEDED \<in> set terminal_states" by (simp add: terminal_states_def)
  from revision_keeps_settled_nodes [OF ex_wf4 ex_payload4 ex_redaction2 ex_revision a this] b c
  show ?thesis by blast
qed

text \<open>
  C5: a revision keeps the execution contract.  Dependency safety is kept by every accepted
  revision, and the absence of stuck nodes is kept when no added node depends on a node that is
  failed, blocked or cancelled in the revised plan (the code does not check this).
\<close>

theorem revision_keeps_contract:
  assumes "plan_store_ok db pid" "payload_deps_ok db pid" "redaction_ok rd plan"
    and "revise_commit rd fresh db pid rv plan authorized = Inr db'"
  shows "wf_plan_store db' pid \<and> payload_deps_ok db' pid \<and>
     plan_safe (stored_nodes db' pid) (plan_view db' pid) \<and>
     ((\<forall>n \<in> set (added_nodes rv). \<forall>d \<in> set (depends_on n).
         plan_view db' pid d \<notin> Some ` set failure_states) \<longrightarrow> plan_store_ok db' pid)"
proof -
  have wf: "wf_plan_store db pid" and safe: "plan_safe (stored_nodes db pid) (plan_view db pid)"
    and flow: "plan_flowing (stored_nodes db pid) (plan_view db pid)"
    using assms(1) by (simp_all add: plan_store_ok_def plan_inv_def)
  note E = revise_effect [OF wf assms(3,4)] and C = inv_cong_deps [OF assms(3)]
  have safe': "plan_safe (stored_nodes db' pid) (plan_view db' pid)"
    using revision_safe [OF wf assms(2) safe assms(4)] E C by simp
  have pd': "payload_deps_ok db' pid" by (rule revision_payload_deps [OF wf assms(2-4)])
  have "plan_flowing (stored_nodes db' pid) (plan_view db' pid)"
    if "\<forall>n \<in> set (added_nodes rv). \<forall>d \<in> set (depends_on n).
         plan_view db' pid d \<notin> Some ` set failure_states"
  proof -
    have "plan_flowing (plan_nodes plan) (plan_view db' pid)"
      unfolding E(3)
    proof (rule revision_flowing [OF wf assms(2) flow assms(4)])
      fix x d
      assume x: "x \<in> set (plan_ids (plan_nodes plan))" "plan_view db pid x = None"
        and d: "d \<in> set (deps_of (plan_nodes plan) x)"
      obtain n where "n \<in> set (added_nodes rv)" "node_by_local (plan_nodes plan) x = Some n"
        by (rule added_node [OF wf assms(4) x])
      with that d show "revised_view (stored_nodes db pid) (plan_nodes plan) (plan_view db pid)
          (cancelled_local_ids rv) d \<notin> Some ` set failure_states"
        by (simp add: deps_of_def E(3))
    qed
    then show ?thesis using E C by simp
  qed
  moreover have "plan_inv (stored_nodes db' pid) (plan_view db' pid)"
    if "plan_flowing (stored_nodes db' pid) (plan_view db' pid)"
    by (rule plan_invI [OF wf_plan_storeD(5) [OF E(1)] plan_view_dom [OF E(1)] safe' that])
  ultimately show ?thesis using E(1) safe' pd' by (simp add: plan_store_ok_def)
qed

theorem revision_keeps_contract_witness: "plan_store_ok ex_revised ''p''"
proof -
  have "list_all (\<lambda>n. list_all (\<lambda>d. plan_view ex_revised ''p'' d \<notin> Some ` set failure_states) (depends_on n))
      (added_nodes ex_delta)" by code_simp
  with revision_keeps_contract [OF ex_ok4 ex_payload4 ex_redaction2 ex_revision] show ?thesis
    by (simp add: list_all_iff)
qed

end
