(* ===== verification/Plan_Execution.thy ===== *)
theory Plan_Execution
  imports Plan_Admission
begin

text \<open>
  The launch records of plan nodes (\<open>src/src/skail/sessions/journal.py\<close>): the task
  binding, the execution row with its begin and settle operations, the return of an
  approval-blocked tool to READY, and the reconciliation after a restart, which finishes
  durable settlements and blocks ambiguous launches.
\<close>

section \<open>Task bindings\<close>

definition bind_plan_node_task ::
  "plan_db \<Rightarrow> string \<Rightarrow> string \<Rightarrow> string \<Rightarrow> (plan_db \<times> binding_row) res" where
  "bind_plan_node_task db nid task_id attempt_id =
     (let row = \<lparr>bn_node = nid, bn_task = task_id, bn_attempt = attempt_id\<rparr> in
      if list_ex (\<lambda>b. bn_node b = nid \<or> bn_task b = task_id \<or> bn_attempt b = attempt_id)
           (pd_bindings db) \<or>
         \<not> list_ex (\<lambda>r. nr_node_id r = nid) (pd_nodes db) \<or>
         pd_tasks db task_id = None \<or> pd_attempts db attempt_id = None
        then Inl (FrameworkContractError ''plan.node_task_binding_conflict'')
      else Inr (db\<lparr>pd_bindings := pd_bindings db @ [row]\<rparr>, row))"

definition bindings_ok :: "plan_db \<Rightarrow> bool" where
  "bindings_ok db \<longleftrightarrow>
     distinct (map bn_node (pd_bindings db)) \<and> distinct (map bn_task (pd_bindings db)) \<and>
     distinct (map bn_attempt (pd_bindings db))"

lemma bind_keeps_one_to_one:
  assumes ok: "bindings_ok db" and bd: "bind_plan_node_task db nid t a = Inr (db', b)"
  shows "bindings_ok db'" "binding_of db' nid = Some b"
    and "n \<noteq> nid \<Longrightarrow> binding_of db' n = binding_of db n"
proof -
  from bd have fresh: "\<forall>x \<in> set (pd_bindings db). bn_node x \<noteq> nid \<and> bn_task x \<noteq> t \<and> bn_attempt x \<noteq> a"
    and new: "b = \<lparr>bn_node = nid, bn_task = t, bn_attempt = a\<rparr>"
      "pd_bindings db' = pd_bindings db @ [b]"
    by (auto simp: bind_plan_node_task_def Let_def list_ex_iff split: if_splits)
  show "bindings_ok db'" using ok fresh new by (auto simp: bindings_ok_def)
  have "List.find (\<lambda>x. bn_node x = nid) (pd_bindings db) = None"
    using fresh by (simp add: find_None_iff2)
  then show "binding_of db' nid = Some b" by (simp add: binding_of_def new find_append)
  show "n \<noteq> nid \<Longrightarrow> binding_of db' n = binding_of db n"
    by (simp add: binding_of_def new find_append split: option.splits)
qed

section \<open>Execution rows\<close>

definition begin_plan_node_execution ::
  "plan_db \<Rightarrow> string \<Rightarrow> string \<Rightarrow> (plan_db \<times> exec_row) res" where
  "begin_plan_node_execution db nid key =
     (case exec_of db nid of
        None \<Rightarrow>
          if list_ex (\<lambda>e. ex_key e = key) (pd_execs db) \<or>
             \<not> list_ex (\<lambda>r. nr_node_id r = nid) (pd_nodes db)
            then Inl (IntegrityError ''plan_node_executions'')
          else
            (let row = \<lparr>ex_node = nid, ex_key = key, ex_status = ''running'', ex_result = None\<rparr>
             in Inr (db\<lparr>pd_execs := pd_execs db @ [row]\<rparr>, row))
      | Some row \<Rightarrow>
          if ex_key row \<noteq> key
            then Inl (FrameworkContractError ''plan.node_execution_conflict'')
          else Inr (db, row))"

definition settle_plan_node_execution ::
  "(json \<Rightarrow> json) \<Rightarrow> plan_db \<Rightarrow> string \<Rightarrow> json \<Rightarrow> plan_db" where
  "settle_plan_node_execution scrub_json db nid result =
     (case exec_of db nid of
        None \<Rightarrow> db
      | Some row \<Rightarrow>
          if ex_status row = ''settled'' then db
          else db\<lparr>pd_execs := map (\<lambda>e. if ex_node e = nid
                    then e\<lparr>ex_status := ''settled'', ex_result := Some (scrub_json result)\<rparr>
                    else e) (pd_execs db)\<rparr>)"

text \<open>One launch key per node for ever: the second begin returns the first row.\<close>

lemma begin_replay:
  assumes "begin_plan_node_execution db nid key = Inr (db', row)"
  shows "begin_plan_node_execution db' nid key' =
     (if key' = key then Inr (db', row)
      else Inl (FrameworkContractError ''plan.node_execution_conflict''))"
  using assms
  by (auto simp: begin_plan_node_execution_def exec_of_def find_append Let_def
      split: option.splits if_splits)

definition settle_row :: "json \<Rightarrow> exec_row \<Rightarrow> exec_row" where
  "settle_row result row = row\<lparr>ex_status := ''settled'', ex_result := Some result\<rparr>"

lemma settle_row_node [simp]: "ex_node (settle_row j e) = ex_node e" "ex_status (settle_row j e) = ''settled''"
  by (simp_all add: settle_row_def)

lemma settle_alt:
  "settle_plan_node_execution sj db nid res =
     (case exec_of db nid of None \<Rightarrow> db
      | Some row \<Rightarrow> if ex_status row = ''settled'' then db
          else db\<lparr>pd_execs := map (\<lambda>e. if ex_node e = nid then settle_row (sj res) e else e)
                            (pd_execs db)\<rparr>)"
  unfolding settle_plan_node_execution_def settle_row_def ..

lemma find_settled:
  "List.find (\<lambda>e. ex_node e = n) (map (\<lambda>e. if ex_node e = nid then settle_row j e else e) es) =
     map_option (\<lambda>e. if n = nid then settle_row j e else e) (List.find (\<lambda>e. ex_node e = n) es)"
  by (induction es) auto

lemma exec_of_settle:
  "exec_of (settle_plan_node_execution sj db nid res) n =
     map_option (\<lambda>row. if n = nid \<and> ex_status row \<noteq> ''settled'' then settle_row (sj res) row else row)
       (exec_of db n)"
  by (cases "exec_of db nid"; cases "exec_of db n")
    (auto simp: settle_alt exec_of_def find_settled)

text \<open>The first settlement of a launch is final.\<close>

lemma settle_first_wins:
  "settle_plan_node_execution sj (settle_plan_node_execution sj db nid res) nid res' =
     settle_plan_node_execution sj db nid res"
proof (cases "exec_of db nid")
  case None
  then show ?thesis by (simp add: settle_plan_node_execution_def)
next
  case (Some row)
  let ?d = "settle_plan_node_execution sj db nid res"
  obtain r where "exec_of ?d nid = Some r" "ex_status r = ''settled''"
    using Some by (auto simp: exec_of_settle)
  then show ?thesis by (simp add: settle_alt [of sj ?d])
qed

section \<open>Return of an approval-blocked tool\<close>

definition retry_approved_plan_tool :: "plan_db \<Rightarrow> string \<Rightarrow> string \<Rightarrow> plan_db res" where
  "retry_approved_plan_tool db pid nid =
     (if pd_states db nid \<noteq> Some N_BLOCKED
        then Inl (FrameworkContractError ''plan.node_not_approval_blocked'')
      else Inr (db\<lparr>pd_execs := filter (\<lambda>e. ex_node e \<noteq> nid) (pd_execs db),
                  pd_states := (pd_states db)(nid \<mapsto> N_READY)\<rparr>))"

section \<open>Reconciliation\<close>

definition settled_target :: "json \<Rightarrow> plan_node_state" where
  "settled_target result =
     (case json_get result ''status'' of
        Some (JStr s) \<Rightarrow>
          (if s = ''succeeded'' then N_SUCCEEDED
           else if s = ''cancelled'' then N_CANCELLED
           else if s = ''blocked'' \<or> s = ''budget_blocked'' then N_BLOCKED
           else N_FAILED)
      | _ \<Rightarrow> N_FAILED)"

definition durable_result :: "exec_row option \<Rightarrow> json option" where
  "durable_result e =
     (case e of None \<Rightarrow> None
      | Some row \<Rightarrow> if ex_status row = ''settled'' then ex_result row else None)"

definition reconcile_target :: "exec_row option \<Rightarrow> plan_node_state" where
  "reconcile_target e = (case durable_result e of None \<Rightarrow> N_BLOCKED | Some r \<Rightarrow> settled_target r)"

definition block_bound_task :: "plan_db \<Rightarrow> exec_row option \<Rightarrow> string \<Rightarrow> plan_db res" where
  "block_bound_task db e nid =
     (case binding_of db nid of
        None \<Rightarrow> Inr db
      | Some b \<Rightarrow>
          if pd_tasks db (bn_task b) = None \<or> pd_attempts db (bn_attempt b) = None
            then Inl (FrameworkContractError ''plan.node_task_binding_missing_record'')
          else Inr (db\<lparr>pd_tasks := (pd_tasks db)(bn_task b \<mapsto> BLOCKED),
                      pd_attempts := (pd_attempts db)(bn_attempt b \<mapsto>
                        (if map_option ex_status e = Some ''running''
                         then A_INTERRUPTED else A_BLOCKED))\<rparr>))"

definition reconcile_one ::
  "(string \<Rightarrow> string) \<Rightarrow> plan_db \<Rightarrow> node_row \<Rightarrow> plan_node_state \<Rightarrow> exec_row option \<Rightarrow>
     (plan_db \<times> node_snapshot list) res" where
  "reconcile_one scrub db r state e =
     (let target = reconcile_target e;
          promote_launch = (state = N_LAUNCHING \<and> target \<noteq> N_BLOCKED);
          from_state = (if promote_launch then N_RUNNING else state);
          pid = nr_plan_id r; nid = nr_node_id r
      in res_bind
           (if promote_launch
            then map_sum id fst (transition_plan_node_state scrub db pid nid N_LAUNCHING N_RUNNING)
            else Inr db) (\<lambda>db1.
         res_bind (transition_plan_node_state scrub db1 pid nid from_state target) (\<lambda>(db2, cs).
         res_bind
           (if target = N_BLOCKED \<and> durable_result e = None then block_bound_task db2 e nid
            else Inr db2) (\<lambda>db3.
         Inr (db3, cs)))))"

fun reconcile_rows ::
  "(string \<Rightarrow> string) \<Rightarrow> plan_db \<Rightarrow> (node_row \<times> plan_node_state \<times> exec_row option) list \<Rightarrow>
     node_snapshot list \<Rightarrow> plan_db \<times> (node_snapshot list) res" where
  "reconcile_rows scrub db [] acc = (db, Inr acc)"
| "reconcile_rows scrub db ((r, st, e) # rows) acc =
     (case reconcile_one scrub db r st e of
        Inl x \<Rightarrow> (db, Inl x)
      | Inr (db', cs) \<Rightarrow> reconcile_rows scrub db' rows (acc @ cs))"

definition flight_row :: "plan_db \<Rightarrow> node_row \<Rightarrow> (node_row \<times> plan_node_state \<times> exec_row option) option" where
  "flight_row db r =
     (case pd_states db (nr_node_id r) of
        Some s \<Rightarrow> if nr_retired r = None \<and> (s = N_LAUNCHING \<or> s = N_RUNNING)
                  then Some (r, s, exec_of db (nr_node_id r)) else None
      | None \<Rightarrow> None)"

definition in_flight :: "plan_db \<Rightarrow> (node_row \<times> plan_node_state \<times> exec_row option) list" where
  "in_flight db = List.map_filter (flight_row db) (pd_nodes db)"

definition reconcile_plan_node_executions ::
  "(string \<Rightarrow> string) \<Rightarrow> plan_db \<Rightarrow> string list \<Rightarrow> string list \<Rightarrow>
     plan_db \<times> (node_snapshot list) res" where
  "reconcile_plan_node_executions scrub db exclude include_ids =
     reconcile_rows scrub db
       (filter (\<lambda>(r, s, e). (include_ids = [] \<or> nr_node_id r \<in> set include_ids) \<and>
                  nr_node_id r \<notin> set exclude) (in_flight db)) []"


lemma set_in_flight:
  "(r, s, e) \<in> set (in_flight db) \<longleftrightarrow>
     r \<in> set (pd_nodes db) \<and> pd_states db (nr_node_id r) = Some s \<and> nr_retired r = None \<and>
     (s = N_LAUNCHING \<or> s = N_RUNNING) \<and> e = exec_of db (nr_node_id r)"
  by (auto simp: in_flight_def flight_row_def set_map_filter split: option.splits if_splits)

lemma reconcile_target_cases:
  "reconcile_target e \<in> {N_SUCCEEDED, N_FAILED, N_BLOCKED, N_CANCELLED}"
  by (auto simp: reconcile_target_def settled_target_def split: option.splits json.splits)

text \<open>Every bound task and attempt has a record.\<close>

definition bindings_have_records :: "plan_db \<Rightarrow> bool" where
  "bindings_have_records db \<longleftrightarrow>
     (\<forall>b \<in> set (pd_bindings db). pd_tasks db (bn_task b) \<noteq> None \<and>
        pd_attempts db (bn_attempt b) \<noteq> None)"

text \<open>What reconciliation needs of the store for the rows it visits.\<close>

definition reconcilable :: "plan_db \<Rightarrow> (node_row \<times> plan_node_state \<times> exec_row option) list \<Rightarrow> bool" where
  "reconcilable db rows \<longleftrightarrow>
     bindings_have_records db \<and> distinct (map (nr_node_id \<circ> fst) rows) \<and>
     (\<forall>(r, s, e) \<in> set rows. wf_plan_store db (nr_plan_id r) \<and> r \<in> set (pd_nodes db) \<and>
        nr_retired r = None \<and> pd_states db (nr_node_id r) = Some s \<and>
        (s = N_LAUNCHING \<or> s = N_RUNNING))"

lemma wf_after_transition:
  assumes wf: "wf_plan_store db pid" and wf2: "wf_plan_store db pid2"
    and tr: "transition_plan_node_state scrub db pid nid expected target = Inr (db', cs)"
  shows "wf_plan_store db' pid2"
proof (rule wf_store_update(1) [OF wf2])
  show "pd_states db' n \<noteq> None" if "pd_states db n \<noteq> None" for n
    using transition_frame(1) [OF wf tr] transition_frame(3) [OF wf tr, of n] that by auto
qed (use transition_frame(4-6) [OF wf tr] in auto)

lemma transition_total:
  assumes wf: "wf_plan_store db pid" and leg: "(expected, target) \<in> set legal_node_moves"
    and r: "r \<in> set (pd_nodes db)" "nr_plan_id r = pid" "nr_retired r = None"
      "pd_states db (nr_node_id r) = Some expected"
  obtains db' cs where
    "transition_plan_node_state scrub db pid (nr_node_id r) expected target = Inr (db', cs)"
proof -
  have "live_by_local db pid (nr_local_id r) = Some r"
    using r by (simp add: live_by_local_iff [OF wf] live_nodes_def)
  from transition_Inr_conv [OF wf leg this r(4)] show ?thesis
    using that by (auto simp: is_ok_iff)
qed

lemma reconcile_one_ok:
  assumes wf: "wf_plan_store db (nr_plan_id r)" and r: "r \<in> set (pd_nodes db)" "nr_retired r = None"
    "pd_states db (nr_node_id r) = Some s" "s = N_LAUNCHING \<or> s = N_RUNNING"
    and recs: "bindings_have_records db"
  obtains db' cs where "reconcile_one scrub db r s e = Inr (db', cs)"
    "pd_states db' (nr_node_id r) = Some (reconcile_target e)"
    "\<forall>x. x \<noteq> nr_node_id r \<and> pd_states db x \<noteq> Some N_WAITING \<longrightarrow> pd_states db' x = pd_states db x"
    "\<forall>x. pd_states db' x \<noteq> pd_states db x \<longrightarrow> x = nr_node_id r \<or> pd_states db' x \<in> {Some N_READY, Some N_BLOCKED}"
    "\<forall>pid2. wf_plan_store db pid2 \<longrightarrow> wf_plan_store db' pid2"
    "pd_nodes db' = pd_nodes db" "bindings_have_records db'"
proof -
  let ?t = "reconcile_target e" and ?pid = "nr_plan_id r" and ?nid = "nr_node_id r"
  let ?pl = "s = N_LAUNCHING \<and> ?t \<noteq> N_BLOCKED"
  let ?f = "if ?pl then N_RUNNING else s"
  have l1: "(N_LAUNCHING, N_RUNNING) \<in> set legal_node_moves" by (simp add: legal_node_moves_def)
  have l2: "(?f, ?t) \<in> set legal_node_moves"
    using r(4) reconcile_target_cases [of e] by (auto simp: legal_node_moves_def)
  obtain db1 where db1: "(if ?pl
        then map_sum id fst (transition_plan_node_state scrub db ?pid ?nid N_LAUNCHING N_RUNNING)
        else Inr db) = Inr db1"
    and s1: "pd_states db1 ?nid = Some ?f"
      "\<And>x. x \<noteq> ?nid \<Longrightarrow> pd_states db1 x = pd_states db x"
    and same1: "pd_nodes db1 = pd_nodes db" "pd_bindings db1 = pd_bindings db"
      "pd_tasks db1 = pd_tasks db" "pd_attempts db1 = pd_attempts db"
    and wf1: "\<And>pid2. wf_plan_store db pid2 \<Longrightarrow> wf_plan_store db1 pid2"
  proof (cases ?pl)
    case False
    with that r show ?thesis by auto
  next
    case True
    then have "pd_states db ?nid = Some N_LAUNCHING" using r by simp
    from transition_total [OF wf l1 r(1) refl r(2) this] obtain d c where
      tr: "transition_plan_node_state scrub db ?pid ?nid N_LAUNCHING N_RUNNING = Inr (d, c)" .
    note fr = transition_frame [OF wf tr]
    have "pd_states d x = pd_states db x" if "x \<noteq> ?nid" for x
      using fr(3) [of x] that by (auto simp: moved_to_def failure_states_def)
    with that [of d] True tr fr wf_after_transition [OF wf _ tr] show ?thesis by auto
  qed
  have r1: "r \<in> set (pd_nodes db1)" using r(1) same1 by simp
  from transition_total [OF wf1 [OF wf] l2 r1 refl r(2) s1(1)] obtain db2 cs where
    tr: "transition_plan_node_state scrub db1 ?pid ?nid ?f ?t = Inr (db2, cs)" .
  note fr = transition_frame [OF wf1 [OF wf] tr]
  have recs2: "bindings_have_records db2"
    using recs by (simp add: bindings_have_records_def fr same1)
  obtain db3 where db3: "(if ?t = N_BLOCKED \<and> durable_result e = None then block_bound_task db2 e ?nid
            else Inr db2) = Inr db3"
    and same3: "pd_states db3 = pd_states db2" "pd_nodes db3 = pd_nodes db2"
      "pd_plans db3 = pd_plans db2" "pd_runs db3 = pd_runs db2" "bindings_have_records db3"
  proof -
    have "\<exists>d. block_bound_task db2 e ?nid = Inr d \<and> pd_states d = pd_states db2 \<and>
        pd_nodes d = pd_nodes db2 \<and> pd_plans d = pd_plans db2 \<and> pd_runs d = pd_runs db2 \<and>
        bindings_have_records d"
      using recs2
      by (auto simp: block_bound_task_def binding_of_def bindings_have_records_def
          split: option.splits dest!: find_Some_in)
    with that recs2 show ?thesis by (metis (full_types))
  qed
  show ?thesis
  proof (rule that)
    show "reconcile_one scrub db r s e = Inr (db3, cs)"
      using db1 tr db3 by (simp add: reconcile_one_def Let_def)
    show "pd_states db3 ?nid = Some ?t" using fr(1) same3 by simp
    show "\<forall>x. x \<noteq> ?nid \<and> pd_states db x \<noteq> Some N_WAITING \<longrightarrow> pd_states db3 x = pd_states db x"
      using fr(2) s1(2) same3 by simp
    show "\<forall>x. pd_states db3 x \<noteq> pd_states db x \<longrightarrow> x = ?nid \<or> pd_states db3 x \<in> {Some N_READY, Some N_BLOCKED}"
    proof (intro allI impI)
      fix x assume "pd_states db3 x \<noteq> pd_states db x"
      then show "x = ?nid \<or> pd_states db3 x \<in> {Some N_READY, Some N_BLOCKED}"
        using fr(3) [of x] s1(2) [of x] same3(1) by auto
    qed
    show "\<forall>pid2. wf_plan_store db pid2 \<longrightarrow> wf_plan_store db3 pid2"
    proof (intro allI impI)
      fix pid2 assume "wf_plan_store db pid2"
      from wf_after_transition [OF wf1 [OF wf] wf1 [OF this] tr] show "wf_plan_store db3 pid2"
        by (rule wf_store_update(1)) (use same3 in auto)
    qed
    show "pd_nodes db3 = pd_nodes db" using same3 fr same1 by simp
    show "bindings_have_records db3" by (rule same3)
  qed
qed


lemma reconcile_rows_ok:
  "reconcilable db rows \<Longrightarrow> \<exists>db' cs. reconcile_rows scrub db rows acc = (db', Inr cs) \<and>
     (\<forall>(r, s, e) \<in> set rows. pd_states db' (nr_node_id r) = Some (reconcile_target e)) \<and>
     (\<forall>x. x \<notin> (nr_node_id \<circ> fst) ` set rows \<longrightarrow> pd_states db x \<noteq> Some N_WAITING \<longrightarrow>
        pd_states db' x = pd_states db x) \<and>
     (\<forall>x. pd_states db' x \<noteq> pd_states db x \<longrightarrow> x \<in> (nr_node_id \<circ> fst) ` set rows \<or>
        pd_states db' x \<in> {Some N_READY, Some N_BLOCKED}) \<and>
     pd_nodes db' = pd_nodes db"
proof (induction rows arbitrary: db acc)
  case Nil
  then show ?case by simp
next
  case (Cons row rows)
  obtain r s e where row: "row = (r, s, e)" by (cases row)
  let ?nid = "nr_node_id r" and ?ids = "(nr_node_id \<circ> fst) ` set rows"
  from Cons.prems row have wf: "wf_plan_store db (nr_plan_id r)" and
    r: "r \<in> set (pd_nodes db)" "nr_retired r = None" "pd_states db ?nid = Some s"
      "s = N_LAUNCHING \<or> s = N_RUNNING" and recs: "bindings_have_records db" and
    nid: "?nid \<notin> ?ids"
    by (auto simp: reconcilable_def)
  obtain db1 cs where one: "reconcile_one scrub db r s e = Inr (db1, cs)"
    and t: "pd_states db1 ?nid = Some (reconcile_target e)"
    and keep: "\<forall>x. x \<noteq> ?nid \<and> pd_states db x \<noteq> Some N_WAITING \<longrightarrow> pd_states db1 x = pd_states db x"
    and chg: "\<forall>x. pd_states db1 x \<noteq> pd_states db x \<longrightarrow> x = ?nid \<or> pd_states db1 x \<in> {Some N_READY, Some N_BLOCKED}"
    and wf1: "\<forall>pid2. wf_plan_store db pid2 \<longrightarrow> wf_plan_store db1 pid2"
    and nodes: "pd_nodes db1 = pd_nodes db" and recs1: "bindings_have_records db1"
    by (rule reconcile_one_ok [OF wf r recs, of scrub e])
  have "reconcilable db1 rows"
    unfolding reconcilable_def
  proof (intro conjI ballI)
    show "distinct (map (nr_node_id \<circ> fst) rows)" using Cons.prems by (simp add: reconcilable_def)
    fix q assume q: "q \<in> set rows"
    obtain r' s' e' where q': "q = (r', s', e')" by (cases q)
    have "nr_node_id r' \<noteq> ?nid" using q q' nid by (auto simp: image_iff)
    then show "case q of (r, s, e) \<Rightarrow> wf_plan_store db1 (nr_plan_id r) \<and> r \<in> set (pd_nodes db1) \<and>
        nr_retired r = None \<and> pd_states db1 (nr_node_id r) = Some s \<and> (s = N_LAUNCHING \<or> s = N_RUNNING)"
      using Cons.prems q q' wf1 nodes spec [OF keep, of "nr_node_id r'"] by (auto simp: reconcilable_def)
  qed (rule recs1)
  from Cons.IH [OF this, of "acc @ cs"] obtain db' cs' where
    rest: "reconcile_rows scrub db1 rows (acc @ cs) = (db', Inr cs')"
    and t': "\<forall>(r, s, e) \<in> set rows. pd_states db' (nr_node_id r) = Some (reconcile_target e)"
    and keep': "\<forall>x. x \<notin> ?ids \<longrightarrow> pd_states db1 x \<noteq> Some N_WAITING \<longrightarrow> pd_states db' x = pd_states db1 x"
    and chg': "\<forall>x. pd_states db' x \<noteq> pd_states db1 x \<longrightarrow> x \<in> ?ids \<or>
        pd_states db' x \<in> {Some N_READY, Some N_BLOCKED}"
    and nodes': "pd_nodes db' = pd_nodes db1"
    by blast
  have "pd_states db' ?nid = Some (reconcile_target e)"
    using keep' nid t reconcile_target_cases [of e] by auto
  moreover have "pd_states db' x = pd_states db x"
    if "x \<noteq> ?nid" "x \<notin> ?ids" "pd_states db x \<noteq> Some N_WAITING" for x
    using keep keep' that by simp
  moreover have "x = ?nid \<or> x \<in> ?ids \<or> pd_states db' x \<in> {Some N_READY, Some N_BLOCKED}"
    if "pd_states db' x \<noteq> pd_states db x" for x
    using chg chg' that by metis
  ultimately show ?case
    using one rest t' nodes nodes' row
    by (intro exI [of _ db'] exI [of _ cs']) auto
qed

lemma distinct_map_filter_fst:
  "(\<And>x q. f x = Some q \<Longrightarrow> fst q = x) \<Longrightarrow> distinct (map g xs) \<Longrightarrow>
     distinct (map (g \<circ> fst) (List.map_filter f xs))"
proof (induction xs)
  case Nil
  then show ?case by (simp add: List.map_filter_simps)
next
  case (Cons x xs)
  have "fst q \<in> set xs" if "q \<in> set (List.map_filter f xs)" for q
  proof -
    obtain y where "y \<in> set xs" "f y = Some q" using \<open>q \<in> _\<close> by (auto simp: set_map_filter)
    with Cons.prems(1) [OF this(2)] show ?thesis by simp
  qed
  then have "g x \<notin> (g \<circ> fst) ` set (List.map_filter f xs)"
    using Cons.prems(2) by (auto simp: image_iff)
  with Cons show ?case by (auto simp: List.map_filter_simps split: option.splits)
qed

lemma in_flight_distinct:
  "distinct (map nr_node_id (pd_nodes db)) \<Longrightarrow> distinct (map (nr_node_id \<circ> fst) (in_flight db))"
  unfolding in_flight_def
  by (rule distinct_map_filter_fst) (auto simp: flight_row_def split: option.splits if_splits)

text \<open>
  C8: recovery.  When every in-flight node belongs to a well-formed plan and every binding has
  its records, reconciliation succeeds for all of them: a node with a durable settlement takes
  the state it recorded, any other is BLOCKED without being replayed, no node is left LAUNCHING
  or RUNNING, and a second reconciliation changes nothing.
\<close>

theorem reconciliation_settles_every_launch:
  assumes "distinct (map nr_node_id (pd_nodes db))" and "bindings_have_records db"
    and "\<forall>(r, s, e) \<in> set (in_flight db). wf_plan_store db (nr_plan_id r)"
  shows "\<exists>db' cs. reconcile_plan_node_executions scrub db [] [] = (db', Inr cs) \<and>
     (\<forall>(r, s, e) \<in> set (in_flight db). pd_states db' (nr_node_id r) = Some (reconcile_target e)) \<and>
     in_flight db' = [] \<and> reconcile_plan_node_executions scrub db' [] [] = (db', Inr [])"
proof -
  have rec: "reconcile_plan_node_executions scrub d [] [] = reconcile_rows scrub d (in_flight d) []" for d
    by (simp add: reconcile_plan_node_executions_def case_prod_beta)
  have "reconcilable db (in_flight db)"
    using assms in_flight_distinct by (auto simp: reconcilable_def set_in_flight)
  from reconcile_rows_ok [OF this, of scrub "[]"] obtain db' cs where
    ok: "reconcile_rows scrub db (in_flight db) [] = (db', Inr cs)"
    and t: "\<forall>(r, s, e) \<in> set (in_flight db). pd_states db' (nr_node_id r) = Some (reconcile_target e)"
    and chg: "\<forall>x. pd_states db' x \<noteq> pd_states db x \<longrightarrow> x \<in> (nr_node_id \<circ> fst) ` set (in_flight db) \<or>
        pd_states db' x \<in> {Some N_READY, Some N_BLOCKED}"
    and nodes: "pd_nodes db' = pd_nodes db"
    by blast
  have "(r, s, e) \<notin> set (in_flight db')" for r s e
  proof
    assume in': "(r, s, e) \<in> set (in_flight db')"
    then have st: "pd_states db' (nr_node_id r) = Some s" "s = N_LAUNCHING \<or> s = N_RUNNING"
      by (auto simp: set_in_flight)
    have "nr_node_id r \<notin> (nr_node_id \<circ> fst) ` set (in_flight db)"
    proof
      assume "nr_node_id r \<in> (nr_node_id \<circ> fst) ` set (in_flight db)"
      then obtain r' s' e' where "(r', s', e') \<in> set (in_flight db)" "nr_node_id r' = nr_node_id r"
        by auto
      with t st reconcile_target_cases [of e'] show False by fastforce
    qed
    with chg st have "pd_states db (nr_node_id r) = Some s" by (metis insertE option.inject plan_node_state.distinct singletonD)
    with in' nodes have "(r, s, exec_of db (nr_node_id r)) \<in> set (in_flight db)"
      by (auto simp: set_in_flight)
    with \<open>nr_node_id r \<notin> (nr_node_id \<circ> fst) ` set (in_flight db)\<close> show False by force
  qed
  then have none: "in_flight db' = []" by (metis list.set_intros(1) neq_Nil_conv prod_cases3)
  with ok t show ?thesis by (auto simp: rec)
qed

theorem reconciliation_settles_every_launch_witness:
  "\<exists>db' cs. reconcile_plan_node_executions id ex_db3 [] [] = (db', Inr cs) \<and>
     pd_states db' ''n0'' = Some N_BLOCKED"
proof -
  have "plan_store_ok ex_db3 ''p''" using transition_store_ok(1) ex_ok1 ex_steps(1,2) by blast
  then have wf: "wf_plan_store ex_db3 ''p''" by (simp add: plan_store_ok_def)
  have one: "in_flight ex_db3 = [(new_row id ''p'' (mk_node ''a'' K_AGENT [], ''n0''), N_RUNNING, None)]"
    by code_simp
  have d: "distinct (map nr_node_id (pd_nodes ex_db3))" "bindings_have_records ex_db3" by code_simp+
  from reconciliation_settles_every_launch [OF d, of id] wf show ?thesis
    by (auto simp: one reconcile_target_def durable_result_def)
qed

lemma blocked_stays:
  "plan_run scrub pid db k db' \<Longrightarrow> wf_plan_store db pid \<Longrightarrow> pd_states db x = Some N_BLOCKED \<Longrightarrow>
     wf_plan_store db' pid \<and> pd_states db' x = Some N_BLOCKED"
proof (induction rule: plan_run.induct)
  case (start db)
  then show ?case by simp
next
  case (move db k db1 nid expected target db2 cs)
  then have wf: "wf_plan_store db1 pid" and b: "pd_states db1 x = Some N_BLOCKED" by blast+
  have leg: "(expected, target) \<in> set legal_node_moves" "pd_states db1 nid = Some expected"
    by (rule transition_Inr [OF wf move.hyps(2)], assumption)+
  from legal_source [OF leg(1)] b leg(2) have "x \<noteq> nid" by auto
  with transition_frame(2) [OF wf move.hyps(2), of x] b transition_abstract(1) [OF wf move.hyps(2)]
  show ?case by simp
qed

text \<open>
  C9: a retried tool does not bring its dependents back.  Returning a blocked node to READY
  touches no other node, and since a settled node never moves again the dependents that its
  block had cascaded to stay BLOCKED through every later history, even after the retried node
  succeeds.
\<close>

theorem retried_tool_dependents_stay_blocked:
  assumes "wf_plan_store db pid" and "retry_approved_plan_tool db pid nid = Inr db1"
    and "plan_run scrub pid db1 k db2" and "x \<noteq> nid" and "pd_states db x = Some N_BLOCKED"
  shows "pd_states db1 nid = Some N_READY \<and> pd_states db2 x = Some N_BLOCKED"
proof -
  from assms(2) have db1: "db1 = db\<lparr>pd_execs := filter (\<lambda>e. ex_node e \<noteq> nid) (pd_execs db),
      pd_states := (pd_states db)(nid \<mapsto> N_READY)\<rparr>"
    by (simp add: retry_approved_plan_tool_def split: if_splits)
  have "wf_plan_store db1 pid"
    by (rule wf_store_update(1) [OF assms(1)]) (auto simp: db1)
  moreover have "pd_states db1 x = Some N_BLOCKED" using assms(4,5) by (simp add: db1)
  ultimately show ?thesis using blocked_stays [OF assms(3)] by (simp add: db1)
qed

definition ex_db5 :: plan_db where "ex_db5 = ex_step ex_db3 ''n0'' N_RUNNING N_BLOCKED"

definition ex_db6 :: plan_db where
  "ex_db6 = (case retry_approved_plan_tool ex_db5 ''p'' ''n0'' of Inr d \<Rightarrow> d | Inl _ \<Rightarrow> ex_db5)"

definition ex_db7 :: plan_db where
  "ex_db7 = ex_step (ex_step (ex_step ex_db6 ''n0'' N_READY N_LAUNCHING) ''n0'' N_LAUNCHING N_RUNNING)
     ''n0'' N_RUNNING N_SUCCEEDED"

theorem retried_tool_dependents_stay_blocked_witness:
  "pd_states ex_db7 ''n0'' = Some N_SUCCEEDED \<and> pd_states ex_db7 ''n1'' = Some N_BLOCKED"
proof -
  have ok3: "plan_store_ok ex_db3 ''p''" using transition_store_ok(1) ex_ok1 ex_steps(1,2) by blast
  have "is_ok (transition_plan_node_state id ex_db3 ''p'' ''n0'' N_RUNNING N_BLOCKED)" by code_simp
  from ex_move [OF this] obtain cs where
    "transition_plan_node_state id ex_db3 ''p'' ''n0'' N_RUNNING N_BLOCKED = Inr (ex_db5, cs)"
    unfolding ex_db5_def by blast
  from transition_store_ok(1) [OF ok3 this] have wf: "wf_plan_store ex_db5 ''p''"
    by (simp add: plan_store_ok_def)
  have retry: "retry_approved_plan_tool ex_db5 ''p'' ''n0'' = Inr ex_db6"
  proof -
    have "is_ok (retry_approved_plan_tool ex_db5 ''p'' ''n0'')" by code_simp
    then show ?thesis by (auto simp: ex_db6_def is_ok_iff)
  qed
  let ?a = "ex_step ex_db6 ''n0'' N_READY N_LAUNCHING"
  let ?b = "ex_step ?a ''n0'' N_LAUNCHING N_RUNNING"
  have m1: "is_ok (transition_plan_node_state id ex_db6 ''p'' ''n0'' N_READY N_LAUNCHING)" by code_simp
  have m2: "is_ok (transition_plan_node_state id ?a ''p'' ''n0'' N_LAUNCHING N_RUNNING)" by code_simp
  have m3: "is_ok (transition_plan_node_state id ?b ''p'' ''n0'' N_RUNNING N_SUCCEEDED)" by code_simp
  have r1: "plan_run id ''p'' ex_db6 (Suc 0) ?a"
    using ex_move [OF m1] plan_run.move [OF plan_run.start] by blast
  have r2: "plan_run id ''p'' ex_db6 (Suc (Suc 0)) ?b"
    using ex_move [OF m2] plan_run.move [OF r1] by blast
  have r3: "plan_run id ''p'' ex_db6 (Suc (Suc (Suc 0))) ex_db7"
    unfolding ex_db7_def using ex_move [OF m3] plan_run.move [OF r2] by blast
  have b: "pd_states ex_db5 ''n1'' = Some N_BLOCKED" and s: "pd_states ex_db7 ''n0'' = Some N_SUCCEEDED"
    by code_simp+
  from retried_tool_dependents_stay_blocked [OF wf retry r3 _ b] s show ?thesis by simp
qed

end
