(* ===== verification/Changeset_Domain.thy ===== *)
theory Changeset_Domain
  imports Prelude Status_Machines
begin

text \<open>
  The change-set contract of \<open>src/src/skail/domain/changesets.py\<close> and the identifiers of
  \<open>src/src/skail/domain/ids.py\<close>: relative paths, content images, path effects and the
  validators in the order they run.  Unicode normalisation and case folding
  (\<open>unicodedata.normalize("NFKC", x).casefold()\<close>) and SHA-256 over canonical JSON are
  parameters.
\<close>

section \<open>Identifiers and digests\<close>

definition is_hex :: "char \<Rightarrow> bool" where
  "is_hex c \<longleftrightarrow> c \<in> set ''0123456789abcdef''"

text \<open>
  \<open>UUID(value)\<close> accepts several spellings; comparing \<open>str(parsed)\<close> with the lower-cased
  value leaves the canonical one: groups of 8, 4, 4, 4 and 12 hexadecimal digits, version 4 and
  the RFC variant (for any other variant \<open>version\<close> is None).
\<close>

definition ensure_uuid4 :: "string \<Rightarrow> string res" where
  "ensure_uuid4 value =
     (let v = py_lower value; gs = split_on CHR ''-'' v in
      if map length gs = [8, 4, 4, 4, 12] \<and> list_all (list_all is_hex) gs \<and>
         v ! 14 = CHR ''4'' \<and> v ! 19 \<in> set ''89ab''
        then Inr v else Inl (ValueError ''identifier must be a canonical UUID4 string''))"

definition hex_of_length :: "nat \<Rightarrow> string \<Rightarrow> bool" where
  "hex_of_length n s \<longleftrightarrow> length s = n \<and> list_all is_hex s"

section \<open>Paths\<close>

definition validate_relative_path :: "string \<Rightarrow> string res" where
  "validate_relative_path value =
     (if starts_with value ''/'' \<or> CHR 0x5C \<in> set value then Inl (ValueError ''changeset.path_invalid'')
      else if list_ex (\<lambda>part. part \<in> {[], ''.'', ''..''} \<or> CHR '':'' \<in> set part) (split_on CHR ''/'' value)
        then Inl (ValueError ''changeset.path_invalid'')
      else Inr value)"

text \<open>\<open>PurePosixPath(p).parts\<close> of a validated path.\<close>

definition path_parts :: "string \<Rightarrow> string list" where
  "path_parts = split_on CHR ''/''"

text \<open>No accepted path leaves the directory it is relative to.\<close>

lemma validate_relative_path_parts:
  "validate_relative_path v = Inr w \<Longrightarrow>
     w = v \<and> path_parts v \<noteq> [] \<and> (\<forall>part \<in> set (path_parts v). part \<notin> {[], ''.'', ''..''} \<and> CHR '':'' \<notin> set part)"
  by (auto simp: validate_relative_path_def path_parts_def list_ex_iff split: if_splits)

fun join_on :: "char \<Rightarrow> string list \<Rightarrow> string" where
  "join_on c [] = []"
| "join_on c [p] = p"
| "join_on c (p # q # ps) = p @ c # join_on c (q # ps)"

lemma join_split [simp]: "join_on c (split_on c s) = s"
proof (induction s)
  case Nil
  then show ?case by simp
next
  case (Cons x s)
  then obtain p ps where "split_on c s = p # ps" by (cases "split_on c s") auto
  with Cons show ?case by (cases ps) auto
qed

lemma path_parts_inject: "path_parts p = path_parts q \<longleftrightarrow> p = q"
  unfolding path_parts_def by (metis join_split)

section \<open>Change sets\<close>

datatype changeset_status = C_CAPTURED | C_APPLYING | C_IN_DOUBT | C_INTEGRATED | C_BLOCKED

record content_image =
  im_digest :: string
  im_size :: int
  im_ref :: string

record changeset_path =
  cp_path :: string
  cp_effect :: string
  cp_before :: "content_image option"
  cp_after :: "content_image option"

record change_set =
  cs_schema :: int
  cs_id :: string
  cs_task :: string
  cs_attempt :: string
  cs_snapshot :: string
  cs_head :: string
  cs_scope :: "string list"
  cs_paths :: "changeset_path list"

definition SUPPORTED_CHANGESET_SCHEMA_VERSION :: int where
  "SUPPORTED_CHANGESET_SCHEMA_VERSION = 1"

definition validate_digest :: "content_image \<Rightarrow> content_image res" where
  "validate_digest im =
     (if im_size im < 0 \<or> im_ref im = [] then Inl (ValueError ''changeset.image_fields'')
      else if \<not> hex_of_length 64 (im_digest im) then Inl (ValueError ''changeset.digest_invalid'')
      else Inr im)"

text \<open>Which of the two images an effect needs; an unknown effect fits no pair.\<close>

definition expected_images :: "string \<Rightarrow> (bool \<times> bool) option" where
  "expected_images effect = map_of [(''added'', (False, True)), (''modified'', (True, True)),
     (''deleted'', (True, False))] effect"

definition image_valid :: "content_image option \<Rightarrow> bool" where
  "image_valid im = (case im of None \<Rightarrow> True | Some i \<Rightarrow> is_ok (validate_digest i))"

definition validate_effect :: "changeset_path \<Rightarrow> changeset_path res" where
  "validate_effect p =
     (if cp_path p = [] \<or> \<not> image_valid (cp_before p) \<or> \<not> image_valid (cp_after p)
        then Inl (ValueError ''changeset.path_fields'')
      else res_bind (validate_relative_path (cp_path p)) (\<lambda>_.
        if expected_images (cp_effect p) \<noteq> Some (cp_before p \<noteq> None, cp_after p \<noteq> None)
          then Inl (ValueError ''changeset.effect_images_invalid'')
        else Inr p))"

fun check_all :: "('a \<Rightarrow> 'b res) \<Rightarrow> 'a list \<Rightarrow> unit res" where
  "check_all f [] = Inr ()"
| "check_all f (x # xs) = res_bind (f x) (\<lambda>_. check_all f xs)"

lemma check_all_Inr [simp]: "check_all f xs = Inr u \<longleftrightarrow> (\<forall>x \<in> set xs. is_ok (f x))"
  by (induction xs) (auto simp: res_simps is_ok_iff)

definition in_scope :: "string list \<Rightarrow> string \<Rightarrow> bool" where
  "in_scope scopes p \<longleftrightarrow> list_ex (\<lambda>s. p = s \<or> starts_with p (s @ ''/'')) scopes"

definition validate_contract :: "(string \<Rightarrow> string) \<Rightarrow> change_set \<Rightarrow> change_set res" where
  "validate_contract nfkc c =
     (if cs_scope c = [] \<or> cs_paths c = [] then Inl (ValueError ''changeset.fields'')
      else res_bind (check_all validate_effect (cs_paths c)) (\<lambda>_.
        if cs_schema c \<noteq> SUPPORTED_CHANGESET_SCHEMA_VERSION
          then Inl (ValueError ''changeset.schema_unsupported'')
        else res_bind (check_all ensure_uuid4 [cs_id c, cs_task c, cs_attempt c]) (\<lambda>_.
        if \<not> hex_of_length 64 (cs_snapshot c) \<or> \<not> hex_of_length 40 (cs_head c)
          then Inl (ValueError ''changeset.base_invalid'')
        else if card (set (map (\<lambda>p. nfkc (cp_path p)) (cs_paths c))) \<noteq> length (cs_paths c)
          then Inl (ValueError ''changeset.path_collision'')
        else res_bind (check_all validate_relative_path (cs_scope c)) (\<lambda>_.
        if \<not> list_all (\<lambda>p. in_scope (cs_scope c) (cp_path p)) (cs_paths c)
          then Inl (ValueError ''changeset.path_outside_declared_scope'')
        else Inr c))))"

definition content_digest :: "(change_set \<Rightarrow> string) \<Rightarrow> change_set \<Rightarrow> string" where
  "content_digest sha_json c = sha_json (c\<lparr>cs_id := []\<rparr>)"

text \<open>What a validated change set promises to its consumers.\<close>

definition changeset_ok :: "change_set \<Rightarrow> bool" where
  "changeset_ok c \<longleftrightarrow> cs_paths c \<noteq> [] \<and> distinct (map cp_path (cs_paths c)) \<and>
     (\<forall>p \<in> set (cs_paths c). is_ok (validate_relative_path (cp_path p)) \<and>
        in_scope (cs_scope c) (cp_path p) \<and>
        expected_images (cp_effect p) = Some (cp_before p \<noteq> None, cp_after p \<noteq> None))"

lemma validate_contract_ok: "validate_contract nfkc c = Inr d \<Longrightarrow> d = c \<and> changeset_ok c"
proof -
  assume v: "validate_contract nfkc c = Inr d"
  then have c: "cs_paths c \<noteq> []" "card (set (map (\<lambda>p. nfkc (cp_path p)) (cs_paths c))) = length (cs_paths c)"
    "\<forall>p \<in> set (cs_paths c). is_ok (validate_effect p)"
    "list_all (\<lambda>p. in_scope (cs_scope c) (cp_path p)) (cs_paths c)" and d: "d = c"
    by (auto simp: validate_contract_def res_simps split: if_splits)
  have "distinct (map (\<lambda>p. nfkc (cp_path p)) (cs_paths c))"
    using c(2) by (intro card_distinct) simp
  then have "distinct (map nfkc (map cp_path (cs_paths c)))" by (simp add: comp_def)
  then have "distinct (map cp_path (cs_paths c))" by (simp only: distinct_map)
  moreover have "is_ok (validate_relative_path (cp_path p)) \<and>
      expected_images (cp_effect p) = Some (cp_before p \<noteq> None, cp_after p \<noteq> None)"
    if "p \<in> set (cs_paths c)" for p
    using c(3) that by (auto simp: validate_effect_def is_ok_iff res_simps split: if_splits)
  ultimately show ?thesis using c d by (auto simp: changeset_ok_def list_all_iff)
qed

section \<open>Status machine\<close>

fun CHANGESET_TRANSITIONS :: "changeset_status \<Rightarrow> changeset_status list" where
  "CHANGESET_TRANSITIONS C_CAPTURED = [C_APPLYING, C_BLOCKED]"
| "CHANGESET_TRANSITIONS C_APPLYING = [C_IN_DOUBT, C_INTEGRATED, C_BLOCKED]"
| "CHANGESET_TRANSITIONS C_IN_DOUBT = [C_INTEGRATED, C_BLOCKED]"
| "CHANGESET_TRANSITIONS _ = []"

definition changeset_step :: "changeset_status \<Rightarrow> changeset_status \<Rightarrow> changeset_status res" where
  "changeset_step expected target =
     (if target \<notin> set (CHANGESET_TRANSITIONS expected) then Inl (ValueError ''changeset.transition_invalid'')
      else Inr target)"

definition changeset_final :: "changeset_status \<Rightarrow> bool" where
  "changeset_final s \<longleftrightarrow> s = C_INTEGRATED \<or> s = C_BLOCKED"

interpretation changeset_cycle: lifecycle
  changeset_step "\<lambda>s t. t \<in> set (CHANGESET_TRANSITIONS s)" changeset_final
  by unfold_locales (auto simp: changeset_step_def changeset_final_def split: if_splits)

text \<open>An identifier for concrete examples.\<close>

definition ex_uuid :: "char \<Rightarrow> string" where
  "ex_uuid c = replicate 8 c @ ''-'' @ replicate 4 c @ ''-4'' @ replicate 3 c @ ''-8'' @ replicate 3 c @
     ''-'' @ replicate 12 c"

end
