(* ===== verification/Journal_Tables.thy ===== *)
theory Journal_Tables
  imports Prelude Status_Machines
begin

text \<open>
  The idempotent tables of the run journal (\<open>src/src/skail/sessions/journal.py\<close>,
  \<open>src/src/skail/sessions/schema.py\<close>): sessions, runs, tasks, attempts, assignments,
  reservations, usage, approvals, context packets and events, with the insert operation they
  share.  The interface \<open>idempotent_table\<close> states what a replayed insert promises; each
  table interprets it.

  Rows are in rowid order; creation and update timestamps are left out.  Amounts are compared
  as the texts \<open>format(x, "f")\<close> in the code and as rationals here, so two spellings of one
  amount are equal in the model.
\<close>

section \<open>Insert once\<close>

text \<open>
  \<open>_insert_idempotent\<close>: \<open>clash rows r\<close> is a constraint violation (primary key, unique
  column, foreign key, check), \<open>key\<close> the idempotency key and \<open>content\<close> the compared
  columns.
\<close>

definition insert_idempotent ::
  "('r list \<Rightarrow> 'r \<Rightarrow> bool) \<Rightarrow> ('r \<Rightarrow> 'k) \<Rightarrow> ('r \<Rightarrow> 'c) \<Rightarrow> 'r list \<Rightarrow> 'r \<Rightarrow> 'r list res" where
  "insert_idempotent clash key content rows r =
     (if \<not> clash rows r then Inr (rows @ [r])
      else (case List.find (\<lambda>x. key x = key r) rows of
              Some x \<Rightarrow> if content x = content r then Inr rows
                        else Inl (JournalIdempotencyError ''session.idempotency_conflict'')
            | None \<Rightarrow> Inl (JournalIdempotencyError ''session.idempotency_conflict'')))"

locale idempotent_table =
  fixes clash :: "'r list \<Rightarrow> 'r \<Rightarrow> bool" and key :: "'r \<Rightarrow> 'k" and content :: "'r \<Rightarrow> 'c"
  assumes key_unique: "\<exists>x \<in> set rows. key x = key r \<Longrightarrow> clash rows r"
begin

lemma insert_cases:
  "insert_idempotent clash key content rows r = Inr rows' \<Longrightarrow>
     (rows' = rows @ [r] \<and> (\<forall>x \<in> set rows. key x \<noteq> key r)) \<or>
     (rows' = rows \<and> (\<exists>x \<in> set rows. key x = key r \<and> content x = content r))"
  using key_unique
  by (auto simp: insert_idempotent_def find_Some_iff split: option.splits if_splits)

lemma insert_keys:
  "distinct (map key rows) \<Longrightarrow> insert_idempotent clash key content rows r = Inr rows' \<Longrightarrow> distinct (map key rows')"
  by (drule insert_cases) (fastforce simp: image_iff)

lemma insert_grows: "insert_idempotent clash key content rows r = Inr rows' \<Longrightarrow> set rows \<subseteq> set rows'"
  by (auto dest!: insert_cases)

text \<open>A second insert of the same content is a no-op, of other content is refused.\<close>

lemma replay:
  assumes d: "distinct (map key rows)" and ins: "insert_idempotent clash key content rows r = Inr rows'"
    and k: "key r' = key r"
  shows "insert_idempotent clash key content rows' r' =
     (if content r' = content r then Inr rows'
      else Inl (JournalIdempotencyError ''session.idempotency_conflict''))"
proof -
  obtain x where x: "x \<in> set rows'" "key x = key r" "content x = content r"
    using insert_cases [OF ins] by (metis in_set_conv_decomp)
  have "distinct (map key rows')" by (rule insert_keys [OF d ins])
  then have "List.find (\<lambda>y. key y = key r') rows' = Some x"
    using x k by (induction rows') (auto simp: image_iff)
  moreover have "clash rows' r'" using key_unique x k by metis
  ultimately show ?thesis using x(3) by (auto simp: insert_idempotent_def)
qed

end

section \<open>Tables\<close>

record session_row =
  se_id :: string
  se_title :: string
  se_status :: string

record jrun_row =
  ru_id :: string
  ru_session :: string
  ru_status :: string
  ru_key :: string
  ru_budget :: "usd option"

record task_row =
  ta_id :: string
  ta_run :: string
  ta_description :: string
  ta_status :: task_status
  ta_fingerprint :: string
  ta_key :: string

record attempt_row =
  at_id :: string
  at_task :: string
  at_number :: int
  at_status :: attempt_status
  at_key :: string

record assignment_row =
  as_id :: string
  as_attempt :: string
  as_provider :: string
  as_model :: string
  as_cost :: usd
  as_key :: string
  as_payload :: json

datatype reservation_status = R_RESERVED | R_RELEASED | R_SETTLED

datatype usage_authority =
    AUTHORITATIVE_ACTUAL | TOKEN_DERIVED_ESTIMATE | CONSERVATIVE_ESTIMATE | UNKNOWN_AUTHORITY
  | ESTIMATED_ACTUAL | RECONCILED_ESTIMATE

record reservation_row =
  rs_id :: string
  rs_run :: string
  rs_task :: "string option"
  rs_amount :: usd
  rs_status :: reservation_status
  rs_key :: string
  rs_purpose :: string

record usage_row =
  us_id :: string
  us_run :: string
  us_task :: "string option"
  us_amount :: usd
  us_authoritative :: bool
  us_key :: string
  us_authority :: usage_authority
  us_reservation :: "string option"

record approval_row =
  ap_id :: string
  ap_run :: string
  ap_task :: "string option"
  ap_status :: string
  ap_question :: string
  ap_key :: string

record packet_row =
  pk_id :: string
  pk_run :: string
  pk_task :: "string option"
  pk_attempt :: "string option"
  pk_payload :: json
  pk_key :: string

record envelope_row =
  en_id :: string
  en_run :: string
  en_seq :: int
  en_json :: string

record journal_db =
  jd_sessions :: "session_row list"
  jd_runs :: "jrun_row list"
  jd_tasks :: "task_row list"
  jd_results :: "string \<Rightarrow> json option"
  jd_attempts :: "attempt_row list"
  jd_assignments :: "assignment_row list"
  jd_reservations :: "reservation_row list"
  jd_usage :: "usage_row list"
  jd_approvals :: "approval_row list"
  jd_packets :: "packet_row list"
  jd_events :: "envelope_row list"
  jd_warning :: "string \<Rightarrow> bool option"

definition has_run :: "'a journal_db_scheme \<Rightarrow> string \<Rightarrow> bool" where
  "has_run db r \<longleftrightarrow> list_ex (\<lambda>x. ru_id x = r) (jd_runs db)"

definition has_task :: "'a journal_db_scheme \<Rightarrow> string option \<Rightarrow> bool" where
  "has_task db t \<longleftrightarrow> (case t of None \<Rightarrow> True | Some i \<Rightarrow> list_ex (\<lambda>x. ta_id x = i) (jd_tasks db))"

definition has_attempt :: "'a journal_db_scheme \<Rightarrow> string option \<Rightarrow> bool" where
  "has_attempt db a \<longleftrightarrow> (case a of None \<Rightarrow> True | Some i \<Rightarrow> list_ex (\<lambda>x. at_id x = i) (jd_attempts db))"

section \<open>Constraint violations\<close>

definition task_clash :: "'a journal_db_scheme \<Rightarrow> task_row list \<Rightarrow> task_row \<Rightarrow> bool" where
  "task_clash db rows r \<longleftrightarrow>
     list_ex (\<lambda>x. ta_id x = ta_id r \<or> ta_key x = ta_key r) rows \<or> \<not> has_run db (ta_run r)"

definition attempt_clash :: "'a journal_db_scheme \<Rightarrow> attempt_row list \<Rightarrow> attempt_row \<Rightarrow> bool" where
  "attempt_clash db rows r \<longleftrightarrow>
     list_ex (\<lambda>x. at_id x = at_id r \<or> at_key x = at_key r) rows \<or>
     \<not> has_task db (Some (at_task r)) \<or> (at_number r \<noteq> 1 \<and> at_number r \<noteq> 2)"

definition assignment_clash ::
  "'a journal_db_scheme \<Rightarrow> assignment_row list \<Rightarrow> assignment_row \<Rightarrow> bool" where
  "assignment_clash db rows r \<longleftrightarrow>
     list_ex (\<lambda>x. as_id x = as_id r \<or> as_key x = as_key r) rows \<or>
     \<not> has_attempt db (Some (as_attempt r))"

definition reservation_clash ::
  "'a journal_db_scheme \<Rightarrow> reservation_row list \<Rightarrow> reservation_row \<Rightarrow> bool" where
  "reservation_clash db rows r \<longleftrightarrow>
     list_ex (\<lambda>x. rs_id x = rs_id r \<or> rs_key x = rs_key r) rows \<or>
     \<not> has_run db (rs_run r) \<or> \<not> has_task db (rs_task r)"

text \<open>\<open>usage_reservation_unique\<close> is a partial index: it skips NULL reservation ids.\<close>

definition usage_clash :: "'a journal_db_scheme \<Rightarrow> usage_row list \<Rightarrow> usage_row \<Rightarrow> bool" where
  "usage_clash db rows r \<longleftrightarrow>
     list_ex (\<lambda>x. us_id x = us_id r \<or> us_key x = us_key r \<or>
        us_reservation r \<noteq> None \<and> us_reservation x = us_reservation r) rows \<or>
     \<not> has_run db (us_run r) \<or> \<not> has_task db (us_task r)"

definition approval_clash :: "'a journal_db_scheme \<Rightarrow> approval_row list \<Rightarrow> approval_row \<Rightarrow> bool" where
  "approval_clash db rows r \<longleftrightarrow>
     list_ex (\<lambda>x. ap_id x = ap_id r \<or> ap_key x = ap_key r) rows \<or>
     \<not> has_run db (ap_run r) \<or> \<not> has_task db (ap_task r)"

definition packet_clash :: "'a journal_db_scheme \<Rightarrow> packet_row list \<Rightarrow> packet_row \<Rightarrow> bool" where
  "packet_clash db rows r \<longleftrightarrow>
     list_ex (\<lambda>x. pk_id x = pk_id r \<or> pk_key x = pk_key r) rows \<or>
     \<not> has_run db (pk_run r) \<or> \<not> has_task db (pk_task r) \<or> \<not> has_attempt db (pk_attempt r)"

definition envelope_clash :: "'a journal_db_scheme \<Rightarrow> envelope_row list \<Rightarrow> envelope_row \<Rightarrow> bool" where
  "envelope_clash db rows r \<longleftrightarrow>
     list_ex (\<lambda>x. en_id x = en_id r \<or> en_run x = en_run r \<and> en_seq x = en_seq r) rows \<or>
     \<not> has_run db (en_run r)"

lemmas clash_defs = task_clash_def attempt_clash_def assignment_clash_def reservation_clash_def
  usage_clash_def approval_clash_def packet_clash_def envelope_clash_def

interpretation tasks_table: idempotent_table "task_clash db" ta_key "\<lambda>r. r"
  by unfold_locales (auto simp: clash_defs list_ex_iff)

interpretation attempts_table: idempotent_table "attempt_clash db" at_key "\<lambda>r. r"
  by unfold_locales (auto simp: clash_defs list_ex_iff)

interpretation assignments_table: idempotent_table "assignment_clash db" as_key "\<lambda>r. r"
  by unfold_locales (auto simp: clash_defs list_ex_iff)

interpretation reservations_table: idempotent_table "reservation_clash db" rs_key "\<lambda>r. r"
  by unfold_locales (auto simp: clash_defs list_ex_iff)

text \<open>\<open>record_usage\<close> compares every column but the reservation.\<close>

definition usage_content :: "usage_row \<Rightarrow> usage_row" where
  "usage_content r = r\<lparr>us_reservation := None\<rparr>"

interpretation usage_table: idempotent_table "usage_clash db" us_key usage_content
  by unfold_locales (auto simp: clash_defs list_ex_iff)

interpretation approvals_table: idempotent_table "approval_clash db" ap_key "\<lambda>r. r"
  by unfold_locales (auto simp: clash_defs list_ex_iff)

interpretation packets_table: idempotent_table "packet_clash db" pk_key "\<lambda>r. r"
  by unfold_locales (auto simp: clash_defs list_ex_iff)

interpretation events_table: idempotent_table "envelope_clash db" en_id en_json
  by unfold_locales (auto simp: clash_defs list_ex_iff)

section \<open>Operations\<close>

text \<open>The enumeration constructors on a stored text: an unknown value raises \<open>ValueError\<close>.\<close>

definition task_status_of_string :: "string \<Rightarrow> task_status res" where
  "task_status_of_string s =
     (if s = ''proposed'' then Inr PROPOSED else if s = ''queued'' then Inr QUEUED
      else if s = ''running'' then Inr RUNNING else if s = ''succeeded'' then Inr SUCCEEDED
      else if s = ''failed'' then Inr FAILED
      else if s = ''returned_to_lead'' then Inr RETURNED_TO_LEAD
      else if s = ''blocked'' then Inr BLOCKED
      else if s = ''budget_blocked'' then Inr BUDGET_BLOCKED
      else if s = ''cancelled'' then Inr CANCELLED else Inl (ValueError s))"

definition attempt_status_of_string :: "string \<Rightarrow> attempt_status res" where
  "attempt_status_of_string s =
     (if s = ''assigned'' then Inr A_ASSIGNED else if s = ''running'' then Inr A_RUNNING
      else if s = ''succeeded'' then Inr A_SUCCEEDED else if s = ''failed'' then Inr A_FAILED
      else if s = ''blocked'' then Inr A_BLOCKED else if s = ''cancelled'' then Inr A_CANCELLED
      else if s = ''interrupted'' then Inr A_INTERRUPTED else Inl (ValueError s))"

definition create_session :: "'a journal_db_scheme \<Rightarrow> string \<Rightarrow> string \<Rightarrow> string \<Rightarrow> 'a journal_db_scheme res" where
  "create_session db sid title status =
     (if list_ex (\<lambda>s. se_id s = sid) (jd_sessions db) then Inl (IntegrityError ''sessions'')
      else Inr (db\<lparr>jd_sessions := jd_sessions db @
             [\<lparr>se_id = sid, se_title = title, se_status = status\<rparr>]\<rparr>))"

definition update_session_status :: "'a journal_db_scheme \<Rightarrow> string \<Rightarrow> string \<Rightarrow> 'a journal_db_scheme res" where
  "update_session_status db sid status =
     (if \<not> list_ex (\<lambda>s. se_id s = sid) (jd_sessions db) then Inl (KeyError sid)
      else Inr (db\<lparr>jd_sessions := map (\<lambda>s. if se_id s = sid then s\<lparr>se_status := status\<rparr> else s)
             (jd_sessions db)\<rparr>))"

definition create_run ::
  "'a journal_db_scheme \<Rightarrow> string \<Rightarrow> string \<Rightarrow> string \<Rightarrow> usd option \<Rightarrow> string option \<Rightarrow>
     'a journal_db_scheme res" where
  "create_run db rid sid status budget key =
     (let k = (case key of None \<Rightarrow> ''run:'' @ rid | Some k \<Rightarrow> if k = [] then ''run:'' @ rid else k) in
      if list_ex (\<lambda>r. ru_id r = rid \<or> ru_key r = k) (jd_runs db) \<or>
         \<not> list_ex (\<lambda>s. se_id s = sid) (jd_sessions db)
        then Inl (IntegrityError ''runs'')
      else Inr (db\<lparr>jd_runs := jd_runs db @
             [\<lparr>ru_id = rid, ru_session = sid, ru_status = status, ru_key = k, ru_budget = budget\<rparr>]\<rparr>))"

definition update_run_status :: "'a journal_db_scheme \<Rightarrow> string \<Rightarrow> string \<Rightarrow> 'a journal_db_scheme res" where
  "update_run_status db rid status =
     (if \<not> has_run db rid then Inl (KeyError rid)
      else Inr (db\<lparr>jd_runs := map (\<lambda>r. if ru_id r = rid then r\<lparr>ru_status := status\<rparr> else r)
             (jd_runs db)\<rparr>))"

definition insert_task :: "'a journal_db_scheme \<Rightarrow> task_row \<Rightarrow> 'a journal_db_scheme res" where
  "insert_task db r =
     res_bind (insert_idempotent (task_clash db) ta_key (\<lambda>r. r) (jd_tasks db) r)
       (\<lambda>rows. Inr (db\<lparr>jd_tasks := rows\<rparr>))"

definition create_task ::
  "(string \<Rightarrow> string) \<Rightarrow> 'a journal_db_scheme \<Rightarrow> string \<Rightarrow> string \<Rightarrow> string \<Rightarrow> string \<Rightarrow> string \<Rightarrow>
     string \<Rightarrow> 'a journal_db_scheme res" where
  "create_task scrub db tid rid description status fingerprint key =
     res_bind (task_status_of_string status) (\<lambda>st.
       insert_task db \<lparr>ta_id = tid, ta_run = rid, ta_description = scrub description,
         ta_status = st, ta_fingerprint = fingerprint, ta_key = key\<rparr>)"

definition update_task_status :: "'a journal_db_scheme \<Rightarrow> string \<Rightarrow> task_status \<Rightarrow> 'a journal_db_scheme res" where
  "update_task_status db tid st =
     (if \<not> has_task db (Some tid) then Inl (KeyError tid)
      else Inr (db\<lparr>jd_tasks := map (\<lambda>r. if ta_id r = tid then r\<lparr>ta_status := st\<rparr> else r)
             (jd_tasks db)\<rparr>))"

text \<open>
  \<open>ensure_task\<close> turns a conflicting replay of the same task into a status transition.
\<close>

definition ensure_task ::
  "(string \<Rightarrow> string) \<Rightarrow> 'a journal_db_scheme \<Rightarrow> string \<Rightarrow> string \<Rightarrow> string \<Rightarrow> string \<Rightarrow> string \<Rightarrow>
     string \<Rightarrow> 'a journal_db_scheme res" where
  "ensure_task scrub db tid rid description status fingerprint key =
     res_bind (task_status_of_string status) (\<lambda>st.
       (case insert_task db \<lparr>ta_id = tid, ta_run = rid, ta_description = scrub description,
           ta_status = st, ta_fingerprint = fingerprint, ta_key = key\<rparr> of
          Inr db' \<Rightarrow> Inr db'
        | Inl e \<Rightarrow>
            (case List.find (\<lambda>x. ta_key x = key) (jd_tasks db) of
               None \<Rightarrow> Inl e
             | Some x \<Rightarrow>
                 if ta_id x \<noteq> tid then Inl e
                 else Inr (db\<lparr>jd_tasks := map (\<lambda>r. if ta_id r = tid
                        then r\<lparr>ta_status := st, ta_fingerprint := fingerprint\<rparr> else r)
                        (jd_tasks db)\<rparr>))))"

definition record_task_result ::
  "(json \<Rightarrow> json) \<Rightarrow> 'a journal_db_scheme \<Rightarrow> string \<Rightarrow> json \<Rightarrow> 'a journal_db_scheme res" where
  "record_task_result scrub_json db tid payload =
     (if \<not> has_task db (Some tid) then Inl (IntegrityError ''task_results'')
      else Inr (db\<lparr>jd_results := (jd_results db)(tid \<mapsto> scrub_json payload)\<rparr>))"

definition create_attempt ::
  "'a journal_db_scheme \<Rightarrow> string \<Rightarrow> string \<Rightarrow> int \<Rightarrow> string \<Rightarrow> string \<Rightarrow> 'a journal_db_scheme res" where
  "create_attempt db aid tid number status key =
     res_bind (attempt_status_of_string status) (\<lambda>st.
     res_bind (insert_idempotent (attempt_clash db) at_key (\<lambda>r. r) (jd_attempts db)
         \<lparr>at_id = aid, at_task = tid, at_number = number, at_status = st, at_key = key\<rparr>)
       (\<lambda>rows. Inr (db\<lparr>jd_attempts := rows\<rparr>)))"

definition update_attempt_status :: "'a journal_db_scheme \<Rightarrow> string \<Rightarrow> attempt_status \<Rightarrow> 'a journal_db_scheme res" where
  "update_attempt_status db aid st =
     (if \<not> has_attempt db (Some aid) then Inl (KeyError aid)
      else Inr (db\<lparr>jd_attempts := map (\<lambda>r. if at_id r = aid then r\<lparr>at_status := st\<rparr> else r)
             (jd_attempts db)\<rparr>))"

definition create_assignment ::
  "(json \<Rightarrow> json) \<Rightarrow> 'a journal_db_scheme \<Rightarrow> string \<Rightarrow> string \<Rightarrow> string \<Rightarrow> string \<Rightarrow> usd \<Rightarrow>
     string option \<Rightarrow> json \<Rightarrow> 'a journal_db_scheme res" where
  "create_assignment scrub_json db asid aid provider model cost key payload =
     (let k = (case key of None \<Rightarrow> ''assignment:'' @ aid
               | Some k \<Rightarrow> if k = [] then ''assignment:'' @ aid else k)
      in res_bind (insert_idempotent (assignment_clash db) as_key (\<lambda>r. r) (jd_assignments db)
           \<lparr>as_id = asid, as_attempt = aid, as_provider = provider, as_model = model,
            as_cost = cost, as_key = k, as_payload = scrub_json payload\<rparr>)
         (\<lambda>rows. Inr (db\<lparr>jd_assignments := rows\<rparr>)))"

definition create_reservation :: "'a journal_db_scheme \<Rightarrow> reservation_row \<Rightarrow> 'a journal_db_scheme res" where
  "create_reservation db r =
     res_bind (insert_idempotent (reservation_clash db) rs_key (\<lambda>r. r) (jd_reservations db) r)
       (\<lambda>rows. Inr (db\<lparr>jd_reservations := rows\<rparr>))"

definition record_usage :: "'a journal_db_scheme \<Rightarrow> usage_row \<Rightarrow> 'a journal_db_scheme res" where
  "record_usage db r =
     res_bind (insert_idempotent (usage_clash db) us_key usage_content (jd_usage db)
         (r\<lparr>us_reservation := None\<rparr>))
       (\<lambda>rows. Inr (db\<lparr>jd_usage := rows\<rparr>))"

definition create_approval ::
  "(string \<Rightarrow> string) \<Rightarrow> 'a journal_db_scheme \<Rightarrow> approval_row \<Rightarrow> 'a journal_db_scheme res" where
  "create_approval scrub db r =
     res_bind (insert_idempotent (approval_clash db) ap_key (\<lambda>r. r) (jd_approvals db)
         (r\<lparr>ap_question := scrub (ap_question r)\<rparr>))
       (\<lambda>rows. Inr (db\<lparr>jd_approvals := rows\<rparr>))"

definition create_context_packet ::
  "(json \<Rightarrow> json) \<Rightarrow> 'a journal_db_scheme \<Rightarrow> packet_row \<Rightarrow> 'a journal_db_scheme res" where
  "create_context_packet scrub_json db r =
     res_bind (insert_idempotent (packet_clash db) pk_key (\<lambda>r. r) (jd_packets db)
         (r\<lparr>pk_payload := scrub_json (pk_payload r)\<rparr>))
       (\<lambda>rows. Inr (db\<lparr>jd_packets := rows\<rparr>))"

definition append_event :: "'a journal_db_scheme \<Rightarrow> envelope_row \<Rightarrow> 'a journal_db_scheme res" where
  "append_event db e =
     res_bind (insert_idempotent (envelope_clash db) en_id en_json (jd_events db) e)
       (\<lambda>rows. Inr (db\<lparr>jd_events := rows\<rparr>))"

text \<open>\<open>WHERE run_id=? AND sequence>? ORDER BY sequence\<close>.\<close>

definition events_after :: "'a journal_db_scheme \<Rightarrow> string \<Rightarrow> int \<Rightarrow> envelope_row list" where
  "events_after db rid cursor =
     sort_key en_seq (filter (\<lambda>e. en_run e = rid \<and> cursor < en_seq e) (jd_events db))"

definition events_ok :: "'a journal_db_scheme \<Rightarrow> bool" where
  "events_ok db \<longleftrightarrow> distinct (map en_id (jd_events db)) \<and>
     distinct (map (\<lambda>e. (en_run e, en_seq e)) (jd_events db))"


section \<open>Properties\<close>

text \<open>The keys of the tables, as SQLite enforces them.\<close>

definition journal_keys_ok :: "'a journal_db_scheme \<Rightarrow> bool" where
  "journal_keys_ok db \<longleftrightarrow>
     distinct (map ta_key (jd_tasks db)) \<and> distinct (map at_key (jd_attempts db)) \<and>
     distinct (map as_key (jd_assignments db)) \<and> distinct (map rs_key (jd_reservations db)) \<and>
     distinct (map us_key (jd_usage db)) \<and> distinct (map ap_key (jd_approvals db)) \<and>
     distinct (map pk_key (jd_packets db)) \<and> events_ok db"

lemma clash_frame [simp]:
  "attempt_clash (db\<lparr>jd_attempts := x\<rparr>) = attempt_clash db"
  "reservation_clash (db\<lparr>jd_reservations := y\<rparr>) = reservation_clash db"
  "usage_clash (db\<lparr>jd_usage := z\<rparr>) = usage_clash db"
  "envelope_clash (db\<lparr>jd_events := w\<rparr>) = envelope_clash db"
  by (auto simp: fun_eq_iff clash_defs has_run_def has_task_def split: option.splits)

lemma reservation_replay:
  assumes "journal_keys_ok db" and "create_reservation db r = Inr db'" and "rs_key r' = rs_key r"
  shows "create_reservation db' r' =
     (if r' = r then Inr db' else Inl (JournalIdempotencyError ''session.idempotency_conflict''))"
proof -
  obtain rows where ins: "insert_idempotent (reservation_clash db) rs_key (\<lambda>r. r) (jd_reservations db) r = Inr rows"
    and db': "db' = db\<lparr>jd_reservations := rows\<rparr>"
    using assms(2) by (auto simp: create_reservation_def res_simps)
  have "distinct (map rs_key (jd_reservations db))" using assms(1) by (simp add: journal_keys_ok_def)
  from reservations_table.replay [OF this ins assms(3)] show ?thesis
    by (simp add: create_reservation_def db')
qed

lemma attempt_replay:
  assumes "journal_keys_ok db" and "create_attempt db aid tid number status key = Inr db'"
  shows "create_attempt db' aid' tid' number' status' key =
     res_bind (attempt_status_of_string status') (\<lambda>st'.
       if aid' = aid \<and> tid' = tid \<and> number' = number \<and> attempt_status_of_string status = Inr st'
       then Inr db' else Inl (JournalIdempotencyError ''session.idempotency_conflict''))"
proof -
  obtain st rows where st: "attempt_status_of_string status = Inr st"
    and ins: "insert_idempotent (attempt_clash db) at_key (\<lambda>r. r) (jd_attempts db)
          \<lparr>at_id = aid, at_task = tid, at_number = number, at_status = st, at_key = key\<rparr> = Inr rows"
    and db': "db' = db\<lparr>jd_attempts := rows\<rparr>"
    using assms(2) by (auto simp: create_attempt_def res_simps)
  have "distinct (map at_key (jd_attempts db))" using assms(1) by (simp add: journal_keys_ok_def)
  note rep = attempts_table.replay [OF this ins]
  show ?thesis
    by (cases "attempt_status_of_string status'")
      (auto simp: create_attempt_def db' st
        rep)
qed

text \<open>
  Journal writes are idempotent.  Repeating a write with its idempotency key and the same
  content leaves the journal as it is; the same key with other content is refused with
  \<open>session.idempotency_conflict\<close>.  Stated for reservations and attempts, the writes a
  recovered run replays.
\<close>

theorem journal_write_replay:
  assumes "journal_keys_ok db"
    and "create_reservation db r = Inr db1" and "rs_key r' = rs_key r"
    and "create_attempt db aid tid number status key = Inr db2"
  shows "create_reservation db1 r' =
       (if r' = r then Inr db1 else Inl (JournalIdempotencyError ''session.idempotency_conflict'')) \<and>
     create_attempt db2 aid tid number status key = Inr db2 \<and>
     (aid' \<noteq> aid \<longrightarrow> create_attempt db2 aid' tid number status key =
        Inl (JournalIdempotencyError ''session.idempotency_conflict''))"
proof -
  obtain st where "attempt_status_of_string status = Inr st"
    using assms(4) by (auto simp: create_attempt_def res_simps)
  then show ?thesis
    using reservation_replay [OF assms(1-3)] attempt_replay [OF assms(1,4)] by simp
qed

definition ex_journal :: journal_db where
  "ex_journal = \<lparr>jd_sessions = [\<lparr>se_id = ''s'', se_title = ''t'', se_status = ''active''\<rparr>],
     jd_runs = [\<lparr>ru_id = ''r'', ru_session = ''s'', ru_status = ''running'', ru_key = ''run:r'',
       ru_budget = Some 10\<rparr>],
     jd_tasks = [\<lparr>ta_id = ''t'', ta_run = ''r'', ta_description = ''d'', ta_status = QUEUED,
       ta_fingerprint = ''f'', ta_key = ''kt''\<rparr>],
     jd_results = Map.empty, jd_attempts = [], jd_assignments = [], jd_reservations = [],
     jd_usage = [], jd_approvals = [], jd_packets = [], jd_events = [], jd_warning = Map.empty\<rparr>"

definition ex_reservation :: "string \<Rightarrow> usd \<Rightarrow> reservation_row" where
  "ex_reservation k a = \<lparr>rs_id = ''v'' @ k, rs_run = ''r'', rs_task = Some ''t'', rs_amount = a,
     rs_status = R_RESERVED, rs_key = k, rs_purpose = ''task_attempt''\<rparr>"

lemma ex_journal_keys: "journal_keys_ok ex_journal" by code_simp

theorem journal_write_replay_witness:
  "\<exists>d. create_reservation ex_journal (ex_reservation ''k'' 2) = Inr d \<and>
     create_reservation d (ex_reservation ''k'' 2) = Inr d \<and>
     create_reservation d (ex_reservation ''k'' 3) =
       Inl (JournalIdempotencyError ''session.idempotency_conflict'')"
proof -
  have "is_ok (create_reservation ex_journal (ex_reservation ''k'' 2))" by code_simp
  then obtain d where d: "create_reservation ex_journal (ex_reservation ''k'' 2) = Inr d"
    by (auto simp: is_ok_iff)
  have "is_ok (create_attempt ex_journal ''a'' ''t'' 1 ''assigned'' ''ka'')" by code_simp
  then obtain d2 where d2: "create_attempt ex_journal ''a'' ''t'' 1 ''assigned'' ''ka'' = Inr d2"
    by (auto simp: is_ok_iff)
  have k: "rs_key (ex_reservation ''k'' x) = rs_key (ex_reservation ''k'' y)" for x y
    by (simp add: ex_reservation_def)
  have ne: "ex_reservation ''k'' 3 \<noteq> ex_reservation ''k'' 2" by (simp add: ex_reservation_def)
  show ?thesis
    using d ne journal_write_replay [OF ex_journal_keys d k d2] by (intro exI [of _ d]) metis
qed

text \<open>
  The event log is append only.  An accepted event is stored under its run and sequence
  number, which no other stored event has; every event stored before is still there, and a replay
  of a stored event changes nothing.
\<close>

theorem event_log_append_only:
  assumes "events_ok db" and "append_event db e = Inr db'"
  shows "events_ok db' \<and> set (jd_events db) \<subseteq> set (jd_events db') \<and>
     (\<exists>e' \<in> set (jd_events db'). en_id e' = en_id e \<and> en_json e' = en_json e) \<and>
     append_event db' e = Inr db'"
proof -
  obtain rows where ins: "insert_idempotent (envelope_clash db) en_id en_json (jd_events db) e = Inr rows"
    and db': "db' = db\<lparr>jd_events := rows\<rparr>"
    using assms(2) by (auto simp: append_event_def res_simps)
  have ids: "distinct (map en_id (jd_events db))" using assms(1) by (simp add: events_ok_def)
  have seqs: "distinct (map (\<lambda>e. (en_run e, en_seq e)) rows)"
  proof (cases "envelope_clash db (jd_events db) e")
    case True
    then have "rows = jd_events db"
      using ins by (auto simp: insert_idempotent_def
          split: option.splits if_splits)
    with assms(1) show ?thesis by (simp add: events_ok_def)
  next
    case False
    then have "rows = jd_events db @ [e]"
      using ins by (simp add: insert_idempotent_def)
    with False assms(1) show ?thesis
      by (auto simp: events_ok_def envelope_clash_def list_ex_iff)
  qed
  have rep: "append_event db' e = Inr db'"
    using events_table.replay [OF ids ins refl]
    by (simp add: append_event_def db')
  show ?thesis
    using events_table.insert_keys [OF ids ins] events_table.insert_grows [OF ins]
      events_table.insert_cases [OF ins] seqs rep
    by (auto simp: events_ok_def db')
qed

theorem event_log_append_only_witness:
  "\<exists>d. append_event ex_journal \<lparr>en_id = ''e'', en_run = ''r'', en_seq = 1, en_json = ''j''\<rparr> = Inr d \<and>
     events_ok d \<and> append_event d \<lparr>en_id = ''e'', en_run = ''r'', en_seq = 1, en_json = ''j''\<rparr> = Inr d"
proof -
  have "is_ok (append_event ex_journal \<lparr>en_id = ''e'', en_run = ''r'', en_seq = 1, en_json = ''j''\<rparr>)"
    by code_simp
  then obtain d where d: "append_event ex_journal \<lparr>en_id = ''e'', en_run = ''r'', en_seq = 1, en_json = ''j''\<rparr> = Inr d"
    by (auto simp: is_ok_iff)
  have "events_ok ex_journal" by code_simp
  from event_log_append_only [OF this d] d show ?thesis by blast
qed

end
