(* ===== verification/Changeset_Store.thy ===== *)
theory Changeset_Store
  imports Changeset_Domain Journal_Tables
begin

text \<open>
  The change-set tables of the run journal (\<open>src/src/skail/sessions/journal.py\<close>, schema
  versions 14 and 15): recording a capture once, compare-and-transition with an operation log,
  the per-file intents of an apply, and reading a change set back.
\<close>

section \<open>Tables\<close>

record changeset_row =
  cr_id :: string
  cr_task :: string
  cr_attempt :: string
  cr_snapshot :: string
  cr_head :: string
  cr_digest :: string
  cr_status :: changeset_status
  cr_payload :: change_set
  cr_key :: string

record operation_row =
  op_id :: string
  op_changeset :: string
  op_expected :: changeset_status
  op_target :: changeset_status
  op_digest :: string

record file_row =
  fo_changeset :: string
  fo_path :: string
  fo_before :: "string option"
  fo_after :: "string option"
  fo_applied :: bool

record changeset_db = journal_db +
  cd_sets :: "changeset_row list"
  cd_ops :: "operation_row list"
  cd_files :: "file_row list"

definition changeset_clash :: "changeset_db \<Rightarrow> changeset_row list \<Rightarrow> changeset_row \<Rightarrow> bool" where
  "changeset_clash db rows r \<longleftrightarrow>
     list_ex (\<lambda>x. cr_id x = cr_id r \<or> cr_attempt x = cr_attempt r \<or> cr_key x = cr_key r) rows \<or>
     \<not> has_task db (Some (cr_task r)) \<or> \<not> has_attempt db (Some (cr_attempt r))"

interpretation changesets_table: idempotent_table "changeset_clash db" cr_key "\<lambda>r. r"
  by unfold_locales (auto simp: changeset_clash_def list_ex_iff)

section \<open>Recording a capture\<close>

text \<open>
  \<open>scrub\<close> is the redactor on the dumped model; a payload it changes no longer validates to
  the same digest and is refused.
\<close>

definition record_changeset ::
  "(string \<Rightarrow> string) \<Rightarrow> (change_set \<Rightarrow> string) \<Rightarrow> (change_set \<Rightarrow> change_set) \<Rightarrow>
     changeset_db \<Rightarrow> change_set \<Rightarrow> string \<Rightarrow> changeset_db res" where
  "record_changeset nfkc sha_json scrub db c key =
     res_bind (validate_contract nfkc (scrub c)) (\<lambda>payload.
       if content_digest sha_json payload \<noteq> content_digest sha_json c
         then Inl (ValueError ''changeset.payload_redacted'')
       else res_bind (insert_idempotent (changeset_clash db) cr_key (\<lambda>r. r) (cd_sets db)
            \<lparr>cr_id = cs_id c, cr_task = cs_task c, cr_attempt = cs_attempt c,
             cr_snapshot = cs_snapshot c, cr_head = cs_head c,
             cr_digest = content_digest sha_json c, cr_status = C_CAPTURED,
             cr_payload = payload, cr_key = key\<rparr>)
         (\<lambda>rows. Inr (db\<lparr>cd_sets := rows\<rparr>)))"

definition changeset_by_id :: "changeset_db \<Rightarrow> string \<Rightarrow> changeset_row option" where
  "changeset_by_id db i = List.find (\<lambda>r. cr_id r = i) (cd_sets db)"

definition get_changeset ::
  "(string \<Rightarrow> string) \<Rightarrow> (change_set \<Rightarrow> string) \<Rightarrow> changeset_db \<Rightarrow> string \<Rightarrow>
     (change_set \<times> changeset_status) res" where
  "get_changeset nfkc sha_json db i =
     (case changeset_by_id db i of
        None \<Rightarrow> Inl (KeyError i)
      | Some r \<Rightarrow>
          res_bind (validate_contract nfkc (cr_payload r)) (\<lambda>c.
            if content_digest sha_json c \<noteq> cr_digest r
              then Inl (ValueError ''changeset.persistence_corrupt'')
            else Inr (c, cr_status r)))"

section \<open>Transitions\<close>

definition with_changeset_status :: "string \<Rightarrow> changeset_status \<Rightarrow> changeset_row \<Rightarrow> changeset_row" where
  "with_changeset_status i st r = (if cr_id r = i then r\<lparr>cr_status := st\<rparr> else r)"

lemma with_changeset_status_simps [simp]:
  "cr_id (with_changeset_status i st r) = cr_id r" "cr_payload (with_changeset_status i st r) = cr_payload r"
  "cr_digest (with_changeset_status i st r) = cr_digest r" "cr_key (with_changeset_status i st r) = cr_key r"
  "cr_status (with_changeset_status i st r) = (if cr_id r = i then st else cr_status r)"
  by (simp_all add: with_changeset_status_def)

definition transition_changeset_status ::
  "changeset_db \<Rightarrow> string \<Rightarrow> changeset_status \<Rightarrow> changeset_status \<Rightarrow> string \<Rightarrow> changeset_db res" where
  "transition_changeset_status db i expected target operation =
     res_bind (ensure_uuid4 operation) (\<lambda>_.
     res_bind (changeset_step expected target) (\<lambda>_.
       (case changeset_by_id db i of
          None \<Rightarrow> Inl (KeyError i)
        | Some r \<Rightarrow>
            (let entry = \<lparr>op_id = operation, op_changeset = i, op_expected = expected,
                          op_target = target, op_digest = cr_digest r\<rparr> in
             case List.find (\<lambda>x. op_id x = operation) (cd_ops db) of
               Some x \<Rightarrow>
                 if x \<noteq> entry then Inl (JournalIdempotencyError ''session.idempotency_conflict'')
                 else Inr db
             | None \<Rightarrow>
                 if cr_status r \<noteq> expected then Inl (ValueError ''changeset.transition_conflict'')
                 else Inr (db\<lparr>cd_sets := map (with_changeset_status i target) (cd_sets db),
                              cd_ops := cd_ops db @ [entry]\<rparr>)))))"

definition intent :: "string \<Rightarrow> changeset_path \<Rightarrow> file_row" where
  "intent i p = \<lparr>fo_changeset = i, fo_path = cp_path p,
     fo_before = map_option im_digest (cp_before p), fo_after = map_option im_digest (cp_after p),
     fo_applied = False\<rparr>"

lemma intent_simps [simp]:
  "fo_changeset (intent i p) = i" "fo_path (intent i p) = cp_path p" "\<not> fo_applied (intent i p)"
  by (simp_all add: intent_def)

fun insert_intents :: "string \<Rightarrow> file_row list \<Rightarrow> changeset_path list \<Rightarrow> file_row list res" where
  "insert_intents i rows [] = Inr rows"
| "insert_intents i rows (p # ps) =
     (if list_ex (\<lambda>f. fo_changeset f = i \<and> fo_path f = cp_path p) rows
        then Inl (IntegrityError ''change_set_file_operations'')
      else insert_intents i (rows @ [intent i p]) ps)"

definition begin_changeset_apply :: "changeset_db \<Rightarrow> change_set \<Rightarrow> string \<Rightarrow> changeset_db res" where
  "begin_changeset_apply db c operation =
     res_bind (transition_changeset_status db (cs_id c) C_CAPTURED C_APPLYING operation) (\<lambda>db'.
     res_bind (insert_intents (cs_id c) (cd_files db') (cs_paths c)) (\<lambda>rows.
       Inr (db'\<lparr>cd_files := rows\<rparr>)))"

definition intended :: "string \<Rightarrow> string \<Rightarrow> file_row \<Rightarrow> bool" where
  "intended i p f \<longleftrightarrow> fo_changeset f = i \<and> fo_path f = p \<and> \<not> fo_applied f"

definition mark_changeset_file_applied :: "changeset_db \<Rightarrow> string \<Rightarrow> string \<Rightarrow> changeset_db res" where
  "mark_changeset_file_applied db i p =
     (if length (filter (intended i p) (cd_files db)) \<noteq> 1
        then Inl (ValueError ''changeset.file_operation_conflict'')
      else Inr (db\<lparr>cd_files := map (\<lambda>f. if intended i p f then f\<lparr>fo_applied := True\<rparr> else f)
             (cd_files db)\<rparr>))"

section \<open>Effects\<close>

definition changesets_ok :: "changeset_db \<Rightarrow> bool" where
  "changesets_ok db \<longleftrightarrow> distinct (map cr_id (cd_sets db)) \<and> distinct (map cr_key (cd_sets db)) \<and>
     distinct (map (\<lambda>f. (fo_changeset f, fo_path f)) (cd_files db)) \<and>
     (\<forall>r \<in> set (cd_sets db). cs_id (cr_payload r) = cr_id r) \<and>
     (\<forall>f \<in> set (cd_files db). \<forall>r \<in> set (cd_sets db).
        fo_changeset f = cr_id r \<longrightarrow> cr_status r \<noteq> C_CAPTURED)"

definition status_of :: "changeset_db \<Rightarrow> string \<Rightarrow> changeset_status option" where
  "status_of db i = map_option cr_status (changeset_by_id db i)"

lemma find_map_same:
  "(\<And>x. p (g x) = p x) \<Longrightarrow> List.find p (map g xs) = map_option g (List.find p xs)"
  by (induction xs) auto

lemma by_id_transition:
  "changeset_by_id (db\<lparr>cd_sets := map (with_changeset_status i st) (cd_sets db), cd_ops := ops\<rparr>) j =
     map_option (with_changeset_status i st) (changeset_by_id db j)"
  by (simp add: changeset_by_id_def find_map_same)

lemma by_id_Some: "changeset_by_id db i = Some r \<Longrightarrow> r \<in> set (cd_sets db) \<and> cr_id r = i"
  unfolding changeset_by_id_def by (auto simp: find_Some_iff)

text \<open>A transition with a fresh operation id is a compare-and-set on the status.\<close>

lemma transition_fresh:
  assumes "List.find (\<lambda>x. op_id x = operation) (cd_ops db) = None"
  shows "transition_changeset_status db i expected target operation = Inr db' \<longleftrightarrow>
     is_ok (ensure_uuid4 operation) \<and> target \<in> set (CHANGESET_TRANSITIONS expected) \<and>
     (\<exists>r. changeset_by_id db i = Some r \<and> cr_status r = expected \<and>
        db' = db\<lparr>cd_sets := map (with_changeset_status i target) (cd_sets db),
                 cd_ops := cd_ops db @ [\<lparr>op_id = operation, op_changeset = i, op_expected = expected,
                   op_target = target, op_digest = cr_digest r\<rparr>]\<rparr>)"
  using assms
  by (auto simp: transition_changeset_status_def res_simps is_ok_iff changeset_step_def Let_def
      split: option.splits if_splits)

lemma transition_status:
  assumes "transition_changeset_status db i expected target operation = Inr db'"
  shows "db' = db \<or> status_of db i = Some expected \<and> status_of db' i = Some target \<and>
     (\<forall>j. j \<noteq> i \<longrightarrow> status_of db' j = status_of db j) \<and> cd_files db' = cd_files db"
proof (cases "List.find (\<lambda>x. op_id x = operation) (cd_ops db)")
  case None
  then obtain r where r: "changeset_by_id db i = Some r" "cr_status r = expected"
    "db' = db\<lparr>cd_sets := map (with_changeset_status i target) (cd_sets db),
       cd_ops := cd_ops db @ [\<lparr>op_id = operation, op_changeset = i, op_expected = expected,
                   op_target = target, op_digest = cr_digest r\<rparr>]\<rparr>"
    using assms by (auto simp: transition_fresh)
  have "status_of db' j = status_of db j" if "j \<noteq> i" for j
    using that by (cases "changeset_by_id db j") (auto simp: status_of_def r(3) by_id_transition dest!: by_id_Some)
  with r by_id_Some [OF r(1)] show ?thesis by (auto simp: status_of_def by_id_transition)
next
  case (Some x)
  then show ?thesis
    using assms by (auto simp: transition_changeset_status_def res_simps Let_def split: option.splits if_splits)
qed

lemma insert_intents_Inr: "insert_intents i rows ps = Inr rows' \<Longrightarrow> rows' = rows @ map (intent i) ps"
  by (induction i rows ps rule: insert_intents.induct) (auto split: if_splits)

lemma insert_intents_distinct:
  "insert_intents i rows ps = Inr rows' \<Longrightarrow> distinct (map (\<lambda>f. (fo_changeset f, fo_path f)) rows) \<Longrightarrow>
     distinct (map (\<lambda>f. (fo_changeset f, fo_path f)) rows')"
proof (induction i rows ps rule: insert_intents.induct)
  case (1 i rows)
  then show ?case by simp
next
  case (2 i rows p ps)
  then have "\<forall>f \<in> set rows. \<not> (fo_changeset f = i \<and> fo_path f = cp_path p)"
    by (auto simp: list_ex_iff split: if_splits)
  then have "(i, cp_path p) \<notin> set (map (\<lambda>f. (fo_changeset f, fo_path f)) rows)" by auto
  with 2 show ?case by (auto split: if_splits)
qed

lemma insert_intents_fresh:
  "\<forall>f \<in> set rows. fo_changeset f \<noteq> i \<or> fo_path f \<notin> set (map cp_path ps) \<Longrightarrow> distinct (map cp_path ps) \<Longrightarrow>
     is_ok (insert_intents i rows ps)"
proof (induction i rows ps rule: insert_intents.induct)
  case (1 i rows)
  then show ?case by simp
next
  case (2 i rows p ps)
  then show ?case by (auto simp: list_ex_iff)
qed

end
