(* ===== verification/Workspace_Files.thy ===== *)
theory Workspace_Files
  imports Changeset_Domain
begin

text \<open>
  The files of a workspace as \<open>src/src/skail/runtime/changeset_integration.py\<close> and
  \<open>src/src/skail/runtime/workspace_capture.py\<close> see them: a map from relative paths to
  entries, path lookup with symbolic links, the artifact store, and the checked operations of the
  integrator.

  A symbolic link either resolves to an existing place outside the workspace (\<open>Symlink True\<close>)
  or dangles (\<open>Symlink False\<close>); links between places of one workspace are not modelled.
  \<open>faulty\<close> says which calls the operating system refuses with \<open>OSError\<close>, so every result
  holds for every pattern of failing writes.
\<close>

section \<open>Entries and lookup\<close>

datatype entry = Regular string | Directory | Symlink bool

type_synonym fs = "string list \<Rightarrow> entry option"

datatype found = Missing | Found entry | Outside

text \<open>\<open>stat\<close>: every component but the last must be a directory.\<close>

fun walk :: "fs \<Rightarrow> string list \<Rightarrow> string list \<Rightarrow> found" where
  "walk fs d [] =
     (case fs d of None \<Rightarrow> Missing | Some (Symlink out) \<Rightarrow> if out then Outside else Missing
      | Some e \<Rightarrow> Found e)"
| "walk fs d (x # xs) =
     (case fs d of Some Directory \<Rightarrow> walk fs (d @ [x]) xs
      | Some (Symlink out) \<Rightarrow> if out then Outside else Missing
      | _ \<Rightarrow> Missing)"

definition stat :: "fs \<Rightarrow> string list \<Rightarrow> found" where
  "stat fs p = walk fs [] p"

definition exists_path :: "fs \<Rightarrow> string list \<Rightarrow> bool" where
  "exists_path fs p \<longleftrightarrow> stat fs p \<noteq> Missing"

definition is_symlink :: "fs \<Rightarrow> string list \<Rightarrow> bool" where
  "is_symlink fs p \<longleftrightarrow> p \<noteq> [] \<and> stat fs (butlast p) = Found Directory \<and>
     (case fs p of Some (Symlink _) \<Rightarrow> True | _ \<Rightarrow> False)"

definition is_file :: "fs \<Rightarrow> string list \<Rightarrow> bool" where
  "is_file fs p \<longleftrightarrow> (case stat fs p of Found (Regular _) \<Rightarrow> True | _ \<Rightarrow> False)"

text \<open>The proper prefixes of a path: from the root down, and from the parent up.\<close>

definition ancestors :: "string list \<Rightarrow> string list list" where
  "ancestors p = map (\<lambda>n. take n p) [0..<length p]"

definition parents_up :: "string list \<Rightarrow> string list list" where
  "parents_up p = rev (ancestors p)"

definition target :: "fs \<Rightarrow> string \<Rightarrow> string list res" where
  "target fs relative =
     (let p = path_parts relative in
      case List.find (exists_path fs) (parents_up p) of
        None \<Rightarrow> Inl (ChangeSetIntegrationError ''changeset.integration_path_invalid'')
      | Some q \<Rightarrow>
          if stat fs q = Outside then Inl (ChangeSetIntegrationError ''changeset.integration_path_invalid'')
          else Inr p)"

section \<open>Images and artifacts\<close>

definition image_of :: "(string \<Rightarrow> string) \<Rightarrow> content_image \<Rightarrow> string \<Rightarrow> bool" where
  "image_of sha im content \<longleftrightarrow> int (length content) = im_size im \<and> sha content = im_digest im"

definition assert_image :: "(string \<Rightarrow> string) \<Rightarrow> fs \<Rightarrow> string list \<Rightarrow> content_image option \<Rightarrow> unit res" where
  "assert_image sha fs p im =
     (case im of
        None \<Rightarrow> raise_if (exists_path fs p \<or> is_symlink fs p)
          (ChangeSetIntegrationError ''changeset.integration_conflict'')
      | Some i \<Rightarrow>
          if is_symlink fs p \<or> \<not> is_file fs p
            then Inl (ChangeSetIntegrationError ''changeset.integration_conflict'')
          else (case stat fs p of
                  Found (Regular content) \<Rightarrow> raise_if (\<not> image_of sha i content)
                    (ChangeSetIntegrationError ''changeset.integration_conflict'')
                | _ \<Rightarrow> Inl (OSError ''read'')))"

text \<open>
  The content-addressed store: \<open>store d\<close> is the content of the artifact file named by the
  digest \<open>d\<close>, when it is a regular file with one link.
\<close>

definition artifact_reference :: "string \<Rightarrow> string" where
  "artifact_reference d = ''sha256:'' @ d"

definition read_artifact :: "(string \<Rightarrow> string) \<Rightarrow> (string \<Rightarrow> string option) \<Rightarrow> content_image \<Rightarrow> string res" where
  "read_artifact sha store im =
     (if im_ref im \<noteq> artifact_reference (im_digest im)
        then Inl (WorkspaceCaptureError ''workspace.artifact_corrupt'')
      else (case store (im_digest im) of
              None \<Rightarrow> Inl (WorkspaceCaptureError ''workspace.artifact_corrupt'')
            | Some content \<Rightarrow>
                if \<not> image_of sha im content then Inl (WorkspaceCaptureError ''workspace.artifact_corrupt'')
                else Inr content))"

definition publish_artifact ::
  "(string \<Rightarrow> string) \<Rightarrow> (string \<Rightarrow> string option) \<Rightarrow> string \<Rightarrow> ((string \<Rightarrow> string option) \<times> content_image) res" where
  "publish_artifact sha store content =
     (let d = sha content;
          im = \<lparr>im_digest = d, im_size = int (length content), im_ref = artifact_reference d\<rparr>
      in case store d of
           None \<Rightarrow> Inr (store(d \<mapsto> content), im)
         | Some c \<Rightarrow>
             if c \<noteq> content then Inl (WorkspaceCaptureError ''workspace.artifact_corrupt'')
             else Inr (store, im))"

section \<open>Writing and deleting\<close>

datatype fault = F_MKDIR | F_WRITE | F_UNLINK

record workspace_env =
  env_sha :: "string \<Rightarrow> string"
  env_store :: "string \<Rightarrow> string option"
  env_faulty :: "fault \<Rightarrow> string list \<Rightarrow> bool"

text \<open>\<open>mkdir(parents=True, exist_ok=True)\<close> creates the missing directories from the top down.\<close>

fun make_dirs :: "workspace_env \<Rightarrow> fs \<Rightarrow> string list list \<Rightarrow> fs \<times> unit res" where
  "make_dirs env fs [] = (fs, Inr ())"
| "make_dirs env fs (d # ds) =
     (case fs d of
        Some Directory \<Rightarrow> make_dirs env fs ds
      | None \<Rightarrow> if env_faulty env F_MKDIR d then (fs, Inl (OSError ''mkdir''))
                else make_dirs env (fs(d \<mapsto> Directory)) ds
      | _ \<Rightarrow> (fs, Inl (OSError ''mkdir'')))"

definition assert_safe_path :: "fs \<Rightarrow> string list \<Rightarrow> unit res" where
  "assert_safe_path fs p =
     raise_if (is_symlink fs p \<or> (exists_path fs p \<and> \<not> is_file fs p))
       (ChangeSetIntegrationError ''changeset.integration_path_invalid'')"

text \<open>
  The image is written to a temporary file that replaces the target in one step, so a failing
  write leaves the target as it was.
\<close>

definition write_image :: "workspace_env \<Rightarrow> fs \<Rightarrow> string list \<Rightarrow> content_image \<Rightarrow> fs \<times> unit res" where
  "write_image env fs p im =
     (case read_artifact (env_sha env) (env_store env) im of
        Inl e \<Rightarrow> (fs, Inl e)
      | Inr content \<Rightarrow>
          (case make_dirs env fs (ancestors p) of
             (fs1, Inl e) \<Rightarrow> (fs1, Inl e)
           | (fs1, Inr _) \<Rightarrow>
               (case assert_safe_path fs1 p of
                  Inl e \<Rightarrow> (fs1, Inl e)
                | Inr _ \<Rightarrow>
                    if env_faulty env F_WRITE p then (fs1, Inl (OSError ''write''))
                    else (fs1(p \<mapsto> Regular content), Inr ()))))"

definition unlink_path :: "workspace_env \<Rightarrow> fs \<Rightarrow> string list \<Rightarrow> fs \<times> unit res" where
  "unlink_path env fs p =
     (if env_faulty env F_UNLINK p then (fs, Inl (OSError ''unlink''))
      else (case fs p of
              None \<Rightarrow> (fs, Inl (OSError ''unlink''))
            | Some Directory \<Rightarrow> (fs, Inl (OSError ''unlink''))
            | Some e \<Rightarrow> (fs(p := None), Inr ())))"

definition apply_item :: "workspace_env \<Rightarrow> fs \<Rightarrow> changeset_path \<Rightarrow> fs \<times> unit res" where
  "apply_item env fs item =
     (case target fs (cp_path item) of
        Inl e \<Rightarrow> (fs, Inl e)
      | Inr p \<Rightarrow> (case cp_after item of
                    None \<Rightarrow> unlink_path env fs p
                  | Some im \<Rightarrow> write_image env fs p im))"

definition check_image :: "(string \<Rightarrow> string) \<Rightarrow> fs \<Rightarrow> string \<Rightarrow> content_image option \<Rightarrow> unit res" where
  "check_image sha fs relative im = res_bind (target fs relative) (\<lambda>p. assert_image sha fs p im)"

definition validate_base :: "(string \<Rightarrow> string) \<Rightarrow> fs \<Rightarrow> changeset_path list \<Rightarrow> unit res" where
  "validate_base sha fs items = check_all (\<lambda>i. check_image sha fs (cp_path i) (cp_before i)) items"

definition validate_after :: "(string \<Rightarrow> string) \<Rightarrow> fs \<Rightarrow> changeset_path list \<Rightarrow> unit res" where
  "validate_after sha fs items = check_all (\<lambda>i. check_image sha fs (cp_path i) (cp_after i)) items"

section \<open>Well-formed workspaces\<close>

definition wf_fs :: "fs \<Rightarrow> bool" where
  "wf_fs fs \<longleftrightarrow> fs [] = Some Directory \<and> (\<forall>p x. fs (p @ [x]) \<noteq> None \<longrightarrow> fs p = Some Directory)"

lemma wf_fs_prefix: "wf_fs fs \<Longrightarrow> fs (p @ x # xs) \<noteq> None \<Longrightarrow> fs p = Some Directory"
proof (induction xs rule: rev_induct)
  case Nil
  then show ?case by (auto simp: wf_fs_def)
next
  case (snoc y ys)
  then have "fs ((p @ x # ys) @ [y]) \<noteq> None" by simp
  then have "fs (p @ x # ys) = Some Directory" using snoc.prems(1) unfolding wf_fs_def by blast
  with snoc show ?case by simp
qed

lemma wf_fs_update:
  assumes "wf_fs fs" "fs p \<noteq> Some Directory" "v \<noteq> None \<Longrightarrow> fs (butlast p) = Some Directory"
  shows "wf_fs (fs(p := v))"
proof -
  have "p \<noteq> []" using assms(1,2) by (auto simp: wf_fs_def)
  then obtain q y where p: "p = q @ [y]" by (metis rev_exhaust)
  have up: "fs r \<noteq> None \<Longrightarrow> r = s @ [x] \<Longrightarrow> fs s = Some Directory" for r s x
    using assms(1) by (auto simp: wf_fs_def)
  show ?thesis
    unfolding wf_fs_def
  proof (intro conjI allI impI)
    show "(fs(p := v)) [] = Some Directory" using assms(1) p by (simp add: wf_fs_def)
    fix r x
    assume r: "(fs(p := v)) (r @ [x]) \<noteq> None"
    have "fs r = Some Directory"
    proof (cases "r @ [x] = p")
      case True
      with r assms(3) p show ?thesis by auto
    next
      case False
      with r up show ?thesis by auto
    qed
    with assms(2) show "(fs(p := v)) r = Some Directory" by auto
  qed
qed

lemma walk_Found: "walk fs d xs = Found e \<Longrightarrow> fs (d @ xs) = Some e"
  by (induction fs d xs rule: walk.induct) (auto split: option.splits entry.splits if_splits)

lemma stat_Found: "stat fs p = Found e \<Longrightarrow> fs p = Some e"
  unfolding stat_def by (drule walk_Found) simp

lemma walk_wf:
  "wf_fs fs \<Longrightarrow> fs (d @ xs) = Some e \<Longrightarrow>
     walk fs d xs = (case e of Symlink out \<Rightarrow> if out then Outside else Missing | _ \<Rightarrow> Found e)"
proof (induction fs d xs rule: walk.induct)
  case (1 fs d)
  then show ?case by (auto split: entry.splits)
next
  case (2 fs d x xs)
  then have "fs d = Some Directory" using wf_fs_prefix [of fs d x xs] by simp
  with 2 show ?case by simp
qed

lemma stat_wf:
  "wf_fs fs \<Longrightarrow> fs p = Some e \<Longrightarrow>
     stat fs p = (case e of Symlink out \<Rightarrow> if out then Outside else Missing | _ \<Rightarrow> Found e)"
  unfolding stat_def by (rule walk_wf) simp_all

lemma absent_wf:
  assumes "wf_fs fs" "\<not> exists_path fs p" "\<not> is_symlink fs p" "p \<noteq> []"
  shows "fs p = None"
proof (rule ccontr)
  assume "fs p \<noteq> None"
  then obtain e where e: "fs p = Some e" by blast
  obtain q x where p: "p = q @ [x]" using assms(4) by (metis rev_exhaust)
  have "fs q = Some Directory" using assms(1) e p by (auto simp: wf_fs_def)
  then have "stat fs q = Found Directory" using stat_wf [OF assms(1)] by simp
  with assms(2,3) stat_wf [OF assms(1) e] e p show False
    by (auto simp: exists_path_def is_symlink_def split: entry.splits if_splits)
qed

text \<open>What a passed check says of the file.\<close>

fun has_image :: "(string \<Rightarrow> string) \<Rightarrow> fs \<Rightarrow> string list \<Rightarrow> content_image option \<Rightarrow> bool" where
  "has_image sha fs p None \<longleftrightarrow> fs p = None"
| "has_image sha fs p (Some im) \<longleftrightarrow> (\<exists>content. fs p = Some (Regular content) \<and> image_of sha im content)"

lemma path_parts_ne [simp]: "path_parts p \<noteq> []"
  by (simp add: path_parts_def)

lemma check_image_sound:
  assumes "wf_fs fs" "check_image sha fs relative im = Inr u"
  shows "has_image sha fs (path_parts relative) im"
proof -
  have t: "target fs relative = Inr p \<Longrightarrow> p = path_parts relative" for p
    by (auto simp: target_def Let_def split: option.splits if_splits)
  from assms(2) have a: "assert_image sha fs (path_parts relative) im = Inr ()"
    by (auto simp: check_image_def res_simps dest: t)
  show ?thesis
  proof (cases im)
    case None
    with a have "\<not> exists_path fs (path_parts relative)" "\<not> is_symlink fs (path_parts relative)"
      by (auto simp: assert_image_def raise_if_def split: if_splits)
    with None show ?thesis using absent_wf [OF assms(1)] by simp
  next
    case (Some i)
    with a show ?thesis
      by (auto simp: assert_image_def raise_if_def is_file_def dest!: stat_Found
          split: if_splits found.splits entry.splits)
  qed
qed

section \<open>Effect of one change\<close>

lemma target_Inr: "target fs relative = Inr p \<Longrightarrow> p = path_parts relative"
  by (auto simp: target_def Let_def split: option.splits if_splits)

lemma ancestors_snoc: "ancestors (p @ [x]) = ancestors p @ [p]"
  by (simp add: ancestors_def)

lemma ancestors_Nil [simp]: "ancestors [] = []"
  by (simp add: ancestors_def)

text \<open>
  \<open>only_new_dirs ds fs fs'\<close>: the two file systems differ at most in directories of \<open>ds\<close>
  that were missing.
\<close>

definition only_new_dirs :: "string list set \<Rightarrow> fs \<Rightarrow> fs \<Rightarrow> bool" where
  "only_new_dirs ds fs fs' \<longleftrightarrow>
     (\<forall>q. fs' q = fs q \<or> (q \<in> ds \<and> fs q = None \<and> fs' q = Some Directory))"

lemma only_new_dirs_refl [simp]: "only_new_dirs ds fs fs"
  by (simp add: only_new_dirs_def)

lemma make_dirs_effect:
  "make_dirs env fs ds = (fs', r) \<Longrightarrow>
     only_new_dirs (set ds) fs fs' \<and> (r = Inr () \<longrightarrow> (\<forall>d \<in> set ds. fs' d = Some Directory))"
proof (induction env fs ds arbitrary: fs' r rule: make_dirs.induct)
  case (1 env fs)
  then show ?case by simp
next
  case (2 env fs d ds)
  show ?case
  proof (cases "fs d")
    case None
    show ?thesis
    proof (cases "env_faulty env F_MKDIR d")
      case True
      with 2 None show ?thesis by auto
    next
      case False
      have "only_new_dirs (set ds) (fs(d \<mapsto> Directory)) fs' \<and>
          (r = Inr () \<longrightarrow> (\<forall>d \<in> set ds. fs' d = Some Directory))"
        by (rule "2.IH"(1) [OF None False]) (use "2.prems" None False in \<open>simp_all add: fun_upd_def\<close>)
      with None show ?thesis unfolding only_new_dirs_def
        by (auto simp: fun_upd_def) (metis option.distinct(1))+
    qed
  next
    case (Some e)
    show ?thesis
    proof (cases e)
      case Directory
      with 2 Some have "only_new_dirs (set ds) fs fs' \<and>
          (r = Inr () \<longrightarrow> (\<forall>d \<in> set ds. fs' d = Some Directory))" by simp
      with Some Directory show ?thesis unfolding only_new_dirs_def
        by auto (metis option.distinct(1))
    qed (use 2 Some in auto)
  qed
qed

lemma make_dirs_wf:
  "wf_fs fs \<Longrightarrow> make_dirs env fs (ancestors p) = (fs', r) \<Longrightarrow> wf_fs fs'"
proof (induction p arbitrary: fs' r rule: rev_induct)
  case Nil
  then show ?case by simp
next
  case (snoc x p)
  have split: "make_dirs env fs (ds @ [d]) =
      (case make_dirs env fs ds of (fs1, Inl e) \<Rightarrow> (fs1, Inl e) | (fs1, Inr u) \<Rightarrow> make_dirs env fs1 [d])"
    for fs ds d by (induction ds arbitrary: fs) (auto split: option.splits entry.splits)
  obtain fs1 r1 where m: "make_dirs env fs (ancestors p) = (fs1, r1)" by (cases "make_dirs env fs (ancestors p)")
  from snoc.IH [OF snoc.prems(1) m] have wf1: "wf_fs fs1" .
  show ?case
  proof (cases r1)
    case (Inl e)
    with snoc.prems(2) m wf1 split show ?thesis by (simp add: ancestors_snoc)
  next
    case (Inr u)
    with make_dirs_effect [OF m] have anc: "\<forall>d \<in> set (ancestors p). fs1 d = Some Directory" by simp
    have "wf_fs (fs1(p \<mapsto> Directory))" if none: "fs1 p = None"
    proof (rule wf_fs_update [OF wf1])
      show "fs1 p \<noteq> Some Directory" using none by simp
      have "p \<noteq> []" using wf1 none by (auto simp: wf_fs_def)
      then obtain q y where "p = q @ [y]" by (metis rev_exhaust)
      then show "fs1 (butlast p) = Some Directory" using anc by (simp add: ancestors_snoc)
    qed
    with snoc.prems(2) m Inr wf1 split show ?thesis
      by (auto simp: ancestors_snoc split: option.splits entry.splits if_splits)
  qed
qed

text \<open>A change touches its own path and missing directories above it.\<close>

definition touches :: "string list \<Rightarrow> fs \<Rightarrow> fs \<Rightarrow> bool" where
  "touches p fs fs' \<longleftrightarrow>
     (\<forall>q. q \<noteq> p \<longrightarrow> fs' q = fs q \<or> (q \<in> set (ancestors p) \<and> fs q = None \<and> fs' q = Some Directory))"

lemma not_own_ancestor: "p \<notin> set (ancestors p)"
proof
  assume "p \<in> set (ancestors p)"
  then obtain n where "p = take n p" "n < length p" by (auto simp: ancestors_def)
  then show False by (metis length_take min.absorb4 nat_neq_iff)
qed

lemma write_image_effect:
  assumes wf: "wf_fs fs" and w: "write_image env fs p im = (fs', r)" and p: "p \<noteq> []"
  shows "wf_fs fs' \<and> touches p fs fs' \<and>
     (r = Inr () \<longrightarrow> has_image (env_sha env) fs' p (Some im)) \<and> (r \<noteq> Inr () \<longrightarrow> fs' p = fs p)"
proof (cases "read_artifact (env_sha env) (env_store env) im")
  case (Inl e)
  with wf w show ?thesis by (auto simp: write_image_def touches_def)
next
  case (Inr content)
  obtain fs1 r1 where m: "make_dirs env fs (ancestors p) = (fs1, r1)" by (cases "make_dirs env fs (ancestors p)")
  note eff = make_dirs_effect [OF m] and wf1 = make_dirs_wf [OF wf m]
  have t1: "touches p fs fs1" "fs1 p = fs p"
    using eff not_own_ancestor [of p] by (auto simp: touches_def only_new_dirs_def)
  show ?thesis
  proof (cases "r1 = Inr () \<and> assert_safe_path fs1 p = Inr () \<and> \<not> env_faulty env F_WRITE p")
    case False
    then have "fs' = fs1 \<and> r \<noteq> Inr ()"
      using w Inr m by (auto simp: write_image_def split: sum.splits if_splits)
    with wf1 t1 show ?thesis by auto
  next
    case True
    then have fs': "fs' = fs1(p \<mapsto> Regular content)" "r = Inr ()"
      using w Inr m by (auto simp: write_image_def)
    obtain q x where px: "p = q @ [x]" using p by (metis rev_exhaust)
    have q: "fs1 q = Some Directory" using True eff px by (simp add: ancestors_snoc)
    have "fs1 p \<noteq> Some Directory"
      using True stat_wf [OF wf1, of p Directory]
      by (auto simp: assert_safe_path_def raise_if_def exists_path_def is_file_def split: if_splits)
    with wf1 q px have "wf_fs fs'" unfolding fs' by (intro wf_fs_update) auto
    moreover have "image_of (env_sha env) im content"
      using Inr by (auto simp: read_artifact_def split: if_splits option.splits)
    ultimately show ?thesis using fs' t1 by (auto simp: touches_def)
  qed
qed

lemma apply_item_effect:
  assumes wf: "wf_fs fs" and a: "apply_item env fs item = (fs', r)"
  shows "wf_fs fs' \<and> touches (path_parts (cp_path item)) fs fs' \<and>
     (r \<noteq> Inr () \<longrightarrow> fs' (path_parts (cp_path item)) = fs (path_parts (cp_path item)))"
proof (cases "target fs (cp_path item)")
  case (Inl e)
  with wf a show ?thesis by (auto simp: apply_item_def touches_def)
next
  case (Inr p)
  then have p: "p = path_parts (cp_path item)" by (rule target_Inr)
  show ?thesis
  proof (cases "cp_after item")
    case (Some im)
    with a Inr have "write_image env fs p im = (fs', r)" by (simp add: apply_item_def)
    from write_image_effect [OF wf this] p show ?thesis by auto
  next
    case None
    with a Inr have u: "unlink_path env fs p = (fs', r)" by (simp add: apply_item_def)
    show ?thesis
    proof (cases "r = Inr ()")
      case True
      with u have fs': "fs' = fs(p := None)" and "fs p \<noteq> Some Directory"
        by (auto simp: unlink_path_def split: if_splits option.splits entry.splits)
      with wf have "wf_fs fs'" by (auto intro: wf_fs_update)
      with fs' p True show ?thesis by (auto simp: touches_def)
    next
      case False
      with u have "fs' = fs" by (auto simp: unlink_path_def split: if_splits option.splits entry.splits)
      with wf show ?thesis by (auto simp: touches_def)
    qed
  qed
qed

end
