(* ===== verification/Changeset_Integration.thy ===== *)
theory Changeset_Integration
  imports Changeset_Store Workspace_Files
begin

text \<open>
  The integrator of \<open>src/src/skail/runtime/changeset_integration.py\<close>: intent first, then
  one file after another, then the check of the result; recovery of an interrupted apply; and
  histories of integrations, crashes and recoveries.
\<close>

section \<open>Applying the files\<close>

record codec =
  co_nfkc :: "string \<Rightarrow> string"
  co_sha_json :: "change_set \<Rightarrow> string"

fun apply_files ::
  "workspace_env \<Rightarrow> changeset_db \<Rightarrow> fs \<Rightarrow> string \<Rightarrow> changeset_path list \<Rightarrow> changeset_db \<times> fs \<times> unit res" where
  "apply_files env db fs i [] = (db, fs, Inr ())"
| "apply_files env db fs i (item # items) =
     (case apply_item env fs item of
        (fs1, Inl e) \<Rightarrow> (db, fs1, Inl e)
      | (fs1, Inr _) \<Rightarrow>
          (case mark_changeset_file_applied db i (cp_path item) of
             Inl e \<Rightarrow> (db, fs1, Inl e)
           | Inr db1 \<Rightarrow> apply_files env db1 fs1 i items))"

text \<open>The exceptions \<open>integrate\<close> turns into IN_DOUBT; any other one propagates.\<close>

definition caught :: "py_exn \<Rightarrow> bool" where
  "caught e \<longleftrightarrow> (case e of OSError _ \<Rightarrow> True | WorkspaceCaptureError _ \<Rightarrow> True
     | ChangeSetIntegrationError _ \<Rightarrow> True | _ \<Rightarrow> False)"

definition finish ::
  "changeset_db \<Rightarrow> fs \<Rightarrow> string \<Rightarrow> changeset_status \<Rightarrow> changeset_status \<Rightarrow> string \<Rightarrow>
     changeset_db \<times> fs \<times> changeset_status res" where
  "finish db fs i expected status operation =
     (case transition_changeset_status db i expected status operation of
        Inl e \<Rightarrow> (db, fs, Inl e)
      | Inr db' \<Rightarrow> (db', fs, Inr status))"

definition integrate ::
  "codec \<Rightarrow> workspace_env \<Rightarrow> changeset_db \<Rightarrow> fs \<Rightarrow> string \<Rightarrow> string \<Rightarrow> string \<Rightarrow>
     changeset_db \<times> fs \<times> changeset_status res" where
  "integrate co env db fs i op1 op2 =
     (case get_changeset (co_nfkc co) (co_sha_json co) db i of
        Inl e \<Rightarrow> (db, fs, Inl e)
      | Inr (c, status) \<Rightarrow>
          if status \<noteq> C_CAPTURED
            then (db, fs, Inl (ChangeSetIntegrationError ''changeset.integration_status_invalid''))
          else if fs [] = None then (db, fs, Inl (OSError ''workspace''))
          else (case validate_base (env_sha env) fs (cs_paths c) of
            Inl e \<Rightarrow>
              if (case e of ChangeSetIntegrationError _ \<Rightarrow> True | _ \<Rightarrow> False)
                then finish db fs (cs_id c) C_CAPTURED C_BLOCKED op1
              else (db, fs, Inl e)
          | Inr _ \<Rightarrow>
              (case begin_changeset_apply db c op1 of
                 Inl e \<Rightarrow> (db, fs, Inl e)
               | Inr db1 \<Rightarrow>
                   (case apply_files env db1 fs (cs_id c) (cs_paths c) of
                      (db2, fs2, applied) \<Rightarrow>
                        (case res_bind applied (\<lambda>_. validate_after (env_sha env) fs2 (cs_paths c)) of
                           Inl e \<Rightarrow>
                             if caught e then finish db2 fs2 (cs_id c) C_APPLYING C_IN_DOUBT op2
                             else (db2, fs2, Inl e)
                         | Inr _ \<Rightarrow> finish db2 fs2 (cs_id c) C_APPLYING C_INTEGRATED op2)))))"

definition recover ::
  "codec \<Rightarrow> changeset_db \<Rightarrow> string \<Rightarrow> string \<Rightarrow> (changeset_db \<times> changeset_status) res" where
  "recover co db i operation =
     res_bind (get_changeset (co_nfkc co) (co_sha_json co) db i) (\<lambda>(c, status).
       if status = C_APPLYING then
         res_bind (transition_changeset_status db (cs_id c) C_APPLYING C_IN_DOUBT operation) (\<lambda>db'.
           Inr (db', C_IN_DOUBT))
       else Inr (db, status))"

text \<open>
  An \<open>integrate\<close> whose process dies: after the intent is committed and \<open>k\<close> files are
  applied, with \<open>torn\<close> also one file that is written but not marked.
\<close>

definition integrate_crashed ::
  "codec \<Rightarrow> workspace_env \<Rightarrow> changeset_db \<Rightarrow> fs \<Rightarrow> string \<Rightarrow> string \<Rightarrow> nat \<Rightarrow> bool \<Rightarrow> changeset_db \<times> fs" where
  "integrate_crashed co env db fs i op1 k torn =
     (case get_changeset (co_nfkc co) (co_sha_json co) db i of
        Inl e \<Rightarrow> (db, fs)
      | Inr (c, status) \<Rightarrow>
          if status \<noteq> C_CAPTURED \<or> fs [] = None \<or> \<not> is_ok (validate_base (env_sha env) fs (cs_paths c))
            then (db, fs)
          else (case begin_changeset_apply db c op1 of
                  Inl e \<Rightarrow> (db, fs)
                | Inr db1 \<Rightarrow>
                    (case apply_files env db1 fs (cs_id c) (take k (cs_paths c)) of
                       (db2, fs2, applied) \<Rightarrow>
                         if is_ok applied \<and> torn \<and> k < length (cs_paths c)
                           then (db2, fst (apply_item env fs2 (cs_paths c ! k)))
                         else (db2, fs2))))"

section \<open>Effect on the files\<close>

definition item_path :: "changeset_path \<Rightarrow> string list" where
  "item_path item = path_parts (cp_path item)"

text \<open>Nothing but the listed paths changes, save for missing directories above them.\<close>

definition confined :: "changeset_path list \<Rightarrow> fs \<Rightarrow> fs \<Rightarrow> bool" where
  "confined items fs fs' \<longleftrightarrow>
     (\<forall>q. q \<notin> item_path ` set items \<longrightarrow>
        fs' q = fs q \<or>
        ((\<exists>i \<in> set items. q \<in> set (ancestors (item_path i))) \<and> fs q = None \<and> fs' q = Some Directory))"

lemma confined_refl [simp]: "confined items fs fs"
  by (simp add: confined_def)

lemma confined_trans:
  assumes "confined items fs fs1" "confined items fs1 fs2"
  shows "confined items fs fs2"
  unfolding confined_def
proof (intro allI impI)
  fix q
  assume "q \<notin> item_path ` set items"
  with assms have "fs1 q = fs q \<or>
      ((\<exists>i \<in> set items. q \<in> set (ancestors (item_path i))) \<and> fs q = None \<and> fs1 q = Some Directory)"
    "fs2 q = fs1 q \<or>
      ((\<exists>i \<in> set items. q \<in> set (ancestors (item_path i))) \<and> fs1 q = None \<and> fs2 q = Some Directory)"
    unfolding confined_def by blast+
  then show "fs2 q = fs q \<or>
      ((\<exists>i \<in> set items. q \<in> set (ancestors (item_path i))) \<and> fs q = None \<and> fs2 q = Some Directory)"
    by (elim disjE) simp_all
qed

lemma confined_item:
  assumes "wf_fs fs" "apply_item env fs item = (fs', r)" "item \<in> set items"
  shows "confined items fs fs'"
  using apply_item_effect [OF assms(1,2)] assms(3)
  unfolding confined_def touches_def item_path_def by blast

lemma apply_files_effect:
  "wf_fs fs \<Longrightarrow> set items \<subseteq> set all \<Longrightarrow> apply_files env db fs i items = (db', fs', r) \<Longrightarrow>
     wf_fs fs' \<and> confined all fs fs'"
proof (induction env db fs i items arbitrary: db' fs' r rule: apply_files.induct)
  case (1 env db fs i)
  then show ?case by simp
next
  case (2 env db fs i item items)
  obtain fs1 r1 where a: "apply_item env fs item = (fs1, r1)" by (cases "apply_item env fs item")
  have wf1: "wf_fs fs1" using apply_item_effect [OF "2.prems"(1) a] by simp
  have c1: "confined all fs fs1" using confined_item [OF "2.prems"(1) a] "2.prems"(2) by simp
  show ?case
  proof (cases "\<exists>u db1. r1 = Inr u \<and> mark_changeset_file_applied db i (cp_path item) = Inr db1")
    case True
    then obtain u db1 where t: "r1 = Inr u" "mark_changeset_file_applied db i (cp_path item) = Inr db1"
      by blast
    have "apply_files env db1 fs1 i items = (db', fs', r)" using "2.prems"(3) a t by simp
    from "2.IH" [OF a [symmetric] t(1) t(2) wf1 _ this] "2.prems"(2) c1 confined_trans
    show ?thesis by fastforce
  next
    case False
    then have "fs' = fs1" using "2.prems"(3) a by (cases r1) (auto split: sum.splits)
    with wf1 c1 show ?thesis by simp
  qed
qed

lemma finish_fs: "fst (snd (finish db fs i s t operation)) = fs"
  by (auto simp: finish_def split: sum.splits)

section \<open>Every outcome\<close>

definition op_fresh :: "changeset_db \<Rightarrow> string \<Rightarrow> bool" where
  "op_fresh db operation \<longleftrightarrow> is_ok (ensure_uuid4 operation) \<and> (\<forall>x \<in> set (cd_ops db). op_id x \<noteq> operation)"

lemma op_fresh_find: "op_fresh db operation \<Longrightarrow> List.find (\<lambda>x. op_id x = operation) (cd_ops db) = None"
  by (auto simp: op_fresh_def find_None_iff)

definition marked :: "changeset_db \<Rightarrow> string \<Rightarrow> string \<Rightarrow> bool" where
  "marked db i p \<longleftrightarrow> (\<exists>f \<in> set (cd_files db). fo_changeset f = i \<and> fo_path f = p \<and> fo_applied f)"

definition pending :: "changeset_db \<Rightarrow> string \<Rightarrow> string \<Rightarrow> bool" where
  "pending db i p \<longleftrightarrow> (\<exists>f \<in> set (cd_files db). intended i p f)"

lemma mark_pending:
  assumes d: "distinct (map (\<lambda>f. (fo_changeset f, fo_path f)) (cd_files db))" and p: "pending db i p"
  obtains db' where "mark_changeset_file_applied db i p = Inr db'" "cd_sets db' = cd_sets db"
    "cd_ops db' = cd_ops db" "marked db' i p" "\<And>q. marked db i q \<Longrightarrow> marked db' i q"
    "\<And>q. q \<noteq> p \<Longrightarrow> pending db i q \<Longrightarrow> pending db' i q"
    "map (\<lambda>f. (fo_changeset f, fo_path f)) (cd_files db') = map (\<lambda>f. (fo_changeset f, fo_path f)) (cd_files db)"
proof -
  let ?g = "\<lambda>f. if intended i p f then f\<lparr>fo_applied := True\<rparr> else f"
  from p obtain f where f: "f \<in> set (cd_files db)" "intended i p f" by (auto simp: pending_def)
  have "length (filter (intended i p) fs) \<le> 1" if "distinct (map (\<lambda>f. (fo_changeset f, fo_path f)) fs)" for fs
    using that
  proof (induction fs)
    case (Cons a fs)
    show ?case
    proof (cases "intended i p a")
      case True
      then have "filter (intended i p) fs = []"
        using Cons.prems by (fastforce simp: filter_empty_conv intended_def image_iff)
      with True show ?thesis by simp
    qed (use Cons in auto)
  qed simp
  moreover have "filter (intended i p) (cd_files db) \<noteq> []" using f by (auto simp: filter_empty_conv)
  ultimately have one: "length (filter (intended i p) (cd_files db)) = 1"
    using d by (metis One_nat_def Suc_leI le_antisym length_greater_0_conv)
  show ?thesis
  proof (rule that [of "db\<lparr>cd_files := map ?g (cd_files db)\<rparr>"])
    show "mark_changeset_file_applied db i p = Inr (db\<lparr>cd_files := map ?g (cd_files db)\<rparr>)"
      using one by (simp add: mark_changeset_file_applied_def)
    show "marked (db\<lparr>cd_files := map ?g (cd_files db)\<rparr>) i p"
      unfolding marked_def by (rule bexI [of _ "?g f"]) (use f in \<open>auto simp: intended_def\<close>)
  qed (auto simp: marked_def pending_def intended_def)
qed

lemma apply_item_caught: "apply_item env fs item = (fs', Inl e) \<Longrightarrow> caught e"
proof -
  have md: "make_dirs env fs ds = (fs', Inl e) \<Longrightarrow> caught e" for ds fs'
    by (induction env fs ds rule: make_dirs.induct)
      (auto simp: caught_def split: option.splits entry.splits if_splits)
  have "write_image env fs p im = (fs', Inl e) \<Longrightarrow> caught e" for p im
    by (auto simp: write_image_def read_artifact_def assert_safe_path_def raise_if_def caught_def
        split: sum.splits if_splits option.splits prod.splits dest!: md)
  then show "apply_item env fs item = (fs', Inl e) \<Longrightarrow> caught e"
    by (auto simp: apply_item_def unlink_path_def target_def Let_def caught_def
        split: sum.splits if_splits option.splits entry.splits)
qed

lemma check_image_error: "check_image sha fs p im = Inl e \<Longrightarrow> \<exists>m. e = ChangeSetIntegrationError m"
  by (auto simp: check_image_def target_def Let_def assert_image_def raise_if_def is_file_def
      split: option.splits if_splits found.splits entry.splits)

lemma check_all_error: "check_all f xs = Inl e \<Longrightarrow> \<exists>x \<in> set xs. f x = Inl e"
  by (induction xs) (auto simp: res_bind_def split: sum.splits)

lemma apply_files_total:
  "distinct (map (\<lambda>f. (fo_changeset f, fo_path f)) (cd_files db)) \<Longrightarrow> distinct (map cp_path items) \<Longrightarrow>
     \<forall>it \<in> set items. pending db i (cp_path it) \<Longrightarrow> apply_files env db fs i items = (db', fs', r) \<Longrightarrow>
     cd_sets db' = cd_sets db \<and> cd_ops db' = cd_ops db \<and> (\<forall>q. marked db i q \<longrightarrow> marked db' i q) \<and>
     (case r of Inl e \<Rightarrow> caught e | Inr _ \<Rightarrow> \<forall>it \<in> set items. marked db' i (cp_path it))"
proof (induction env db fs i items arbitrary: db' fs' r rule: apply_files.induct)
  case (1 env db fs i)
  then show ?case by (cases r) auto
next
  case (2 env db fs i item items)
  obtain fs1 r1 where a: "apply_item env fs item = (fs1, r1)" by (cases "apply_item env fs item")
  show ?case
  proof (cases r1)
    case (Inl e)
    with 2 a apply_item_caught [of env fs item fs1 e] show ?thesis by auto
  next
    case (Inr u)
    have "pending db i (cp_path item)" using "2.prems"(3) by simp
    from mark_pending [OF "2.prems"(1) this] obtain db1 where m:
      "mark_changeset_file_applied db i (cp_path item) = Inr db1" "cd_sets db1 = cd_sets db"
      "cd_ops db1 = cd_ops db" "marked db1 i (cp_path item)" "\<forall>q. marked db i q \<longrightarrow> marked db1 i q"
      "\<forall>q. q \<noteq> cp_path item \<longrightarrow> pending db i q \<longrightarrow> pending db1 i q"
      "map (\<lambda>f. (fo_changeset f, fo_path f)) (cd_files db1) = map (\<lambda>f. (fo_changeset f, fo_path f)) (cd_files db)"
      by (smt (verit))
    have rest: "apply_files env db1 fs1 i items = (db', fs', r)" using "2.prems"(4) a Inr m(1) by simp
    have "cd_sets db' = cd_sets db1 \<and> cd_ops db' = cd_ops db1 \<and> (\<forall>q. marked db1 i q \<longrightarrow> marked db' i q) \<and>
       (case r of Inl e \<Rightarrow> caught e | Inr _ \<Rightarrow> \<forall>it \<in> set items. marked db' i (cp_path it))"
    proof (rule "2.IH" [OF a [symmetric] Inr m(1) _ _ _ rest])
      show "\<forall>it \<in> set items. pending db1 i (cp_path it)"
        using "2.prems"(2,3) m(6) by (auto simp: image_iff)
    qed (use "2.prems"(1,2) m(7) in auto)
    with m show ?thesis by (cases r) auto
  qed
qed

lemma finish_ok:
  assumes "status_of db i = Some s" "t \<in> set (CHANGESET_TRANSITIONS s)" "op_fresh db operation"
  obtains db' where "finish db fs i s t operation = (db', fs, Inr t)" "status_of db' i = Some t"
    "cd_files db' = cd_files db" "\<And>j. j \<noteq> i \<Longrightarrow> status_of db' j = status_of db j"
proof -
  from assms(1) obtain r where r: "changeset_by_id db i = Some r" "cr_status r = s"
    by (auto simp: status_of_def)
  have u: "is_ok (ensure_uuid4 operation)" using assms(3) by (simp add: op_fresh_def)
  then obtain db' where tr: "transition_changeset_status db i s t operation = Inr db'"
    using transition_fresh [OF op_fresh_find [OF assms(3)], of i s t] r assms(2) by blast
  have "db' \<noteq> db"
  proof
    assume "db' = db"
    with tr have "\<exists>x. cd_ops db = cd_ops db @ [x]"
      by (auto simp: transition_fresh [OF op_fresh_find [OF assms(3)]] dest: arg_cong [where f = cd_ops])
    then show False by simp
  qed
  with transition_status [OF tr] have st: "status_of db' i = Some t" "cd_files db' = cd_files db"
    "\<forall>j. j \<noteq> i \<longrightarrow> status_of db' j = status_of db j" by blast+
  show ?thesis
    by (rule that [of db']) (use tr st in \<open>simp_all add: finish_def\<close>)
qed

lemma get_changeset_Inr:
  assumes "get_changeset nfkc sha_json db i = Inr (c, s)" "changesets_ok db"
  shows "status_of db i = Some s" "cs_id c = i" "changeset_ok c"
proof -
  obtain r where r: "changeset_by_id db i = Some r" "validate_contract nfkc (cr_payload r) = Inr c" "cr_status r = s"
    using assms(1) by (auto simp: get_changeset_def res_simps split: option.splits if_splits)
  from validate_contract_ok [OF r(2)] show "changeset_ok c" by simp
  from validate_contract_ok [OF r(2)] by_id_Some [OF r(1)] assms(2) show "cs_id c = i"
    by (auto simp: changesets_ok_def)
  show "status_of db i = Some s" using r by (simp add: status_of_def)
qed

lemma begin_ok:
  assumes ok: "changesets_ok db" and c: "changeset_ok c" "cs_id c = i"
    and st: "status_of db i = Some C_CAPTURED" and op: "op_fresh db operation"
  obtains db' where "begin_changeset_apply db c operation = Inr db'" "status_of db' i = Some C_APPLYING"
    "cd_files db' = cd_files db @ map (intent i) (cs_paths c)"
    "map op_id (cd_ops db') = map op_id (cd_ops db) @ [operation]"
    "\<And>j. j \<noteq> i \<Longrightarrow> status_of db' j = status_of db j"
    "distinct (map (\<lambda>f. (fo_changeset f, fo_path f)) (cd_files db'))"
proof -
  from st obtain r where r: "changeset_by_id db i = Some r" "cr_status r = C_CAPTURED"
    by (auto simp: status_of_def)
  let ?d = "db\<lparr>cd_sets := map (with_changeset_status i C_APPLYING) (cd_sets db),
       cd_ops := cd_ops db @ [\<lparr>op_id = operation, op_changeset = i, op_expected = C_CAPTURED,
                   op_target = C_APPLYING, op_digest = cr_digest r\<rparr>]\<rparr>"
  have tr: "transition_changeset_status db i C_CAPTURED C_APPLYING operation = Inr ?d"
    using r op by (simp add: transition_fresh [OF op_fresh_find [OF op]]) (simp add: op_fresh_def)
  have "\<forall>f \<in> set (cd_files db). fo_changeset f \<noteq> i"
    using ok r by_id_Some [OF r(1)] by (auto simp: changesets_ok_def)
  then have "is_ok (insert_intents i (cd_files db) (cs_paths c))"
    using c(1) by (intro insert_intents_fresh) (auto simp: changeset_ok_def)
  then obtain rows where rows: "insert_intents i (cd_files db) (cs_paths c) = Inr rows"
    by (auto simp: is_ok_iff)
  have st': "status_of ?d i = Some C_APPLYING" "status_of ?d j = status_of db j" if "j \<noteq> i" for j
    using that r by_id_Some [OF r(1)]
    by (cases "changeset_by_id db j"; auto simp: status_of_def by_id_transition dest!: by_id_Some)+
  have st1: "status_of ?d i = Some C_APPLYING"
    using r by_id_Some [OF r(1)] by (simp add: status_of_def by_id_transition)
  show ?thesis
  proof (rule that [of "?d\<lparr>cd_files := rows\<rparr>"])
    show "begin_changeset_apply db c operation = Inr (?d\<lparr>cd_files := rows\<rparr>)"
      using tr rows c by (simp add: begin_changeset_apply_def)
    show "distinct (map (\<lambda>f. (fo_changeset f, fo_path f)) (cd_files (?d\<lparr>cd_files := rows\<rparr>)))"
      using insert_intents_distinct [OF rows] ok by (simp add: changesets_ok_def)
    show "cd_files (?d\<lparr>cd_files := rows\<rparr>) = cd_files db @ map (intent i) (cs_paths c)"
      using insert_intents_Inr [OF rows] by simp
    show "status_of (?d\<lparr>cd_files := rows\<rparr>) i = Some C_APPLYING"
      using st1 by (simp add: status_of_def changeset_by_id_def)
    show "status_of (?d\<lparr>cd_files := rows\<rparr>) j = status_of db j" if "j \<noteq> i" for j
      using st'(2) [OF that] by (simp add: status_of_def changeset_by_id_def)
  qed simp
qed

text \<open>What each outcome of an integration leaves behind.\<close>

definition outcome_ok ::
  "workspace_env \<Rightarrow> change_set \<Rightarrow> changeset_db \<times> fs \<Rightarrow> changeset_db \<times> fs \<times> changeset_status res \<Rightarrow> bool" where
  "outcome_ok env c = (\<lambda>(db, fs) (db', fs', r).
     wf_fs fs' \<and> confined (cs_paths c) fs fs' \<and>
     (case r of
        Inl e \<Rightarrow> db' = db \<and> fs' = fs
      | Inr s \<Rightarrow> status_of db' (cs_id c) = Some s \<and>
          (if s = C_INTEGRATED then
             (\<forall>it \<in> set (cs_paths c). has_image (env_sha env) fs (item_path it) (cp_before it) \<and>
                has_image (env_sha env) fs' (item_path it) (cp_after it) \<and> marked db' (cs_id c) (cp_path it))
           else if s = C_BLOCKED then fs' = fs \<and> \<not> is_ok (validate_base (env_sha env) fs (cs_paths c))
           else s = C_IN_DOUBT)))"

lemma integrate_outcome:
  assumes wf: "wf_fs fs" and ok: "changesets_ok db"
    and get: "get_changeset (co_nfkc co) (co_sha_json co) db i = Inr (c, s)"
    and op: "op_fresh db op1" "op_fresh db op2" "op1 \<noteq> op2"
  shows "outcome_ok env c (db, fs) (integrate co env db fs i op1 op2)"
proof -
  note g = get_changeset_Inr [OF get ok]
  have root: "fs [] \<noteq> None" using wf by (simp add: wf_fs_def)
  show ?thesis
  proof (cases "s = C_CAPTURED")
    case False
    then show ?thesis using get wf by (simp add: integrate_def outcome_ok_def)
  next
    case True
    show ?thesis
    proof (cases "validate_base (env_sha env) fs (cs_paths c)")
      case (Inl e)
      then obtain m where e: "e = ChangeSetIntegrationError m"
        unfolding validate_base_def by (blast dest: check_all_error check_image_error)
      obtain db' where "finish db fs i C_CAPTURED C_BLOCKED op1 = (db', fs, Inr C_BLOCKED)"
        "status_of db' i = Some C_BLOCKED"
        by (rule finish_ok [OF _ _ op(1), of i C_CAPTURED C_BLOCKED fs]) (use g(1) True in auto)
      then show ?thesis using get True root Inl e g wf by (simp add: integrate_def outcome_ok_def)
    next
      case (Inr u)
      obtain db1 where b: "begin_changeset_apply db c op1 = Inr db1" "status_of db1 i = Some C_APPLYING"
        "cd_files db1 = cd_files db @ map (intent i) (cs_paths c)"
        "map op_id (cd_ops db1) = map op_id (cd_ops db) @ [op1]"
        "distinct (map (\<lambda>f. (fo_changeset f, fo_path f)) (cd_files db1))"
        by (rule begin_ok [OF ok g(3,2) _ op(1)]) (use g(1) True in auto)
      obtain db2 fs2 r where a: "apply_files env db1 fs i (cs_paths c) = (db2, fs2, r)"
        by (cases "apply_files env db1 fs i (cs_paths c)") auto
      have "\<forall>it \<in> set (cs_paths c). pending db1 i (cp_path it)"
        using b(3) by (auto simp: pending_def intended_def intro!: bexI [of _ "intent i _"])
      from apply_files_total [OF b(5) _ this a] g(3)
      have t: "cd_sets db2 = cd_sets db1" "cd_ops db2 = cd_ops db1"
        "case r of Inl e \<Rightarrow> caught e | Inr _ \<Rightarrow> \<forall>it \<in> set (cs_paths c). marked db2 i (cp_path it)"
        by (auto simp: changeset_ok_def)
      have st2: "status_of db2 i = Some C_APPLYING"
        using b(2) t(1) by (simp add: status_of_def changeset_by_id_def)
      have op2: "op_fresh db2 op2"
      proof -
        have "op2 \<notin> set (map op_id (cd_ops db2))"
          using op(2,3) unfolding t(2) b(4) by (auto simp: op_fresh_def)
        with op(2) show ?thesis by (auto simp: op_fresh_def image_iff)
      qed
      have eff: "wf_fs fs2" "confined (cs_paths c) fs fs2"
        using apply_files_effect [OF wf _ a] by auto
      let ?v = "res_bind r (\<lambda>_. validate_after (env_sha env) fs2 (cs_paths c))"
      show ?thesis
      proof (cases ?v)
        case (Inl e)
        have ce: "caught e"
        proof (cases r)
          case (Inl e')
          with \<open>?v = Inl e\<close> t(3) show ?thesis by simp
        next
          case (Inr w)
          with \<open>?v = Inl e\<close> have "validate_after (env_sha env) fs2 (cs_paths c) = Inl e" by simp
          then obtain m where "e = ChangeSetIntegrationError m"
            unfolding validate_after_def by (blast dest: check_all_error check_image_error)
          then show ?thesis by (simp add: caught_def)
        qed
        obtain db3 where "finish db2 fs2 i C_APPLYING C_IN_DOUBT op2 = (db3, fs2, Inr C_IN_DOUBT)"
          "status_of db3 i = Some C_IN_DOUBT"
          by (rule finish_ok [OF st2 _ op2, of C_IN_DOUBT fs2]) auto
        then show ?thesis
          using get True root \<open>validate_base _ _ _ = Inr u\<close> b(1) a Inl ce g(2) eff wf
          by (simp add: integrate_def outcome_ok_def)
      next
        case (Inr w)
        then obtain w' where r: "r = Inr w'" and va: "validate_after (env_sha env) fs2 (cs_paths c) = Inr w"
          by (auto simp: res_simps)
        obtain db3 where f: "finish db2 fs2 i C_APPLYING C_INTEGRATED op2 = (db3, fs2, Inr C_INTEGRATED)"
          "status_of db3 i = Some C_INTEGRATED" "cd_files db3 = cd_files db2"
          by (rule finish_ok [OF st2 _ op2, of C_INTEGRATED fs2]) auto
        have before: "has_image (env_sha env) fs (item_path it) (cp_before it)" if "it \<in> set (cs_paths c)" for it
          using \<open>validate_base _ _ _ = Inr u\<close> that check_image_sound [OF wf]
          unfolding validate_base_def item_path_def by (auto simp: is_ok_iff)
        have after: "has_image (env_sha env) fs2 (item_path it) (cp_after it)" if "it \<in> set (cs_paths c)" for it
          using va that check_image_sound [OF eff(1)]
          unfolding validate_after_def item_path_def by (auto simp: is_ok_iff)
        have "marked db3 i (cp_path it)" if "it \<in> set (cs_paths c)" for it
          using t(3) r that f(3) by (simp add: marked_def)
        then show ?thesis
          using get True root \<open>validate_base _ _ _ = Inr u\<close> b(1) a r va g(2) eff wf f before after
          by (simp add: integrate_def outcome_ok_def)
      qed
    qed
  qed
qed

section \<open>Histories\<close>

datatype cs_action =
    Integrate string string string
  | Crash string string nat bool
  | Recover string string

fun action_target :: "cs_action \<Rightarrow> string" where
  "action_target (Integrate i op1 op2) = i"
| "action_target (Crash i op1 k torn) = i"
| "action_target (Recover i operation) = i"

fun action_fresh :: "changeset_db \<Rightarrow> cs_action \<Rightarrow> bool" where
  "action_fresh db (Integrate i op1 op2) \<longleftrightarrow> op_fresh db op1 \<and> op_fresh db op2 \<and> op1 \<noteq> op2"
| "action_fresh db (Crash i op1 k torn) \<longleftrightarrow> op_fresh db op1"
| "action_fresh db (Recover i operation) \<longleftrightarrow> op_fresh db operation"

fun act :: "codec \<Rightarrow> workspace_env \<Rightarrow> changeset_db \<times> fs \<Rightarrow> cs_action \<Rightarrow> changeset_db \<times> fs" where
  "act co env (db, fs) (Integrate i op1 op2) =
     (case integrate co env db fs i op1 op2 of (db', fs', r) \<Rightarrow> (db', fs'))"
| "act co env (db, fs) (Crash i op1 k torn) = integrate_crashed co env db fs i op1 k torn"
| "act co env (db, fs) (Recover i operation) =
     (case recover co db i operation of Inl e \<Rightarrow> (db, fs) | Inr (db', s) \<Rightarrow> (db', fs))"

fun act_all :: "codec \<Rightarrow> workspace_env \<Rightarrow> changeset_db \<times> fs \<Rightarrow> cs_action list \<Rightarrow> changeset_db \<times> fs" where
  "act_all co env w [] = w"
| "act_all co env w (a # as) = act_all co env (act co env w a) as"

definition begun :: "changeset_db \<Rightarrow> string \<Rightarrow> bool" where
  "begun db i \<longleftrightarrow> (\<exists>s. status_of db i = Some s \<and> s \<noteq> C_CAPTURED)"

lemma begun_transition:
  "transition_changeset_status db j s t operation = Inr db' \<Longrightarrow> begun db i \<Longrightarrow> begun db' i"
proof -
  assume tr: "transition_changeset_status db j s t operation = Inr db'" and "begun db i"
  have "t \<noteq> C_CAPTURED"
    using tr by (cases s) (auto simp: transition_changeset_status_def res_simps changeset_step_def split: if_splits)
  with transition_status [OF tr] \<open>begun db i\<close> show "begun db' i" by (cases "j = i") (auto simp: begun_def)
qed

lemma begun_sets: "cd_sets db' = cd_sets db \<Longrightarrow> begun db' i \<longleftrightarrow> begun db i"
  by (simp add: begun_def status_of_def changeset_by_id_def)

lemma apply_files_sets: "apply_files env db fs i items = (db', fs', r) \<Longrightarrow> cd_sets db' = cd_sets db"
proof (induction env db fs i items arbitrary: db' fs' r rule: apply_files.induct)
  case (1 env db fs i)
  then show ?case by simp
next
  case (2 env db fs i item items)
  have m: "mark_changeset_file_applied db i p = Inr d \<Longrightarrow> cd_sets d = cd_sets db" for p d
    by (auto simp: mark_changeset_file_applied_def split: if_splits)
  obtain fs1 r1 where a: "apply_item env fs item = (fs1, r1)" by (cases "apply_item env fs item")
  show ?case
  proof (cases r1)
    case (Inl e)
    with "2.prems" a show ?thesis by simp
  next
    case (Inr u)
    note r1 = this
    show ?thesis
    proof (cases "mark_changeset_file_applied db i (cp_path item)")
      case (Inl e)
      with "2.prems" a r1 show ?thesis by simp
    next
      case (Inr d)
      have "apply_files env d fs1 i items = (db', fs', r)" using "2.prems" a r1 Inr by simp
      from "2.IH" [OF a [symmetric] r1 Inr this] m [OF Inr] show ?thesis by simp
    qed
  qed
qed

lemma begun_begin: "begin_changeset_apply db c operation = Inr db' \<Longrightarrow> begun db i \<Longrightarrow> begun db' i"
proof -
  assume b: "begin_changeset_apply db c operation = Inr db'" and "begun db i"
  then obtain d rows where "transition_changeset_status db (cs_id c) C_CAPTURED C_APPLYING operation = Inr d"
    "db' = d\<lparr>cd_files := rows\<rparr>"
    by (auto simp: begin_changeset_apply_def res_simps)
  with begun_transition [of db _ _ _ _ d i] \<open>begun db i\<close> show "begun db' i"
    by (simp add: begun_sets [of "d\<lparr>cd_files := rows\<rparr>" d])
qed

lemma begun_finish: "finish db fs j s t operation = (db', fs', r) \<Longrightarrow> begun db i \<Longrightarrow> begun db' i"
  by (auto simp: finish_def split: sum.splits dest: begun_transition)

lemma begun_applied:
  "begin_changeset_apply db c operation = Inr db1 \<Longrightarrow> apply_files env db1 fs j items = (db2, fs2, r) \<Longrightarrow>
     begun db i \<Longrightarrow> begun db2 i"
  using begun_begin begun_sets apply_files_sets by metis

lemma begun_integrate:
  assumes "begun db i" "integrate co env db fs j op1 op2 = (db', fs', r)"
  shows "begun db' i"
  using assms
  by (auto simp: integrate_def split: sum.splits if_splits prod.splits
      intro: begun_finish begun_applied)

lemma begun_act: "begun (fst w) i \<Longrightarrow> begun (fst (act co env w a)) i"
proof -
  assume b: "begun (fst w) i"
  obtain db fs where w: "w = (db, fs)" by (cases w)
  show ?thesis
  proof (cases a)
    case (Integrate j op1 op2)
    with b w begun_integrate [of db i co env fs j op1 op2] show ?thesis
      by (cases "integrate co env db fs j op1 op2") auto
  next
    case (Crash j op1 k torn)
    with b w show ?thesis
      by (auto simp: integrate_crashed_def split: sum.splits if_splits prod.splits intro: begun_applied)
  next
    case (Recover j operation)
    with b w show ?thesis
      by (auto simp: recover_def res_simps split: sum.splits prod.splits if_splits dest: begun_transition)
  qed
qed

lemma begun_act_all: "begun (fst w) i \<Longrightarrow> begun (fst (act_all co env w as)) i"
proof (induction as arbitrary: w)
  case Nil
  then show ?case by simp
next
  case (Cons a as)
  show ?case unfolding act_all.simps by (rule Cons.IH [OF begun_act [OF Cons.prems]])
qed

text \<open>Once begun, a change set never writes again.\<close>

lemma begun_inert:
  assumes "begun (fst w) (action_target a)"
  shows "snd (act co env w a) = snd w"
proof -
  obtain db fs where w: "w = (db, fs)" by (cases w)
  have g: "s \<noteq> C_CAPTURED" if "get_changeset n h db i = Inr (c, s)" "begun db i" for n h i c s
    using that by (auto simp: get_changeset_def res_simps begun_def status_of_def split: option.splits if_splits)
  show ?thesis
  proof (cases a)
    case (Integrate j op1 op2)
    with assms w show ?thesis
      by (cases "get_changeset (co_nfkc co) (co_sha_json co) db j") (auto simp: integrate_def dest: g)
  next
    case (Crash j op1 k torn)
    with assms w show ?thesis
      by (cases "get_changeset (co_nfkc co) (co_sha_json co) db j") (auto simp: integrate_crashed_def dest: g)
  next
    case (Recover j operation)
    with w show ?thesis by (auto split: sum.splits prod.splits)
  qed
qed

lemma act_writes_begun:
  assumes wf: "wf_fs fs" and ok: "changesets_ok db" and fr: "action_fresh db a"
    and ch: "snd (act co env (db, fs) a) \<noteq> fs"
  shows "begun (fst (act co env (db, fs) a)) (action_target a)"
proof (cases a)
  case (Integrate i op1 op2)
  obtain db' fs' r where n: "integrate co env db fs i op1 op2 = (db', fs', r)"
    by (cases "integrate co env db fs i op1 op2") auto
  show ?thesis
  proof (cases "get_changeset (co_nfkc co) (co_sha_json co) db i")
    case (Inl e)
    with ch Integrate show ?thesis by (simp add: integrate_def)
  next
    case (Inr p)
    obtain c s where p: "p = (c, s)" by (cases p)
    have "outcome_ok env c (db, fs) (db', fs', r)"
      using integrate_outcome [OF wf ok Inr [unfolded p], of op1 op2 env] fr Integrate n by simp
    with ch Integrate n get_changeset_Inr(2) [OF Inr [unfolded p] ok] show ?thesis
      by (auto simp: outcome_ok_def begun_def split: sum.splits if_splits)
  qed
next
  case (Crash i op1 k torn)
  show ?thesis
  proof (cases "get_changeset (co_nfkc co) (co_sha_json co) db i")
    case (Inl e)
    with ch Crash show ?thesis by (simp add: integrate_crashed_def)
  next
    case (Inr p)
    obtain c s where p: "p = (c, s)" by (cases p)
    note g = get_changeset_Inr [OF Inr [unfolded p] ok]
    from ch Crash Inr p have s: "s = C_CAPTURED" by (auto simp: integrate_crashed_def split: if_splits)
    obtain db1 where b: "begin_changeset_apply db c op1 = Inr db1" "status_of db1 i = Some C_APPLYING"
      by (rule begin_ok [OF ok g(3,2), of op1]) (use g(1) fr Crash s in auto)
    have "cd_sets (fst (act co env (db, fs) a)) = cd_sets db1"
      using ch Crash Inr p b(1)
      by (auto simp: integrate_crashed_def split: prod.splits if_splits dest: apply_files_sets)
    with b(2) have "status_of (fst (act co env (db, fs) a)) i = Some C_APPLYING"
      by (simp add: status_of_def changeset_by_id_def)
    with Crash show ?thesis by (simp add: begun_def)
  qed
next
  case (Recover i operation)
  with ch show ?thesis by (auto split: sum.splits prod.splits)
qed

section \<open>Properties\<close>


text \<open>
  A workspace with one file \<open>a\<close>, and a captured change set that rewrites it and adds
  \<open>d/b\<close>; the digest of the example is the reversed content, padded.
\<close>

definition ex_sha :: "string \<Rightarrow> string" where
  "ex_sha content = take 64 (rev content @ replicate 64 CHR ''0'')"

definition ex_image :: "string \<Rightarrow> content_image" where
  "ex_image content = \<lparr>im_digest = ex_sha content, im_size = int (length content),
     im_ref = artifact_reference (ex_sha content)\<rparr>"

definition ex_changeset :: change_set where
  "ex_changeset = \<lparr>cs_schema = 1, cs_id = ex_uuid CHR ''a'', cs_task = ex_uuid CHR ''b'',
     cs_attempt = ex_uuid CHR ''c'', cs_snapshot = replicate 64 CHR ''1'', cs_head = replicate 40 CHR ''2'',
     cs_scope = [''a'', ''d''],
     cs_paths = [\<lparr>cp_path = ''a'', cp_effect = ''modified'', cp_before = Some (ex_image ''1''),
                   cp_after = Some (ex_image ''2'')\<rparr>,
                 \<lparr>cp_path = ''d/b'', cp_effect = ''added'', cp_before = None,
                   cp_after = Some (ex_image ''3'')\<rparr>]\<rparr>"

definition ex_codec :: codec where
  "ex_codec = \<lparr>co_nfkc = py_lower, co_sha_json = (\<lambda>c. join_on CHR '' '' (map cp_path (cs_paths c)))\<rparr>"

definition ex_env :: "(fault \<Rightarrow> string list \<Rightarrow> bool) \<Rightarrow> workspace_env" where
  "ex_env faulty = \<lparr>env_sha = ex_sha,
     env_store = [ex_sha ''1'' \<mapsto> ''1'', ex_sha ''2'' \<mapsto> ''2'', ex_sha ''3'' \<mapsto> ''3''], env_faulty = faulty\<rparr>"

definition ex_fs :: fs where
  "ex_fs = [[] \<mapsto> Directory, [''a''] \<mapsto> Regular ''1'']"

definition ex_cs_db :: changeset_db where
  "ex_cs_db = \<lparr>jd_sessions = [], jd_runs = [],
     jd_tasks = [\<lparr>ta_id = ex_uuid CHR ''b'', ta_run = ''r'', ta_description = ''d'', ta_status = RUNNING,
       ta_fingerprint = ''f'', ta_key = ''kt''\<rparr>],
     jd_results = Map.empty,
     jd_attempts = [\<lparr>at_id = ex_uuid CHR ''c'', at_task = ex_uuid CHR ''b'', at_number = 1,
       at_status = A_RUNNING, at_key = ''ka''\<rparr>],
     jd_assignments = [], jd_reservations = [], jd_usage = [], jd_approvals = [], jd_packets = [],
     jd_events = [], jd_warning = Map.empty, cd_sets = [], cd_ops = [], cd_files = []\<rparr>"

definition ex_recorded :: changeset_db where
  "ex_recorded =
     (case record_changeset (co_nfkc ex_codec) (co_sha_json ex_codec) (\<lambda>c. c) ex_cs_db ex_changeset ''k'' of
        Inl e \<Rightarrow> ex_cs_db | Inr db \<Rightarrow> db)"

lemma ex_fs_wf: "wf_fs ex_fs"
  by (auto simp: wf_fs_def ex_fs_def Cons_eq_append_conv)

lemma ex_recorded_ok: "changesets_ok ex_recorded" by code_simp

lemma ex_recorded_get:
  "get_changeset (co_nfkc ex_codec) (co_sha_json ex_codec) ex_recorded (ex_uuid CHR ''a'') =
     Inr (ex_changeset, C_CAPTURED)"
  by code_simp


text \<open>
  C12: a change set writes at most once.  After any integration of it that changed a file, whether
  it finished or died halfway, no later integration, crashed integration or recovery of the same
  change set changes any file, whatever happens to other change sets in between.
\<close>

theorem changeset_writes_once:
  assumes "wf_fs fs" and "changesets_ok db" and "action_fresh db a"
    and "snd (act co env (db, fs) a) \<noteq> fs" and "action_target b = action_target a"
  shows "snd (act co env (act_all co env (act co env (db, fs) a) as) b) =
     snd (act_all co env (act co env (db, fs) a) as)"
proof -
  have "begun (fst (act co env (db, fs) a)) (action_target a)"
    by (rule act_writes_begun [OF assms(1-4)])
  from begun_act_all [OF this, of co env as] assms(5) show ?thesis by (intro begun_inert) simp
qed

theorem changeset_writes_once_witness:
  "snd (act ex_codec (ex_env (\<lambda>f p. False)) (ex_recorded, ex_fs) (Crash (ex_uuid CHR ''a'') (ex_uuid CHR ''d'') 1 True)) [''d'', ''b''] =
     Some (Regular ''3'') \<and>
   snd (act ex_codec (ex_env (\<lambda>f p. False))
     (act ex_codec (ex_env (\<lambda>f p. False)) (ex_recorded, ex_fs) (Crash (ex_uuid CHR ''a'') (ex_uuid CHR ''d'') 1 True))
     (Integrate (ex_uuid CHR ''a'') (ex_uuid CHR ''e'') (ex_uuid CHR ''f''))) =
   snd (act ex_codec (ex_env (\<lambda>f p. False)) (ex_recorded, ex_fs) (Crash (ex_uuid CHR ''a'') (ex_uuid CHR ''d'') 1 True))"
proof -
  let ?w = "act ex_codec (ex_env (\<lambda>f p. False)) (ex_recorded, ex_fs) (Crash (ex_uuid CHR ''a'') (ex_uuid CHR ''d'') 1 True)"
  have 1: "action_fresh ex_recorded (Crash (ex_uuid CHR ''a'') (ex_uuid CHR ''d'') 1 True)" by code_simp
  have 2: "snd ?w [''d'', ''b''] = Some (Regular ''3'')" by code_simp
  have n: "ex_fs [''d'', ''b''] = None" by code_simp
  have 3: "snd ?w \<noteq> ex_fs"
  proof
    assume "snd ?w = ex_fs"
    from fun_cong [OF this, of "[''d'', ''b'']"] have "Some (Regular ''3'') = None"
      unfolding 2 n .
    then show False by (rule option.distinct(2) [THEN notE])
  qed
  have 4: "action_target (Integrate (ex_uuid CHR ''a'') (ex_uuid CHR ''e'') (ex_uuid CHR ''f'')) =
      action_target (Crash (ex_uuid CHR ''a'') (ex_uuid CHR ''d'') 1 True)"
    by (simp only: action_target.simps)
  show ?thesis
    by (rule conjI [OF 2 changeset_writes_once [OF ex_fs_wf ex_recorded_ok 1 3 4, where as = "[]",
        unfolded act_all.simps]])
qed

end
