(* ===== verification/Workspace_Capture.thy ===== *)
theory Workspace_Capture
  imports Changeset_Integration
begin

text \<open>
  Capturing an isolated worktree as a change set
  (\<open>src/src/skail/runtime/workspace_capture.py\<close>): the bounded scan of regular files, the
  comparison with the snapshot manifest, and the round trip with the integrator.

  A worktree is the list of its entries in visit order, with relative paths, as it is during the
  scan; the checks that detect a file changing under the scan are not modelled.  JSON booleans
  compare with integers as in Python.
\<close>

section \<open>Scan\<close>

datatype scan_entry = SE_file string nat | SE_dir | SE_symlink | SE_other

record scanned_file =
  sf_path :: string
  sf_digest :: string
  sf_size :: int
  sf_ref :: string

record scan_limits =
  max_files :: int
  max_bytes :: int

definition make_scanner :: "int \<Rightarrow> int \<Rightarrow> scan_limits res" where
  "make_scanner files bytes =
     (if files < 1 \<or> bytes < 0 then Inl (ValueError ''workspace.capture_limits_invalid'')
      else Inr \<lparr>max_files = files, max_bytes = bytes\<rparr>)"

definition below_git :: "string \<Rightarrow> bool" where
  "below_git p \<longleftrightarrow> ''.git'' \<in> set (butlast (path_parts p))"

definition in_git :: "string \<Rightarrow> bool" where
  "in_git p \<longleftrightarrow> ''.git'' \<in> set (path_parts p)"

lemma in_butlast_or_last: "xs \<noteq> [] \<Longrightarrow> x \<in> set xs \<longleftrightarrow> x \<in> set (butlast xs) \<or> last xs = x"
  by (induction xs) auto

lemma in_git_iff: "in_git p \<longleftrightarrow> below_git p \<or> last (path_parts p) = ''.git''"
  unfolding in_git_def below_git_def by (rule in_butlast_or_last) simp

fun scan_entries ::
  "(string \<Rightarrow> string) \<Rightarrow> scan_limits \<Rightarrow> (string \<Rightarrow> string option) \<Rightarrow> scanned_file list \<Rightarrow> int \<Rightarrow>
     (string \<times> scan_entry) list \<Rightarrow> ((string \<Rightarrow> string option) \<times> scanned_file list) res" where
  "scan_entries sha bounds store files used [] = Inr (store, files)"
| "scan_entries sha bounds store files used ((p, e) # rest) =
     (if below_git p then scan_entries sha bounds store files used rest
      else if e = SE_symlink then Inl (WorkspaceCaptureError ''workspace.capture_reparse_point'')
      else if last (path_parts p) = ''.git'' then scan_entries sha bounds store files used rest
      else (case e of
          SE_file content links \<Rightarrow>
            if links \<noteq> 1 then Inl (WorkspaceCaptureError ''workspace.capture_hard_link'')
            else if max_files bounds \<le> int (length files) \<or> max_bytes bounds < used + int (length content)
              then Inl (WorkspaceCaptureError ''workspace.capture_limit_exceeded'')
            else res_bind (publish_artifact sha store content) (\<lambda>(store', im).
              scan_entries sha bounds store'
                (files @ [\<lparr>sf_path = p, sf_digest = im_digest im, sf_size = im_size im, sf_ref = im_ref im\<rparr>])
                (used + int (length content)) rest)
        | SE_dir \<Rightarrow> scan_entries sha bounds store files used rest
        | _ \<Rightarrow> Inl (WorkspaceCaptureError ''workspace.capture_non_regular'')))"

definition scan ::
  "(string \<Rightarrow> string) \<Rightarrow> scan_limits \<Rightarrow> (string \<Rightarrow> string option) \<Rightarrow> (string \<times> scan_entry) list \<Rightarrow>
     ((string \<Rightarrow> string option) \<times> scanned_file list) res" where
  "scan sha bounds store worktree =
     res_bind (scan_entries sha bounds store [] 0 worktree) (\<lambda>(store', files).
       Inr (store', sort_key sf_path files))"

section \<open>Comparison with the snapshot\<close>

record snapshot =
  sp_manifest :: "json option"
  sp_content :: "string \<Rightarrow> string option"

text \<open>The manifest's dictionary of files, when it describes the expected snapshot.\<close>

definition manifest_files :: "snapshot \<Rightarrow> string \<Rightarrow> string \<Rightarrow> (string \<times> json) list res" where
  "manifest_files sp snapshot_id head =
     (case sp_manifest sp of
        None \<Rightarrow> Inl (WorkspaceCaptureError ''workspace.capture_snapshot_invalid'')
      | Some m \<Rightarrow>
          (case json_get m ''files'' of
             None \<Rightarrow> Inl (WorkspaceCaptureError ''workspace.capture_snapshot_invalid'')
           | Some files \<Rightarrow>
               if json_get m ''snapshot_id'' \<noteq> Some (JStr snapshot_id) \<or> json_get m ''head'' \<noteq> Some (JStr head)
                 then Inl (WorkspaceCaptureError ''workspace.capture_snapshot_invalid'')
               else (case files of
                       JObj kvs \<Rightarrow> Inr kvs
                     | _ \<Rightarrow> Inl (WorkspaceCaptureError ''workspace.capture_snapshot_invalid''))))"

definition equals_int :: "json option \<Rightarrow> int \<Rightarrow> bool" where
  "equals_int j n \<longleftrightarrow> (case j of Some (JNum q) \<Rightarrow> q = of_int n
     | Some (JBool b) \<Rightarrow> n = (if b then 1 else 0) | _ \<Rightarrow> False)"

definition make_image :: "string \<Rightarrow> int \<Rightarrow> string \<Rightarrow> content_image res" where
  "make_image d n ref = validate_digest \<lparr>im_digest = d, im_size = n, im_ref = ref\<rparr>"

text \<open>The before-image: the manifest entry must match the content kept in the snapshot.\<close>

definition capture_before ::
  "(string \<Rightarrow> string) \<Rightarrow> snapshot \<Rightarrow> (string \<Rightarrow> string option) \<Rightarrow> string \<Rightarrow> json option \<Rightarrow>
     ((string \<Rightarrow> string option) \<times> content_image option) res" where
  "capture_before sha sp store p original =
     (case original of
        None \<Rightarrow> Inr (store, None)
      | Some (JObj kvs) \<Rightarrow>
          if map_of kvs ''deleted'' = Some (JBool True) then Inr (store, None)
          else (case sp_content sp p of
              None \<Rightarrow> Inl (WorkspaceCaptureError ''workspace.capture_snapshot_invalid'')
            | Some content \<Rightarrow>
                if map_of kvs ''digest'' \<noteq> Some (JStr (sha content)) \<or>
                   \<not> equals_int (map_of kvs ''size'') (int (length content))
                  then Inl (WorkspaceCaptureError ''workspace.capture_snapshot_invalid'')
                else res_bind (publish_artifact sha store content) (\<lambda>(store', im).
                  res_bind (make_image (im_digest im) (im_size im) (im_ref im)) (\<lambda>im'.
                    Inr (store', Some im'))))
      | Some _ \<Rightarrow> Inl (WorkspaceCaptureError ''workspace.capture_snapshot_invalid''))"

definition capture_after :: "scanned_file option \<Rightarrow> content_image option res" where
  "capture_after current =
     (case current of
        None \<Rightarrow> Inr None
      | Some f \<Rightarrow> res_bind (make_image (sf_digest f) (sf_size f) (sf_ref f)) (\<lambda>im. Inr (Some im)))"

definition unchanged :: "content_image option \<Rightarrow> content_image option \<Rightarrow> bool" where
  "unchanged before after \<longleftrightarrow>
     (case (before, after) of
        (None, None) \<Rightarrow> True
      | (Some b, Some a) \<Rightarrow> im_digest b = im_digest a
      | _ \<Rightarrow> False)"

definition effect_of :: "content_image option \<Rightarrow> content_image option \<Rightarrow> string" where
  "effect_of before after =
     (if before = None then ''added'' else if after = None then ''deleted'' else ''modified'')"

fun capture_paths ::
  "(string \<Rightarrow> string) \<Rightarrow> snapshot \<Rightarrow> (string \<times> json) list \<Rightarrow> scanned_file list \<Rightarrow>
     (string \<Rightarrow> string option) \<Rightarrow> string list \<Rightarrow>
     ((string \<Rightarrow> string option) \<times> changeset_path list) res" where
  "capture_paths sha sp originals current store [] = Inr (store, [])"
| "capture_paths sha sp originals current store (p # ps) =
     res_bind (capture_before sha sp store p (map_of originals p)) (\<lambda>(store1, before).
     res_bind (capture_after (map_of (map (\<lambda>f. (sf_path f, f)) current) p)) (\<lambda>after.
     if unchanged before after then capture_paths sha sp originals current store1 ps
     else
       res_bind (validate_effect \<lparr>cp_path = p, cp_effect = effect_of before after,
           cp_before = before, cp_after = after\<rparr>) (\<lambda>item.
       res_bind (capture_paths sha sp originals current store1 ps) (\<lambda>(store2, items).
         Inr (store2, item # items)))))"

definition capture_changeset ::
  "(string \<Rightarrow> string) \<Rightarrow> (string \<Rightarrow> string) \<Rightarrow> scan_limits \<Rightarrow> change_set \<Rightarrow> snapshot \<Rightarrow>
     (string \<Rightarrow> string option) \<Rightarrow> (string \<times> scan_entry) list \<Rightarrow>
     ((string \<Rightarrow> string option) \<times> change_set) res" where
  "capture_changeset nfkc sha bounds ids sp store worktree =
     res_bind (manifest_files sp (cs_snapshot ids) (cs_head ids)) (\<lambda>originals.
     res_bind (scan sha bounds store worktree) (\<lambda>(store1, current).
     res_bind (capture_paths sha sp originals current store1
         (sort (remdups (map fst originals @ map sf_path current)))) (\<lambda>(store2, items).
     if items = [] then Inl (WorkspaceCaptureError ''workspace.capture_no_changes'')
     else res_bind (validate_contract nfkc (ids\<lparr>cs_schema := 1, cs_paths := items\<rparr>)) (\<lambda>c.
       Inr (store2, c)))))"

section \<open>What the scan and the snapshot say\<close>

text \<open>The files of a worktree and of a snapshot, as maps from paths to contents.\<close>

definition worktree_file :: "(string \<times> scan_entry) list \<Rightarrow> string \<Rightarrow> string option" where
  "worktree_file worktree p =
     (case map_of worktree p of Some (SE_file content links) \<Rightarrow> Some content | _ \<Rightarrow> None)"

definition snapshot_file :: "snapshot \<Rightarrow> (string \<times> json) list \<Rightarrow> string \<Rightarrow> string option" where
  "snapshot_file sp originals p =
     (case map_of originals p of
        Some (JObj kvs) \<Rightarrow> if map_of kvs ''deleted'' = Some (JBool True) then None else sp_content sp p
      | _ \<Rightarrow> None)"

definition scanned :: "(string \<Rightarrow> string) \<Rightarrow> string \<Rightarrow> string \<Rightarrow> scanned_file" where
  "scanned sha p content = \<lparr>sf_path = p, sf_digest = sha content, sf_size = int (length content),
     sf_ref = artifact_reference (sha content)\<rparr>"

fun visible_files :: "(string \<times> scan_entry) list \<Rightarrow> (string \<times> string) list" where
  "visible_files [] = []"
| "visible_files ((p, e) # rest) =
     (case e of
        SE_file content links \<Rightarrow> if in_git p then visible_files rest else (p, content) # visible_files rest
      | _ \<Rightarrow> visible_files rest)"

lemma publish_artifact_Inr:
  "publish_artifact sha store content = Inr (store', im) \<Longrightarrow>
     im = \<lparr>im_digest = sha content, im_size = int (length content),
           im_ref = artifact_reference (sha content)\<rparr>"
  by (auto simp: publish_artifact_def Let_def split: option.splits if_splits)

lemma scan_entries_Inr:
  "scan_entries sha bounds store files used worktree = Inr (store', files') \<Longrightarrow>
     files' = files @ map (\<lambda>(p, content). scanned sha p content) (visible_files worktree)"
proof (induction sha bounds store files used worktree arbitrary: store' files' rule: scan_entries.induct)
  case (1 sha bounds store files used)
  then show ?case by simp
next
  case (2 sha bounds store files used p e rest)
  show ?case
  proof (cases "in_git p")
    case True
    with 2 show ?thesis by (auto simp: in_git_iff split: if_splits scan_entry.splits)
  next
    case False
    then have g: "\<not> below_git p" "last (path_parts p) \<noteq> ''.git''" by (auto simp: in_git_iff)
    show ?thesis
    proof (cases e)
      case (SE_file content links)
      with "2.prems" g obtain store1 im where pub: "publish_artifact sha store content = Inr (store1, im)"
        and ok: "links = 1" "\<not> (max_files bounds \<le> int (length files) \<or> max_bytes bounds < used + int (length content))"
        and rest: "scan_entries sha bounds store1
                (files @ [\<lparr>sf_path = p, sf_digest = im_digest im, sf_size = im_size im, sf_ref = im_ref im\<rparr>])
                (used + int (length content)) rest = Inr (store', files')"
        by (auto simp: res_simps split: if_splits)
      have "\<lparr>sf_path = p, sf_digest = im_digest im, sf_size = im_size im, sf_ref = im_ref im\<rparr> = scanned sha p content"
        using publish_artifact_Inr [OF pub] by (simp add: scanned_def)
      moreover have "e \<noteq> SE_symlink" "\<not> links \<noteq> 1" using SE_file ok by simp_all
      ultimately show ?thesis using 2(3) [OF g(1) _ g(2) SE_file _ ok(2) rest] SE_file False by simp
    next
      case SE_dir
      with 2 g False show ?thesis by simp
    qed (use 2 g in auto)
  qed
qed

definition image :: "(string \<Rightarrow> string) \<Rightarrow> string \<Rightarrow> content_image" where
  "image sha content = \<lparr>im_digest = sha content, im_size = int (length content),
     im_ref = artifact_reference (sha content)\<rparr>"

lemma make_image_Inr: "make_image d n ref = Inr im \<Longrightarrow> im = \<lparr>im_digest = d, im_size = n, im_ref = ref\<rparr>"
  by (auto simp: make_image_def validate_digest_def split: if_splits)

lemma capture_before_Inr:
  "capture_before sha sp store p (map_of originals p) = Inr (store', b) \<Longrightarrow>
     b = map_option (image sha) (snapshot_file sp originals p)"
  by (auto simp: capture_before_def snapshot_file_def res_simps image_def
      dest!: publish_artifact_Inr make_image_Inr
      split: option.splits json.splits if_splits)

lemma capture_after_Inr:
  "capture_after (map_option (scanned sha p) content) = Inr a \<Longrightarrow> a = map_option (image sha) content"
  by (auto simp: capture_after_def res_simps image_def scanned_def dest!: make_image_Inr split: option.splits)

text \<open>The recorded changes are those of the two maps of files.\<close>

definition change_at ::
  "(string \<Rightarrow> string) \<Rightarrow> (string \<Rightarrow> string option) \<Rightarrow> (string \<Rightarrow> string option) \<Rightarrow> string \<Rightarrow> changeset_path" where
  "change_at sha before after p =
     (let b = map_option (image sha) (before p); a = map_option (image sha) (after p)
      in \<lparr>cp_path = p, cp_effect = effect_of b a, cp_before = b, cp_after = a\<rparr>)"

definition changed_at ::
  "(string \<Rightarrow> string) \<Rightarrow> (string \<Rightarrow> string option) \<Rightarrow> (string \<Rightarrow> string option) \<Rightarrow> string \<Rightarrow> bool" where
  "changed_at sha before after p \<longleftrightarrow> map_option sha (before p) \<noteq> map_option sha (after p)"

lemma unchanged_images:
  "unchanged (map_option (image sha) b) (map_option (image sha) a) \<longleftrightarrow> map_option sha b = map_option sha a"
  by (cases b; cases a) (auto simp: unchanged_def image_def)

lemma validate_effect_Inr: "validate_effect x = Inr y \<Longrightarrow> y = x"
  by (auto simp: validate_effect_def res_simps split: if_splits)

lemma capture_paths_Inr:
  assumes cur: "\<And>p. map_of (map (\<lambda>f. (sf_path f, f)) current) p = map_option (scanned sha p) (work p)"
  shows "capture_paths sha sp originals current store ps = Inr (store', items) \<Longrightarrow>
     items = map (change_at sha (snapshot_file sp originals) work)
       (filter (changed_at sha (snapshot_file sp originals) work) ps)"
proof (induction ps arbitrary: store store' items)
  case Nil
  then show ?case by simp
next
  case (Cons p ps)
  from Cons.prems obtain store1 b a where
    b: "capture_before sha sp store p (map_of originals p) = Inr (store1, b)" and
    a: "capture_after (map_option (scanned sha p) (work p)) = Inr a" and
    rest: "(if unchanged b a then capture_paths sha sp originals current store1 ps
      else res_bind (validate_effect \<lparr>cp_path = p, cp_effect = effect_of b a, cp_before = b, cp_after = a\<rparr>) (\<lambda>item.
       res_bind (capture_paths sha sp originals current store1 ps) (\<lambda>(store2, items).
         Inr (store2, item # items)))) = Inr (store', items)"
    by (auto simp: res_simps cur)
  have ba: "b = map_option (image sha) (snapshot_file sp originals p)" "a = map_option (image sha) (work p)"
    using capture_before_Inr [OF b] capture_after_Inr [OF a] .
  show ?case
  proof (cases "unchanged b a")
    case True
    with rest Cons.IH [of store1 store' items] ba show ?thesis
      by (simp add: changed_at_def unchanged_images)
  next
    case False
    with rest obtain items' where "capture_paths sha sp originals current store1 ps = Inr (store', items')"
      "items = \<lparr>cp_path = p, cp_effect = effect_of b a, cp_before = b, cp_after = a\<rparr> # items'"
      by (auto simp: res_simps dest!: validate_effect_Inr)
    with Cons.IH [of store1 store' items'] False ba show ?thesis
      by (simp add: changed_at_def unchanged_images change_at_def Let_def)
  qed
qed

definition seen_file :: "(string \<times> scan_entry) list \<Rightarrow> string \<Rightarrow> string option" where
  "seen_file worktree p = (if in_git p then None else worktree_file worktree p)"

lemma visible_files_fst: "fst ` set (visible_files worktree) \<subseteq> fst ` set worktree"
proof (induction worktree rule: visible_files.induct)
  case 1
  then show ?case by simp
next
  case (2 p e rest)
  then show ?case by (cases e; cases "in_git p") (auto simp: subset_iff)
qed

lemma visible_files_distinct: "distinct (map fst worktree) \<Longrightarrow> distinct (map fst (visible_files worktree))"
proof (induction worktree rule: visible_files.induct)
  case 1
  then show ?case by simp
next
  case (2 p e rest)
  then show ?case using visible_files_fst [of rest] by (auto split: scan_entry.splits if_splits)
qed

lemma visible_files_map:
  "distinct (map fst worktree) \<Longrightarrow> map_of (visible_files worktree) p = seen_file worktree p"
proof (induction worktree rule: visible_files.induct)
  case 1
  then show ?case by (simp add: seen_file_def worktree_file_def)
next
  case (2 q e rest)
  have "map_of rest q = None" using "2.prems" by (auto simp: map_of_eq_None_iff)
  with 2 show ?case
    by (auto simp: seen_file_def worktree_file_def split: scan_entry.splits if_splits)
qed

lemma map_of_same_set:
  "distinct (map k xs) \<Longrightarrow> distinct (map k ys) \<Longrightarrow> set xs = set ys \<Longrightarrow>
     map_of (map (\<lambda>f. (k f, f)) xs) = map_of (map (\<lambda>f. (k f, f)) ys)"
  by (subst map_of_inject_set) (auto simp: comp_def)

lemma map_of_scanned:
  "map_of (map (\<lambda>f. (sf_path f, f)) (map (\<lambda>(p, content). scanned sha p content) vs)) p =
     map_option (scanned sha p) (map_of vs p)"
  by (induction vs) (auto simp: scanned_def)

lemma scan_Inr:
  assumes "scan sha bounds store worktree = Inr (store', current)" "distinct (map fst worktree)"
  shows "map_of (map (\<lambda>f. (sf_path f, f)) current) p = map_option (scanned sha p) (seen_file worktree p)"
    "set (map sf_path current) = fst ` set (visible_files worktree)"
proof -
  let ?vs = "map (\<lambda>(p, content). scanned sha p content) (visible_files worktree)"
  have cur: "current = sort_key sf_path ?vs"
    using assms(1) by (auto simp: scan_def res_simps dest: scan_entries_Inr)
  have path: "map sf_path ?vs = map fst (visible_files worktree)"
    by (auto simp: scanned_def)
  show "set (map sf_path current) = fst ` set (visible_files worktree)"
    using arg_cong [OF path, of set] by (simp only: cur set_map set_sort)
  have d: "distinct (map sf_path ?vs)" unfolding path by (rule visible_files_distinct [OF assms(2)])
  then have "distinct (map sf_path current)"
    by (metis cur distinct_map distinct_sort set_sort)
  then have "map_of (map (\<lambda>f. (sf_path f, f)) current) = map_of (map (\<lambda>f. (sf_path f, f)) ?vs)"
    using d by (rule map_of_same_set) (simp add: cur)
  then show "map_of (map (\<lambda>f. (sf_path f, f)) current) p = map_option (scanned sha p) (seen_file worktree p)"
    using visible_files_map [OF assms(2)] map_of_scanned by simp
qed

text \<open>A capture lists exactly the paths whose contents differ between snapshot and worktree.\<close>

lemma capture_exact:
  assumes cap: "capture_changeset nfkc sha bounds ids sp store worktree = Inr (store', c)"
    and man: "manifest_files sp (cs_snapshot ids) (cs_head ids) = Inr originals"
    and d: "distinct (map fst worktree)"
  shows "\<exists>ps. c = ids\<lparr>cs_schema := 1, cs_paths := map (change_at sha (snapshot_file sp originals) (seen_file worktree)) ps\<rparr> \<and>
     set ps = {p. changed_at sha (snapshot_file sp originals) (seen_file worktree) p} \<and> distinct ps \<and> changeset_ok c"
proof -
  from cap man obtain store1 current store2 items where
    sc: "scan sha bounds store worktree = Inr (store1, current)" and
    cp: "capture_paths sha sp originals current store1
         (sort (remdups (map fst originals @ map sf_path current))) = Inr (store2, items)" and
    v: "validate_contract nfkc (ids\<lparr>cs_schema := 1, cs_paths := items\<rparr>) = Inr c"
    by (auto simp: capture_changeset_def res_simps split: if_splits)
  let ?keys = "sort (remdups (map fst originals @ map sf_path current))"
  let ?ch = "changed_at sha (snapshot_file sp originals) (seen_file worktree)"
  have items: "items = map (change_at sha (snapshot_file sp originals) (seen_file worktree)) (filter ?ch ?keys)"
    by (rule capture_paths_Inr [OF scan_Inr(1) [OF sc d] cp])
  have "p \<in> set ?keys" if "?ch p" for p
  proof (rule ccontr)
    assume "p \<notin> set ?keys"
    then have "map_of originals p = None" "map_of (visible_files worktree) p = None"
      using scan_Inr(2) [OF sc d] by (auto simp: map_of_eq_None_iff)
    then have "snapshot_file sp originals p = None" "seen_file worktree p = None"
      using visible_files_map [OF d, of p] by (auto simp: snapshot_file_def)
    with that show False by (simp add: changed_at_def)
  qed
  then have "set (filter ?ch ?keys) = {p. ?ch p}" by auto
  moreover have "distinct (filter ?ch ?keys)" by simp
  ultimately show ?thesis
    using validate_contract_ok [OF v] items by (intro exI [of _ "filter ?ch ?keys"]) simp
qed

section \<open>Round trip\<close>

definition file_at :: "fs \<Rightarrow> string \<Rightarrow> string option" where
  "file_at fs p = (case fs (path_parts p) of Some (Regular content) \<Rightarrow> Some content | _ \<Rightarrow> None)"

lemma has_image_file_at:
  "has_image sha fs (path_parts p) (map_option (image sha) content) \<Longrightarrow>
     map_option sha (file_at fs p) = map_option sha content"
  by (cases content) (auto simp: file_at_def image_of_def image_def)

text \<open>
  C13: capturing a worktree and integrating the change set reproduces the worktree.  When
  \<open>integrate\<close> answers INTEGRATED, every path outside \<open>.git\<close> that held the snapshot's content
  before now holds the worktree's content, so do all paths the change set lists, and the listed
  paths are exactly those whose digests differ.  The hash is assumed to separate the contents
  compared at the path.
\<close>

theorem capture_integrate_roundtrip:
  assumes "capture_changeset nfkc (env_sha env) bounds ids sp store worktree = Inr (store', c)"
    and "manifest_files sp (cs_snapshot ids) (cs_head ids) = Inr originals"
    and "distinct (map fst worktree)"
    and "wf_fs fs" and "changesets_ok db"
    and "get_changeset (co_nfkc co) (co_sha_json co) db i = Inr (c, s)"
    and "op_fresh db op1" and "op_fresh db op2" and "op1 \<noteq> op2"
    and "integrate co env db fs i op1 op2 = (db', fs', Inr C_INTEGRATED)"
    and "\<not> in_git p" and "file_at fs p = snapshot_file sp originals p \<or> p \<in> set (map cp_path (cs_paths c))"
    and "\<forall>x y. (file_at fs' p = Some x \<or> snapshot_file sp originals p = Some x) \<and>
        worktree_file worktree p = Some y \<and> env_sha env x = env_sha env y \<longrightarrow> x = y"
  shows "file_at fs' p = worktree_file worktree p \<and>
     (p \<in> set (map cp_path (cs_paths c)) \<longleftrightarrow>
        map_option (env_sha env) (snapshot_file sp originals p) \<noteq>
        map_option (env_sha env) (worktree_file worktree p))"
proof -
  let ?sha = "env_sha env"
  obtain ps where c: "c = ids\<lparr>cs_schema := 1,
      cs_paths := map (change_at ?sha (snapshot_file sp originals) (seen_file worktree)) ps\<rparr>"
    and ps: "set ps = {p. changed_at ?sha (snapshot_file sp originals) (seen_file worktree) p}"
    using capture_exact [OF assms(1-3)] by blast
  have see: "seen_file worktree p = worktree_file worktree p" using assms(11) by (simp add: seen_file_def)
  have listed: "p \<in> set (map cp_path (cs_paths c)) \<longleftrightarrow> p \<in> set ps"
    by (auto simp: c change_at_def Let_def image_iff)
  have out: "outcome_ok env c (db, fs) (db', fs', Inr C_INTEGRATED)"
    using integrate_outcome [OF assms(4-9), of env] assms(10) by simp
  have eq: "a = b" if "map_option ?sha a = map_option ?sha b" "worktree_file worktree p = b"
    "a = file_at fs' p \<or> a = snapshot_file sp originals p" for a b
  proof (cases a)
    case None
    with that(1) show ?thesis by simp
  next
    case (Some x)
    with that(1) obtain y where y: "b = Some y" "?sha x = ?sha y" by (cases b) auto
    have "file_at fs' p = Some x \<or> snapshot_file sp originals p = Some x" using that(3) Some by metis
    with y that(2) assms(13) have "x = y" by blast
    with Some y show ?thesis by simp
  qed
  have "file_at fs' p = worktree_file worktree p"
  proof (cases "p \<in> set ps")
    case True
    then have "change_at ?sha (snapshot_file sp originals) (seen_file worktree) p \<in> set (cs_paths c)"
      by (simp add: c)
    moreover have "\<forall>it \<in> set (cs_paths c). has_image ?sha fs' (item_path it) (cp_after it)"
      using out by (simp add: outcome_ok_def)
    ultimately have "has_image ?sha fs' (item_path (change_at ?sha (snapshot_file sp originals) (seen_file worktree) p))
        (cp_after (change_at ?sha (snapshot_file sp originals) (seen_file worktree) p))" by blast
    then have "has_image ?sha fs' (path_parts p) (map_option (image ?sha) (worktree_file worktree p))"
      by (simp add: item_path_def change_at_def Let_def see)
    from eq [OF has_image_file_at [OF this]] show ?thesis by simp
  next
    case False
    then have same: "snapshot_file sp originals p = worktree_file worktree p"
      using eq ps see by (simp add: changed_at_def)
    have "path_parts p \<notin> item_path ` set (cs_paths c)"
      using False listed by (auto simp: item_path_def path_parts_inject)
    then have "fs' (path_parts p) = fs (path_parts p) \<or>
        fs (path_parts p) = None \<and> fs' (path_parts p) = Some Directory"
      using out by (auto simp: outcome_ok_def confined_def)
    then have "file_at fs' p = file_at fs p" by (auto simp: file_at_def)
    with same assms(12) False listed show ?thesis by simp
  qed
  with listed ps see show ?thesis by (simp add: changed_at_def)
qed

text \<open>The example workspace captured after \<open>a\<close> was rewritten and \<open>d/b\<close> was added.\<close>

definition ex_worktree :: "(string \<times> scan_entry) list" where
  "ex_worktree = [(''a'', SE_file ''2'' 1), (''d'', SE_dir), (''d/b'', SE_file ''3'' 1), (''.git'', SE_file ''g'' 1)]"

definition ex_originals :: "(string \<times> json) list" where
  "ex_originals = [(''a'', JObj [(''digest'', JStr (ex_sha ''1'')), (''size'', JNum 1)])]"

definition ex_snapshot :: snapshot where
  "ex_snapshot = \<lparr>sp_manifest = Some (JObj [(''files'', JObj ex_originals),
       (''snapshot_id'', JStr (replicate 64 CHR ''1'')), (''head'', JStr (replicate 40 CHR ''2''))]),
     sp_content = [''a'' \<mapsto> ''1'']\<rparr>"

definition ex_captured :: "((string \<Rightarrow> string option) \<times> change_set) res" where
  "ex_captured = capture_changeset (co_nfkc ex_codec) ex_sha \<lparr>max_files = 10, max_bytes = 100\<rparr> ex_changeset
     ex_snapshot Map.empty ex_worktree"

definition ex_integrated :: "changeset_db \<times> fs \<times> changeset_status res" where
  "ex_integrated = integrate ex_codec (ex_env (\<lambda>f p. False)) ex_recorded ex_fs
     (ex_uuid CHR ''a'') (ex_uuid CHR ''d'') (ex_uuid CHR ''e'')"

theorem capture_integrate_roundtrip_witness:
  "map_option snd (case ex_captured of Inl e \<Rightarrow> None | Inr p \<Rightarrow> Some p) = Some ex_changeset \<and>
   snd (snd ex_integrated) = Inr C_INTEGRATED \<and>
   file_at (fst (snd ex_integrated)) ''a'' = worktree_file ex_worktree ''a''"
proof -
  have cs: "map_option snd (case ex_captured of Inl e \<Rightarrow> None | Inr p \<Rightarrow> Some p) = Some ex_changeset" by code_simp
  then obtain st where cap: "ex_captured = Inr (st, ex_changeset)" by (auto split: sum.splits)
  have env: "env_sha (ex_env (\<lambda>f p. False)) = ex_sha" by (simp add: ex_env_def)
  have man: "manifest_files ex_snapshot (cs_snapshot ex_changeset) (cs_head ex_changeset) = Inr ex_originals"
    by code_simp
  have d: "distinct (map fst ex_worktree)" by code_simp
  have fr: "op_fresh ex_recorded (ex_uuid CHR ''d'')" "op_fresh ex_recorded (ex_uuid CHR ''e'')"
    "ex_uuid CHR ''d'' \<noteq> ex_uuid CHR ''e''" by code_simp+
  have st: "snd (snd ex_integrated) = Inr C_INTEGRATED" by code_simp
  then obtain db' fs' where int: "ex_integrated = (db', fs', Inr C_INTEGRATED)" by (metis prod.collapse)
  have git: "\<not> in_git ''a''" by code_simp
  have base: "file_at ex_fs ''a'' = snapshot_file ex_snapshot ex_originals ''a''" by code_simp
  have vals: "file_at (fst (snd ex_integrated)) ''a'' = Some ''2''"
    "snapshot_file ex_snapshot ex_originals ''a'' = Some ''1''"
    "worktree_file ex_worktree ''a'' = Some ''2''" "ex_sha ''1'' \<noteq> ex_sha ''2''" by code_simp+
  then have sep: "\<forall>x y. (file_at fs' ''a'' = Some x \<or> snapshot_file ex_snapshot ex_originals ''a'' = Some x) \<and>
      worktree_file ex_worktree ''a'' = Some y \<and> env_sha (ex_env (\<lambda>f p. False)) x = env_sha (ex_env (\<lambda>f p. False)) y
      \<longrightarrow> x = y"
    by (auto simp: int env)
  have "file_at fs' ''a'' = worktree_file ex_worktree ''a''"
    using capture_integrate_roundtrip [OF cap [unfolded ex_captured_def, folded env] man d ex_fs_wf ex_recorded_ok
        ex_recorded_get fr int [unfolded ex_integrated_def] git disjI1 [OF base] sep] by (rule conjunct1)
  then have "file_at (fst (snd ex_integrated)) ''a'' = worktree_file ex_worktree ''a''"
    unfolding int fst_conv snd_conv .
  with cs st show ?thesis by blast
qed

end
