(* ===== verification/Budget_Ledger.thy ===== *)
theory Budget_Ledger
  imports Journal_Tables
begin

text \<open>
  The budget ledger of \<open>src/src/skail/routing/budget.py\<close> over the journal tables: the
  snapshot of a run, reservations against the hard limit and the task limit, release, settlement
  with its upgrade rules, and the edge-triggered warning.  The interface \<open>funding\<close> states
  what a client that reserves in sequence may rely on.
\<close>

section \<open>Values\<close>

record normalized_usage =
  nu_input :: int
  nu_output :: int
  nu_cached :: int
  nu_cost :: "usd option"
  nu_authority :: usage_authority

record reservation_request =
  rq_id :: string
  rq_run :: string
  rq_task :: "string option"
  rq_amount :: usd
  rq_key :: string
  rq_purpose :: string

record reservation_result =
  rr_id :: string
  rr_amount :: usd
  rr_warning :: bool

record budget_snapshot =
  sn_limit :: "usd option"
  sn_actual :: usd
  sn_estimated :: usd
  sn_reserved :: usd
  sn_available :: "usd option"

section \<open>Sums\<close>

definition sum_amounts :: "('r \<Rightarrow> usd) \<Rightarrow> ('r \<Rightarrow> bool) \<Rightarrow> 'r list \<Rightarrow> usd" where
  "sum_amounts f p rows = (\<Sum>r\<leftarrow>filter p rows. f r)"

lemma sum_amounts_simps [simp]:
  "sum_amounts f p [] = 0"
  "sum_amounts f p (r # rows) = (if p r then f r else 0) + sum_amounts f p rows"
  "sum_amounts f p (rows @ rows') = sum_amounts f p rows + sum_amounts f p rows'"
  by (simp_all add: sum_amounts_def)

lemma sum_amounts_nonneg: "(\<And>r. r \<in> set rows \<Longrightarrow> 0 \<le> f r) \<Longrightarrow> 0 \<le> sum_amounts f p rows"
  unfolding sum_amounts_def by (rule sum_list_nonneg_rat) simp

text \<open>Changing the one row that matches changes the sum by that row's difference.\<close>

lemma sum_amounts_unchanged:
  "filter q rows = [] \<Longrightarrow> map (\<lambda>x. if q x then g x else x) rows = rows"
  by (induction rows) (auto split: if_splits)

lemma sum_amounts_update:
  "filter q rows = [r] \<Longrightarrow>
     sum_amounts f p (map (\<lambda>x. if q x then g x else x) rows) =
       sum_amounts f p rows - (if p r then f r else 0) + (if p (g r) then f (g r) else 0)"
proof (induction rows)
  case Nil
  then show ?case by simp
next
  case (Cons a rows)
  show ?case
  proof (cases "q a")
    case True
    then have "a = r" "filter q rows = []" using Cons.prems by auto
    with True show ?thesis by (simp add: sum_amounts_unchanged)
  next
    case False
    with Cons show ?thesis by simp
  qed
qed

lemma filter_key_single:
  "distinct (map k rows) \<Longrightarrow> r \<in> set rows \<Longrightarrow> filter (\<lambda>x. k x = k r) rows = [r]"
proof (induction rows)
  case Nil
  then show ?case by simp
next
  case (Cons a rows)
  then show ?case by (auto simp: filter_empty_conv image_iff)
qed

lemma sum_amounts_filter_update:
  "(\<And>x. x \<in> set rows \<Longrightarrow> q x \<Longrightarrow> p (g x) = p x \<and> f (g x) = f x) \<Longrightarrow>
     sum_amounts f p (map (\<lambda>x. if q x then g x else x) rows) = sum_amounts f p rows"
  by (induction rows) auto

section \<open>Snapshot\<close>

definition run_limit :: "'a journal_db_scheme \<Rightarrow> string \<Rightarrow> usd option option" where
  "run_limit db rid = map_option ru_budget (List.find (\<lambda>r. ru_id r = rid) (jd_runs db))"

definition reserved_in :: "string \<Rightarrow> reservation_row \<Rightarrow> bool" where
  "reserved_in rid r \<longleftrightarrow> rs_run r = rid \<and> rs_status r = R_RESERVED"

definition budget_snapshot_of :: "'a journal_db_scheme \<Rightarrow> string \<Rightarrow> budget_snapshot res" where
  "budget_snapshot_of db rid =
     (case run_limit db rid of
        None \<Rightarrow> Inl (KeyError rid)
      | Some limit \<Rightarrow>
          (let actual = sum_amounts us_amount (\<lambda>u. us_run u = rid \<and> us_authoritative u) (jd_usage db);
               estimated = sum_amounts us_amount (\<lambda>u. us_run u = rid \<and> \<not> us_authoritative u) (jd_usage db);
               reserved = sum_amounts rs_amount (reserved_in rid) (jd_reservations db)
           in Inr \<lparr>sn_limit = limit, sn_actual = actual, sn_estimated = estimated,
                   sn_reserved = reserved,
                   sn_available = map_option (\<lambda>l. l - actual - estimated - reserved) limit\<rparr>))"

definition task_committed_usd :: "'a journal_db_scheme \<Rightarrow> string \<Rightarrow> string \<Rightarrow> usd" where
  "task_committed_usd db rid tid =
     sum_amounts us_amount (\<lambda>u. us_run u = rid \<and> us_task u = Some tid) (jd_usage db) +
     sum_amounts rs_amount (\<lambda>r. reserved_in rid r \<and> rs_task r = Some tid) (jd_reservations db)"

text \<open>Everything a run has spent or promised.\<close>

definition committed :: "'a journal_db_scheme \<Rightarrow> string \<Rightarrow> usd" where
  "committed db rid =
     sum_amounts us_amount (\<lambda>u. us_run u = rid) (jd_usage db) +
     sum_amounts rs_amount (reserved_in rid) (jd_reservations db)"

lemma sum_amounts_split:
  "sum_amounts f (\<lambda>r. p r \<and> q r) rows + sum_amounts f (\<lambda>r. p r \<and> \<not> q r) rows = sum_amounts f p rows"
  by (induction rows) auto

lemma snapshot_available:
  "budget_snapshot_of db rid = Inr s \<longleftrightarrow>
     (\<exists>limit. run_limit db rid = Some limit \<and>
        s = \<lparr>sn_limit = limit,
             sn_actual = sum_amounts us_amount (\<lambda>u. us_run u = rid \<and> us_authoritative u) (jd_usage db),
             sn_estimated = sum_amounts us_amount (\<lambda>u. us_run u = rid \<and> \<not> us_authoritative u) (jd_usage db),
             sn_reserved = sum_amounts rs_amount (reserved_in rid) (jd_reservations db),
             sn_available = map_option (\<lambda>l. l - committed db rid) limit\<rparr>)"
  using sum_amounts_split [of us_amount "\<lambda>u. us_run u = rid" us_authoritative "jd_usage db"]
  by (auto simp: budget_snapshot_of_def Let_def committed_def algebra_simps
      split: option.splits intro!: option.map_cong)

section \<open>Warning\<close>

definition warning_level :: "usd \<Rightarrow> budget_snapshot \<Rightarrow> bool" where
  "warning_level percent s \<longleftrightarrow>
     (case sn_limit s of
        None \<Rightarrow> False
      | Some l \<Rightarrow> 0 < l \<and> l * percent \<le> l - (case sn_available s of None \<Rightarrow> 0 | Some a \<Rightarrow> a))"

definition update_warning :: "usd \<Rightarrow> 'a journal_db_scheme \<Rightarrow> string \<Rightarrow> ('a journal_db_scheme \<times> bool) res" where
  "update_warning percent db rid =
     res_bind (budget_snapshot_of db rid) (\<lambda>s.
       let above = warning_level percent s;
           was_above = (jd_warning db rid = Some True)
       in Inr (db\<lparr>jd_warning := (jd_warning db)(rid \<mapsto> above)\<rparr>, above \<and> \<not> was_above))"

section \<open>Reservation\<close>

definition reservation_of_request :: "reservation_request \<Rightarrow> reservation_row" where
  "reservation_of_request q =
     \<lparr>rs_id = rq_id q, rs_run = rq_run q, rs_task = rq_task q, rs_amount = rq_amount q,
      rs_status = R_RESERVED, rs_key = rq_key q, rs_purpose = rq_purpose q\<rparr>"

definition same_request :: "reservation_row \<Rightarrow> reservation_request \<Rightarrow> bool" where
  "same_request r q \<longleftrightarrow> r\<lparr>rs_status := R_RESERVED\<rparr> = reservation_of_request q"

definition reservation_by_key :: "'a journal_db_scheme \<Rightarrow> string \<Rightarrow> reservation_row option" where
  "reservation_by_key db k = List.find (\<lambda>r. rs_key r = k) (jd_reservations db)"

definition reservation_by_id :: "'a journal_db_scheme \<Rightarrow> string \<Rightarrow> reservation_row option" where
  "reservation_by_id db i = List.find (\<lambda>r. rs_id r = i) (jd_reservations db)"

definition exceeds_task_limit :: "'a journal_db_scheme \<Rightarrow> reservation_request \<Rightarrow> usd option \<Rightarrow> bool" where
  "exceeds_task_limit db q task_limit \<longleftrightarrow>
     (case (task_limit, rq_task q) of
        (Some l, Some t) \<Rightarrow> l < task_committed_usd db (rq_run q) t + rq_amount q
      | _ \<Rightarrow> False)"

definition reserve_in_transaction ::
  "usd \<Rightarrow> 'a journal_db_scheme \<Rightarrow> reservation_request \<Rightarrow> usd option \<Rightarrow> usd \<Rightarrow>
     ('a journal_db_scheme \<times> reservation_result) res" where
  "reserve_in_transaction percent db q task_limit lead_allowance =
     (case reservation_by_key db (rq_key q) of
        Some r \<Rightarrow>
          if \<not> same_request r q
            then Inl (JournalIdempotencyError ''session.idempotency_conflict'')
          else Inr (db, \<lparr>rr_id = rq_id q, rr_amount = rq_amount q, rr_warning = False\<rparr>)
      | None \<Rightarrow>
          res_bind (budget_snapshot_of db (rq_run q)) (\<lambda>s.
          if (case sn_available s of None \<Rightarrow> False | Some a \<Rightarrow> a < rq_amount q + lead_allowance)
            then Inl (BudgetBlockedError ''run budget cannot fund reservation and lead allowance'')
          else if exceeds_task_limit db q task_limit
            then Inl (BudgetBlockedError ''task budget cannot fund reservation'')
          else
            res_bind (create_reservation db (reservation_of_request q)) (\<lambda>db1.
            res_bind (update_warning percent db1 (rq_run q)) (\<lambda>(db2, w).
            Inr (db2, \<lparr>rr_id = rq_id q, rr_amount = rq_amount q, rr_warning = w\<rparr>)))))"

definition with_status :: "string \<Rightarrow> reservation_status \<Rightarrow> reservation_row \<Rightarrow> reservation_row" where
  "with_status i st r = (if rs_id r = i then r\<lparr>rs_status := st\<rparr> else r)"

lemma with_status_simps [simp]:
  "rs_id (with_status i st r) = rs_id r" "rs_run (with_status i st r) = rs_run r"
  "rs_key (with_status i st r) = rs_key r" "rs_amount (with_status i st r) = rs_amount r"
  "rs_task (with_status i st r) = rs_task r"
  "rs_status (with_status i st r) = (if rs_id r = i then st else rs_status r)"
  "map (rs_id \<circ> with_status i st) rs = map rs_id rs"
  "map (rs_key \<circ> with_status i st) rs = map rs_key rs"
  by (simp_all add: with_status_def)

definition set_reservation :: "'a journal_db_scheme \<Rightarrow> string \<Rightarrow> reservation_status \<Rightarrow> 'a journal_db_scheme" where
  "set_reservation db i st =
     db\<lparr>jd_reservations := map (with_status i st) (jd_reservations db)\<rparr>"

section \<open>Release and settlement\<close>

definition release_reservation :: "usd \<Rightarrow> 'a journal_db_scheme \<Rightarrow> string \<Rightarrow> 'a journal_db_scheme res" where
  "release_reservation percent db i =
     (case reservation_by_id db i of
        None \<Rightarrow> Inl (KeyError i)
      | Some r \<Rightarrow>
          if rs_status r = R_RELEASED then Inr db
          else if rs_status r \<noteq> R_RESERVED then Inl (ReservationStateError ''cannot release'')
          else res_bind (update_warning percent (set_reservation db i R_RELEASED) (rs_run r))
                 (\<lambda>(db', w). Inr db'))"

definition usage_for :: "'a journal_db_scheme \<Rightarrow> string \<Rightarrow> usage_row option" where
  "usage_for db i = List.find (\<lambda>u. us_reservation u = Some i) (jd_usage db)"

definition set_usage :: "'a journal_db_scheme \<Rightarrow> string \<Rightarrow> usd \<Rightarrow> usage_authority \<Rightarrow> 'a journal_db_scheme" where
  "set_usage db i cost auth =
     db\<lparr>jd_usage := map (\<lambda>u. if us_reservation u = Some i
          then u\<lparr>us_amount := cost, us_authoritative := (auth = AUTHORITATIVE_ACTUAL),
                 us_authority := auth\<rparr> else u) (jd_usage db)\<rparr>"

text \<open>The five columns the replay test compares.\<close>

definition same_usage :: "usage_row \<Rightarrow> string \<Rightarrow> usd \<Rightarrow> usage_authority \<Rightarrow> string \<Rightarrow> bool" where
  "same_usage u usage_id cost auth key \<longleftrightarrow>
     us_id u = usage_id \<and> us_amount u = cost \<and>
     us_authoritative u = (auth = AUTHORITATIVE_ACTUAL) \<and> us_authority u = auth \<and> us_key u = key"

definition settle_new ::
  "usd \<Rightarrow> 'a journal_db_scheme \<Rightarrow> reservation_row \<Rightarrow> string \<Rightarrow> usd \<Rightarrow> usage_authority \<Rightarrow> string \<Rightarrow>
     'a journal_db_scheme res" where
  "settle_new percent db r usage_id cost auth key =
     (if rs_status r \<noteq> R_RESERVED then Inl (ReservationStateError ''cannot settle'')
      else
        (let u = \<lparr>us_id = usage_id, us_run = rs_run r, us_task = rs_task r, us_amount = cost,
                  us_authoritative = (auth = AUTHORITATIVE_ACTUAL), us_key = key,
                  us_authority = auth, us_reservation = Some (rs_id r)\<rparr>
         in if usage_clash db (jd_usage db) u then Inl (IntegrityError ''usage_records'')
            else res_bind (update_warning percent
                     (set_reservation (db\<lparr>jd_usage := jd_usage db @ [u]\<rparr>) (rs_id r) R_SETTLED) (rs_run r))
                   (\<lambda>(db', w). Inr db')))"

definition settle_existing ::
  "usd \<Rightarrow> 'a journal_db_scheme \<Rightarrow> reservation_row \<Rightarrow> usage_row \<Rightarrow> string \<Rightarrow> usd \<Rightarrow> usage_authority \<Rightarrow>
     string \<Rightarrow> 'a journal_db_scheme res" where
  "settle_existing percent db r u usage_id cost auth key =
     (if same_usage u usage_id cost auth key then Inr db
      else if \<not> us_authoritative u \<and> us_id u = usage_id \<and> us_key u = key \<and>
              (auth = AUTHORITATIVE_ACTUAL \<or> auth = CONSERVATIVE_ESTIMATE \<and> us_amount u \<le> cost)
        then res_bind (update_warning percent (set_usage db (rs_id r) cost auth) (rs_run r))
               (\<lambda>(db', w). Inr db')
      else Inl (JournalIdempotencyError ''session.idempotency_conflict''))"

definition settle ::
  "usd \<Rightarrow> 'a journal_db_scheme \<Rightarrow> string \<Rightarrow> string \<Rightarrow> normalized_usage \<Rightarrow> string \<Rightarrow>
     'a journal_db_scheme res" where
  "settle percent db i usage_id usage key =
     (case reservation_by_id db i of
        None \<Rightarrow> Inl (KeyError i)
      | Some r \<Rightarrow>
          (case nu_cost usage of
             None \<Rightarrow> Inl (ValueError ''usage settlement requires a resolved cost'')
           | Some cost \<Rightarrow>
               (case usage_for db i of
                  Some u \<Rightarrow> settle_existing percent db r u usage_id cost (nu_authority usage) key
                | None \<Rightarrow> settle_new percent db r usage_id cost (nu_authority usage) key)))"


section \<open>Well-formed ledgers\<close>

definition usage_reservations :: "'a journal_db_scheme \<Rightarrow> string list" where
  "usage_reservations db = List.map_filter us_reservation (jd_usage db)"

definition ledger_ok :: "'a journal_db_scheme \<Rightarrow> bool" where
  "ledger_ok db \<longleftrightarrow>
     distinct (map rs_id (jd_reservations db)) \<and> distinct (map rs_key (jd_reservations db)) \<and>
     distinct (usage_reservations db) \<and>
     (\<forall>u \<in> set (jd_usage db). \<forall>i. us_reservation u = Some i \<longrightarrow>
        (\<exists>r \<in> set (jd_reservations db). rs_id r = i \<and> rs_status r = R_SETTLED \<and> rs_run r = us_run u)) \<and>
     (\<forall>r \<in> set (jd_reservations db). 0 \<le> rs_amount r)"

lemma ledger_ok_code [code]:
  "ledger_ok db \<longleftrightarrow>
     distinct (map rs_id (jd_reservations db)) \<and> distinct (map rs_key (jd_reservations db)) \<and>
     distinct (usage_reservations db) \<and>
     list_all (\<lambda>u. case us_reservation u of None \<Rightarrow> True
        | Some i \<Rightarrow> list_ex (\<lambda>r. rs_id r = i \<and> rs_status r = R_SETTLED \<and> rs_run r = us_run u)
            (jd_reservations db)) (jd_usage db) \<and>
     list_all (\<lambda>r. 0 \<le> rs_amount r) (jd_reservations db)"
  by (auto simp: ledger_ok_def list_all_iff list_ex_iff split: option.splits)

lemma ledger_okD:
  assumes "ledger_ok db"
  shows "distinct (map rs_id (jd_reservations db))" "distinct (map rs_key (jd_reservations db))"
    "distinct (usage_reservations db)"
    "u \<in> set (jd_usage db) \<Longrightarrow> us_reservation u = Some i \<Longrightarrow>
       \<exists>r \<in> set (jd_reservations db). rs_id r = i \<and> rs_status r = R_SETTLED \<and> rs_run r = us_run u"
    "r \<in> set (jd_reservations db) \<Longrightarrow> 0 \<le> rs_amount r"
  using assms by (auto simp: ledger_ok_def)

text \<open>What the run still has committed for one reservation.\<close>

definition held :: "'a journal_db_scheme \<Rightarrow> string \<Rightarrow> usd" where
  "held db i =
     (case reservation_by_id db i of
        None \<Rightarrow> 0
      | Some r \<Rightarrow>
          if rs_status r = R_RESERVED then rs_amount r
          else (case usage_for db i of None \<Rightarrow> 0 | Some u \<Rightarrow> us_amount u))"

lemma find_in: "List.find p xs = Some x \<Longrightarrow> x \<in> set xs \<and> p x"
  by (induction xs) (auto split: if_splits)

lemma find_none: "List.find p xs = None \<longleftrightarrow> filter p xs = []"
  by (induction xs) auto

lemma reservation_by_id_Some:
  "reservation_by_id db i = Some r \<Longrightarrow> r \<in> set (jd_reservations db) \<and> rs_id r = i"
  unfolding reservation_by_id_def by (rule find_in)

lemma map_filter_single:
  "distinct (List.map_filter f xs) \<Longrightarrow> x \<in> set xs \<Longrightarrow> f x = Some i \<Longrightarrow>
     filter (\<lambda>y. f y = Some i) xs = [x]"
proof (induction xs)
  case Nil
  then show ?case by simp
next
  case (Cons a xs)
  have in_rest: "\<exists>y \<in> set xs. f y = Some i \<Longrightarrow> i \<in> set (List.map_filter f xs)"
    by (induction xs) (auto simp: List.map_filter_simps split: option.splits)
  show ?case
  proof (cases "a = x")
    case True
    then have "i \<notin> set (List.map_filter f xs)" using Cons.prems by (auto simp: List.map_filter_simps)
    with in_rest True Cons.prems(3) show ?thesis by (auto simp: filter_empty_conv)
  next
    case False
    then have x: "x \<in> set xs" using Cons.prems by simp
    then have "i \<in> set (List.map_filter f xs)" using in_rest Cons.prems(3) by blast
    then have "f a \<noteq> Some i" using Cons.prems(1) by (auto simp: List.map_filter_simps)
    with x Cons show ?thesis by (auto simp: List.map_filter_simps split: option.splits)
  qed
qed

lemma usage_for_single:
  assumes "ledger_ok db" "usage_for db i = Some u"
  shows "filter (\<lambda>x. us_reservation x = Some i) (jd_usage db) = [u]"
  using assms map_filter_single [of us_reservation "jd_usage db" u i]
  by (auto simp: usage_for_def usage_reservations_def ledger_ok_def dest: find_in)

lemma usage_for_settled:
  assumes "ledger_ok db" "usage_for db i = Some u" "reservation_by_id db i = Some r"
  shows "rs_status r = R_SETTLED" "us_run u = rs_run r"
proof -
  have "u \<in> set (jd_usage db)" "us_reservation u = Some i"
    using assms(2) by (auto simp: usage_for_def dest: find_in)
  from ledger_okD(4) [OF assms(1) this] obtain r' where
    r': "r' \<in> set (jd_reservations db)" "rs_id r' = i" "rs_status r' = R_SETTLED" "rs_run r' = us_run u"
    by blast
  have "r' = r"
    using reservation_by_id_Some [OF assms(3)] r'(1,2) ledger_okD(1) [OF assms(1)]
    by (metis distinct_map inj_onD)
  with r' show "rs_status r = R_SETTLED" "us_run u = rs_run r" by auto
qed

section \<open>Effect of the operations\<close>

lemma update_warning_Inr:
  "update_warning percent db rid = Inr (db', w) \<Longrightarrow>
     \<exists>s. budget_snapshot_of db rid = Inr s \<and>
       db' = db\<lparr>jd_warning := (jd_warning db)(rid \<mapsto> warning_level percent s)\<rparr> \<and>
       (w \<longleftrightarrow> warning_level percent s \<and> jd_warning db rid \<noteq> Some True)"
  by (auto simp: update_warning_def res_simps Let_def)

lemma warning_frame [simp]:
  "committed (db\<lparr>jd_warning := w\<rparr>) rid = committed db rid"
  "run_limit (db\<lparr>jd_warning := w\<rparr>) rid = run_limit db rid"
  "task_committed_usd (db\<lparr>jd_warning := w\<rparr>) rid tid = task_committed_usd db rid tid"
  "ledger_ok (db\<lparr>jd_warning := w\<rparr>) \<longleftrightarrow> ledger_ok db"
  "reservation_by_key (db\<lparr>jd_warning := w\<rparr>) k = reservation_by_key db k"
  "reservation_by_id (db\<lparr>jd_warning := w\<rparr>) k = reservation_by_id db k"
  "usage_for (db\<lparr>jd_warning := w\<rparr>) k = usage_for db k"
  by (simp_all add: committed_def run_limit_def task_committed_usd_def ledger_ok_def
      usage_reservations_def reservation_by_key_def reservation_by_id_def usage_for_def)

text \<open>A request that is not a replay appends one row.\<close>

lemma reserve_new:
  assumes "reservation_by_key db (rq_key q) = None"
    and "reserve_in_transaction percent db q task_limit lead = Inr (db', r)"
  obtains w limit where
    "db' = db\<lparr>jd_reservations := jd_reservations db @ [reservation_of_request q], jd_warning := w\<rparr>"
    "run_limit db (rq_run q) = Some limit"
    "\<And>l. limit = Some l \<Longrightarrow> rq_amount q + lead \<le> l - committed db (rq_run q)"
    "\<not> exceeds_task_limit db q task_limit"
    "\<forall>x \<in> set (jd_reservations db). rs_id x \<noteq> rq_id q \<and> rs_key x \<noteq> rq_key q"
proof -
  from assms obtain s db1 w where
    s: "budget_snapshot_of db (rq_run q) = Inr s" and
    av: "\<not> (case sn_available s of None \<Rightarrow> False | Some a \<Rightarrow> a < rq_amount q + lead)" and
    nolimit: "\<not> exceeds_task_limit db q task_limit" and
    c: "create_reservation db (reservation_of_request q) = Inr db1" and
    w: "update_warning percent db1 (rq_run q) = Inr (db', w)"
    by (auto simp: reserve_in_transaction_def res_simps split: if_splits prod.splits)
  have nokey: "\<forall>x \<in> set (jd_reservations db). rs_key x \<noteq> rq_key q"
    using assms(1) by (auto simp: reservation_by_key_def find_none filter_empty_conv)
  have "\<not> reservation_clash db (jd_reservations db) (reservation_of_request q)"
  proof
    assume cl: "reservation_clash db (jd_reservations db) (reservation_of_request q)"
    have "List.find (\<lambda>x. rs_key x = rs_key (reservation_of_request q)) (jd_reservations db) = None"
      using assms(1) by (simp add: reservation_by_key_def reservation_of_request_def)
    with cl c show False by (simp add: create_reservation_def insert_idempotent_def)
  qed
  then have "db1 = db\<lparr>jd_reservations := jd_reservations db @ [reservation_of_request q]\<rparr>"
    and noid: "\<forall>x \<in> set (jd_reservations db). rs_id x \<noteq> rq_id q"
    using c by (auto simp: create_reservation_def insert_idempotent_def reservation_clash_def
        list_ex_iff reservation_of_request_def)
  with update_warning_Inr [OF w] obtain w' where
    "db' = db\<lparr>jd_reservations := jd_reservations db @ [reservation_of_request q], jd_warning := w'\<rparr>"
    by auto
  moreover obtain limit where "run_limit db (rq_run q) = Some limit"
    "sn_available s = map_option (\<lambda>l. l - committed db (rq_run q)) limit"
    using s by (auto simp: snapshot_available)
  ultimately show ?thesis
    using av nolimit nokey noid by (intro that [of w' limit]) auto
qed

lemma reserve_replay_same:
  "reservation_by_key db (rq_key q) = Some r \<Longrightarrow>
     reserve_in_transaction percent db q task_limit lead = Inr (db', x) \<Longrightarrow> db' = db"
  by (auto simp: reserve_in_transaction_def split: if_splits)

lemma committed_append:
  "committed (db\<lparr>jd_reservations := jd_reservations db @ [reservation_of_request q]\<rparr>) rid =
     committed db rid + (if rq_run q = rid then rq_amount q else 0)"
  by (simp add: committed_def reserved_in_def reservation_of_request_def)

lemma reserve_committed:
  assumes "reserve_in_transaction percent db q task_limit lead = Inr (db', r)"
  shows "committed db' rid = committed db rid +
      (if rq_run q = rid \<and> reservation_by_key db (rq_key q) = None then rq_amount q else 0) \<and>
     run_limit db' rid = run_limit db rid"
proof (cases "reservation_by_key db (rq_key q)")
  case None
  from reserve_new [OF None assms] obtain w where
    "db' = db\<lparr>jd_reservations := jd_reservations db @ [reservation_of_request q], jd_warning := w\<rparr>"
    by blast
  with None show ?thesis
    by (simp add: committed_append run_limit_def)
next
  case (Some x)
  with reserve_replay_same [OF Some assms] show ?thesis by simp
qed

lemma reserve_ledger_ok:
  assumes "ledger_ok db" "0 \<le> rq_amount q" "reserve_in_transaction percent db q task_limit lead = Inr (db', r)"
  shows "ledger_ok db'"
proof (cases "reservation_by_key db (rq_key q)")
  case None
  from reserve_new [OF None assms(3)] obtain w where
    "db' = db\<lparr>jd_reservations := jd_reservations db @ [reservation_of_request q], jd_warning := w\<rparr>"
    and "\<forall>x \<in> set (jd_reservations db). rs_id x \<noteq> rq_id q \<and> rs_key x \<noteq> rq_key q"
    by blast
  with assms(1,2) show ?thesis
    by (fastforce simp: ledger_ok_def reservation_of_request_def usage_reservations_def)
next
  case (Some x)
  with reserve_replay_same [OF Some assms(3)] assms(1) show ?thesis by simp
qed


lemma set_reservation_row:
  assumes "ledger_ok db" "reservation_by_id db i = Some r"
  shows "filter (\<lambda>x. rs_id x = i) (jd_reservations db) = [r]"
  using filter_key_single [OF ledger_okD(1) [OF assms(1)]] reservation_by_id_Some [OF assms(2)] by auto

lemma committed_set_reservation:
  assumes "ledger_ok db" "reservation_by_id db i = Some r" "rs_status r = R_RESERVED" "st \<noteq> R_RESERVED"
  shows "committed (set_reservation db i st) rid =
     committed db rid - (if rs_run r = rid then rs_amount r else 0)"
  using sum_amounts_update [OF set_reservation_row [OF assms(1,2)], of rs_amount "reserved_in rid"
      "\<lambda>r. r\<lparr>rs_status := st\<rparr>", folded with_status_def] assms(3,4)
  by (simp add: committed_def set_reservation_def reserved_in_def)

lemma committed_set_usage:
  assumes "ledger_ok db" "usage_for db i = Some u"
  shows "committed (set_usage db i cost auth) rid =
     committed db rid + (if us_run u = rid then cost - us_amount u else 0)"
  using sum_amounts_update [OF usage_for_single [OF assms], of us_amount "\<lambda>u. us_run u = rid"
      "\<lambda>u. u\<lparr>us_amount := cost, us_authoritative := (auth = AUTHORITATIVE_ACTUAL), us_authority := auth\<rparr>"]
  by (simp add: committed_def set_usage_def)

lemma ledger_ok_set_usage: "ledger_ok db \<Longrightarrow> ledger_ok (set_usage db i cost auth)"
proof -
  have "List.map_filter us_reservation (map (\<lambda>u. if us_reservation u = Some i
      then u\<lparr>us_amount := cost, us_authoritative := a, us_authority := auth\<rparr> else u) us)
    = List.map_filter us_reservation us" for a and us :: "usage_row list"
    by (induction us) (auto simp: List.map_filter_simps split: option.splits)
  then show "ledger_ok db \<Longrightarrow> ?thesis"
    by (auto simp: ledger_ok_def set_usage_def usage_reservations_def)
qed

lemma ledger_ok_settle_new:
  assumes ok: "ledger_ok db" and r: "reservation_by_id db i = Some r" "rs_status r = R_RESERVED"
    and u: "usage_for db i = None" and new: "us_reservation n = Some i" "us_run n = rs_run r"
  shows "ledger_ok (set_reservation (db\<lparr>jd_usage := jd_usage db @ [n]\<rparr>) i R_SETTLED)"
proof -
  have rin: "r \<in> set (jd_reservations db)" "rs_id r = i" using reservation_by_id_Some [OF r(1)] by auto
  have "i \<notin> set (usage_reservations db)"
    using u by (auto simp: usage_for_def usage_reservations_def find_none filter_empty_conv
        List.map_filter_def)
  then have 1: "distinct (usage_reservations db @ [i])" using ledger_okD(3) [OF ok] by simp
  have 2: "\<exists>x \<in> set (jd_reservations db). rs_id x = j \<and> (rs_id x = i \<or> rs_status x = R_SETTLED) \<and>
      rs_run x = us_run v" if v: "v \<in> set (jd_usage db @ [n])" "us_reservation v = Some j" for v j
    using v ledger_okD(4) [OF ok, of v j] rin new by auto
  show ?thesis
    unfolding ledger_ok_def
  proof (intro conjI ballI allI impI)
    fix v j
    assume "v \<in> set (jd_usage (set_reservation (db\<lparr>jd_usage := jd_usage db @ [n]\<rparr>) i R_SETTLED))"
      "us_reservation v = Some j"
    then obtain x where "x \<in> set (jd_reservations db)" "rs_id x = j" "rs_id x = i \<or> rs_status x = R_SETTLED"
      "rs_run x = us_run v" using 2 [of v j] by (auto simp: set_reservation_def)
    then show "\<exists>x \<in> set (jd_reservations (set_reservation (db\<lparr>jd_usage := jd_usage db @ [n]\<rparr>) i R_SETTLED)).
        rs_id x = j \<and> rs_status x = R_SETTLED \<and> rs_run x = us_run v"
      by (intro bexI [of _ "with_status i R_SETTLED x"]) (auto simp: set_reservation_def)
  qed (use 1 new(1) ledger_okD(1,2,5) [OF ok] in
      \<open>auto simp: set_reservation_def usage_reservations_def List.map_filter_def\<close>)
qed

lemma ledger_ok_release:
  assumes ok: "ledger_ok db" and r: "reservation_by_id db i = Some r" "rs_status r = R_RESERVED"
  shows "ledger_ok (set_reservation db i R_RELEASED)"
  unfolding ledger_ok_def
proof (intro conjI ballI allI impI)
  fix v j
  assume "v \<in> set (jd_usage (set_reservation db i R_RELEASED))" and j: "us_reservation v = Some j"
  then have "v \<in> set (jd_usage db)" by (simp add: set_reservation_def)
  from ledger_okD(4) [OF ok this j] obtain x where
    x: "x \<in> set (jd_reservations db)" "rs_id x = j" "rs_status x = R_SETTLED" "rs_run x = us_run v"
    by blast
  have "x \<noteq> r" using x(3) r(2) by auto
  then have "rs_id x \<noteq> i"
    using x(1) reservation_by_id_Some [OF r(1)] ledger_okD(1) [OF ok] by (metis distinct_map inj_onD)
  with x show "\<exists>x \<in> set (jd_reservations (set_reservation db i R_RELEASED)).
      rs_id x = j \<and> rs_status x = R_SETTLED \<and> rs_run x = us_run v"
    by (intro bexI [of _ "with_status i R_RELEASED x"]) (auto simp: set_reservation_def)
qed (use ledger_okD(1-3,5) [OF ok] in \<open>auto simp: set_reservation_def usage_reservations_def\<close>)

text \<open>
  The accounting identity of a settlement: the run's commitment loses what it held for the
  reservation and gains the cost.
\<close>

lemma settle_effect:
  assumes ok: "ledger_ok db" and st: "settle percent db i uid usage key = Inr db'"
  obtains r cost where "reservation_by_id db i = Some r" "nu_cost usage = Some cost"
    "ledger_ok db'" "\<And>rid. run_limit db' rid = run_limit db rid"
    "\<And>rid. committed db' rid = committed db rid + (if rs_run r = rid then cost - held db i else 0)"
proof -
  from st obtain r cost where r: "reservation_by_id db i = Some r" and cost: "nu_cost usage = Some cost"
    by (auto simp: settle_def split: option.splits)
  have rid: "rs_id r = i" using reservation_by_id_Some [OF r] by simp
  show ?thesis
  proof (cases "usage_for db i")
    case (Some u)
    note us = usage_for_settled [OF ok Some r]
    have held: "held db i = us_amount u" by (simp add: held_def r Some us)
    have ex: "settle_existing percent db r u uid cost (nu_authority usage) key = Inr db'"
      using st r cost Some by (simp add: settle_def)
    show ?thesis
    proof (cases "same_usage u uid cost (nu_authority usage) key")
      case True
      then have "db' = db" "us_amount u = cost" using ex by (auto simp: settle_existing_def same_usage_def)
      with ok held show ?thesis by (intro that [OF r cost]) auto
    next
      case False
      let ?d = "set_usage db i cost (nu_authority usage)"
      from ex False obtain w where "update_warning percent ?d (rs_run r) = Inr (db', w)"
        by (auto simp: settle_existing_def rid res_simps split: if_splits)
      from update_warning_Inr [OF this] obtain w' where db': "db' = ?d\<lparr>jd_warning := w'\<rparr>" by auto
      have "committed db' q = committed db q + (if rs_run r = q then cost - held db i else 0)" for q
        using committed_set_usage [OF ok Some] us(2) by (simp add: db' held)
      with ledger_ok_set_usage [OF ok] show ?thesis
        by (intro that [OF r cost]) (simp_all add: db', simp_all add: run_limit_def set_usage_def)
    qed
  next
    case None
    have new: "settle_new percent db r uid cost (nu_authority usage) key = Inr db'"
      using st r cost None by (simp add: settle_def)
    then have res: "rs_status r = R_RESERVED" by (auto simp: settle_new_def split: if_splits)
    let ?u = "\<lparr>us_id = uid, us_run = rs_run r, us_task = rs_task r, us_amount = cost,
        us_authoritative = (nu_authority usage = AUTHORITATIVE_ACTUAL), us_key = key,
        us_authority = nu_authority usage, us_reservation = Some i\<rparr>"
    let ?e = "db\<lparr>jd_usage := jd_usage db @ [?u]\<rparr>"
    let ?d = "set_reservation ?e i R_SETTLED"
    from new res obtain w where "update_warning percent ?d (rs_run r) = Inr (db', w)"
      by (auto simp: settle_new_def rid res_simps Let_def split: if_splits)
    from update_warning_Inr [OF this] obtain w' where db': "db' = ?d\<lparr>jd_warning := w'\<rparr>" by auto
    have "committed ?d q = committed db q + (if rs_run r = q then cost - held db i else 0)" for q
      using sum_amounts_update [OF set_reservation_row [OF ok r], of rs_amount "reserved_in q"
          "\<lambda>r. r\<lparr>rs_status := R_SETTLED\<rparr>", folded with_status_def] res
      by (simp add: committed_def set_reservation_def reserved_in_def held_def r)
    with ledger_ok_settle_new [OF ok r res None, of ?u] show ?thesis
      by (intro that [OF r cost]) (simp_all add: db', simp_all add: run_limit_def set_reservation_def)
  qed
qed

lemma release_effect:
  assumes ok: "ledger_ok db" and rl: "release_reservation percent db i = Inr db'"
  obtains r where "reservation_by_id db i = Some r" "ledger_ok db'" "\<And>rid. run_limit db' rid = run_limit db rid"
    "\<And>rid. committed db' rid = committed db rid -
       (if rs_run r = rid \<and> rs_status r = R_RESERVED then rs_amount r else 0)"
proof -
  from rl obtain r where r: "reservation_by_id db i = Some r"
    by (auto simp: release_reservation_def split: option.splits)
  show ?thesis
  proof (cases "rs_status r = R_RESERVED")
    case False
    then have "db' = db" using rl r by (auto simp: release_reservation_def split: if_splits)
    with ok r False show ?thesis by (intro that [OF r]) auto
  next
    case True
    let ?d = "set_reservation db i R_RELEASED"
    from True rl r obtain w where "update_warning percent ?d (rs_run r) = Inr (db', w)"
      by (auto simp: release_reservation_def res_simps split: if_splits)
    from update_warning_Inr [OF this] obtain w' where db': "db' = ?d\<lparr>jd_warning := w'\<rparr>" by auto
    show ?thesis
      using ledger_ok_release [OF ok r True] committed_set_reservation [OF ok r True, of R_RELEASED]
      by (intro that [OF r]) (simp_all add: db' True, simp_all add: run_limit_def set_reservation_def)
  qed
qed

section \<open>Histories\<close>

datatype ledger_op =
    Reserve reservation_request "usd option" usd
  | Release string
  | Settle string string normalized_usage string

fun ledger_apply :: "usd \<Rightarrow> 'a journal_db_scheme \<Rightarrow> ledger_op \<Rightarrow> 'a journal_db_scheme res" where
  "ledger_apply percent db (Reserve q task_limit lead) =
     res_bind (reserve_in_transaction percent db q task_limit lead) (\<lambda>(db', r). Inr db')"
| "ledger_apply percent db (Release i) = release_reservation percent db i"
| "ledger_apply percent db (Settle i uid usage key) = settle percent db i uid usage key"

text \<open>A refused operation raises inside its transaction, which is rolled back.\<close>

definition ledger_next :: "usd \<Rightarrow> 'a journal_db_scheme \<Rightarrow> ledger_op \<Rightarrow> 'a journal_db_scheme" where
  "ledger_next percent db c = (case ledger_apply percent db c of Inl e \<Rightarrow> db | Inr db' \<Rightarrow> db')"

fun ledger_history :: "usd \<Rightarrow> 'a journal_db_scheme \<Rightarrow> ledger_op list \<Rightarrow> 'a journal_db_scheme" where
  "ledger_history percent db [] = db"
| "ledger_history percent db (c # cs) = ledger_history percent (ledger_next percent db c) cs"

fun op_ok :: "ledger_op \<Rightarrow> bool" where
  "op_ok (Reserve q task_limit lead) \<longleftrightarrow> 0 \<le> rq_amount q \<and> 0 \<le> lead"
| "op_ok _ \<longleftrightarrow> True"

text \<open>By how much a settlement costs more than what was held for it.\<close>

fun overrun :: "usd \<Rightarrow> 'a journal_db_scheme \<Rightarrow> ledger_op \<Rightarrow> usd" where
  "overrun percent db (Settle i uid usage key) =
     (case (ledger_apply percent db (Settle i uid usage key), nu_cost usage) of
        (Inr _, Some cost) \<Rightarrow> max 0 (cost - held db i)
      | _ \<Rightarrow> 0)"
| "overrun percent db _ = 0"

fun overruns :: "usd \<Rightarrow> 'a journal_db_scheme \<Rightarrow> ledger_op list \<Rightarrow> usd" where
  "overruns percent db [] = 0"
| "overruns percent db (c # cs) = overrun percent db c + overruns percent (ledger_next percent db c) cs"

lemma overrun_nonneg: "0 \<le> overrun percent db c"
  by (cases c) (auto split: sum.splits option.splits)

lemma ledger_next_step:
  assumes ok: "ledger_ok db" and op: "op_ok c" and lim: "run_limit db rid = Some (Some l)"
    and fit: "committed db rid \<le> l + k" and k: "0 \<le> k"
  shows "ledger_ok (ledger_next percent db c) \<and> run_limit (ledger_next percent db c) rid = Some (Some l) \<and>
     committed (ledger_next percent db c) rid \<le> l + (k + overrun percent db c)"
proof (cases "ledger_apply percent db c")
  case (Inl e)
  with assms show ?thesis using overrun_nonneg [of percent db c] by (simp add: ledger_next_def)
next
  case (Inr db')
  then have nx: "ledger_next percent db c = db'" by (simp add: ledger_next_def)
  show ?thesis
  proof (cases c)
    case (Reserve q task_limit lead)
    with Inr obtain r where r: "reserve_in_transaction percent db q task_limit lead = Inr (db', r)"
      by (auto simp: res_simps split: prod.splits)
    note eff = reserve_committed [OF r, of rid]
    have "committed db' rid \<le> l + k"
    proof (cases "rq_run q = rid \<and> reservation_by_key db (rq_key q) = None")
      case True
      from reserve_new [OF _ r] True lim have "rq_amount q + lead \<le> l - committed db rid"
        by (metis option.inject)
      with True eff op Reserve k show ?thesis by simp
    next
      case False
      with eff fit show ?thesis by auto
    qed
    with reserve_ledger_ok [OF ok _ r] op Reserve eff lim nx show ?thesis by simp
  next
    case (Release i)
    with Inr have "release_reservation percent db i = Inr db'" by simp
    from release_effect [OF ok this] obtain r where r: "reservation_by_id db i = Some r"
      "ledger_ok db'" "run_limit db' rid = run_limit db rid" "committed db' rid = committed db rid -
         (if rs_run r = rid \<and> rs_status r = R_RESERVED then rs_amount r else 0)"
      by metis
    have "0 \<le> rs_amount r" using reservation_by_id_Some [OF r(1)] ledger_okD(5) [OF ok] by blast
    with r Release lim fit nx show ?thesis by auto
  next
    case (Settle i uid usage key)
    with Inr have st: "settle percent db i uid usage key = Inr db'" by simp
    from settle_effect [OF ok st] obtain r cost where "reservation_by_id db i = Some r" "nu_cost usage = Some cost"
      "ledger_ok db'" "run_limit db' rid = run_limit db rid"
      "committed db' rid = committed db rid + (if rs_run r = rid then cost - held db i else 0)"
      by metis
    with Settle lim fit nx st show ?thesis by auto
  qed
qed

lemma ledger_history_bound:
  "ledger_ok db \<Longrightarrow> \<forall>c \<in> set cs. op_ok c \<Longrightarrow> run_limit db rid = Some (Some l) \<Longrightarrow>
     committed db rid \<le> l + k \<Longrightarrow> 0 \<le> k \<Longrightarrow>
     ledger_ok (ledger_history percent db cs) \<and>
     committed (ledger_history percent db cs) rid \<le> l + (k + overruns percent db cs)"
proof (induction cs arbitrary: db k)
  case Nil
  then show ?case by simp
next
  case (Cons c cs)
  have st: "ledger_ok (ledger_next percent db c) \<and> run_limit (ledger_next percent db c) rid = Some (Some l) \<and>
     committed (ledger_next percent db c) rid \<le> l + (k + overrun percent db c)"
    by (rule ledger_next_step) (use Cons.prems in auto)
  have "ledger_ok (ledger_history percent (ledger_next percent db c) cs) \<and>
      committed (ledger_history percent (ledger_next percent db c) cs) rid
        \<le> l + ((k + overrun percent db c) + overruns percent (ledger_next percent db c) cs)"
    by (rule Cons.IH) (use st Cons.prems overrun_nonneg [of percent db c] in auto)
  then show ?case by (simp add: add.assoc)
qed

section \<open>Usage of one reservation\<close>

definition usage_settled :: "'a journal_db_scheme \<Rightarrow> string \<Rightarrow> string \<Rightarrow> usd \<Rightarrow> usage_authority \<Rightarrow> string \<Rightarrow> bool" where
  "usage_settled db i uid cost auth key \<longleftrightarrow>
     (case usage_for db i of None \<Rightarrow> False | Some u \<Rightarrow> same_usage u uid cost auth key)"

lemma usage_for_set_usage:
  "usage_for db i = Some u \<Longrightarrow> us_id u = uid \<Longrightarrow> us_key u = key \<Longrightarrow>
     usage_settled (set_usage db i cost auth) i uid cost auth key"
proof -
  have "List.find p (map (\<lambda>v. if p v then g v else v) vs) = map_option g (List.find p vs)"
    if "\<And>v. p (g v) = p v" for p and g :: "usage_row \<Rightarrow> usage_row" and vs
    using that by (induction vs) auto
  from this [of "\<lambda>v. us_reservation v = Some i"
      "\<lambda>v. v\<lparr>us_amount := cost, us_authoritative := (auth = AUTHORITATIVE_ACTUAL), us_authority := auth\<rparr>"
      "jd_usage db"]
  show "usage_for db i = Some u \<Longrightarrow> us_id u = uid \<Longrightarrow> us_key u = key \<Longrightarrow> ?thesis"
    by (simp add: usage_for_def usage_settled_def set_usage_def same_usage_def)
qed

lemma find_append_none: "List.find p xs = None \<Longrightarrow> List.find p (xs @ ys) = List.find p ys"
  by (induction xs) (auto split: if_splits)

lemma settle_records:
  assumes ok: "ledger_ok db" and st: "settle percent db i uid usage key = Inr db'"
    and cost: "nu_cost usage = Some cost"
  shows "usage_settled db' i uid cost (nu_authority usage) key"
proof -
  from st obtain r where r: "reservation_by_id db i = Some r"
    by (auto simp: settle_def split: option.splits)
  have rid: "rs_id r = i" using reservation_by_id_Some [OF r] by simp
  show ?thesis
  proof (cases "usage_for db i")
    case (Some u)
    have ex: "settle_existing percent db r u uid cost (nu_authority usage) key = Inr db'"
      using st r cost Some by (simp add: settle_def)
    show ?thesis
    proof (cases "same_usage u uid cost (nu_authority usage) key")
      case True
      with ex Some show ?thesis by (auto simp: settle_existing_def usage_settled_def)
    next
      case False
      let ?d = "set_usage db i cost (nu_authority usage)"
      from ex False obtain w where w: "update_warning percent ?d (rs_run r) = Inr (db', w)"
        and same: "us_id u = uid" "us_key u = key"
        by (auto simp: settle_existing_def rid res_simps split: if_splits)
      from update_warning_Inr [OF w] obtain w' where db': "db' = ?d\<lparr>jd_warning := w'\<rparr>" by auto
      have "usage_settled db' i = usage_settled ?d i" by (simp add: db' usage_settled_def fun_eq_iff)
      with usage_for_set_usage [OF Some same] show ?thesis by simp
    qed
  next
    case None
    have new: "settle_new percent db r uid cost (nu_authority usage) key = Inr db'"
      using st r cost None by (simp add: settle_def)
    then obtain w' where "jd_usage db' = jd_usage db @ [\<lparr>us_id = uid, us_run = rs_run r,
        us_task = rs_task r, us_amount = cost,
        us_authoritative = (nu_authority usage = AUTHORITATIVE_ACTUAL), us_key = key,
        us_authority = nu_authority usage, us_reservation = Some i\<rparr>]"
      by (auto simp: settle_new_def rid res_simps Let_def set_reservation_def
          dest!: update_warning_Inr split: if_splits)
    with None show ?thesis
      by (simp add: usage_settled_def usage_for_def find_append_none same_usage_def)
  qed
qed

lemma settle_replay:
  assumes "usage_settled db i uid cost (nu_authority usage) key" "nu_cost usage = Some cost"
    "reservation_by_id db i = Some r"
  shows "settle percent db i uid usage key = Inr db"
  using assms by (auto simp: usage_settled_def settle_def settle_existing_def split: option.splits)

lemma settle_keeps_reservation:
  assumes "settle percent db i uid usage key = Inr db'"
  shows "map rs_id (jd_reservations db') = map rs_id (jd_reservations db)"
  using assms
  by (auto simp: settle_def settle_existing_def settle_new_def res_simps Let_def set_usage_def
      set_reservation_def dest!: update_warning_Inr split: option.splits if_splits prod.splits)

lemma reservation_by_id_iff: "reservation_by_id db i \<noteq> None \<longleftrightarrow> i \<in> set (map rs_id (jd_reservations db))"
  by (auto simp: reservation_by_id_def find_none filter_empty_conv)

section \<open>Warnings of successive reservations\<close>

fun reserve_all ::
  "usd \<Rightarrow> 'a journal_db_scheme \<Rightarrow> (reservation_request \<times> usd option \<times> usd) list \<Rightarrow>
     'a journal_db_scheme \<times> reservation_result list" where
  "reserve_all percent db [] = (db, [])"
| "reserve_all percent db ((q, task_limit, lead) # qs) =
     (case reserve_in_transaction percent db q task_limit lead of
        Inl e \<Rightarrow> reserve_all percent db qs
      | Inr (db', r) \<Rightarrow>
          (let (db'', rs) = reserve_all percent db' qs in (db'', r # rs)))"

definition over_threshold :: "usd \<Rightarrow> 'a journal_db_scheme \<Rightarrow> string \<Rightarrow> bool" where
  "over_threshold percent db rid \<longleftrightarrow>
     (\<exists>l. run_limit db rid = Some (Some l) \<and> 0 < l \<and> l * percent \<le> committed db rid)"

lemma warning_level_over:
  "budget_snapshot_of db rid = Inr s \<Longrightarrow> warning_level percent s \<longleftrightarrow> over_threshold percent db rid"
  by (auto simp: snapshot_available warning_level_def over_threshold_def split: option.splits)

lemma reserve_warning:
  assumes r: "reserve_in_transaction percent db q task_limit lead = Inr (db', r)" and rid: "rq_run q = rid"
    and amt: "0 \<le> rq_amount q"
  shows "(rr_warning r \<longrightarrow> jd_warning db rid \<noteq> Some True \<and> jd_warning db' rid = Some True \<and>
       over_threshold percent db' rid) \<and>
     (jd_warning db rid = Some True \<and> over_threshold percent db rid \<longrightarrow>
       jd_warning db' rid = Some True \<and> over_threshold percent db' rid)"
proof (cases "reservation_by_key db (rq_key q)")
  case (Some x)
  then have "db' = db" "\<not> rr_warning r"
    using r by (auto simp: reserve_in_transaction_def split: if_splits)
  then show ?thesis by simp
next
  case None
  from None r obtain s db1 w where
    c: "create_reservation db (reservation_of_request q) = Inr db1" and
    w: "update_warning percent db1 (rq_run q) = Inr (db', w)" and "rr_warning r = w"
    by (auto simp: reserve_in_transaction_def res_simps split: if_splits prod.splits)
  from c have same: "jd_warning db1 = jd_warning db"
    by (auto simp: create_reservation_def res_simps)
  from update_warning_Inr [OF w] obtain s where s: "budget_snapshot_of db1 rid = Inr s"
    and db': "db' = db1\<lparr>jd_warning := (jd_warning db1)(rid \<mapsto> warning_level percent s)\<rparr>"
    and ww: "w \<longleftrightarrow> warning_level percent s \<and> jd_warning db1 rid \<noteq> Some True"
    using rid by auto
  have ov: "warning_level percent s \<longleftrightarrow> over_threshold percent db' rid"
    using warning_level_over [OF s] by (simp add: over_threshold_def db')
  have "over_threshold percent db rid \<Longrightarrow> over_threshold percent db' rid"
    using reserve_committed [OF r, of rid] amt by (auto simp: over_threshold_def split: if_splits)
  with ov ww \<open>rr_warning r = w\<close> same show ?thesis by (auto simp: db')
qed

lemma no_second_warning:
  "jd_warning db rid = Some True \<Longrightarrow> over_threshold percent db rid \<Longrightarrow>
     \<forall>(q, task_limit, lead) \<in> set qs. rq_run q = rid \<and> 0 \<le> rq_amount q \<Longrightarrow>
     filter rr_warning (snd (reserve_all percent db qs)) = []"
proof (induction percent db qs rule: reserve_all.induct)
  case (1 percent db)
  then show ?case by simp
next
  case (2 percent db q task_limit lead qs)
  show ?case
  proof (cases "reserve_in_transaction percent db q task_limit lead")
    case (Inl e)
    with 2 show ?thesis by simp
  next
    case (Inr p)
    obtain db' r where p: "p = (db', r)" by (cases p)
    have "rq_run q = rid" "0 \<le> rq_amount q" using "2.prems"(3) by auto
    from reserve_warning [OF Inr [unfolded p] this] "2.prems"(1,2)
    have "\<not> rr_warning r" "jd_warning db' rid = Some True" "over_threshold percent db' rid" by auto
    with "2.IH"(2) [OF Inr p [symmetric]] "2.prems"(3) Inr p show ?thesis by (simp add: case_prod_beta Let_def)
  qed
qed

lemma one_warning:
  "\<forall>(q, task_limit, lead) \<in> set qs. rq_run q = rid \<and> 0 \<le> rq_amount q \<Longrightarrow>
     length (filter rr_warning (snd (reserve_all percent db qs))) \<le> 1"
proof (induction percent db qs rule: reserve_all.induct)
  case (1 percent db)
  then show ?case by simp
next
  case (2 percent db q task_limit lead qs)
  show ?case
  proof (cases "reserve_in_transaction percent db q task_limit lead")
    case (Inl e)
    with 2 show ?thesis by simp
  next
    case (Inr p)
    obtain db' r where p: "p = (db', r)" by (cases p)
    have q: "rq_run q = rid" "0 \<le> rq_amount q" using "2.prems" by auto
    have rest: "\<forall>(q, task_limit, lead) \<in> set qs. rq_run q = rid \<and> 0 \<le> rq_amount q"
      using "2.prems" by auto
    have eq: "snd (reserve_all percent db ((q, task_limit, lead) # qs)) = r # snd (reserve_all percent db' qs)"
      using Inr p by (simp add: case_prod_beta Let_def)
    show ?thesis
    proof (cases "rr_warning r")
      case True
      with reserve_warning [OF Inr [unfolded p] q]
      have "filter rr_warning (snd (reserve_all percent db' qs)) = []"
        by (intro no_second_warning [OF _ _ rest]) auto
      with eq show ?thesis by simp
    next
      case False
      with "2.IH"(2) [OF Inr p [symmetric] rest] eq show ?thesis by simp
    qed
  qed
qed

section \<open>Properties\<close>

text \<open>
  C10: the hard limit holds.  Whatever reservations, releases and settlements a run is asked for,
  in any order, with any replays and refusals, its usage plus its live reservations stay within
  its limit, except for what settlements report above the amount held for them; so when no
  settlement costs more than was held, the limit is never exceeded.
\<close>

theorem budget_never_overcommitted:
  assumes "ledger_ok db" and "\<forall>c \<in> set cs. op_ok c"
    and "run_limit db rid = Some (Some l)" and "committed db rid \<le> l"
  shows "ledger_ok (ledger_history percent db cs) \<and>
     committed (ledger_history percent db cs) rid \<le> l + overruns percent db cs"
  using ledger_history_bound [where k = 0, OF assms(1-3)] assms(4) by simp

definition ex_request :: "string \<Rightarrow> usd \<Rightarrow> reservation_request" where
  "ex_request k a = \<lparr>rq_id = ''v'' @ k, rq_run = ''r'', rq_task = Some ''t'', rq_amount = a,
     rq_key = k, rq_purpose = ''task_attempt''\<rparr>"

definition ex_usage :: "usd \<Rightarrow> usage_authority \<Rightarrow> normalized_usage" where
  "ex_usage c a = \<lparr>nu_input = 1, nu_output = 1, nu_cached = 0, nu_cost = Some c, nu_authority = a\<rparr>"

definition ex_ops :: "ledger_op list" where
  "ex_ops = [Reserve (ex_request ''a'' 4) None 0, Reserve (ex_request ''b'' 7) None 0,
     Settle ''va'' ''u'' (ex_usage 3 AUTHORITATIVE_ACTUAL) ''ku'', Reserve (ex_request ''c'' 7) None 0]"

lemma ex_journal_ledger: "ledger_ok ex_journal"
  by code_simp

theorem budget_never_overcommitted_witness:
  "committed (ledger_history (8/10) ex_journal ex_ops) ''r'' = 10 \<and>
     committed (ledger_history (8/10) ex_journal ex_ops) ''r'' \<le> 10 + overruns (8/10) ex_journal ex_ops"
proof -
  have 1: "\<forall>c \<in> set ex_ops. op_ok c" by code_simp
  have 2: "run_limit ex_journal ''r'' = Some (Some 10)" by code_simp
  have 3: "committed ex_journal ''r'' \<le> 10" by code_simp
  have 4: "committed (ledger_history (8/10) ex_journal ex_ops) ''r'' = 10" by code_simp
  show ?thesis
    using budget_never_overcommitted [OF ex_journal_ledger 1 2 3, of "8/10"] 4 by simp
qed

text \<open>
  Settling a reservation replaces what was held for it by the cost, exactly once.  The
  accepted cost is on record, a repetition is a no-op, an authoritative cost is never replaced by
  another and an estimate is never replaced by a smaller estimate.
\<close>

theorem settlement_ratchet:
  assumes "ledger_ok db" and "settle percent db i uid usage key = Inr db'"
  shows "\<exists>r cost. reservation_by_id db i = Some r \<and> nu_cost usage = Some cost \<and>
     usage_settled db' i uid cost (nu_authority usage) key \<and> ledger_ok db' \<and>
     committed db' (rs_run r) = committed db (rs_run r) + cost - held db i \<and>
     settle percent db' i uid usage key = Inr db' \<and>
     (case usage_for db i of
        None \<Rightarrow> rs_status r = R_RESERVED
      | Some u \<Rightarrow> (us_authoritative u \<longrightarrow> db' = db \<and> us_amount u = cost) \<and>
          (nu_authority usage \<noteq> AUTHORITATIVE_ACTUAL \<longrightarrow> us_amount u \<le> cost))"
proof (rule settle_effect [OF assms])
  fix r cost
  assume r: "reservation_by_id db i = Some r" and cost: "nu_cost usage = Some cost" and ok': "ledger_ok db'"
    and "\<And>rid. committed db' rid = committed db rid + (if rs_run r = rid then cost - held db i else 0)"
  then have com: "committed db' (rs_run r) = committed db (rs_run r) + (cost - held db i)" by simp
  have rec: "usage_settled db' i uid cost (nu_authority usage) key"
    by (rule settle_records [OF assms cost])
  have "reservation_by_id db' i \<noteq> None"
    using r settle_keeps_reservation [OF assms(2)] by (metis option.distinct(1) reservation_by_id_iff)
  then obtain r' where "reservation_by_id db' i = Some r'" by blast
  from settle_replay [OF rec cost this] have rep: "settle percent db' i uid usage key = Inr db'" .
  have "case usage_for db i of None \<Rightarrow> rs_status r = R_RESERVED
      | Some u \<Rightarrow> (us_authoritative u \<longrightarrow> db' = db \<and> us_amount u = cost) \<and>
          (nu_authority usage \<noteq> AUTHORITATIVE_ACTUAL \<longrightarrow> us_amount u \<le> cost)"
    using assms(2) r cost
    by (auto simp: settle_def settle_existing_def settle_new_def same_usage_def split: option.splits if_splits)
  with r cost rec ok' com rep show ?thesis by auto
qed

theorem settlement_ratchet_witness:
  "\<exists>d1 d2. ledger_apply (8/10) ex_journal (Reserve (ex_request ''a'' 4) None 0) = Inr d1 \<and>
     settle (8/10) d1 ''va'' ''u'' (ex_usage 3 AUTHORITATIVE_ACTUAL) ''ku'' = Inr d2 \<and>
     settle (8/10) d2 ''va'' ''u'' (ex_usage 3 AUTHORITATIVE_ACTUAL) ''ku'' = Inr d2 \<and>
     \<not> is_ok (settle (8/10) d2 ''va'' ''u'' (ex_usage 2 AUTHORITATIVE_ACTUAL) ''ku'')"
proof -
  let ?d1 = "ledger_next (8/10) ex_journal (Reserve (ex_request ''a'' 4) None 0)"
  let ?d2 = "ledger_next (8/10) ?d1 (Settle ''va'' ''u'' (ex_usage 3 AUTHORITATIVE_ACTUAL) ''ku'')"
  have "is_ok (ledger_apply (8/10) ex_journal (Reserve (ex_request ''a'' 4) None 0))" by code_simp
  then have 1: "ledger_apply (8/10) ex_journal (Reserve (ex_request ''a'' 4) None 0) = Inr ?d1"
    by (auto simp: is_ok_iff ledger_next_def)
  have "is_ok (settle (8/10) ?d1 ''va'' ''u'' (ex_usage 3 AUTHORITATIVE_ACTUAL) ''ku'')" by code_simp
  then have 2: "settle (8/10) ?d1 ''va'' ''u'' (ex_usage 3 AUTHORITATIVE_ACTUAL) ''ku'' = Inr ?d2"
    by (auto simp: is_ok_iff ledger_next_def)
  have ok: "ledger_ok ?d1" by code_simp
  have 3: "\<not> is_ok (settle (8/10) ?d2 ''va'' ''u'' (ex_usage 2 AUTHORITATIVE_ACTUAL) ''ku'')" by code_simp
  show ?thesis using settlement_ratchet [OF ok 2] 1 2 3 by blast
qed

text \<open>
  The budget warning is edge triggered.  However many reservations a run makes, accepted or
  refused, at most one of them reports that the warning threshold was crossed.
\<close>

theorem warning_reported_once:
  assumes "\<forall>(q, task_limit, lead) \<in> set qs. rq_run q = rid \<and> 0 \<le> rq_amount q"
  shows "length (filter rr_warning (snd (reserve_all percent db qs))) \<le> 1"
  by (rule one_warning [OF assms])

theorem warning_reported_once_witness:
  "map rr_warning (snd (reserve_all (8/10) ex_journal [(ex_request ''a'' 4, None, 0),
     (ex_request ''b'' 5, None, 0), (ex_request ''c'' 1, None, 0)])) = [False, True, False] \<and>
   length (filter rr_warning (snd (reserve_all (8/10) ex_journal [(ex_request ''a'' 4, None, 0),
     (ex_request ''b'' 5, None, 0), (ex_request ''c'' 1, None, 0)]))) \<le> 1"
proof -
  let ?qs = "[(ex_request ''a'' 4, None, 0), (ex_request ''b'' 5, None, 0), (ex_request ''c'' 1, None, 0)]"
  have 1: "\<forall>(q, task_limit :: usd option, lead :: usd) \<in> set ?qs. rq_run q = ''r'' \<and> 0 \<le> rq_amount q"
    by code_simp
  have 2: "map rr_warning (snd (reserve_all (8/10) ex_journal ?qs)) = [False, True, False]" by code_simp
  show ?thesis using warning_reported_once [OF 1] 2 by blast
qed

text \<open>
  A first request is decided by the two limits alone: for a run and task on record, under a
  fresh identifier and key, the reservation is granted exactly when the amount and the lead's
  allowance fit what the run has left and the amount fits what the task has left.
\<close>

theorem reservation_decided_by_limits:
  assumes "has_run db (rq_run q)" and "has_task db (rq_task q)"
    and "\<forall>x \<in> set (jd_reservations db). rs_id x \<noteq> rq_id q \<and> rs_key x \<noteq> rq_key q"
  shows "is_ok (reserve_in_transaction percent db q task_limit lead) \<longleftrightarrow>
     (\<forall>l. run_limit db (rq_run q) = Some (Some l) \<longrightarrow> committed db (rq_run q) + rq_amount q + lead \<le> l) \<and>
     (\<forall>l t. task_limit = Some l \<longrightarrow> rq_task q = Some t \<longrightarrow>
        task_committed_usd db (rq_run q) t + rq_amount q \<le> l)"
proof -
  have nokey: "reservation_by_key db (rq_key q) = None"
    using assms(3) by (auto simp: reservation_by_key_def find_none filter_empty_conv)
  obtain limit where lim: "run_limit db (rq_run q) = Some limit"
    using assms(1) by (auto simp: has_run_def list_ex_iff run_limit_def find_none filter_empty_conv
        split: option.split) (metis (mono_tags, lifting) find_None_iff2 option.exhaust)
  let ?d = "db\<lparr>jd_reservations := jd_reservations db @ [reservation_of_request q]\<rparr>"
  have cr: "create_reservation db (reservation_of_request q) = Inr ?d"
    using assms by (auto simp: create_reservation_def insert_idempotent_def reservation_clash_def
        list_ex_iff reservation_of_request_def)
  have "run_limit ?d (rq_run q) = Some limit" using lim by (simp add: run_limit_def)
  then have "\<exists>p. update_warning percent ?d (rq_run q) = Inr p"
    by (auto simp: update_warning_def budget_snapshot_of_def Let_def)
  then obtain p where w: "update_warning percent ?d (rq_run q) = Inr p" by blast
  obtain s where s: "budget_snapshot_of db (rq_run q) = Inr s"
    and av: "sn_available s = map_option (\<lambda>l. l - committed db (rq_run q)) limit"
    using lim by (auto simp: snapshot_available)
  show ?thesis
    unfolding reserve_in_transaction_def
    by (cases p; cases limit) (auto simp: nokey s av cr w lim exceeds_task_limit_def not_less algebra_simps
        split: option.splits)
qed

theorem reservation_decided_by_limits_witness:
  "is_ok (reserve_in_transaction (8/10) ex_journal (ex_request ''a'' 4) (Some 4) 6) \<and>
   \<not> is_ok (reserve_in_transaction (8/10) ex_journal (ex_request ''a'' 4) (Some 3) 6)"
proof -
  have 1: "has_run ex_journal (rq_run (ex_request ''a'' 4))" by code_simp
  have 2: "has_task ex_journal (rq_task (ex_request ''a'' 4))" by code_simp
  have 3: "\<forall>x \<in> set (jd_reservations ex_journal).
      rs_id x \<noteq> rq_id (ex_request ''a'' 4) \<and> rs_key x \<noteq> rq_key (ex_request ''a'' 4)" by code_simp
  have 4: "run_limit ex_journal ''r'' = Some (Some 10)" "committed ex_journal ''r'' = 0"
    "task_committed_usd ex_journal ''r'' ''t'' = 0" by code_simp+
  have 5: "rq_run (ex_request ''a'' 4) = ''r''" "rq_task (ex_request ''a'' 4) = Some ''t''"
    "rq_amount (ex_request ''a'' 4) = 4" by (simp_all add: ex_request_def)
  show ?thesis
    using reservation_decided_by_limits [OF 1 2 3, of "8/10" "Some 4" 6]
      reservation_decided_by_limits [OF 1 2 3, of "8/10" "Some 3" 6] by (simp add: 4 5)
qed

end
