(* ===== verification/Routing_Requirements.thy ===== *)
theory Routing_Requirements
  imports Prelude
begin

text \<open>
  Requirements of a routing decision (\<open>src/src/skail/routing/requirements.py\<close>), the cost
  estimate of an attempt (\<open>src/src/skail/routing/estimates.py\<close>) and the escalation of a
  failed attempt (\<open>src/src/skail/runtime/escalation.py\<close>).

  Capability scores are Python floats between 0 and 1 in the code and exact rationals here:
  sums of two-decimal constants are exact, \<open>round(x, 2)\<close> rounds the exact value half to even.
\<close>

section \<open>Rounding\<close>

definition round_half_even :: "rat \<Rightarrow> int" where
  "round_half_even x =
     (let f = \<lfloor>x\<rfloor>; d = x - of_int f in
      if d < 1/2 then f else if 1/2 < d then f + 1 else if even f then f else f + 1)"

definition round2 :: "rat \<Rightarrow> rat" where
  "round2 x = of_int (round_half_even (x * 100)) / 100"

lemma round_half_even_close: "\<bar>of_int (round_half_even x) - x\<bar> \<le> 1/2"
proof -
  obtain f where f_def: "f = \<lfloor>x\<rfloor>" by simp
  have "of_int f \<le> x" "x < of_int f + 1" using floor_correct [of x] by (auto simp: f_def)
  then have "\<bar>of_int f - x\<bar> = x - of_int f" "\<bar>of_int (f + 1) - x\<bar> = of_int f + 1 - x" by auto
  then show ?thesis unfolding round_half_even_def Let_def f_def [symmetric] by (auto split: if_split)
qed

lemma round2_close: "\<bar>round2 x - x\<bar> \<le> 1/200"
  using round_half_even_close [of "x * 100"] by (simp add: round2_def abs_if field_simps split: if_splits)

lemma round_half_even_mono: assumes "x \<le> y" shows "round_half_even x \<le> round_half_even y"
proof (cases "\<lfloor>x\<rfloor> = \<lfloor>y\<rfloor>")
  case True
  with assms show ?thesis by (auto simp: round_half_even_def Let_def)
next
  case False
  with assms have "\<lfloor>x\<rfloor> + 1 \<le> \<lfloor>y\<rfloor>" using floor_mono [OF assms] by simp
  moreover have "round_half_even x \<le> \<lfloor>x\<rfloor> + 1" "\<lfloor>y\<rfloor> \<le> round_half_even y"
    by (auto simp: round_half_even_def Let_def)
  ultimately show ?thesis by simp
qed

lemma round2_mono: "x \<le> y \<Longrightarrow> round2 x \<le> round2 y"
  by (simp add: round2_def round_half_even_mono divide_right_mono)

lemma round_half_even_int: "round_half_even (of_int n) = n"
  by (simp add: round_half_even_def Let_def)

lemma round2_hundredths: "round2 (of_int n / 100) = of_int n / 100"
  by (simp add: round2_def round_half_even_int)

section \<open>Requirements\<close>

datatype task_risk = TRIVIAL | ROUTINE | BOUNDED | COMPLEX | HIGH

datatype routing_mode = AUTO | ECONOMY | QUALITY | MANUAL

definition ROLE_FLOORS :: "string \<Rightarrow> rat option" where
  "ROLE_FLOORS = map_of [(''explorer'', 35/100), (''tester'', 40/100), (''researcher'', 45/100),
     (''general-purpose'', 50/100), (''implementer'', 50/100), (''reviewer'', 55/100), (''lead'', 60/100)]"

fun RISK_FLOORS :: "task_risk \<Rightarrow> rat" where
  "RISK_FLOORS TRIVIAL = 25/100"
| "RISK_FLOORS ROUTINE = 35/100"
| "RISK_FLOORS BOUNDED = 45/100"
| "RISK_FLOORS COMPLEX = 60/100"
| "RISK_FLOORS HIGH = 70/100"

fun MODE_ADJUSTMENTS :: "routing_mode \<Rightarrow> rat" where
  "MODE_ADJUSTMENTS AUTO = 0"
| "MODE_ADJUSTMENTS ECONOMY = - 10/100"
| "MODE_ADJUSTMENTS QUALITY = 15/100"
| "MODE_ADJUSTMENTS MANUAL = 0"

record routing_requirements =
  rr_role :: string
  rr_risk :: task_risk
  rr_mode :: routing_mode
  rr_floor :: "rat option"
  rr_hard_min :: rat
  rr_tools :: bool
  rr_structured :: bool
  rr_context :: int
  rr_output :: int
  rr_modalities :: "string list"
  rr_escalated :: bool
  rr_failed_fit :: "rat option"
  rr_excluded :: "(string \<times> string) list"

record requirement_input =
  ri_role :: string
  ri_risk :: task_risk
  ri_mode :: routing_mode
  ri_hard_min :: rat
  ri_tools :: bool
  ri_structured :: bool
  ri_context :: int
  ri_output :: int
  ri_modalities :: "string list"
  ri_hinted_floor :: "rat option"
  ri_hinted_context :: int
  ri_hinted_output :: int
  ri_hinted_modalities :: "string list"
  ri_escalated :: bool
  ri_failed_fit :: "rat option"
  ri_failed_model :: "(string \<times> string) option"
  ri_excluded :: "(string \<times> string) list"

definition base_floor :: "rat \<Rightarrow> task_risk \<Rightarrow> rat option \<Rightarrow> rat" where
  "base_floor role_floor risk hinted =
     (let b = max role_floor (RISK_FLOORS risk) in case hinted of None \<Rightarrow> b | Some h \<Rightarrow> max b h)"

definition floor_ceiling :: "bool \<Rightarrow> rat" where
  "floor_ceiling escalated = (if escalated then 90/100 else 85/100)"

definition capability_floor :: "rat \<Rightarrow> routing_mode \<Rightarrow> rat \<Rightarrow> bool \<Rightarrow> rat option" where
  "capability_floor base mode hard_min escalated =
     (if mode = MANUAL then None
      else Some (round2 (min (max (base + MODE_ADJUSTMENTS mode + (if escalated then 15/100 else 0)) hard_min)
             (floor_ceiling escalated))))"

text \<open>The pydantic field constraints of the constructed requirements.\<close>

definition requirements_fields_ok :: "routing_requirements \<Rightarrow> bool" where
  "requirements_fields_ok r \<longleftrightarrow>
     (case rr_floor r of None \<Rightarrow> True | Some f \<Rightarrow> 0 \<le> f \<and> f \<le> 1) \<and>
     0 \<le> rr_context r \<and> 0 \<le> rr_output r \<and> 0 \<le> rr_hard_min r \<and> rr_hard_min r \<le> 1 \<and>
     (case rr_failed_fit r of None \<Rightarrow> True | Some f \<Rightarrow> 0 \<le> f \<and> f \<le> 1)"

definition build :: "requirement_input \<Rightarrow> routing_requirements res" where
  "build i =
     (case ROLE_FLOORS (ri_role i) of
        None \<Rightarrow> Inl (ValueError ''unknown routing role'')
      | Some role_floor \<Rightarrow>
          if \<not> (0 \<le> ri_hard_min i \<and> ri_hard_min i \<le> role_floor)
            then Inl (ValueError ''role_hard_min must be between zero and the role floor'')
          else if (case ri_hinted_floor i of None \<Rightarrow> False | Some h \<Rightarrow> \<not> (0 \<le> h \<and> h \<le> 1))
            then Inl (ValueError ''hinted_floor must be between zero and one'')
          else
            (let r = \<lparr>rr_role = ri_role i, rr_risk = ri_risk i, rr_mode = ri_mode i,
                rr_floor = capability_floor (base_floor role_floor (ri_risk i) (ri_hinted_floor i))
                   (ri_mode i) (ri_hard_min i) (ri_escalated i),
                rr_hard_min = ri_hard_min i, rr_tools = ri_tools i, rr_structured = ri_structured i,
                rr_context = max (ri_context i) (ri_hinted_context i),
                rr_output = max (ri_output i) (ri_hinted_output i),
                rr_modalities = sort (remdups (ri_modalities i @ ri_hinted_modalities i)),
                rr_escalated = ri_escalated i, rr_failed_fit = ri_failed_fit i,
                rr_excluded = ri_excluded i @ (case ri_failed_model i of None \<Rightarrow> [] | Some m \<Rightarrow> [m])\<rparr>
             in if requirements_fields_ok r then Inr r else Inl (ValueError ''requirements.fields'')))"

definition for_assignment :: "routing_requirements \<Rightarrow> requirement_input \<Rightarrow> routing_requirements res" where
  "for_assignment base i =
     build (i\<lparr>ri_tools := rr_tools base, ri_structured := rr_structured base,
       ri_context := rr_context base, ri_output := rr_output base,
       ri_modalities := remdups (rr_modalities base), ri_hinted_floor := rr_floor base,
       ri_hinted_context := 0, ri_hinted_output := 0, ri_hinted_modalities := []\<rparr>)"

lemma ROLE_FLOORS_range: "ROLE_FLOORS role = Some f \<Longrightarrow> 35/100 \<le> f \<and> f \<le> 60/100"
  by (auto simp: ROLE_FLOORS_def split: if_splits)

lemma build_Inr:
  assumes "build i = Inr r"
  obtains role_floor where "ROLE_FLOORS (ri_role i) = Some role_floor"
    "0 \<le> ri_hard_min i" "ri_hard_min i \<le> role_floor"
    "rr_floor r = capability_floor (base_floor role_floor (ri_risk i) (ri_hinted_floor i))
       (ri_mode i) (ri_hard_min i) (ri_escalated i)"
  using assms by (auto simp: build_def Let_def split: option.splits if_splits)

lemma floor_not_below_hard_min:
  "capability_floor base mode hard_min escalated = Some f \<Longrightarrow> hard_min \<le> 60/100 \<Longrightarrow>
     round2 hard_min \<le> f \<and> f \<le> floor_ceiling escalated"
proof -
  assume f: "capability_floor base mode hard_min escalated = Some f" and h: "hard_min \<le> 60/100"
  let ?x = "min (max (base + MODE_ADJUSTMENTS mode + (if escalated then 15/100 else 0)) hard_min)
      (floor_ceiling escalated)"
  have fx: "f = round2 ?x" using f by (simp add: capability_floor_def split: if_splits)
  have "hard_min \<le> ?x" using h by (auto simp: floor_ceiling_def)
  then have "round2 hard_min \<le> f" using round2_mono fx by blast
  moreover have "round2 (floor_ceiling escalated) = floor_ceiling escalated"
    using round2_hundredths [of 90] round2_hundredths [of 85] by (simp add: floor_ceiling_def)
  then have "f \<le> floor_ceiling escalated" using round2_mono [of ?x "floor_ceiling escalated"] fx by simp
  ultimately show ?thesis ..
qed

lemma capability_floor_mono:
  assumes "capability_floor base m1 hard_min e1 = Some f" "m2 \<noteq> MANUAL"
    and "MODE_ADJUSTMENTS m1 \<le> MODE_ADJUSTMENTS m2" "e1 \<longrightarrow> e2"
  shows "\<exists>g. capability_floor base m2 hard_min e2 = Some g \<and> f \<le> g"
proof -
  let ?x = "\<lambda>m e. base + MODE_ADJUSTMENTS m + (if e then 15/100 else 0)"
  have "?x m1 e1 \<le> ?x m2 e2" using assms(3,4) by auto
  moreover have "floor_ceiling e1 \<le> floor_ceiling e2" using assms(4) by (auto simp: floor_ceiling_def)
  ultimately have "min (max (?x m1 e1) hard_min) (floor_ceiling e1) \<le> min (max (?x m2 e2) hard_min) (floor_ceiling e2)"
    by (intro min.mono max.mono) auto
  from round2_mono [OF this] show ?thesis
    using assms(1,2) by (simp add: capability_floor_def split: if_splits)
qed

section \<open>Attempt cost\<close>

record attempt_input =
  ai_context :: int
  ai_tool_result :: int
  ai_cached :: int
  ai_output :: int
  ai_calls :: int
  ai_input_price :: "usd option"
  ai_output_price :: "usd option"
  ai_cached_price :: "usd option"

record attempt_estimate =
  ae_input :: int
  ae_output :: int
  ae_calls :: int
  ae_cost :: "usd option"
  ae_missing :: "string list"

definition price_ok :: "usd option \<Rightarrow> bool" where
  "price_ok p \<longleftrightarrow> (case p of None \<Rightarrow> True | Some x \<Rightarrow> 0 \<le> x)"

definition validate_attempt_input :: "attempt_input \<Rightarrow> attempt_input res" where
  "validate_attempt_input v =
     (if ai_context v < 0 \<or> ai_tool_result v < 0 \<or> ai_cached v < 0 \<or> ai_output v < 0 \<or> ai_calls v < 1 \<or>
         \<not> price_ok (ai_input_price v) \<or> \<not> price_ok (ai_output_price v) \<or> \<not> price_ok (ai_cached_price v)
        then Inl (ValueError ''estimate.fields'')
      else if ai_context v < ai_cached v
        then Inl (ValueError ''cached_input_tokens cannot exceed context_tokens'')
      else Inr v)"

text \<open>\<open>quantize(Decimal("0.000001"), ROUND_HALF_UP)\<close> of a non-negative amount.\<close>

definition quantize_half_up :: "usd \<Rightarrow> usd" where
  "quantize_half_up x = of_int \<lfloor>x * 1000000 + 1/2\<rfloor> / 1000000"

definition exact_cost :: "attempt_input \<Rightarrow> usd \<Rightarrow> usd \<Rightarrow> usd" where
  "exact_cost v ip op =
     (of_int (ai_context v + ai_tool_result v - ai_cached v) * ip +
      of_int (ai_cached v) * (case ai_cached_price v of None \<Rightarrow> ip | Some cp \<Rightarrow> cp) +
      of_int (ai_output v) * op) / 1000000 * of_int (ai_calls v)"

definition estimate_attempt_cost :: "attempt_input \<Rightarrow> attempt_estimate" where
  "estimate_attempt_cost v =
     \<lparr>ae_input = ai_context v + ai_tool_result v, ae_output = ai_output v, ae_calls = ai_calls v,
      ae_cost = (case (ai_input_price v, ai_output_price v) of
           (Some ip, Some op) \<Rightarrow> Some (quantize_half_up (exact_cost v ip op))
         | _ \<Rightarrow> None),
      ae_missing = (if ai_input_price v = None then [''input_usd_per_million''] else []) @
        (if ai_output_price v = None then [''output_usd_per_million''] else [])\<rparr>"

lemma quantize_close: "\<bar>quantize_half_up x - x\<bar> \<le> 1/2000000"
  using floor_correct [of "x * 1000000 + 1/2"]
  by (simp add: quantize_half_up_def abs_if field_simps)

lemma quantize_nonneg: "0 \<le> x \<Longrightarrow> 0 \<le> quantize_half_up x"
  by (simp add: quantize_half_up_def)

lemma exact_cost_nonneg:
  "validate_attempt_input v = Inr w \<Longrightarrow> ai_input_price v = Some ip \<Longrightarrow> ai_output_price v = Some op \<Longrightarrow>
     0 \<le> exact_cost v ip op"
  by (auto simp: validate_attempt_input_def price_ok_def exact_cost_def split: if_splits option.splits
      intro!: mult_nonneg_nonneg divide_nonneg_pos add_nonneg_nonneg)

text \<open>The estimate of validated input is non-negative and within half a micro-dollar of the exact cost.\<close>

lemma estimate_close:
  assumes "validate_attempt_input v = Inr w" "ai_input_price v = Some ip" "ai_output_price v = Some op"
  obtains c where "ae_cost (estimate_attempt_cost v) = Some c" "0 \<le> c" "\<bar>c - exact_cost v ip op\<bar> \<le> 1/2000000"
  using that [of "quantize_half_up (exact_cost v ip op)"] assms quantize_close
    quantize_nonneg [OF exact_cost_nonneg [OF assms]]
  by (simp add: estimate_attempt_cost_def)

section \<open>Escalation\<close>

definition escalation_floor :: "rat option \<Rightarrow> rat option" where
  "escalation_floor current = map_option (\<lambda>f. min (round2 (f + 15/100)) (90/100)) current"

record failure_handoff =
  fh_summary :: string
  fh_evidence :: "string list"
  fh_changed :: "string list"
  fh_verification :: "string list"
  fh_category :: "string option"
  fh_path :: "string option"

definition handoff_categories :: "string list" where
  "handoff_categories = [''provider_error'', ''malformed_result'', ''result_validation'',
     ''routing_ineligible'', ''budget_blocked'', ''task_failure'']"

text \<open>The pattern of a validation path: \<open>$\<close>, then dot-separated names or numbers.\<close>

definition is_digit :: "char \<Rightarrow> bool" where
  "is_digit c \<longleftrightarrow> CHR ''0'' \<le> c \<and> c \<le> CHR ''9''"

definition word_start :: "char \<Rightarrow> bool" where
  "word_start c \<longleftrightarrow> CHR ''A'' \<le> c \<and> c \<le> CHR ''Z'' \<or> CHR ''a'' \<le> c \<and> c \<le> CHR ''z'' \<or> c = CHR ''_''"

definition path_segment :: "string \<Rightarrow> bool" where
  "path_segment s \<longleftrightarrow> s \<noteq> [] \<and>
     (list_all is_digit s \<or> word_start (hd s) \<and> list_all (\<lambda>c. word_start c \<or> is_digit c) s)"

definition validation_path_ok :: "string \<Rightarrow> bool" where
  "validation_path_ok p \<longleftrightarrow> (case split_on CHR ''.'' p of
     [] \<Rightarrow> False | r # segments \<Rightarrow> r = ''$'' \<and> list_all path_segment segments)"

definition bounded_handoff ::
  "string \<Rightarrow> string list \<Rightarrow> string list \<Rightarrow> string list \<Rightarrow> nat \<Rightarrow> string option \<Rightarrow> string option \<Rightarrow> failure_handoff" where
  "bounded_handoff summary evidence changed verification max_items category path =
     \<lparr>fh_summary = take 1000 summary, fh_evidence = take max_items evidence,
      fh_changed = take max_items changed, fh_verification = take max_items verification,
      fh_category = (case category of Some c \<Rightarrow> if c \<in> set handoff_categories then Some c else None | None \<Rightarrow> None),
      fh_path = (case path of Some p \<Rightarrow> if validation_path_ok p then Some p else None | None \<Rightarrow> None)\<rparr>"

section \<open>Properties\<close>

text \<open>
  C14: the capability floor of accepted requirements is bounded.  It is absent exactly in manual
  mode; otherwise it lies between the role's hard minimum, up to the rounding to two decimals, and
  0.85, or 0.90 when escalated; escalation and the step from economy to automatic to quality mode
  never lower it.
\<close>

theorem capability_floor_bounded:
  assumes "build i = Inr r" and "build (i\<lparr>ri_escalated := True\<rparr>) = Inr r'"
    and "build (i\<lparr>ri_mode := QUALITY\<rparr>) = Inr q" and "build (i\<lparr>ri_mode := ECONOMY\<rparr>) = Inr e"
  shows "(rr_floor r = None \<longleftrightarrow> ri_mode i = MANUAL) \<and>
     (\<forall>f. rr_floor r = Some f \<longrightarrow>
        ri_hard_min i - 1/200 \<le> f \<and> round2 (ri_hard_min i) \<le> f \<and> f \<le> floor_ceiling (ri_escalated i) \<and>
        (\<exists>f' fq fe. rr_floor r' = Some f' \<and> rr_floor q = Some fq \<and> rr_floor e = Some fe \<and>
           f \<le> f' \<and> fe \<le> f \<and> f \<le> fq))"
proof -
  obtain rf where rf: "ROLE_FLOORS (ri_role i) = Some rf" "0 \<le> ri_hard_min i" "ri_hard_min i \<le> rf"
    and r: "rr_floor r = capability_floor (base_floor rf (ri_risk i) (ri_hinted_floor i))
       (ri_mode i) (ri_hard_min i) (ri_escalated i)"
    by (rule build_Inr [OF assms(1)])
  let ?b = "base_floor rf (ri_risk i) (ri_hinted_floor i)"
  have r': "rr_floor r' = capability_floor ?b (ri_mode i) (ri_hard_min i) True"
    using assms(2) rf by (auto simp: build_def Let_def split: option.splits if_splits)
  have q: "rr_floor q = capability_floor ?b QUALITY (ri_hard_min i) (ri_escalated i)"
    using assms(3) rf by (auto simp: build_def Let_def split: option.splits if_splits)
  have e: "rr_floor e = capability_floor ?b ECONOMY (ri_hard_min i) (ri_escalated i)"
    using assms(4) rf by (auto simp: build_def Let_def split: option.splits if_splits)
  have hard: "ri_hard_min i \<le> 60/100" using rf ROLE_FLOORS_range [OF rf(1)] by simp
  show ?thesis
  proof (intro conjI allI impI)
    show "rr_floor r = None \<longleftrightarrow> ri_mode i = MANUAL" by (simp add: r capability_floor_def)
    fix f
    assume f: "rr_floor r = Some f"
    then have m: "ri_mode i \<noteq> MANUAL" by (auto simp: r capability_floor_def)
    from floor_not_below_hard_min [OF f [unfolded r] hard]
    show low: "round2 (ri_hard_min i) \<le> f" and "f \<le> floor_ceiling (ri_escalated i)" by auto
    show "ri_hard_min i - 1/200 \<le> f" using low abs_le_D2 [OF round2_close [of "ri_hard_min i"]] by simp
    have adj: "MODE_ADJUSTMENTS ECONOMY \<le> MODE_ADJUSTMENTS (ri_mode i)" "MODE_ADJUSTMENTS (ri_mode i) \<le> MODE_ADJUSTMENTS QUALITY"
      by (cases "ri_mode i"; simp)+
    show "\<exists>f' fq fe. rr_floor r' = Some f' \<and> rr_floor q = Some fq \<and> rr_floor e = Some fe \<and>
           f \<le> f' \<and> fe \<le> f \<and> f \<le> fq"
    proof -
      have g: "\<exists>fe. rr_floor e = Some fe \<and> fe \<le> f"
      proof -
        obtain fe where fe: "rr_floor e = Some fe" unfolding e by (simp add: capability_floor_def)
        from capability_floor_mono [OF fe [unfolded e] m adj(1), of "ri_escalated i"] f r fe
        show ?thesis by auto
      qed
      from capability_floor_mono [OF f [unfolded r] m, of True]
        capability_floor_mono [OF f [unfolded r] _ adj(2), of "ri_escalated i"] g
      show ?thesis unfolding r' q by auto
    qed
  qed
qed

definition ex_input :: requirement_input where
  "ex_input = \<lparr>ri_role = ''explorer'', ri_risk = TRIVIAL, ri_mode = ECONOMY, ri_hard_min = 344/1000,
     ri_tools = True, ri_structured = False, ri_context = 1000, ri_output = 100, ri_modalities = [''text''],
     ri_hinted_floor = None, ri_hinted_context = 0, ri_hinted_output = 0, ri_hinted_modalities = [],
     ri_escalated = False, ri_failed_fit = None, ri_failed_model = None, ri_excluded = []\<rparr>"

text \<open>The witness also shows the rounding at work: a hard minimum of 0.344 gives a floor of 0.34.\<close>

theorem capability_floor_bounded_witness:
  "\<exists>r. build ex_input = Inr r \<and> rr_floor r = Some (34/100) \<and> ri_hard_min ex_input - 1/200 \<le> 34/100 \<and>
     34/100 < ri_hard_min ex_input"
proof -
  have "is_ok (build ex_input) \<and> is_ok (build (ex_input\<lparr>ri_escalated := True\<rparr>)) \<and>
      is_ok (build (ex_input\<lparr>ri_mode := QUALITY\<rparr>)) \<and> is_ok (build (ex_input\<lparr>ri_mode := ECONOMY\<rparr>))"
    by code_simp
  then obtain r r' q e where 1: "build ex_input = Inr r" "build (ex_input\<lparr>ri_escalated := True\<rparr>) = Inr r'"
    "build (ex_input\<lparr>ri_mode := QUALITY\<rparr>) = Inr q" "build (ex_input\<lparr>ri_mode := ECONOMY\<rparr>) = Inr e"
    by (auto simp: is_ok_iff)
  have "map_option rr_floor (case build ex_input of Inl e \<Rightarrow> None | Inr r \<Rightarrow> Some r) = Some (Some (34/100))"
    by code_simp
  with 1(1) have f: "rr_floor r = Some (34/100)" by simp
  have "34/100 < ri_hard_min ex_input" by code_simp
  moreover have "ri_hard_min ex_input - 1/200 \<le> 34/100"
    using capability_floor_bounded [OF 1] f by blast
  ultimately show ?thesis using 1(1) f by blast
qed

end
