(* ===== verification/Model_Selector.thy ===== *)
theory Model_Selector
  imports Routing_Requirements "HOL-Library.Multiset"
begin

text \<open>
  Model selection (\<open>src/src/skail/routing/selector.py\<close>): why a candidate is excluded, the
  choice among the rest, the reported constraint, and the choice of a lead model.  Catalog fields
  the selector never reads are left out of the profile.
\<close>

section \<open>Candidates\<close>

record capability_vector =
  cap_coding :: rat
  cap_reasoning :: rat
  cap_tools :: rat
  cap_latency :: rat

record model_profile =
  mp_provider :: string
  mp_model :: string
  mp_input_price :: "usd option"
  mp_output_price :: "usd option"
  mp_cached_price :: "usd option"
  mp_context :: "int option"
  mp_max_output :: "int option"
  mp_supports_tools :: "bool option"
  mp_supports_structured :: "bool option"
  mp_modalities :: "string list"
  mp_capability :: "capability_vector option"
  mp_auto_eligible :: bool

record route_candidate =
  rc_profile :: model_profile
  rc_cost :: "usd option"
  rc_configured :: bool
  rc_healthy :: bool
  rc_enabled :: bool

record route_selection =
  sel_candidate :: route_candidate
  sel_fit :: "rat option"
  sel_included :: nat
  sel_excluded :: "(string \<times> nat) list"
  sel_binding :: "string option"
  sel_reason :: string

record route_failure =
  rf_excluded :: "(string \<times> nat) list"
  rf_binding :: "string option"
  rf_floor :: "rat option"
  rf_best :: "(string \<times> string) list"

datatype route_result = Selected route_selection | RouteFailed route_failure

definition model_key :: "route_candidate \<Rightarrow> string \<times> string" where
  "model_key c = (mp_provider (rc_profile c), mp_model (rc_profile c))"

definition capability_fit :: "model_profile \<Rightarrow> rat option" where
  "capability_fit p = map_option (\<lambda>c. min (cap_coding c) (cap_reasoning c)) (mp_capability p)"

section \<open>Exclusion\<close>

definition support_missing :: "routing_mode \<Rightarrow> bool option \<Rightarrow> bool" where
  "support_missing mode s \<longleftrightarrow> s = Some False \<or> (mode \<noteq> MANUAL \<and> s \<noteq> Some True)"

definition size_missing :: "routing_mode \<Rightarrow> int option \<Rightarrow> int \<Rightarrow> bool" where
  "size_missing mode s least \<longleftrightarrow> (case s of None \<Rightarrow> mode \<noteq> MANUAL | Some n \<Rightarrow> n < least)"

definition below_fit :: "rat option \<Rightarrow> rat \<Rightarrow> bool" where
  "below_fit fit least \<longleftrightarrow> (case fit of None \<Rightarrow> True | Some f \<Rightarrow> f < least)"

definition not_above_fit :: "rat option \<Rightarrow> rat \<Rightarrow> bool" where
  "not_above_fit fit failed \<longleftrightarrow> (case fit of None \<Rightarrow> True | Some f \<Rightarrow> f \<le> failed)"

definition exclusion_reason ::
  "route_candidate \<Rightarrow> routing_requirements \<Rightarrow> usd option \<Rightarrow> (string \<times> string) option \<Rightarrow> string option" where
  "exclusion_reason c r available manual =
     (let p = rc_profile c; mode = rr_mode r; fit = capability_fit p in
      if mode = MANUAL \<and> Some (model_key c) \<noteq> manual then Some ''manual_model_mismatch''
      else if model_key c \<in> set (rr_excluded r) then Some ''model_excluded''
      else if \<not> rc_configured c then Some ''provider_unconfigured''
      else if \<not> rc_healthy c then Some ''provider_unhealthy''
      else if \<not> rc_enabled c then Some ''model_disabled''
      else if (mode \<noteq> MANUAL \<or> rr_escalated r) \<and> \<not> mp_auto_eligible p then Some ''auto_ineligible''
      else if rr_tools r \<and> support_missing mode (mp_supports_tools p) then Some ''tools_unsupported''
      else if rr_structured r \<and> support_missing mode (mp_supports_structured p)
        then Some ''structured_output_unsupported''
      else if size_missing mode (mp_context p) (rr_context r) then Some ''context_too_small''
      else if size_missing mode (mp_max_output p) (rr_output r) then Some ''output_too_small''
      else if \<not> set (rr_modalities r) \<subseteq> set (mp_modalities p) then Some ''modality_unsupported''
      else if rr_escalated r \<and> rr_failed_fit r = None then Some ''escalation_baseline_unknown''
      else if rr_escalated r \<and> not_above_fit fit (the (rr_failed_fit r)) then Some ''escalation_not_stronger''
      else if (case rr_floor r of None \<Rightarrow> False | Some f \<Rightarrow> below_fit fit f) then Some ''capability_floor''
      else if rc_cost c = None \<and> (mode \<noteq> MANUAL \<or> available \<noteq> None) then Some ''price_unavailable''
      else if (case (available, rc_cost c) of (Some a, Some cost) \<Rightarrow> a < cost | _ \<Rightarrow> False)
        then Some ''budget_unaffordable''
      else None)"

text \<open>The same decision as a contract: what a routed model must offer.\<close>

definition route_ok ::
  "route_candidate \<Rightarrow> routing_requirements \<Rightarrow> usd option \<Rightarrow> (string \<times> string) option \<Rightarrow> bool" where
  "route_ok c r available manual \<longleftrightarrow>
     (let p = rc_profile c; fit = capability_fit p in
      rc_configured c \<and> rc_healthy c \<and> rc_enabled c \<and> model_key c \<notin> set (rr_excluded r) \<and>
      set (rr_modalities r) \<subseteq> set (mp_modalities p) \<and>
      (rr_mode r = MANUAL \<longrightarrow> manual = Some (model_key c)) \<and>
      (rr_mode r \<noteq> MANUAL \<longrightarrow> mp_auto_eligible p \<and> rc_cost c \<noteq> None \<and>
         mp_context p \<noteq> None \<and> mp_max_output p \<noteq> None \<and>
         (rr_tools r \<longrightarrow> mp_supports_tools p = Some True) \<and>
         (rr_structured r \<longrightarrow> mp_supports_structured p = Some True)) \<and>
      (rr_tools r \<longrightarrow> mp_supports_tools p \<noteq> Some False) \<and>
      (rr_structured r \<longrightarrow> mp_supports_structured p \<noteq> Some False) \<and>
      (\<forall>n. mp_context p = Some n \<longrightarrow> rr_context r \<le> n) \<and>
      (\<forall>n. mp_max_output p = Some n \<longrightarrow> rr_output r \<le> n) \<and>
      (rr_escalated r \<longrightarrow> mp_auto_eligible p \<and>
         (\<exists>old f. rr_failed_fit r = Some old \<and> fit = Some f \<and> old < f)) \<and>
      (\<forall>floor. rr_floor r = Some floor \<longrightarrow> (\<exists>f. fit = Some f \<and> floor \<le> f)) \<and>
      (\<forall>a. available = Some a \<longrightarrow> (\<exists>cost. rc_cost c = Some cost \<and> cost \<le> a)))"

lemma support_missing_iff:
  "support_missing mode s \<longleftrightarrow> \<not> ((mode \<noteq> MANUAL \<longrightarrow> s = Some True) \<and> s \<noteq> Some False)"
  by (auto simp: support_missing_def)

lemma size_missing_iff:
  "size_missing mode s least \<longleftrightarrow> \<not> ((mode \<noteq> MANUAL \<longrightarrow> s \<noteq> None) \<and> (\<forall>n. s = Some n \<longrightarrow> least \<le> n))"
  by (auto simp: size_missing_def split: option.splits)

lemma below_fit_iff: "below_fit fit least \<longleftrightarrow> \<not> (\<exists>f. fit = Some f \<and> least \<le> f)"
  by (auto simp: below_fit_def split: option.splits)

lemma not_above_fit_iff: "not_above_fit fit failed \<longleftrightarrow> \<not> (\<exists>f. fit = Some f \<and> failed < f)"
  by (auto simp: not_above_fit_def split: option.splits)

lemma if_Some_None: "(if b then Some x else t) = None \<longleftrightarrow> \<not> b \<and> t = None"
  by simp

lemma exclusion_reason_None: "exclusion_reason c r available manual = None \<longleftrightarrow> route_ok c r available manual"
proof -
  have price: "(\<not> (rc_cost c = None \<and> (rr_mode r \<noteq> MANUAL \<or> available \<noteq> None)) \<and>
      \<not> (case (available, rc_cost c) of (Some a, Some cost) \<Rightarrow> a < cost | _ \<Rightarrow> False)) \<longleftrightarrow>
     (rr_mode r \<noteq> MANUAL \<longrightarrow> rc_cost c \<noteq> None) \<and>
     (\<forall>a. available = Some a \<longrightarrow> (\<exists>cost. rc_cost c = Some cost \<and> cost \<le> a))"
    by (cases available; cases "rc_cost c") auto
  have floor: "\<not> (case rr_floor r of None \<Rightarrow> False | Some f \<Rightarrow> below_fit (capability_fit (rc_profile c)) f) \<longleftrightarrow>
     (\<forall>floor. rr_floor r = Some floor \<longrightarrow> (\<exists>f. capability_fit (rc_profile c) = Some f \<and> floor \<le> f))"
    by (auto simp: below_fit_iff split: option.splits)
  have esc: "(\<not> (rr_escalated r \<and> rr_failed_fit r = None) \<and>
      \<not> (rr_escalated r \<and> not_above_fit (capability_fit (rc_profile c)) (the (rr_failed_fit r)))) \<longleftrightarrow>
     (rr_escalated r \<longrightarrow> (\<exists>old f. rr_failed_fit r = Some old \<and> capability_fit (rc_profile c) = Some f \<and> old < f))"
    by (auto simp: not_above_fit_iff)
  have "exclusion_reason c r available manual = None \<longleftrightarrow>
     \<not> (rr_mode r = MANUAL \<and> Some (model_key c) \<noteq> manual) \<and> model_key c \<notin> set (rr_excluded r) \<and>
     rc_configured c \<and> rc_healthy c \<and> rc_enabled c \<and>
     \<not> ((rr_mode r \<noteq> MANUAL \<or> rr_escalated r) \<and> \<not> mp_auto_eligible (rc_profile c)) \<and>
     \<not> (rr_tools r \<and> support_missing (rr_mode r) (mp_supports_tools (rc_profile c))) \<and>
     \<not> (rr_structured r \<and> support_missing (rr_mode r) (mp_supports_structured (rc_profile c))) \<and>
     \<not> size_missing (rr_mode r) (mp_context (rc_profile c)) (rr_context r) \<and>
     \<not> size_missing (rr_mode r) (mp_max_output (rc_profile c)) (rr_output r) \<and>
     set (rr_modalities r) \<subseteq> set (mp_modalities (rc_profile c)) \<and>
     (\<not> (rr_escalated r \<and> rr_failed_fit r = None) \<and>
      \<not> (rr_escalated r \<and> not_above_fit (capability_fit (rc_profile c)) (the (rr_failed_fit r)))) \<and>
     \<not> (case rr_floor r of None \<Rightarrow> False | Some f \<Rightarrow> below_fit (capability_fit (rc_profile c)) f) \<and>
     (\<not> (rc_cost c = None \<and> (rr_mode r \<noteq> MANUAL \<or> available \<noteq> None)) \<and>
      \<not> (case (available, rc_cost c) of (Some a, Some cost) \<Rightarrow> a < cost | _ \<Rightarrow> False))"
    unfolding exclusion_reason_def Let_def by (simp only: if_Some_None simp_thms conj_assoc)
  then show ?thesis
    unfolding price floor esc support_missing_iff size_missing_iff route_ok_def Let_def by argo
qed

section \<open>Choice\<close>

text \<open>\<open>Counter\<close> as the list of counted values; \<open>dict(sorted(counter.items()))\<close>.\<close>

definition sorted_counts :: "string list \<Rightarrow> (string \<times> nat) list" where
  "sorted_counts reasons = map (\<lambda>r. (r, count_list reasons r)) (sort (remdups reasons))"

definition most_frequent :: "string list \<Rightarrow> string option" where
  "most_frequent reasons =
     min_by (\<lambda>r. (- int (count_list reasons r), r)) (sort (remdups reasons))"

definition reasons_of ::
  "route_candidate list \<Rightarrow> (route_candidate \<Rightarrow> string option) \<Rightarrow> string list" where
  "reasons_of cs why = List.map_filter why cs"

text \<open>\<open>rank\<close> fails with \<open>AssertionError\<close> where the code asserts a known fit, price and capability.\<close>

definition rank_key ::
  "routing_mode \<Rightarrow> route_candidate \<Rightarrow> (rat list \<times> string \<times> string) option" where
  "rank_key mode c =
     (if mode = MANUAL then Some ([], model_key c)
      else (case (mp_capability (rc_profile c), rc_cost c) of
          (Some cap, Some cost) \<Rightarrow>
            (let fit = min (cap_coding cap) (cap_reasoning cap) in
             Some (if mode = QUALITY then [- fit, - cap_tools cap, cost]
                   else [cost, - fit, - cap_tools cap, cap_latency cap], model_key c))
        | _ \<Rightarrow> None))"

definition lead_rank_key ::
  "routing_mode \<Rightarrow> route_candidate \<Rightarrow> (rat list \<times> string \<times> string) option" where
  "lead_rank_key mode c =
     (if mode = MANUAL then Some ([], model_key c)
      else (case mp_capability (rc_profile c) of
          Some cap \<Rightarrow> Some ([- min (cap_coding cap) (cap_reasoning cap), - cap_tools cap], model_key c)
        | None \<Rightarrow> None))"

definition pick_min ::
  "(route_candidate \<Rightarrow> (rat list \<times> string \<times> string) option) \<Rightarrow> route_candidate list \<Rightarrow> route_candidate res" where
  "pick_min key cs =
     (if list_ex (\<lambda>c. key c = None) cs then Inl (AssertionError ''rank'')
      else (case min_by (\<lambda>c. the (key c)) cs of
              None \<Rightarrow> Inl (ValueError ''min of an empty sequence'') | Some c \<Rightarrow> Inr c))"

definition counted_available :: "routing_requirements \<Rightarrow> route_candidate \<Rightarrow> bool" where
  "counted_available r c \<longleftrightarrow>
     model_key c \<notin> set (rr_excluded r) \<and> rc_configured c \<and> rc_healthy c \<and> rc_enabled c"

definition binding_constraint ::
  "routing_requirements \<Rightarrow> (string \<times> string) option \<Rightarrow> (route_candidate \<Rightarrow> string option) \<Rightarrow>
     route_candidate list \<Rightarrow> string option" where
  "binding_constraint r manual why cs =
     (let excluded = reasons_of cs why;
          available = reasons_of (filter (counted_available r) cs) why;
          pinned = filter (\<lambda>c. manual = Some (model_key c)) cs;
          manual_reason = (if pinned = [] then None else why (last pinned))
      in case manual_reason of
           Some x \<Rightarrow> Some x
         | None \<Rightarrow> most_frequent (if available = [] then excluded else available))"

definition select_model ::
  "route_candidate list \<Rightarrow> routing_requirements \<Rightarrow> usd option \<Rightarrow> (string \<times> string) option \<Rightarrow> route_result res" where
  "select_model candidates r available manual =
     (if rr_mode r = MANUAL \<and> manual = None
        then Inl (ValueError ''manual routing requires an exact provider/model pin'')
      else
        (let cs = sort_key model_key candidates;
             why = (\<lambda>c. exclusion_reason c r available manual);
             included = filter (\<lambda>c. why c = None) cs;
             counts = sorted_counts (reasons_of cs why);
             binding = binding_constraint r manual why cs
         in if included = []
              then Inr (RouteFailed \<lparr>rf_excluded = counts, rf_binding = binding, rf_floor = None, rf_best = []\<rparr>)
            else res_bind (pick_min (rank_key (rr_mode r)) included) (\<lambda>chosen.
              Inr (Selected \<lparr>sel_candidate = chosen, sel_fit = capability_fit (rc_profile chosen),
                sel_included = length included, sel_excluded = counts, sel_binding = binding,
                sel_reason = (if rr_mode r = QUALITY then ''capability_fit,tool_reliability,cost,stable_key''
                  else ''cost,capability_fit,tool_reliability,latency,stable_key'')\<rparr>))))"

definition lead_requirements ::
  "routing_requirements \<Rightarrow> (string \<times> string) option \<Rightarrow> routing_requirements" where
  "lead_requirements r manual =
     (if manual = None then r else r\<lparr>rr_mode := MANUAL, rr_floor := None\<rparr>)"

definition select_lead_model ::
  "route_candidate list \<Rightarrow> routing_requirements \<Rightarrow> usd option \<Rightarrow> (string \<times> string) option \<Rightarrow> route_result res" where
  "select_lead_model candidates r available manual =
     (let e = lead_requirements r manual;
          cs = sort_key model_key candidates;
          why = (\<lambda>c. exclusion_reason c e available manual);
          included = filter (\<lambda>c. why c = None) cs;
          excluded = reasons_of cs why
      in if included = [] then
           Inr (RouteFailed \<lparr>rf_excluded = sorted_counts excluded, rf_binding = most_frequent excluded,
             rf_floor = rr_floor e,
             rf_best = map model_key (take 3 (sort_key
               (\<lambda>c. (- (case capability_fit (rc_profile c) of None \<Rightarrow> 0 | Some f \<Rightarrow> f), model_key c)) candidates))\<rparr>)
         else res_bind (pick_min (lead_rank_key (rr_mode e)) included) (\<lambda>chosen.
           Inr (Selected \<lparr>sel_candidate = chosen, sel_fit = capability_fit (rc_profile chosen),
             sel_included = length included, sel_excluded = sorted_counts excluded, sel_binding = None,
             sel_reason = ''capability_fit,tool_reliability,stable_key''\<rparr>)))"

section \<open>Properties of the choice\<close>

lemma pick_min_Inr:
  "pick_min key cs = Inr c \<Longrightarrow>
     c \<in> set cs \<and> (\<forall>d \<in> set cs. key d \<noteq> None \<and> the (key c) \<le> the (key d))"
  by (auto simp: pick_min_def list_ex_iff split: if_splits option.splits
      dest: min_by_in min_by_le [of "\<lambda>c. the (key c)"])

lemma sort_key_perm:
  assumes "mset xs = mset ys" "distinct (map f xs)"
  shows "sort_key f xs = sort_key f ys"
proof (rule properties_for_sort_key)
  show "mset (sort_key f ys) = mset xs" using assms(1) by simp
  have d: "distinct (map f (sort_key f ys))"
    using assms by (metis distinct_map mset_eq_imp_distinct_iff mset_sort set_mset_mset)
  fix k
  assume "k \<in> set (sort_key f ys)"
  then have k: "k \<in> set ys" by simp
  have "filter (\<lambda>x. f k = f x) zs = [k]" if "distinct (map f zs)" "k \<in> set zs" for zs
    using that by (induction zs) (auto simp: filter_empty_conv image_iff)
  with d k assms show "filter (\<lambda>x. f k = f x) (sort_key f ys) = filter (\<lambda>x. f k = f x) xs"
    by (metis mset_eq_setD set_sort)
qed simp

text \<open>What a routing result guarantees.\<close>

definition routing_sound ::
  "(routing_mode \<Rightarrow> route_candidate \<Rightarrow> (rat list \<times> string \<times> string) option) \<Rightarrow>
     route_candidate list \<Rightarrow> routing_requirements \<Rightarrow> usd option \<Rightarrow> (string \<times> string) option \<Rightarrow> route_result res \<Rightarrow> bool" where
  "routing_sound key cs r available manual result \<longleftrightarrow>
     (case result of
        Inl e \<Rightarrow> (rr_mode r = MANUAL \<and> manual = None) \<or>
          (rr_mode r \<noteq> MANUAL \<and> (\<exists>c \<in> set cs. route_ok c r available manual \<and> key (rr_mode r) c = None))
      | Inr (Selected s) \<Rightarrow>
          sel_candidate s \<in> set cs \<and> route_ok (sel_candidate s) r available manual \<and>
          sel_fit s = capability_fit (rc_profile (sel_candidate s)) \<and>
          (\<forall>c \<in> set cs. route_ok c r available manual \<longrightarrow>
             the (key (rr_mode r) (sel_candidate s)) \<le> the (key (rr_mode r) c))
      | Inr (RouteFailed f) \<Rightarrow> \<forall>c \<in> set cs. \<not> route_ok c r available manual)"

lemma pick_min_Inl:
  "pick_min key cs = Inl e \<Longrightarrow> cs \<noteq> [] \<Longrightarrow> \<exists>c \<in> set cs. key c = None"
  by (auto simp: pick_min_def list_ex_iff split: if_splits option.splits)

lemma rank_key_manual [simp]: "rank_key MANUAL c = Some ([], model_key c)" "lead_rank_key MANUAL c = Some ([], model_key c)"
  by (simp_all add: rank_key_def lead_rank_key_def)

lemma chosen_sound:
  assumes "filter (\<lambda>c. exclusion_reason c r available manual = None) (sort_key model_key cs) \<noteq> []"
    and "\<And>c. key MANUAL c \<noteq> None"
  shows "case pick_min (key (rr_mode r)) (filter (\<lambda>c. exclusion_reason c r available manual = None) (sort_key model_key cs)) of
      Inl e \<Rightarrow> rr_mode r \<noteq> MANUAL \<and> (\<exists>c \<in> set cs. route_ok c r available manual \<and> key (rr_mode r) c = None)
    | Inr c \<Rightarrow> c \<in> set cs \<and> route_ok c r available manual \<and>
        (\<forall>d \<in> set cs. route_ok d r available manual \<longrightarrow> the (key (rr_mode r) c) \<le> the (key (rr_mode r) d))"
proof (cases "pick_min (key (rr_mode r)) (filter (\<lambda>c. exclusion_reason c r available manual = None) (sort_key model_key cs))")
  case (Inl e)
  obtain c where c: "c \<in> set (filter (\<lambda>c. exclusion_reason c r available manual = None) (sort_key model_key cs))"
    "key (rr_mode r) c = None" using pick_min_Inl [OF Inl assms(1)] by blast
  then have "rr_mode r \<noteq> MANUAL" using assms(2) by metis
  with c Inl show ?thesis by (auto simp: exclusion_reason_None)
next
  case (Inr c)
  with pick_min_Inr [OF Inr] show ?thesis by (simp add: exclusion_reason_None)
qed

lemma select_model_sound:
  "routing_sound rank_key cs r available manual (select_model cs r available manual)"
proof (cases "rr_mode r = MANUAL \<and> manual = None")
  case True
  then show ?thesis by (simp add: select_model_def routing_sound_def)
next
  case pinned: False
  let ?inc = "filter (\<lambda>c. exclusion_reason c r available manual = None) (sort_key model_key cs)"
  show ?thesis
  proof (cases "?inc = []")
    case True
    with pinned show ?thesis
      by (auto simp: select_model_def routing_sound_def Let_def filter_empty_conv exclusion_reason_None)
  next
    case False
    from chosen_sound [OF False, of rank_key] pinned False show ?thesis
      by (cases "pick_min (rank_key (rr_mode r)) ?inc")
        (auto simp: select_model_def routing_sound_def Let_def)
  qed
qed

lemma select_lead_model_sound:
  "routing_sound lead_rank_key cs (lead_requirements r manual) available manual
     (select_lead_model cs r available manual)"
proof -
  let ?e = "lead_requirements r manual"
  let ?inc = "filter (\<lambda>c. exclusion_reason c ?e available manual = None) (sort_key model_key cs)"
  show ?thesis
  proof (cases "?inc = []")
    case True
    then show ?thesis
      by (auto simp: select_lead_model_def routing_sound_def Let_def filter_empty_conv exclusion_reason_None)
  next
    case False
    from chosen_sound [OF False, of lead_rank_key] False show ?thesis
      by (cases "pick_min (lead_rank_key (rr_mode ?e)) ?inc")
        (auto simp: select_lead_model_def routing_sound_def Let_def)
  qed
qed

section \<open>Properties\<close>

text \<open>
  C15: the chain of exclusion tests is equivalent to the declarative contract \<open>route_ok\<close>, and
  both selectors decide by it.  A selected model satisfies the contract (configured, healthy,
  enabled, not excluded, large enough, at or above the floor, stronger than the failed model on
  escalation, affordable) and no other model that satisfies it ranks before it; a failure is
  reported exactly when no candidate satisfies it; an exception means a manual request without a
  pin or a candidate without the score or price its ranking needs.
\<close>

theorem routing_contract:
  "(exclusion_reason c r available manual = None \<longleftrightarrow> route_ok c r available manual) \<and>
   routing_sound rank_key cs r available manual (select_model cs r available manual) \<and>
   routing_sound lead_rank_key cs (lead_requirements r manual) available manual
     (select_lead_model cs r available manual)"
  using exclusion_reason_None select_model_sound select_lead_model_sound by blast

text \<open>
  Routing does not depend on the order in which the catalog lists its models.  With one entry
  per provider and model, any permutation of the candidates gives the same selection, counts,
  binding constraint and failure, for tasks and for the lead.
\<close>

theorem routing_order_independent:
  assumes "mset cs = mset cs'" and "distinct (map model_key cs)"
  shows "select_model cs r available manual = select_model cs' r available manual \<and>
     select_lead_model cs r available manual = select_lead_model cs' r available manual"
proof -
  have "sort_key model_key cs = sort_key model_key cs'" by (rule sort_key_perm [OF assms])
  moreover have "sort_key (\<lambda>c. (g c, model_key c)) cs = sort_key (\<lambda>c. (g c, model_key c)) cs'"
    for g :: "route_candidate \<Rightarrow> rat"
  proof (rule sort_key_perm [OF assms(1)])
    have "distinct (map snd (map (\<lambda>c. (g c, model_key c)) cs))" using assms(2) by (simp add: comp_def)
    then show "distinct (map (\<lambda>c. (g c, model_key c)) cs)" by (simp only: distinct_map)
  qed
  ultimately show ?thesis by (simp only: select_model_def select_lead_model_def Let_def)
qed

definition ex_candidate :: "string \<Rightarrow> rat \<Rightarrow> usd \<Rightarrow> route_candidate" where
  "ex_candidate model score cost =
     \<lparr>rc_profile = \<lparr>mp_provider = ''p'', mp_model = model, mp_input_price = Some 1, mp_output_price = Some 1,
        mp_cached_price = None, mp_context = Some 100000, mp_max_output = Some 4000,
        mp_supports_tools = Some True, mp_supports_structured = Some True, mp_modalities = [''text''],
        mp_capability = Some \<lparr>cap_coding = score, cap_reasoning = score, cap_tools = 1/2, cap_latency = 1/2\<rparr>,
        mp_auto_eligible = True\<rparr>,
      rc_cost = Some cost, rc_configured = True, rc_healthy = True, rc_enabled = True\<rparr>"

definition ex_requirements :: routing_requirements where
  "ex_requirements = \<lparr>rr_role = ''implementer'', rr_risk = ROUTINE, rr_mode = AUTO, rr_floor = Some (1/2),
     rr_hard_min = 0, rr_tools = True, rr_structured = False, rr_context = 1000, rr_output = 100,
     rr_modalities = [''text''], rr_escalated = False, rr_failed_fit = None, rr_excluded = []\<rparr>"

definition ex_pool :: "route_candidate list" where
  "ex_pool = [ex_candidate ''b'' (6/10) 2, ex_candidate ''a'' (9/10) 3, ex_candidate ''c'' (4/10) 1]"

text \<open>The name of the model a result selects.\<close>

definition selected_name :: "route_result res \<Rightarrow> string option" where
  "selected_name result = (case result of Inr (Selected s) \<Rightarrow> Some (mp_model (rc_profile (sel_candidate s))) | _ \<Rightarrow> None)"

theorem routing_order_independent_witness:
  "selected_name (select_model ex_pool ex_requirements (Some 5) None) = Some ''b'' \<and>
   select_model ex_pool ex_requirements (Some 5) None = select_model (rev ex_pool) ex_requirements (Some 5) None"
proof -
  have 1: "mset ex_pool = mset (rev ex_pool)" by simp
  have 2: "distinct (map model_key ex_pool)" by code_simp
  have 3: "selected_name (select_model ex_pool ex_requirements (Some 5) None) = Some ''b''" by code_simp
  show ?thesis using routing_order_independent [OF 1 2] 3 by blast
qed

end
