(* ===== verification/Assignment.thy ===== *)
theory Assignment
  imports Budget_Ledger Model_Selector Changeset_Domain
begin

text \<open>
  The assignment service (\<open>AssignmentService\<close> in \<open>src/src/skail/routing/assignment.py\<close>):
  one decision per attempt, taken from a routing snapshot inside one transaction, with its
  reservation, its assignment record and its events; fallback assignments; batches with an
  allowance for the lead.

  Identifiers come from \<open>fresh k j\<close>, the \<open>j\<close>-th identifier drawn by decision \<open>k\<close>;
  \<open>config_rev\<close> hashes a configuration, \<open>render\<close> is the stored text of an event and
  \<open>scrub\<close> the redactor.  Decimal texts in payloads are JSON numbers.  Observers run after the
  commit and are left out.
\<close>

section \<open>Requests and results\<close>

record assignment_request =
  aq_session :: string
  aq_run :: string
  aq_task :: string
  aq_attempt :: string
  aq_number :: int
  aq_catalog :: string
  aq_requirements :: routing_requirements
  aq_config :: json
  aq_task_limit :: "usd option"
  aq_manual :: "(string \<times> string) option"
  aq_fallback :: "string option"

record routing_snapshot =
  sh_catalog :: string
  sh_config :: string
  sh_health :: string
  sh_candidates :: "route_candidate list"

record task_assignment =
  tk_id :: string
  tk_task :: string
  tk_number :: int
  tk_provider :: string
  tk_model :: string
  tk_mode :: string
  tk_floor :: "rat option"
  tk_fit :: "rat option"
  tk_cost :: usd
  tk_reservation :: string
  tk_explanation :: "string list"
  tk_catalog :: string

datatype assign_result = Assigned task_assignment | Unroutable route_failure

fun mode_name :: "routing_mode \<Rightarrow> string" where
  "mode_name AUTO = ''auto''"
| "mode_name ECONOMY = ''economy''"
| "mode_name QUALITY = ''quality''"
| "mode_name MANUAL = ''manual''"

definition in_unit :: "rat option \<Rightarrow> bool" where
  "in_unit x \<longleftrightarrow> (case x of None \<Rightarrow> True | Some f \<Rightarrow> 0 \<le> f \<and> f \<le> 1)"

definition validate_assignment :: "task_assignment \<Rightarrow> task_assignment res" where
  "validate_assignment a =
     (if tk_number a \<notin> {1, 2} \<or> tk_provider a = [] \<or> tk_model a = [] \<or> tk_catalog a = [] \<or>
         tk_mode a \<notin> {''auto'', ''economy'', ''quality'', ''manual''} \<or>
         \<not> in_unit (tk_floor a) \<or> \<not> in_unit (tk_fit a) \<or> tk_cost a < 0
        then Inl (ValueError ''assignment.fields'')
      else res_bind (check_all ensure_uuid4 [tk_id a, tk_task a, tk_reservation a]) (\<lambda>_. Inr a))"

section \<open>Payloads\<close>

definition opt_num :: "rat option \<Rightarrow> json" where
  "opt_num x = (case x of None \<Rightarrow> JNull | Some r \<Rightarrow> JNum r)"

definition opt_str :: "string option \<Rightarrow> json" where
  "opt_str x = (case x of None \<Rightarrow> JNull | Some s \<Rightarrow> JStr s)"

definition assignment_fields :: "task_assignment \<Rightarrow> (string \<times> json) list" where
  "assignment_fields a =
     [(''assignment_id'', JStr (tk_id a)), (''task_id'', JStr (tk_task a)),
      (''attempt_number'', JNum (of_int (tk_number a))), (''provider'', JStr (tk_provider a)),
      (''model'', JStr (tk_model a)), (''routing_mode'', JStr (tk_mode a)),
      (''capability_floor'', opt_num (tk_floor a)), (''capability_fit'', opt_num (tk_fit a)),
      (''estimated_attempt_cost_usd'', JNum (tk_cost a)), (''reservation_id'', JStr (tk_reservation a)),
      (''explanation'', JList (map JStr (tk_explanation a))), (''catalog_revision'', JStr (tk_catalog a))]"

fun as_str :: "json \<Rightarrow> string option" where
  "as_str (JStr s) = Some s"
| "as_str _ = None"

fun as_num :: "json \<Rightarrow> rat option" where
  "as_num (JNum r) = Some r"
| "as_num _ = None"

fun as_opt_num :: "json \<Rightarrow> rat option option" where
  "as_opt_num (JNum r) = Some (Some r)"
| "as_opt_num JNull = Some None"
| "as_opt_num _ = None"

fun as_strs :: "json \<Rightarrow> string list option" where
  "as_strs (JList js) = (if list_all (\<lambda>j. as_str j \<noteq> None) js then Some (map (the \<circ> as_str) js) else None)"
| "as_strs _ = None"

definition field :: "(json \<Rightarrow> 'x option) \<Rightarrow> json \<Rightarrow> string \<Rightarrow> 'x res" where
  "field dec j k = (case Option.bind (json_get j k) dec of None \<Rightarrow> Inl (ValueError k) | Some x \<Rightarrow> Inr x)"

text \<open>\<open>TaskAssignment.model_validate(json.loads(payload))\<close>.\<close>

definition read_assignment :: "json \<Rightarrow> task_assignment res" where
  "read_assignment j =
     res_bind (field as_str j ''assignment_id'') (\<lambda>i.
     res_bind (field as_str j ''task_id'') (\<lambda>t.
     res_bind (field as_num j ''attempt_number'') (\<lambda>n.
     res_bind (field as_str j ''provider'') (\<lambda>p.
     res_bind (field as_str j ''model'') (\<lambda>m.
     res_bind (field as_str j ''routing_mode'') (\<lambda>mode.
     res_bind (field as_opt_num j ''capability_floor'') (\<lambda>fl.
     res_bind (field as_opt_num j ''capability_fit'') (\<lambda>fit.
     res_bind (field as_num j ''estimated_attempt_cost_usd'') (\<lambda>c.
     res_bind (field as_str j ''reservation_id'') (\<lambda>r.
     res_bind (field as_strs j ''explanation'') (\<lambda>ex.
     res_bind (field as_str j ''catalog_revision'') (\<lambda>cat.
       validate_assignment \<lparr>tk_id = i, tk_task = t, tk_number = \<lfloor>n\<rfloor>, tk_provider = p, tk_model = m,
         tk_mode = mode, tk_floor = fl, tk_fit = fit, tk_cost = c, tk_reservation = r,
         tk_explanation = ex, tk_catalog = cat\<rparr>))))))))))))"

lemma as_opt_num_opt [simp]: "as_opt_num (opt_num x) = Some x"
  by (cases x) (auto simp: opt_num_def)

lemma as_strs_map [simp]: "as_strs (JList (map JStr xs)) = Some xs"
  by (auto simp: list_all_iff comp_def)

lemma read_assignment_fields:
  "validate_assignment a = Inr a \<Longrightarrow> read_assignment (JObj (assignment_fields a @ rest)) = Inr a"
  by (cases a) (simp add: read_assignment_def assignment_fields_def field_def del: as_strs.simps)

definition input_json :: "route_candidate \<Rightarrow> json" where
  "input_json c = JObj [(''provider'', JStr (mp_provider (rc_profile c))),
     (''model'', JStr (mp_model (rc_profile c))), (''configured'', JBool (rc_configured c)),
     (''healthy'', JBool (rc_healthy c)), (''enabled'', JBool (rc_enabled c)),
     (''estimated_cost_usd'', opt_num (rc_cost c))]"

definition snapshot_json :: "budget_snapshot \<Rightarrow> json" where
  "snapshot_json s = JObj [(''hard_limit_usd'', opt_num (sn_limit s)),
     (''authoritative_actual_usd'', JNum (sn_actual s)), (''estimated_actual_usd'', JNum (sn_estimated s)),
     (''reserved_usd'', JNum (sn_reserved s)), (''available_usd'', opt_num (sn_available s))]"

definition pricing_json :: "string \<Rightarrow> model_profile \<Rightarrow> json" where
  "pricing_json catalog p = JObj [(''catalog_revision'', JStr catalog),
     (''input_usd_per_million'', opt_num (mp_input_price p)),
     (''output_usd_per_million'', opt_num (mp_output_price p)),
     (''cached_input_usd_per_million'', opt_num (mp_cached_price p))]"

fun risk_name :: "task_risk \<Rightarrow> string" where
  "risk_name TRIVIAL = ''trivial''"
| "risk_name ROUTINE = ''routine''"
| "risk_name BOUNDED = ''bounded''"
| "risk_name COMPLEX = ''complex''"
| "risk_name HIGH = ''high-risk''"

definition requirements_json :: "routing_requirements \<Rightarrow> json" where
  "requirements_json r = JObj [(''role'', JStr (rr_role r)), (''risk'', JStr (risk_name (rr_risk r))),
     (''mode'', JStr (mode_name (rr_mode r))), (''capability_floor'', opt_num (rr_floor r)),
     (''role_hard_min'', JNum (rr_hard_min r)), (''tools_required'', JBool (rr_tools r)),
     (''structured_output_required'', JBool (rr_structured r)),
     (''minimum_context_tokens'', JNum (of_int (rr_context r))),
     (''minimum_output_tokens'', JNum (of_int (rr_output r))),
     (''modalities'', JList (map JStr (rr_modalities r))), (''escalated'', JBool (rr_escalated r)),
     (''failed_capability_fit'', opt_num (rr_failed_fit r)),
     (''excluded_models'', JList (map (\<lambda>(p, m). JList [JStr p, JStr m]) (rr_excluded r)))]"

definition decision_fields ::
  "assignment_request \<Rightarrow> route_candidate \<Rightarrow> budget_snapshot \<Rightarrow> routing_snapshot \<Rightarrow> (string \<times> json) list" where
  "decision_fields q c budget sh =
     [(''attempt_id'', JStr (aq_attempt q)), (''requirements'', requirements_json (aq_requirements q)),
      (''config'', aq_config q),
      (''budget'', snapshot_json budget), (''health_revision'', JStr (sh_health sh)),
      (''routing_inputs'', JList (map input_json (sh_candidates sh))),
      (''fallback_of_assignment_id'', opt_str (aq_fallback q)),
      (''pricing_evidence'', pricing_json (aq_catalog q) (rc_profile c))]"

section \<open>Steps of one decision\<close>

record event_fields =
  ef_id :: string
  ef_session :: string
  ef_run :: string
  ef_task :: string
  ef_attempt :: string
  ef_sequence :: int
  ef_type :: string
  ef_amount :: "usd option"
  ef_assignment :: "string option"

record assign_env =
  en_percent :: usd
  en_fresh :: "nat \<Rightarrow> nat \<Rightarrow> string"
  en_config_rev :: "json \<Rightarrow> string"
  en_render :: "event_fields \<Rightarrow> string"
  en_scrub :: "json \<Rightarrow> json"

definition last_sequence :: "'a journal_db_scheme \<Rightarrow> string \<Rightarrow> int" where
  "last_sequence db rid = fold max (map en_seq (filter (\<lambda>e. en_run e = rid) (jd_events db))) 0"

definition emit ::
  "assign_env \<Rightarrow> 'a journal_db_scheme \<Rightarrow> assignment_request \<Rightarrow> nat \<Rightarrow> nat \<Rightarrow>
     (string \<times> usd option \<times> string option) \<Rightarrow> 'a journal_db_scheme res" where
  "emit env db q k j ev =
     (case ev of (kind, amount, assignment) \<Rightarrow>
        (let f = \<lparr>ef_id = en_fresh env k j, ef_session = aq_session q, ef_run = aq_run q,
               ef_task = aq_task q, ef_attempt = aq_attempt q, ef_sequence = last_sequence db (aq_run q) + 1,
               ef_type = kind, ef_amount = amount, ef_assignment = assignment\<rparr>
         in append_event db \<lparr>en_id = ef_id f, en_run = aq_run q, en_seq = ef_sequence f, en_json = en_render env f\<rparr>))"

fun emit_all ::
  "assign_env \<Rightarrow> 'a journal_db_scheme \<Rightarrow> assignment_request \<Rightarrow> nat \<Rightarrow> nat \<Rightarrow>
     (string \<times> usd option \<times> string option) list \<Rightarrow> 'a journal_db_scheme res" where
  "emit_all env db q k j [] = Inr db"
| "emit_all env db q k j (ev # evs) = res_bind (emit env db q k j ev) (\<lambda>db'. emit_all env db' q k (Suc j) evs)"

definition validate_ownership :: "'a journal_db_scheme \<Rightarrow> assignment_request \<Rightarrow> unit res" where
  "validate_ownership db q =
     raise_if (\<not> list_ex (\<lambda>a. at_id a = aq_attempt q \<and> at_number a = aq_number q \<and>
        list_ex (\<lambda>t. ta_id t = at_task a \<and> ta_id t = aq_task q \<and> ta_run t = aq_run q \<and>
          list_ex (\<lambda>r. ru_id r = ta_run t \<and> ru_session r = aq_session q) (jd_runs db)) (jd_tasks db))
        (jd_attempts db))
       (ValueError ''assignment identifiers do not describe one persisted attempt'')"

definition decision_key :: "assignment_request \<Rightarrow> string" where
  "decision_key q =
     (case aq_fallback q of
        None \<Rightarrow> ''assignment:attempt:'' @ aq_attempt q @ '':primary''
      | Some f \<Rightarrow> ''assignment:attempt:'' @ aq_attempt q @ '':fallback:'' @ f)"

definition existing_assignment ::
  "'a journal_db_scheme \<Rightarrow> string \<Rightarrow> task_assignment option res" where
  "existing_assignment db key =
     (case List.find (\<lambda>a. as_key a = key) (jd_assignments db) of
        None \<Rightarrow> Inr None
      | Some a \<Rightarrow> res_bind (read_assignment (as_payload a)) (\<lambda>t. Inr (Some t)))"

definition with_escalation_baseline :: "'a journal_db_scheme \<Rightarrow> assignment_request \<Rightarrow> assignment_request" where
  "with_escalation_baseline db q =
     (if aq_number q \<noteq> 2 then q
      else
        (let prior = filter (\<lambda>a. list_ex (\<lambda>p. at_id p = as_attempt a \<and> at_task p = aq_task q \<and> at_number p = 1)
                 (jd_attempts db)) (jd_assignments db);
             fit = (if prior = [] then None
                    else Option.bind (json_get (as_payload (last prior)) ''capability_fit'') as_num)
         in q\<lparr>aq_requirements := (aq_requirements q)\<lparr>rr_escalated := True, rr_failed_fit := fit\<rparr>\<rparr>))"

text \<open>The source of a fallback: model, reservation, amount and status.\<close>

definition fallback_source ::
  "'a journal_db_scheme \<Rightarrow> assignment_request \<Rightarrow> (string \<times> reservation_row) option res" where
  "fallback_source db q =
     (case aq_fallback q of
        None \<Rightarrow> Inr None
      | Some f \<Rightarrow>
          (case List.find (\<lambda>a. as_id a = f) (jd_assignments db) of
             None \<Rightarrow> Inl (ValueError ''fallback source must belong to the same persisted attempt'')
           | Some a \<Rightarrow>
               if as_attempt a \<noteq> aq_attempt q
                 then Inl (ValueError ''fallback source must belong to the same persisted attempt'')
               else
                 res_bind (case Option.bind (json_get (as_payload a) ''reservation_id'') as_str of
                     None \<Rightarrow> Inl (KeyError ''reservation_id'') | Some r \<Rightarrow> Inr r) (\<lambda>rid.
                 (case reservation_by_id db rid of
                    None \<Rightarrow> Inl (ValueError ''fallback source reservation is missing'')
                  | Some r \<Rightarrow> Inr (Some (as_model a, r))))))"

definition refundable :: "(string \<times> reservation_row) option \<Rightarrow> usd" where
  "refundable source =
     (case source of Some (m, r) \<Rightarrow> if rs_status r = R_RESERVED then rs_amount r else 0 | None \<Rightarrow> 0)"

definition available_for ::
  "'a journal_db_scheme \<Rightarrow> assignment_request \<Rightarrow> usd option \<Rightarrow> usd \<Rightarrow> usd option" where
  "available_for db q run_available refund =
     (let run = map_option (\<lambda>a. a + refund) run_available in
      case aq_task_limit q of
        None \<Rightarrow> run
      | Some l \<Rightarrow>
          (let task = l - task_committed_usd db (aq_run q) (aq_task q) + refund
           in Some (case run of None \<Rightarrow> task | Some a \<Rightarrow> min a task)))"

definition allows_unpriced_manual :: "assignment_request \<Rightarrow> budget_snapshot \<Rightarrow> bool" where
  "allows_unpriced_manual q budget \<longleftrightarrow>
     rr_mode (aq_requirements q) = MANUAL \<and> aq_task_limit q = None \<and> sn_limit budget = None"

definition failure_of :: "string \<Rightarrow> assign_result" where
  "failure_of reason = Unroutable \<lparr>rf_excluded = [(reason, 1)], rf_binding = Some reason, rf_floor = None, rf_best = []\<rparr>"

definition release_fallback_source ::
  "assign_env \<Rightarrow> 'a journal_db_scheme \<Rightarrow> assignment_request \<Rightarrow> nat \<Rightarrow> (string \<times> reservation_row) option \<Rightarrow>
     'a journal_db_scheme res" where
  "release_fallback_source env db q k source =
     (case source of
        None \<Rightarrow> Inr db
      | Some (m, r) \<Rightarrow>
          if rs_status r \<noteq> R_RESERVED then Inr db
          else res_bind (update_warning (en_percent env) (set_reservation db (rs_id r) R_RELEASED) (aq_run q)) (\<lambda>(db1, w).
            emit env db1 q k 2 (''budget.released'', Some (rs_amount r), None)))"

definition request_for ::
  "assign_env \<Rightarrow> assignment_request \<Rightarrow> nat \<Rightarrow> usd option \<Rightarrow> reservation_request" where
  "request_for env q k cost =
     \<lparr>rq_id = en_fresh env k 1, rq_run = aq_run q, rq_task = Some (aq_task q),
      rq_amount = (case cost of None \<Rightarrow> 0 | Some c \<Rightarrow> c),
      rq_key = ''assignment-reservation:'' @ en_fresh env k 0,
      rq_purpose = (if cost = None then ''unpriced_manual'' else ''task_attempt'')\<rparr>"

fun nat_text :: "nat \<Rightarrow> string" where
  "nat_text n = (if n < 10 then [char_of (48 + n)] else nat_text (n div 10) @ [char_of (48 + n mod 10)])"

definition explanation_of :: "route_selection \<Rightarrow> string list" where
  "explanation_of s =
     (if rc_cost (sel_candidate s) = None then [''estimated cost unavailable; no hard-budget reservation''] else []) @
     [sel_reason s, ''binding_constraint='' @ (case sel_binding s of None \<Rightarrow> ''none'' | Some b \<Rightarrow> b)] @
     [''included='' @ nat_text (sel_included s)] @
     map (\<lambda>(k, v). ''excluded.'' @ k @ ''='' @ nat_text v) (sel_excluded s)"

definition assignment_of ::
  "assign_env \<Rightarrow> assignment_request \<Rightarrow> nat \<Rightarrow> route_selection \<Rightarrow> task_assignment" where
  "assignment_of env q k s =
     (let p = rc_profile (sel_candidate s) in
      \<lparr>tk_id = en_fresh env k 0, tk_task = aq_task q, tk_number = aq_number q, tk_provider = mp_provider p,
       tk_model = mp_model p, tk_mode = mode_name (rr_mode (aq_requirements q)),
       tk_floor = rr_floor (aq_requirements q),
       tk_fit = (if mp_auto_eligible p then sel_fit s else None),
       tk_cost = (case rc_cost (sel_candidate s) of None \<Rightarrow> 0 | Some c \<Rightarrow> c),
       tk_reservation = en_fresh env k 1, tk_explanation = explanation_of s, tk_catalog = aq_catalog q\<rparr>)"

definition persist_events :: "assignment_request \<Rightarrow> task_assignment \<Rightarrow> bool \<Rightarrow> (string \<times> usd option \<times> string option) list" where
  "persist_events q a warning =
     [(''budget.reserved'', Some (tk_cost a), None)] @
     (if warning then [(''budget.warned'', Some (tk_cost a), None)] else []) @
     [(if aq_fallback q = None then ''route.selected'' else ''route.fallback'', None, Some (tk_id a))]"

definition persist ::
  "assign_env \<Rightarrow> 'a journal_db_scheme \<Rightarrow> assignment_request \<Rightarrow> nat \<Rightarrow> route_selection \<Rightarrow> budget_snapshot \<Rightarrow>
     routing_snapshot \<Rightarrow> ('a journal_db_scheme \<times> task_assignment) res" where
  "persist env db q k s budget sh =
     (let c = sel_candidate s; rq = request_for env q k (rc_cost c) in
      res_bind (raise_if (rq_amount rq < 0) (ValueError ''reservation.amount'')) (\<lambda>_.
      res_bind (reserve_in_transaction (en_percent env) db rq (aq_task_limit q) 0) (\<lambda>(db1, reservation).
      res_bind (validate_assignment (assignment_of env q k s)) (\<lambda>a.
      res_bind (create_assignment (en_scrub env) db1 (tk_id a) (aq_attempt q) (tk_provider a) (tk_model a)
          (tk_cost a) (Some (decision_key q)) (JObj (assignment_fields a @ decision_fields q c budget sh))) (\<lambda>db2.
      res_bind (emit_all env db2 q k 3 (persist_events q a (rr_warning reservation))) (\<lambda>db3.
      Inr (db3, a)))))))"

section \<open>Decisions\<close>

definition snapshot_stale :: "assign_env \<Rightarrow> (routing_snapshot \<Rightarrow> bool) \<Rightarrow> assignment_request \<Rightarrow> routing_snapshot \<Rightarrow> bool" where
  "snapshot_stale env current q sh \<longleftrightarrow>
     \<not> current sh \<or> sh_catalog sh \<noteq> aq_catalog q \<or> sh_config sh \<noteq> en_config_rev env (aq_config q)"

text \<open>The three gates between a selection and its persistence.\<close>

definition selection_gate ::
  "assignment_request \<Rightarrow> budget_snapshot \<Rightarrow> (string \<times> reservation_row) option \<Rightarrow> route_result \<Rightarrow> assign_result + route_selection" where
  "selection_gate q budget source result =
     (case result of
        RouteFailed f \<Rightarrow> Inl (Unroutable f)
      | Selected s \<Rightarrow>
          if rc_cost (sel_candidate s) = None \<and> \<not> allows_unpriced_manual q budget
            then Inl (failure_of ''price_unavailable_for_reservation'')
          else if (case source of None \<Rightarrow> False
                   | Some (m, r) \<Rightarrow> mp_model (rc_profile (sel_candidate s)) \<noteq> m)
            then Inl (failure_of ''fallback_model_mismatch'')
          else Inr s)"

definition assign_once ::
  "assign_env \<Rightarrow> (routing_snapshot \<Rightarrow> bool) \<Rightarrow> 'a journal_db_scheme \<Rightarrow> assignment_request \<Rightarrow> nat \<Rightarrow> routing_snapshot \<Rightarrow>
     ('a journal_db_scheme \<times> assign_result) res" where
  "assign_once env current db q0 k sh =
     res_bind (validate_ownership db q0) (\<lambda>_.
     res_bind (existing_assignment db (decision_key q0)) (\<lambda>existing.
     (case existing of
        Some a \<Rightarrow> Inr (db, Assigned a)
      | None \<Rightarrow>
          (let q = with_escalation_baseline db q0 in
           res_bind (fallback_source db q) (\<lambda>source.
           res_bind (budget_snapshot_of db (aq_run q)) (\<lambda>budget.
           if snapshot_stale env current q sh then Inl (StaleRoutingSnapshot ''routing inputs changed'')
           else
             res_bind (select_model (sh_candidates sh) (aq_requirements q)
                 (available_for db q (sn_available budget) (refundable source)) (aq_manual q)) (\<lambda>result.
             (case selection_gate q budget source result of
                Inl failure \<Rightarrow> Inr (db, failure)
              | Inr s \<Rightarrow>
                  res_bind (release_fallback_source env db q k source) (\<lambda>db1.
                  res_bind (persist env db1 q k s budget sh) (\<lambda>(db2, a).
                    Inr (db2, Assigned a)))))))))))"

text \<open>A stale snapshot is retried with a new one, at most \<open>max_snapshot_retries\<close> times.\<close>

fun assign_retry ::
  "assign_env \<Rightarrow> (routing_snapshot \<Rightarrow> bool) \<Rightarrow> 'a journal_db_scheme \<Rightarrow> assignment_request \<Rightarrow> nat \<Rightarrow>
     (nat \<Rightarrow> routing_snapshot) \<Rightarrow> nat \<Rightarrow> nat \<Rightarrow> ('a journal_db_scheme \<times> assign_result) res" where
  "assign_retry env current db q k snaps attempt left =
     (case assign_once env current db q k (snaps attempt) of
        Inl (StaleRoutingSnapshot m) \<Rightarrow>
          (case left of 0 \<Rightarrow> Inl (StaleRoutingSnapshot m)
           | Suc l \<Rightarrow> assign_retry env current db q k snaps (Suc attempt) l)
      | result \<Rightarrow> result)"

declare assign_retry.simps [simp del]

definition assign ::
  "assign_env \<Rightarrow> (routing_snapshot \<Rightarrow> bool) \<Rightarrow> 'a journal_db_scheme \<Rightarrow> assignment_request \<Rightarrow> nat \<Rightarrow>
     (nat \<Rightarrow> routing_snapshot) \<Rightarrow> nat \<Rightarrow> ('a journal_db_scheme \<times> assign_result) res" where
  "assign env current db q k snaps max_snapshot_retries =
     assign_retry env current db q k snaps 0 max_snapshot_retries"

section \<open>Batches\<close>

record batch_result =
  br_assignments :: "task_assignment list"
  br_deferred :: "string list"
  br_lead :: "string option"
  br_failures :: "(string \<times> string option \<times> (string \<times> nat) list) list"

record batch_db = journal_db +
  jd_batches :: "(string \<times> batch_result) list"

definition batch_key :: "assignment_request list \<Rightarrow> string" where
  "batch_key qs = ''assignment-batch:'' @ join_on CHR '':'' (map aq_attempt qs)"

definition capped :: "usd option \<Rightarrow> usd option \<Rightarrow> usd option" where
  "capped run task = (case (run, task) of
     (None, t) \<Rightarrow> t | (r, None) \<Rightarrow> r | (Some a, Some b) \<Rightarrow> Some (min a b))"

text \<open>
  The planning loop: what is left for the run after the lead's allowance and the requests
  selected so far bounds the next selection.
\<close>

fun plan_batch ::
  "assign_env \<Rightarrow> 'a journal_db_scheme \<Rightarrow> budget_snapshot \<Rightarrow> (assignment_request \<Rightarrow> routing_snapshot) \<Rightarrow> usd option \<Rightarrow>
     assignment_request list \<Rightarrow>
     ((assignment_request \<times> route_selection \<times> routing_snapshot) list \<times>
        (string \<times> string option \<times> (string \<times> nat) list) list) res" where
  "plan_batch env db budget snaps remaining [] = Inr ([], [])"
| "plan_batch env db budget snaps remaining (q # qs) =
     (let sh = snaps q in
      if sh_catalog sh \<noteq> aq_catalog q then Inl (ValueError ''catalog revision changed during batch assignment'')
      else if sh_config sh \<noteq> en_config_rev env (aq_config q)
        then Inl (ValueError ''config revision changed during batch assignment'')
      else
        res_bind (select_model (sh_candidates sh) (aq_requirements q)
            (capped remaining (map_option (\<lambda>l. l - task_committed_usd db (aq_run q) (aq_task q)) (aq_task_limit q)))
            (aq_manual q)) (\<lambda>result.
        (case result of
           RouteFailed f \<Rightarrow>
             res_bind (plan_batch env db budget snaps remaining qs) (\<lambda>(ss, ds).
               Inr (ss, (aq_task q, rf_binding f, rf_excluded f) # ds))
         | Selected s \<Rightarrow>
             if rc_cost (sel_candidate s) = None \<and> \<not> allows_unpriced_manual q budget then
               res_bind (plan_batch env db budget snaps remaining qs) (\<lambda>(ss, ds).
                 Inr (ss, (aq_task q, Some ''price_unavailable_for_reservation'',
                       [(''price_unavailable_for_reservation'', 1)]) # ds))
             else if remaining \<noteq> None \<and> rc_cost (sel_candidate s) = None
               then Inl (AssertionError ''estimated cost'')
             else
               res_bind (plan_batch env db budget snaps
                   (map_option (\<lambda>r. r - the (rc_cost (sel_candidate s))) remaining) qs) (\<lambda>(ss, ds).
                 Inr ((q, s, sh) # ss, ds)))))"

fun persist_batch ::
  "assign_env \<Rightarrow> 'a journal_db_scheme \<Rightarrow> nat \<Rightarrow> (assignment_request \<times> route_selection \<times> routing_snapshot) list \<Rightarrow>
     ('a journal_db_scheme \<times> task_assignment list) res" where
  "persist_batch env db k [] = Inr (db, [])"
| "persist_batch env db k ((q, s, sh) # rest) =
     res_bind (budget_snapshot_of db (aq_run q)) (\<lambda>budget.
     res_bind (persist env db q k s budget sh) (\<lambda>(db1, a).
     res_bind (persist_batch env db1 (Suc k) rest) (\<lambda>(db2, as).
       Inr (db2, a # as))))"

definition lead_request :: "assign_env \<Rightarrow> string \<Rightarrow> nat \<Rightarrow> usd \<Rightarrow> reservation_request" where
  "lead_request env rid k lead =
     \<lparr>rq_id = en_fresh env k 1, rq_run = rid, rq_task = None, rq_amount = lead,
      rq_key = ''batch-lead:'' @ en_fresh env k 1, rq_purpose = ''lead_continuation''\<rparr>"

definition assign_batch ::
  "assign_env \<Rightarrow> batch_db \<Rightarrow> assignment_request list \<Rightarrow> nat \<Rightarrow> (assignment_request \<Rightarrow> routing_snapshot) \<Rightarrow> usd \<Rightarrow>
     (batch_db \<times> batch_result) res" where
  "assign_batch env db qs0 k snaps lead =
     (case qs0 of
        [] \<Rightarrow> Inr (db, \<lparr>br_assignments = [], br_deferred = [], br_lead = None, br_failures = []\<rparr>)
      | q0 # _ \<Rightarrow>
          if list_ex (\<lambda>q. aq_run q \<noteq> aq_run q0) qs0 then Inl (ValueError ''one batch cannot span runs'')
          else
            res_bind (check_all (validate_ownership db) qs0) (\<lambda>_.
            (let qs = map (with_escalation_baseline db) qs0 in
             case List.find (\<lambda>b. fst b = batch_key qs) (jd_batches db) of
               Some b \<Rightarrow> Inr (db, snd b)
             | None \<Rightarrow>
                 res_bind (budget_snapshot_of db (aq_run q0)) (\<lambda>budget.
                 res_bind (plan_batch env db budget snaps (map_option (\<lambda>a. a - lead) (sn_available budget)) qs) (\<lambda>(ss, ds).
                 if ss = [] then Inr (db, \<lparr>br_assignments = [], br_deferred = map aq_task qs, br_lead = None, br_failures = ds\<rparr>)
                 else
                   res_bind (raise_if (lead < 0) (ValueError ''reservation.amount'')) (\<lambda>_.
                   res_bind (reserve_in_transaction (en_percent env) db (lead_request env (aq_run q0) k lead) None 0) (\<lambda>(db1, r).
                   res_bind (persist_batch env db1 (Suc k) ss) (\<lambda>(db2, as).
                     (let result = \<lparr>br_assignments = as, br_deferred = map fst ds,
                            br_lead = Some (en_fresh env k 1), br_failures = ds\<rparr>
                      in Inr (db2\<lparr>jd_batches := jd_batches db2 @ [(batch_key qs, result)]\<rparr>, result))))))))))"

section \<open>What a decision leaves alone\<close>

definition same_ledger :: "'a journal_db_scheme \<Rightarrow> 'a journal_db_scheme \<Rightarrow> bool" where
  "same_ledger db db' \<longleftrightarrow> jd_reservations db' = jd_reservations db \<and> jd_usage db' = jd_usage db \<and> jd_runs db' = jd_runs db"

lemma same_ledgerD:
  "same_ledger db db' \<Longrightarrow> committed db' rid = committed db rid"
  "same_ledger db db' \<Longrightarrow> run_limit db' rid = run_limit db rid"
  "same_ledger db db' \<Longrightarrow> ledger_ok db' \<longleftrightarrow> ledger_ok db"
  by (simp_all add: same_ledger_def committed_def run_limit_def ledger_ok_def usage_reservations_def)

definition same_owners :: "'a journal_db_scheme \<Rightarrow> 'a journal_db_scheme \<Rightarrow> bool" where
  "same_owners db db' \<longleftrightarrow> jd_attempts db' = jd_attempts db \<and> jd_tasks db' = jd_tasks db \<and> jd_runs db' = jd_runs db"

lemma same_owners_refl [simp]: "same_owners db db" by (simp add: same_owners_def)

lemma same_owners_trans: "same_owners a b \<Longrightarrow> same_owners b c \<Longrightarrow> same_owners a c"
  by (simp add: same_owners_def)

lemma validate_ownership_same: "same_owners db db' \<Longrightarrow> validate_ownership db' q = validate_ownership db q"
  by (simp add: same_owners_def validate_ownership_def)

lemma emit_frame:
  "emit env db q k j ev = Inr db' \<Longrightarrow> same_ledger db db' \<and> same_owners db db' \<and> jd_assignments db' = jd_assignments db"
  by (auto simp: emit_def append_event_def res_simps Let_def same_ledger_def same_owners_def split: prod.splits)

lemma emit_all_frame:
  "emit_all env db q k j evs = Inr db' \<Longrightarrow>
     same_ledger db db' \<and> same_owners db db' \<and> jd_assignments db' = jd_assignments db"
proof (induction evs arbitrary: db j)
  case Nil
  then show ?case by (simp add: same_ledger_def)
next
  case (Cons ev evs)
  then obtain db1 where "emit env db q k j ev = Inr db1" "emit_all env db1 q k (Suc j) evs = Inr db'"
    by (auto simp: res_simps)
  with emit_frame [OF this(1)] Cons.IH [OF this(2)] show ?case
    by (simp add: same_ledger_def same_owners_def)
qed

lemma create_assignment_frame:
  "create_assignment scrub db i a p m c key payload = Inr db' \<Longrightarrow> same_ledger db db' \<and> same_owners db db'"
  by (auto simp: create_assignment_def res_simps Let_def same_ledger_def same_owners_def)

text \<open>The budget invariant of one run.\<close>

definition within_budget :: "'a journal_db_scheme \<Rightarrow> string \<Rightarrow> bool" where
  "within_budget db rid \<longleftrightarrow> ledger_ok db \<and> (\<forall>l. run_limit db rid = Some (Some l) \<longrightarrow> committed db rid \<le> l)"

lemma within_same: "same_ledger db db' \<Longrightarrow> within_budget db' rid \<longleftrightarrow> within_budget db rid"
  by (simp add: within_budget_def same_ledgerD)

lemma reserve_within:
  assumes w: "within_budget db rid" and r: "reserve_in_transaction percent db q task_limit lead = Inr (db', x)"
    and a: "0 \<le> rq_amount q" "0 \<le> lead"
  shows "within_budget db' rid"
  unfolding within_budget_def
proof (intro conjI allI impI)
  show "ledger_ok db'" using reserve_ledger_ok [OF _ a(1) r] w by (simp add: within_budget_def)
  fix l
  assume "run_limit db' rid = Some (Some l)"
  then have l: "run_limit db rid = Some (Some l)" using reserve_committed [OF r, of rid] by simp
  show "committed db' rid \<le> l"
  proof (cases "rq_run q = rid \<and> reservation_by_key db (rq_key q) = None")
    case True
    then obtain limit where "run_limit db rid = Some limit"
      "\<And>l. limit = Some l \<Longrightarrow> rq_amount q + lead \<le> l - committed db rid"
      using reserve_new [OF _ r] by metis
    with l a reserve_committed [OF r, of rid] True show ?thesis by force
  next
    case False
    then have "committed db' rid = committed db rid" using reserve_committed [OF r, of rid] by auto
    with w l show ?thesis by (simp add: within_budget_def)
  qed
qed

lemma reserve_owners:
  "reserve_in_transaction percent db q task_limit lead = Inr (db', x) \<Longrightarrow>
     same_owners db db' \<and> jd_assignments db' = jd_assignments db"
  by (auto simp: reserve_in_transaction_def create_reservation_def res_simps same_owners_def
      dest!: update_warning_Inr split: option.splits if_splits prod.splits)

lemma persist_steps:
  assumes "persist env db q k s budget sh = Inr (db', a)"
  obtains db1 r db2 where "0 \<le> rq_amount (request_for env q k (rc_cost (sel_candidate s)))"
    "reserve_in_transaction (en_percent env) db (request_for env q k (rc_cost (sel_candidate s))) (aq_task_limit q) 0 = Inr (db1, r)"
    "validate_assignment (assignment_of env q k s) = Inr a"
    "create_assignment (en_scrub env) db1 (tk_id a) (aq_attempt q) (tk_provider a) (tk_model a)
          (tk_cost a) (Some (decision_key q)) (JObj (assignment_fields a @ decision_fields q (sel_candidate s) budget sh)) = Inr db2"
    "emit_all env db2 q k 3 (persist_events q a (rr_warning r)) = Inr db'"
  using assms that by (auto simp: persist_def Let_def res_simps not_less split: prod.splits)

lemma persist_within:
  assumes "persist env db q k s budget sh = Inr (db', a)" "within_budget db rid"
  shows "within_budget db' rid \<and> same_owners db db'"
proof (rule persist_steps [OF assms(1)])
  fix db1 r db2
  assume st: "0 \<le> rq_amount (request_for env q k (rc_cost (sel_candidate s)))"
    "reserve_in_transaction (en_percent env) db (request_for env q k (rc_cost (sel_candidate s))) (aq_task_limit q) 0 = Inr (db1, r)"
    "create_assignment (en_scrub env) db1 (tk_id a) (aq_attempt q) (tk_provider a) (tk_model a)
          (tk_cost a) (Some (decision_key q)) (JObj (assignment_fields a @ decision_fields q (sel_candidate s) budget sh)) = Inr db2"
    "emit_all env db2 q k 3 (persist_events q a (rr_warning r)) = Inr db'"
  have "within_budget db1 rid" by (rule reserve_within [OF assms(2) st(2,1)]) simp
  with create_assignment_frame [OF st(3)] emit_all_frame [OF st(4)] reserve_owners [OF st(2)]
  show ?thesis using within_same same_owners_trans by blast
qed

lemma release_fallback_within:
  assumes rel: "release_fallback_source env db q k source = Inr db'" and w: "within_budget db rid"
    and src: "\<And>m r. source = Some (m, r) \<Longrightarrow> reservation_by_id db (rs_id r) = Some r"
  shows "within_budget db' rid \<and> same_owners db db' \<and> jd_assignments db' = jd_assignments db"
proof (cases source)
  case None
  with rel w show ?thesis by (simp add: release_fallback_source_def)
next
  case (Some p)
  obtain m r where p: "p = (m, r)" by (cases p)
  show ?thesis
  proof (cases "rs_status r = R_RESERVED")
    case False
    with rel w Some p show ?thesis by (simp add: release_fallback_source_def)
  next
    case True
    let ?d = "set_reservation db (rs_id r) R_RELEASED"
    from rel True Some p obtain db1 x where u: "update_warning (en_percent env) ?d (aq_run q) = Inr (db1, x)"
      and e: "emit env db1 q k 2 (''budget.released'', Some (rs_amount r), None) = Inr db'"
      by (auto simp: release_fallback_source_def res_simps)
    from update_warning_Inr [OF u] obtain w' where db1: "db1 = ?d\<lparr>jd_warning := w'\<rparr>" by auto
    have ok: "ledger_ok db" using w by (simp add: within_budget_def)
    have by_id: "reservation_by_id db (rs_id r) = Some r" using src Some p by simp
    have "0 \<le> rs_amount r" using reservation_by_id_Some [OF by_id] ledger_okD(5) [OF ok] by blast
    then have "committed db1 rid \<le> committed db rid"
      using committed_set_reservation [OF ok by_id True, of R_RELEASED] by (simp add: db1)
    moreover have "ledger_ok db1" using ledger_ok_release [OF ok by_id True] by (simp add: db1)
    moreover have "run_limit db1 rid = run_limit db rid" by (simp add: db1) (simp add: run_limit_def set_reservation_def)
    ultimately have "within_budget db1 rid" using w by (auto simp: within_budget_def)
    moreover have "same_owners db db1" "jd_assignments db1 = jd_assignments db"
      by (simp_all add: db1 same_owners_def set_reservation_def)
    ultimately show ?thesis using emit_frame [OF e] within_same same_owners_trans by metis
  qed
qed

lemma fallback_source_row:
  "fallback_source db q = Inr (Some (m, r)) \<Longrightarrow> reservation_by_id db (rs_id r) = Some r"
  by (auto simp: fallback_source_def res_simps split: option.splits if_splits dest: reservation_by_id_Some)

lemma assign_once_within:
  assumes a: "assign_once env current db q0 k sh = Inr (db', res)" and w: "within_budget db rid"
  shows "within_budget db' rid \<and> same_owners db db'"
proof -
  obtain ex where ex: "existing_assignment db (decision_key q0) = Inr ex"
    using a by (auto simp: assign_once_def res_simps)
  show ?thesis
  proof (cases ex)
    case (Some x)
    with a ex w show ?thesis by (simp add: assign_once_def res_simps)
  next
    case None
    let ?q = "with_escalation_baseline db q0"
    from a ex None obtain source budget result where src: "fallback_source db ?q = Inr source"
      and b: "budget_snapshot_of db (aq_run ?q) = Inr budget"
      and g: "(case selection_gate ?q budget source result of
                Inl failure \<Rightarrow> Inr (db, failure)
              | Inr s \<Rightarrow>
                  res_bind (release_fallback_source env db ?q k source) (\<lambda>db1.
                  res_bind (persist env db1 ?q k s budget sh) (\<lambda>(db2, a). Inr (db2, Assigned a)))) = Inr (db', res)"
      by (auto simp: assign_once_def res_simps Let_def split: if_splits)
    show ?thesis
    proof (cases "selection_gate ?q budget source result")
      case (Inl f)
      with g w show ?thesis by simp
    next
      case (Inr s)
      with g obtain db1 a' where r: "release_fallback_source env db ?q k source = Inr db1"
        and p: "persist env db1 ?q k s budget sh = Inr (db', a')"
        by (auto simp: res_simps split: prod.splits)
      have "within_budget db1 rid \<and> same_owners db db1"
        using release_fallback_within [OF r w] src fallback_source_row by blast
      with persist_within [OF p] show ?thesis using same_owners_trans by blast
    qed
  qed
qed

lemma assign_retry_once:
  "assign_retry env current db q k snaps attempt left = Inr res \<Longrightarrow>
     \<exists>n. assign_once env current db q k (snaps n) = Inr res"
proof (induction left arbitrary: attempt)
  case 0
  then show ?case
    by (subst (asm) assign_retry.simps) (auto split: sum.splits py_exn.splits)
next
  case (Suc l)
  then show ?case
    by (subst (asm) assign_retry.simps) (auto split: sum.splits py_exn.splits)
qed

lemma assign_within:
  "assign env current db q k snaps n = Inr (db', res) \<Longrightarrow> within_budget db rid \<Longrightarrow>
     within_budget db' rid \<and> same_owners db db'"
  unfolding assign_def by (drule assign_retry_once) (blast dest: assign_once_within)

lemma persist_batch_within:
  "persist_batch env db k ss = Inr (db', as) \<Longrightarrow> within_budget db rid \<Longrightarrow>
     within_budget db' rid \<and> same_owners db db'"
proof (induction ss arbitrary: db k as)
  case Nil
  then show ?case by simp
next
  case (Cons x ss)
  obtain q s sh where x: "x = (q, s, sh)" by (cases x)
  from Cons.prems(1) x obtain budget db1 a as' where
    p: "persist env db q k s budget sh = Inr (db1, a)" and
    rest: "persist_batch env db1 (Suc k) ss = Inr (db', as')"
    by (auto simp: res_simps split: prod.splits)
  from persist_within [OF p Cons.prems(2)] Cons.IH [OF rest] show ?case
    using same_owners_trans by blast
qed

lemma same_ledger_batches:
  "within_budget (db\<lparr>jd_batches := bs\<rparr>) rid \<longleftrightarrow> within_budget (db :: batch_db) rid"
  by (rule within_same) (simp add: same_ledger_def)

lemma with_escalation_fields [simp]:
  "aq_attempt (with_escalation_baseline db q) = aq_attempt q"
  "aq_fallback (with_escalation_baseline db q) = aq_fallback q"
  "aq_run (with_escalation_baseline db q) = aq_run q"
  "aq_task (with_escalation_baseline db q) = aq_task q"
  "aq_task_limit (with_escalation_baseline db q) = aq_task_limit q"
  by (simp_all add: with_escalation_baseline_def Let_def)

lemma with_escalation_decision [simp]: "decision_key (with_escalation_baseline db q) = decision_key q"
  by (cases "aq_fallback q") (simp_all add: decision_key_def)

lemma batch_key_baseline [simp]: "batch_key (map (with_escalation_baseline db) qs) = batch_key qs"
  by (simp add: batch_key_def comp_def)

lemma assign_batch_cases:
  assumes "assign_batch env db qs0 k snaps lead = Inr (db', res)"
  obtains (empty) "db' = db" "br_lead res = None"
  | (found) b where "db' = db" "check_all (validate_ownership db) qs0 = Inr ()" "qs0 \<noteq> []"
      "\<not> list_ex (\<lambda>q. aq_run q \<noteq> aq_run (hd qs0)) qs0" "snd b = res"
      "List.find (\<lambda>b. fst b = batch_key (map (with_escalation_baseline db) qs0)) (jd_batches db) = Some b"
  | (made) db1 r db2 as ss ds q0 budget where "qs0 \<noteq> []" "q0 = hd qs0" "0 \<le> lead"
      "check_all (validate_ownership db) qs0 = Inr ()"
      "plan_batch env db budget snaps (map_option (\<lambda>a. a - lead) (sn_available budget)) (map (with_escalation_baseline db) qs0) = Inr (ss, ds)"
      "reserve_in_transaction (en_percent env) db (lead_request env (aq_run q0) k lead) None 0 = Inr (db1, r)"
      "persist_batch env db1 (Suc k) ss = Inr (db2, as)"
      "db' = db2\<lparr>jd_batches := jd_batches db2 @ [(batch_key (map (with_escalation_baseline db) qs0), res)]\<rparr>"
      "\<not> list_ex (\<lambda>q. aq_run q \<noteq> aq_run q0) qs0"
      "List.find (\<lambda>b. fst b = batch_key (map (with_escalation_baseline db) qs0)) (jd_batches db) = None"
proof -
  show thesis
  proof (cases qs0)
    case Nil
    then show thesis using assms by (intro empty) (auto simp: assign_batch_def)
  next
    case (Cons q0 qs')
    have ne: "qs0 \<noteq> []" and hd: "q0 = hd qs0" using Cons by simp_all
    note run = assms [unfolded assign_batch_def Let_def, unfolded Cons, unfolded list.case, folded Cons]
    from run have one: "\<not> list_ex (\<lambda>q. aq_run q \<noteq> aq_run q0) qs0" by (simp only: split: if_splits) simp_all
    have own: "check_all (validate_ownership db) qs0 = Inr ()"
      using run one by (simp only: if_False res_bind_eq_Inr) auto
    note run = run [unfolded own res_bind_Inr, simplified one if_False]
    show thesis
    proof (cases "List.find (\<lambda>b. fst b = batch_key (map (with_escalation_baseline db) qs0)) (jd_batches db)")
      case (Some b)
      show thesis by (rule found [OF _ own ne]) (use run one hd Some in simp_all)
    next
      case None
      from run None obtain budget ss ds where
        plan: "plan_batch env db budget snaps (map_option (\<lambda>a. a - lead) (sn_available budget))
            (map (with_escalation_baseline db) qs0) = Inr (ss, ds)" and
        rest: "(if ss = [] then Inr (db, \<lparr>br_assignments = [],
                 br_deferred = map aq_task (map (with_escalation_baseline db) qs0), br_lead = None, br_failures = ds\<rparr>)
           else res_bind (raise_if (lead < 0) (ValueError ''reservation.amount'')) (\<lambda>_.
             res_bind (reserve_in_transaction (en_percent env) db (lead_request env (aq_run q0) k lead) None 0) (\<lambda>(db1, r).
             res_bind (persist_batch env db1 (Suc k) ss) (\<lambda>(db2, as).
               Inr (db2\<lparr>jd_batches := jd_batches db2 @ [(batch_key (map (with_escalation_baseline db) qs0),
                      \<lparr>br_assignments = as, br_deferred = map fst ds, br_lead = Some (en_fresh env k 1), br_failures = ds\<rparr>)]\<rparr>,
                    \<lparr>br_assignments = as, br_deferred = map fst ds, br_lead = Some (en_fresh env k 1), br_failures = ds\<rparr>))))) =
           Inr (db', res)"
        by (simp only: option.case res_bind_eq_Inr split_paired_Ex prod.case) blast
      show thesis
      proof (cases "ss = []")
        case True
        with rest show thesis by (intro empty) auto
      next
        case False
        from rest False obtain db1 r db2 as where st: "0 \<le> lead"
          "reserve_in_transaction (en_percent env) db (lead_request env (aq_run q0) k lead) None 0 = Inr (db1, r)"
          "persist_batch env db1 (Suc k) ss = Inr (db2, as)"
          "db' = db2\<lparr>jd_batches := jd_batches db2 @ [(batch_key (map (with_escalation_baseline db) qs0), res)]\<rparr>"
          by (simp only: if_False res_bind_eq_Inr split_paired_Ex prod.case raise_if_eq_Inr not_less) auto
        show thesis by (rule made [OF ne hd st(1) own plan st(2,3,4) one None])
      qed
    qed
  qed
qed

lemma assign_batch_within:
  assumes "assign_batch env db qs k snaps lead = Inr (db', res)" "within_budget db rid"
  shows "within_budget db' rid"
  using assms(1)
proof (cases rule: assign_batch_cases)
  case empty
  with assms(2) show ?thesis by simp
next
  case (found b)
  with assms(2) show ?thesis by simp
next
  case (made db1 r db2 as ss ds q0 budget)
  have "within_budget db1 rid"
    by (rule reserve_within [OF assms(2) made(6)]) (use made(3) in \<open>simp_all add: lead_request_def\<close>)
  with persist_batch_within [OF made(7)] made(8) show ?thesis by (simp add: same_ledger_batches)
qed

section \<open>One decision per attempt\<close>

lemma insert_new_key:
  assumes ins: "insert_idempotent clash key content rows r = Inr rows'"
    and new: "List.find (\<lambda>x. key x = key r) rows = None"
  shows "rows' = rows @ [r]"
  using assms by (auto simp: insert_idempotent_def split: if_splits)

lemma existing_assignment_None:
  "existing_assignment db key = Inr None \<longleftrightarrow> List.find (\<lambda>a. as_key a = key) (jd_assignments db) = None"
  by (auto simp: existing_assignment_def res_simps split: option.splits)

lemma decision_key_ne: "decision_key q \<noteq> []"
  by (auto simp: decision_key_def split: option.splits)

lemma persist_recorded:
  assumes p: "persist env db q k s budget sh = Inr (db', a)" and scrub: "\<And>j. en_scrub env j = j"
    and new: "List.find (\<lambda>x. as_key x = decision_key q) (jd_assignments db) = None"
  shows "existing_assignment db' (decision_key q) = Inr (Some a)"
proof (rule persist_steps [OF p])
  fix db1 r db2
  let ?payload = "JObj (assignment_fields a @ decision_fields q (sel_candidate s) budget sh)"
  assume st: "reserve_in_transaction (en_percent env) db (request_for env q k (rc_cost (sel_candidate s))) (aq_task_limit q) 0 = Inr (db1, r)"
    and v: "validate_assignment (assignment_of env q k s) = Inr a"
    and cr: "create_assignment (en_scrub env) db1 (tk_id a) (aq_attempt q) (tk_provider a) (tk_model a)
          (tk_cost a) (Some (decision_key q)) ?payload = Inr db2"
    and em: "emit_all env db2 q k 3 (persist_events q a (rr_warning r)) = Inr db'"
  have a: "validate_assignment a = Inr a"
    using v by (auto simp: validate_assignment_def res_simps split: if_splits)
  have none: "List.find (\<lambda>x. as_key x = decision_key q) (jd_assignments db1) = None"
    using new reserve_owners [OF st] by simp
  let ?row = "\<lparr>as_id = tk_id a, as_attempt = aq_attempt q, as_provider = tk_provider a, as_model = tk_model a,
      as_cost = tk_cost a, as_key = decision_key q, as_payload = ?payload\<rparr>"
  from cr obtain rows where ins: "insert_idempotent (assignment_clash db1) as_key (\<lambda>r. r) (jd_assignments db1) ?row = Inr rows"
    and db2: "db2 = db1\<lparr>jd_assignments := rows\<rparr>"
    using decision_key_ne [of q] scrub by (auto simp: create_assignment_def Let_def res_simps)
  have rows: "rows = jd_assignments db1 @ [?row]"
    by (rule insert_new_key [OF ins]) (use none in simp)
  have "jd_assignments db' = jd_assignments db1 @ [?row]"
    using emit_all_frame [OF em] by (simp add: db2 rows)
  then have "List.find (\<lambda>x. as_key x = decision_key q) (jd_assignments db') = Some ?row"
    using none by (simp add: find_append_none)
  then show ?thesis using read_assignment_fields [OF a] by (simp add: existing_assignment_def)
qed

lemma assign_once_recorded:
  assumes a: "assign_once env current db q0 k sh = Inr (db', Assigned t)" and scrub: "\<And>j. en_scrub env j = j"
    and w: "within_budget db (aq_run q0)"
  shows "existing_assignment db' (decision_key q0) = Inr (Some t) \<and> validate_ownership db' q0 = Inr ()"
proof -
  have own: "validate_ownership db' q0 = Inr ()"
    using validate_ownership_same assign_once_within [OF a w] a by (fastforce simp: assign_once_def res_simps)
  obtain ex where ex: "existing_assignment db (decision_key q0) = Inr ex"
    using a by (auto simp: assign_once_def res_simps)
  show ?thesis
  proof (cases ex)
    case (Some x)
    with a ex own show ?thesis by (auto simp: assign_once_def res_simps)
  next
    case None
    let ?q = "with_escalation_baseline db q0"
    from a ex None obtain source budget result where src: "fallback_source db ?q = Inr source"
      and g: "(case selection_gate ?q budget source result of
                Inl failure \<Rightarrow> Inr (db, failure)
              | Inr s \<Rightarrow>
                  res_bind (release_fallback_source env db ?q k source) (\<lambda>db1.
                  res_bind (persist env db1 ?q k s budget sh) (\<lambda>(db2, a). Inr (db2, Assigned a)))) = Inr (db', Assigned t)"
      by (auto simp: assign_once_def res_simps Let_def split: if_splits)
    show ?thesis
    proof (cases "selection_gate ?q budget source result")
      case (Inl f)
      then have "\<exists>x. f = Unroutable x"
        by (auto simp: selection_gate_def failure_of_def split: route_result.splits if_splits option.splits)
      with g Inl show ?thesis by auto
    next
      case (Inr s)
      with g obtain db1 where r: "release_fallback_source env db ?q k source = Inr db1"
        and p: "persist env db1 ?q k s budget sh = Inr (db', t)"
        by (auto simp: res_simps split: prod.splits)
      have "jd_assignments db1 = jd_assignments db"
        using release_fallback_within [OF r w] src fallback_source_row by blast
      then have "List.find (\<lambda>x. as_key x = decision_key ?q) (jd_assignments db1) = None"
        using ex None by (simp add: existing_assignment_None)
      from persist_recorded [OF p scrub this] own show ?thesis by simp
    qed
  qed
qed

lemma assign_replay:
  assumes "existing_assignment db (decision_key q) = Inr (Some t)" "validate_ownership db q = Inr ()"
  shows "assign env current db q k snaps n = Inr (db, Assigned t)"
  unfolding assign_def
  by (subst assign_retry.simps) (simp add: assign_once_def assms)

text \<open>Every step of a decision leaves the tables outside the journal's own alone.\<close>

lemma reserve_more:
  "reserve_in_transaction percent db q task_limit lead = Inr (db', x) \<Longrightarrow> journal_db.more db' = journal_db.more db"
  by (auto simp: reserve_in_transaction_def create_reservation_def res_simps
      dest!: update_warning_Inr split: option.splits if_splits prod.splits)

lemma emit_all_more: "emit_all env db q k j evs = Inr db' \<Longrightarrow> journal_db.more db' = journal_db.more db"
proof (induction evs arbitrary: db j)
  case Nil
  then show ?case by simp
next
  case (Cons ev evs)
  then obtain db1 where "emit env db q k j ev = Inr db1" and rest: "emit_all env db1 q k (Suc j) evs = Inr db'"
    by (auto simp: res_simps)
  then have "journal_db.more db1 = journal_db.more db"
    by (auto simp: emit_def append_event_def res_simps Let_def split: prod.splits)
  with Cons.IH [OF rest] show ?case by simp
qed

lemma persist_more: "persist env db q k s budget sh = Inr (db', a) \<Longrightarrow> journal_db.more db' = journal_db.more db"
  by (erule persist_steps)
    (auto simp: create_assignment_def res_simps Let_def dest!: reserve_more emit_all_more)

lemma persist_batch_more: "persist_batch env db k ss = Inr (db', as) \<Longrightarrow> journal_db.more db' = journal_db.more db"
proof (induction ss arbitrary: db k as)
  case Nil
  then show ?case by simp
next
  case (Cons x ss)
  obtain q s sh where x: "x = (q, s, sh)" by (cases x)
  from Cons.prems x obtain budget db1 a as' where
    p: "persist env db q k s budget sh = Inr (db1, a)" and
    rest: "persist_batch env db1 (Suc k) ss = Inr (db', as')"
    by (auto simp: res_simps split: prod.splits)
  from persist_more [OF p] Cons.IH [OF rest] show ?case by simp
qed

lemma batches_of_more: "journal_db.more db' = journal_db.more db \<Longrightarrow> jd_batches (db' :: batch_db) = jd_batches db"
  by (cases db; cases db') simp

lemma assign_batch_found:
  assumes "qs \<noteq> []" "check_all (validate_ownership db) qs = Inr ()"
    and "\<not> list_ex (\<lambda>q. aq_run q \<noteq> aq_run (hd qs)) qs"
    and "List.find (\<lambda>b. fst b = batch_key qs) (jd_batches db) = Some b"
  shows "assign_batch env db qs k snaps lead = Inr (db, snd b)"
proof -
  obtain q0 qs' where qs: "qs = q0 # qs'" using assms(1) by (cases qs) auto
  show ?thesis
    using assms(2-4) unfolding qs assign_batch_def list.case
    by (simp only: list.sel res_bind_Inr Let_def batch_key_baseline option.case if_False)
qed

lemma assign_batch_replay:
  assumes "assign_batch env db qs k snaps lead = Inr (db', res)" "br_lead res \<noteq> None"
    and w: "within_budget db (aq_run (hd qs))"
  shows "assign_batch env' db' qs k' snaps' lead' = Inr (db', res)"
  using assms(1)
proof (cases rule: assign_batch_cases)
  case empty
  with assms(2) show ?thesis by simp
next
  case (found b)
  with assign_batch_found [of qs db b env' k' snaps' lead'] show ?thesis by simp
next
  case (made db1 r db2 as ss ds q0 budget)
  have w1: "within_budget db1 (aq_run (hd qs))"
    by (rule reserve_within [OF w made(6)]) (use made(3) in \<open>simp_all add: lead_request_def\<close>)
  have "same_owners db db2"
    using reserve_owners [OF made(6)] persist_batch_within [OF made(7) w1] same_owners_trans by blast
  then have "same_owners db db'" using made(8) by (simp add: same_owners_def)
  then have own: "check_all (validate_ownership db') qs = Inr ()"
    using made(4) validate_ownership_same by (metis check_all_Inr)
  have b: "jd_batches db2 = jd_batches db"
    using reserve_more [OF made(6)] persist_batch_more [OF made(7)] by (intro batches_of_more) simp
  then have f: "List.find (\<lambda>b. fst b = batch_key qs) (jd_batches db') = Some (batch_key qs, res)"
    using made(8,10) by (simp add: find_append_none)
  from assign_batch_found [OF made(1) own _ f, of env' k' snaps' lead'] made(2,9) show ?thesis by simp
qed

section \<open>Histories of decisions\<close>

text \<open>
  One step of the service on a journal: a single decision, a batch, or the release of a
  reservation by the control surface.
\<close>

inductive decision_step :: "assign_env \<Rightarrow> batch_db \<Rightarrow> batch_db \<Rightarrow> bool" for env where
  single: "assign env current db q k snaps n = Inr (db', res) \<Longrightarrow> decision_step env db db'"
| batch: "assign_batch env db qs k batch_snaps lead = Inr (db', result) \<Longrightarrow> decision_step env db db'"
| released: "release_reservation (en_percent env) db i = Inr db' \<Longrightarrow> decision_step env db db'"

inductive_cases decision_stepE: "decision_step env db db'"

lemma release_within:
  assumes r: "release_reservation percent db i = Inr db'" and w: "within_budget db rid"
  shows "within_budget db' rid"
proof -
  have ok: "ledger_ok db" using w by (simp add: within_budget_def)
  show ?thesis
  proof (rule release_effect [OF ok r])
    fix r
    assume by_id: "reservation_by_id db i = Some r" and st: "ledger_ok db'"
      and l: "\<And>rid. run_limit db' rid = run_limit db rid"
      and c: "\<And>rid. committed db' rid = committed db rid -
        (if rs_run r = rid \<and> rs_status r = R_RESERVED then rs_amount r else 0)"
    have "0 \<le> rs_amount r" using reservation_by_id_Some [OF by_id] ledger_okD(5) [OF ok] by blast
    then have "committed db' rid \<le> committed db rid" using c [of rid] by simp
    with w st l show ?thesis by (auto simp: within_budget_def)
  qed
qed

lemma decision_step_within: "decision_step env db db' \<Longrightarrow> within_budget db rid \<Longrightarrow> within_budget db' rid"
  by (erule decision_stepE) (blast dest: assign_within assign_batch_within release_within)+

section \<open>Properties\<close>

text \<open>
  C16: no history of assignment decisions overcommits a run.  Whatever single decisions, fallbacks,
  batches with their lead's allowance and releases the service makes, in any order and from any
  routing snapshots, a run within its hard limit stays within it.
\<close>

theorem assignments_within_budget:
  assumes "(decision_step env)\<^sup>*\<^sup>* db db'" and "within_budget db rid"
  shows "within_budget db' rid"
  using assms by (induction rule: rtranclp_induct) (auto intro: decision_step_within)

definition ex_assign_env :: assign_env where
  "ex_assign_env = \<lparr>en_percent = 8/10,
     en_fresh = (\<lambda>k j. replicate 8 (char_of (97 + k)) @ ''-0000-4000-8000-00000000000'' @ [char_of (48 + j)]),
     en_config_rev = (\<lambda>_. ''cfg''), en_render = ef_type, en_scrub = (\<lambda>j. j)\<rparr>"

definition ex_batch_db :: batch_db where
  "ex_batch_db = \<lparr>jd_sessions = [\<lparr>se_id = ''s'', se_title = ''s'', se_status = ''created''\<rparr>],
     jd_runs = [\<lparr>ru_id = ''r'', ru_session = ''s'', ru_status = ''running'', ru_key = ''kr'', ru_budget = Some 5\<rparr>],
     jd_tasks = map (\<lambda>c. \<lparr>ta_id = ex_uuid c, ta_run = ''r'', ta_description = ''d'', ta_status = RUNNING,
       ta_fingerprint = ''f'', ta_key = [c]\<rparr>) ''ab'',
     jd_results = (\<lambda>_. None),
     jd_attempts = map (\<lambda>c. \<lparr>at_id = c # ''1'', at_task = ex_uuid c, at_number = 1, at_status = A_RUNNING,
       at_key = [c]\<rparr>) ''ab'',
     jd_assignments = [], jd_reservations = [], jd_usage = [], jd_approvals = [], jd_packets = [],
     jd_events = [], jd_warning = (\<lambda>_. None), jd_batches = []\<rparr>"

definition ex_assignment_request :: "char \<Rightarrow> assignment_request" where
  "ex_assignment_request c = \<lparr>aq_session = ''s'', aq_run = ''r'', aq_task = ex_uuid c, aq_attempt = c # ''1'',
     aq_number = 1, aq_catalog = ''cat'', aq_requirements = ex_requirements, aq_config = JNull,
     aq_task_limit = None, aq_manual = None, aq_fallback = None\<rparr>"

definition ex_routing_snapshot :: routing_snapshot where
  "ex_routing_snapshot = \<lparr>sh_catalog = ''cat'', sh_config = ''cfg'', sh_health = ''h'', sh_candidates = ex_pool\<rparr>"

definition ex_single :: "(batch_db \<times> assign_result) res" where
  "ex_single = assign ex_assign_env (\<lambda>_. True) ex_batch_db (ex_assignment_request CHR ''a'') 0 (\<lambda>_. ex_routing_snapshot) 2"

definition ex_batch :: "(batch_db \<times> batch_result) res" where
  "ex_batch = assign_batch ex_assign_env ex_batch_db (map ex_assignment_request ''ab'') 0 (\<lambda>_. ex_routing_snapshot) 1"

definition got :: "'a res \<Rightarrow> 'a" where
  "got m = (case m of Inr x \<Rightarrow> x)"

lemma got_ok: "is_ok m \<Longrightarrow> m = Inr (got m)"
  by (auto simp: is_ok_iff got_def)

lemma ex_single_value:
  "(case ex_single of Inl e \<Rightarrow> None | Inr (db, r) \<Rightarrow> Some (case r of Assigned t \<Rightarrow> tk_model t = ''b'' | Unroutable f \<Rightarrow> False))
     = Some True" by code_simp

lemma ex_batch_value:
  "(case ex_batch of Inl e \<Rightarrow> None | Inr (db, r) \<Rightarrow> Some (committed db ''r'')) = Some 5" by code_simp

lemma ex_batch_db_within: "within_budget ex_batch_db ''r''"
proof -
  have "ledger_ok ex_batch_db" "run_limit ex_batch_db ''r'' = Some (Some 5)" "committed ex_batch_db ''r'' \<le> 5"
    by code_simp+
  then show ?thesis by (simp add: within_budget_def)
qed

theorem assignments_within_budget_witness:
  "\<exists>db' result. assign_batch ex_assign_env ex_batch_db (map ex_assignment_request ''ab'') 0 (\<lambda>_. ex_routing_snapshot) 1 = Inr (db', result) \<and>
     committed db' ''r'' = 5 \<and> within_budget db' ''r''"
proof -
  obtain db' result where eq: "ex_batch = Inr (db', result)" and "committed db' ''r'' = 5"
    using ex_batch_value by (auto split: sum.splits)
  then have step: "decision_step ex_assign_env ex_batch_db db'"
    unfolding ex_batch_def by (intro decision_step.batch)
  with assignments_within_budget [OF r_into_rtranclp [of "decision_step ex_assign_env", OF step] ex_batch_db_within] eq
    \<open>committed db' ''r'' = 5\<close>
  show ?thesis by (auto simp: ex_batch_def)
qed



text \<open>
  A batch is decided once.  A batch that reserved its lead's allowance is recorded under its
  attempts, and assigning the same batch again returns the recorded result and changes nothing.
\<close>

theorem batch_decided_once:
  assumes "assign_batch env db qs k snaps lead = Inr (db', result)" and "br_lead result \<noteq> None"
    and "within_budget db (aq_run (hd qs))"
  shows "assign_batch env' db' qs k' snaps' lead' = Inr (db', result)"
  by (rule assign_batch_replay [OF assms])

end
