(* ===== verification/Call_Accounting.thy ===== *)
theory Call_Accounting
  imports Assignment
begin

text \<open>
  Paid provider calls and their settlement (\<open>AssignmentUsageSettler\<close> and
  \<open>PersistedAssignmentRegistry\<close> in \<open>src/src/skail/routing/assignment.py\<close>): a call is recorded
  before it is made, its outcome once it is known, an unknown outcome opens a reconciliation
  failure that blocks further paid calls of the run, and the attempt's reservation is settled
  from the recorded usage or, where that is incomplete, from the frozen estimate.

  Row identifiers of failures are fresh UUIDs nothing reads and are left out; time stamps are
  left out.  The payload of an assignment is the JSON object \<open>persist\<close> writes.
\<close>

section \<open>Tables\<close>

datatype call_status = C_STARTED | C_COMPLETED | C_AMBIGUOUS | C_REJECTED

datatype failure_status = F_OPEN | F_ESTIMATED

record call_row =
  pc_id :: string
  pc_assignment :: string
  pc_attempt :: string
  pc_key :: string
  pc_ordinal :: nat
  pc_status :: call_status
  pc_input :: "int option"
  pc_output :: "int option"
  pc_amount :: "usd option"
  pc_authority :: "usage_authority option"
  pc_error :: "string option"

record failure_row =
  fl_assignment :: string
  fl_call :: "string option"
  fl_status :: failure_status
  fl_summary :: string

record call_usage_row =
  cu_assignment :: string
  cu_call :: string
  cu_input :: int
  cu_output :: int
  cu_cached :: int
  cu_amount :: usd
  cu_authoritative :: bool
  cu_known :: bool

record call_db = journal_db +
  cl_calls :: "call_row list"
  cl_failures :: "failure_row list"
  cl_usage :: "call_usage_row list"

definition assignment_by_id :: "'a journal_db_scheme \<Rightarrow> string \<Rightarrow> assignment_row option" where
  "assignment_by_id db i = List.find (\<lambda>a. as_id a = i) (jd_assignments db)"

text \<open>The joins of an assignment with its attempt, task and run.\<close>

definition run_of :: "'a journal_db_scheme \<Rightarrow> string \<Rightarrow> string option" where
  "run_of db i =
     Option.bind (assignment_by_id db i) (\<lambda>a.
     Option.bind (List.find (\<lambda>p. at_id p = as_attempt a) (jd_attempts db)) (\<lambda>p.
     map_option ta_run (List.find (\<lambda>t. ta_id t = at_task p) (jd_tasks db))))"

definition session_of :: "'a journal_db_scheme \<Rightarrow> string \<Rightarrow> string option" where
  "session_of db i =
     Option.bind (run_of db i) (\<lambda>rid. map_option ru_session (List.find (\<lambda>r. ru_id r = rid) (jd_runs db)))"

definition call_by_id :: "call_db \<Rightarrow> string \<Rightarrow> call_row option" where
  "call_by_id db c = List.find (\<lambda>x. pc_id x = c) (cl_calls db)"

definition failure_of_call :: "call_db \<Rightarrow> string \<Rightarrow> failure_row option" where
  "failure_of_call db c = List.find (\<lambda>f. fl_call f = Some c) (cl_failures db)"

text \<open>The writes: \<open>INSERT OR IGNORE\<close> under the unique pair, where a null call is never equal.\<close>

definition open_failure :: "call_db \<Rightarrow> string \<Rightarrow> string option \<Rightarrow> string \<Rightarrow> call_db" where
  "open_failure db i c summary =
     (if c \<noteq> None \<and> list_ex (\<lambda>f. fl_assignment f = i \<and> fl_call f = c) (cl_failures db) then db
      else db\<lparr>cl_failures := cl_failures db @
             [\<lparr>fl_assignment = i, fl_call = c, fl_status = F_OPEN, fl_summary = summary\<rparr>]\<rparr>)"

definition update_call :: "call_db \<Rightarrow> string \<Rightarrow> (call_row \<Rightarrow> call_row) \<Rightarrow> call_db" where
  "update_call db c f = db\<lparr>cl_calls := map (\<lambda>x. if pc_id x = c then f x else x) (cl_calls db)\<rparr>"

definition payload_id :: "json \<Rightarrow> string \<Rightarrow> string res" where
  "payload_id j k = (case Option.bind (json_get j k) as_str of None \<Rightarrow> Inl (KeyError k) | Some s \<Rightarrow> Inr s)"

section \<open>Starting a call\<close>

definition uncertain_run :: "call_db \<Rightarrow> string \<Rightarrow> bool" where
  "uncertain_run db rid \<longleftrightarrow>
     list_ex (\<lambda>f. fl_status f = F_OPEN \<and> run_of db (fl_assignment f) = Some rid) (cl_failures db)"

definition observed_cost :: "call_db \<Rightarrow> string \<Rightarrow> usd" where
  "observed_cost db rid =
     sum_list (List.map_filter pc_amount
       (filter (\<lambda>c. pc_status c = C_COMPLETED \<and> run_of db (pc_assignment c) = Some rid) (cl_calls db)))"

definition next_ordinal :: "call_db \<Rightarrow> string \<Rightarrow> nat" where
  "next_ordinal db i = fold max (map pc_ordinal (filter (\<lambda>c. pc_assignment c = i) (cl_calls db))) 0 + 1"

definition new_call :: "call_db \<Rightarrow> string \<Rightarrow> string \<Rightarrow> string \<Rightarrow> string \<Rightarrow> call_row" where
  "new_call db i attempt key call_id =
     \<lparr>pc_id = call_id, pc_assignment = i, pc_attempt = attempt, pc_key = key,
      pc_ordinal = next_ordinal db i, pc_status = C_STARTED, pc_input = None, pc_output = None,
      pc_amount = None, pc_authority = None, pc_error = None\<rparr>"

definition begin_call :: "call_db \<Rightarrow> string \<Rightarrow> string \<Rightarrow> string \<Rightarrow> call_db res" where
  "begin_call db i key call_id =
     (case (assignment_by_id db i, run_of db i) of
        (Some a, Some rid) \<Rightarrow>
          if list_ex (\<lambda>c. pc_assignment c = i \<and> pc_key c = key) (cl_calls db)
            then Inl (AccountingReconciliationRequired ''provider call replay is blocked'')
          else if uncertain_run db rid
            then Inl (AccountingReconciliationRequired ''paid execution is blocked pending usage reconciliation'')
          else if (case run_limit db rid of Some (Some l) \<Rightarrow> l \<le> observed_cost db rid | _ \<Rightarrow> False)
            then Inl (AccountingReconciliationRequired ''paid execution is blocked because observed cost exhausted the budget'')
          else res_bind (payload_id (as_payload a) ''reservation_id'') (\<lambda>r.
            if map_option rs_status (reservation_by_id db r) \<noteq> Some R_RESERVED
              then Inl (AccountingReconciliationRequired ''provider call has no active funded reservation'')
            else if list_ex (\<lambda>c. pc_id c = call_id) (cl_calls db) then Inl (IntegrityError ''provider_calls'')
            else Inr (db\<lparr>cl_calls := cl_calls db @ [new_call db i (as_attempt a) key call_id]\<rparr>))
      | _ \<Rightarrow> Inl (KeyError i))"

section \<open>Recording what happened\<close>

definition mark_call_succeeded :: "call_db \<Rightarrow> string \<Rightarrow> call_db res" where
  "mark_call_succeeded db c =
     (case call_by_id db c of
        None \<Rightarrow> Inl (KeyError c)
      | Some x \<Rightarrow>
          if pc_status x = C_COMPLETED then Inr db
          else if pc_status x \<noteq> C_STARTED
            then Inl (AccountingReconciliationRequired ''ambiguous provider call requires explicit reconciliation'')
          else Inr (update_call db c (\<lambda>x. x\<lparr>pc_status := C_COMPLETED, pc_authority := Some UNKNOWN_AUTHORITY\<rparr>)))"

definition as_ambiguous :: "string \<Rightarrow> call_row \<Rightarrow> call_row" where
  "as_ambiguous summary x =
     x\<lparr>pc_status := C_AMBIGUOUS, pc_authority := Some UNKNOWN_AUTHORITY, pc_error := Some summary\<rparr>"

definition mark_ambiguous :: "call_db \<Rightarrow> string \<Rightarrow> string \<Rightarrow> call_db res" where
  "mark_ambiguous db c summary =
     (case call_by_id db c of
        None \<Rightarrow> Inl (KeyError c)
      | Some x \<Rightarrow>
          if pc_status x \<in> {C_COMPLETED, C_REJECTED} then Inr db
          else Inr (open_failure (update_call db c (as_ambiguous summary)) (pc_assignment x) (Some c) summary))"

definition mark_rejected :: "call_db \<Rightarrow> string \<Rightarrow> bool \<Rightarrow> call_db res" where
  "mark_rejected db c request_rejected =
     (if \<not> request_rejected then Inl (ValueError ''provider error is not a definitive request rejection'')
      else
        (case call_by_id db c of
           None \<Rightarrow> Inl (KeyError c)
         | Some x \<Rightarrow>
             if pc_status x = C_REJECTED then Inr db
             else if pc_status x \<noteq> C_STARTED
               then Inl (AccountingReconciliationRequired ''provider call cannot be reclassified as rejected'')
             else Inr (update_call db c (\<lambda>x. x\<lparr>pc_status := C_REJECTED, pc_authority := Some UNKNOWN_AUTHORITY,
                    pc_error := Some ''ProviderRequestRejected: HTTP 400 validation error''\<rparr>))))"

definition price_at :: "json \<Rightarrow> string \<Rightarrow> json" where
  "price_at pricing k = (case json_get pricing k of None \<Rightarrow> JNull | Some j \<Rightarrow> j)"

definition token_cost_usd :: "int \<Rightarrow> int \<Rightarrow> int \<Rightarrow> json \<Rightarrow> usd option" where
  "token_cost_usd inp out cached pricing =
     (if inp \<le> 0 \<and> out \<le> 0 then None
      else
        (let ip = price_at pricing ''input_usd_per_million'';
             op = price_at pricing ''output_usd_per_million'';
             cp = price_at pricing ''cached_input_usd_per_million''
         in if ip = JNull \<or> op = JNull then None
            else
              (case (as_num ip, as_num (if cp = JNull then ip else cp), as_num op) of
                 (Some i, Some c, Some out_price) \<Rightarrow>
                   Some ((of_int (max 0 (inp - cached)) * i + of_int cached * c + of_int out * out_price) / 1000000)
               | _ \<Rightarrow> None)))"

text \<open>\<open>_normalize_response\<close>: every message must be normalized by the adapter.\<close>

definition normalize_response :: "(json \<Rightarrow> normalized_usage option) \<Rightarrow> json list \<Rightarrow> normalized_usage option" where
  "normalize_response adapter values =
     (let observed = List.map_filter adapter values in
      if observed = [] \<or> length observed \<noteq> length values then None
      else Some \<lparr>nu_input = sum_list (map nu_input observed), nu_output = sum_list (map nu_output observed),
             nu_cached = sum_list (map nu_cached observed), nu_cost = None, nu_authority = TOKEN_DERIVED_ESTIMATE\<rparr>)"

definition pricing_of :: "json \<Rightarrow> json" where
  "pricing_of payload = (case json_get payload ''pricing_evidence'' of None \<Rightarrow> JObj [] | Some p \<Rightarrow> p)"

definition priced_usage :: "normalized_usage \<Rightarrow> json \<Rightarrow> normalized_usage" where
  "priced_usage u pricing =
     (let c = token_cost_usd (nu_input u) (nu_output u) (nu_cached u) pricing in
      u\<lparr>nu_cost := c, nu_authority := (if c = None then UNKNOWN_AUTHORITY else TOKEN_DERIVED_ESTIMATE)\<rparr>)"

definition call_usage :: "(json \<Rightarrow> normalized_usage option) \<Rightarrow> json list \<Rightarrow> json \<Rightarrow> bool \<times> normalized_usage" where
  "call_usage adapter values payload =
     (case normalize_response adapter values of
        None \<Rightarrow> (True, \<lparr>nu_input = 0, nu_output = 0, nu_cached = 0, nu_cost = None, nu_authority = UNKNOWN_AUTHORITY\<rparr>)
      | Some u \<Rightarrow> (False, priced_usage u (pricing_of payload)))"

definition usage_row_of :: "string \<Rightarrow> string \<Rightarrow> normalized_usage \<Rightarrow> call_usage_row" where
  "usage_row_of i c u =
     \<lparr>cu_assignment = i, cu_call = c, cu_input = nu_input u, cu_output = nu_output u, cu_cached = nu_cached u,
      cu_amount = (case nu_cost u of None \<Rightarrow> 0 | Some x \<Rightarrow> x),
      cu_authoritative = (nu_authority u = AUTHORITATIVE_ACTUAL), cu_known = (nu_cost u \<noteq> None)\<rparr>"

definition as_completed :: "bool \<Rightarrow> normalized_usage \<Rightarrow> call_row \<Rightarrow> call_row" where
  "as_completed unknown u x =
     x\<lparr>pc_status := C_COMPLETED, pc_input := Some (nu_input u), pc_output := Some (nu_output u),
       pc_amount := (if unknown then None else nu_cost u),
       pc_authority := Some (if unknown then UNKNOWN_AUTHORITY else nu_authority u)\<rparr>"

definition record_call ::
  "(string \<Rightarrow> (json \<Rightarrow> normalized_usage option) option) \<Rightarrow> call_db \<Rightarrow> string \<Rightarrow> json list \<Rightarrow> string \<Rightarrow> call_db res" where
  "record_call providers db i response c =
     (case assignment_by_id db i of
        None \<Rightarrow> Inl (KeyError i)
      | Some a \<Rightarrow>
          (case providers (as_provider a) of
             None \<Rightarrow> Inl (KeyError (as_provider a))
           | Some adapter \<Rightarrow>
               (case call_usage adapter response (as_payload a) of (unknown, u) \<Rightarrow>
                 (case List.find (\<lambda>x. cu_assignment x = i \<and> cu_call x = c) (cl_usage db) of
                    Some x \<Rightarrow> if x = usage_row_of i c u then Inr db
                              else Inl (ValueError ''model call usage replay conflicts'')
                  | None \<Rightarrow>
                      (let db1 = db\<lparr>cl_usage := cl_usage db @ [usage_row_of i c u]\<rparr> in
                       case call_by_id db c of
                         None \<Rightarrow> Inr db1
                       | Some x \<Rightarrow>
                           if pc_status x \<in> {C_AMBIGUOUS, C_REJECTED}
                             then Inl (AccountingReconciliationRequired ''terminal provider call cannot accept late usage'')
                           else Inr (update_call db1 c (as_completed unknown u)))))))"

definition unreturned_summary :: string where
  "unreturned_summary = ''UnrecordedProviderOutcome: provider response was not recorded''"

definition unreturned_calls :: "call_db \<Rightarrow> string \<Rightarrow> call_row list" where
  "unreturned_calls db i = filter (\<lambda>x. pc_assignment x = i \<and> pc_status x = C_STARTED) (cl_calls db)"

definition mark_unreturned :: "string \<Rightarrow> call_row \<Rightarrow> call_db \<Rightarrow> call_db" where
  "mark_unreturned i x db =
     open_failure (update_call db (pc_id x) (\<lambda>y. if pc_status y = C_STARTED then as_ambiguous unreturned_summary y else y))
       i (Some (pc_id x)) unreturned_summary"

definition mark_unreturned_calls_ambiguous :: "call_db \<Rightarrow> string \<Rightarrow> call_db \<times> nat" where
  "mark_unreturned_calls_ambiguous db i =
     (fold (mark_unreturned i) (unreturned_calls db i) db, length (unreturned_calls db i))"

section \<open>Settling an attempt\<close>

text \<open>\<open>str(error)\<close>, or the class name when it is empty.\<close>

definition exn_text :: "py_exn \<Rightarrow> string" where
  "exn_text e =
     (let or_name = (\<lambda>name s. if s = [] then name else s) in
      case e of
        KeyError s \<Rightarrow> [CHR 0x27] @ s @ [CHR 0x27]
      | ReservationStateError s \<Rightarrow> or_name ''ReservationStateError'' s
      | JournalIdempotencyError s \<Rightarrow> or_name ''JournalIdempotencyError'' s
      | IntegrityError s \<Rightarrow> or_name ''IntegrityError'' s
      | ValueError s \<Rightarrow> or_name ''ValueError'' s
      | _ \<Rightarrow> ''error'')"

definition resolved_cost :: "json \<Rightarrow> call_usage_row \<Rightarrow> usd option" where
  "resolved_cost pricing u =
     (if cu_known u then Some (cu_amount u) else token_cost_usd (cu_input u) (cu_output u) (cu_cached u) pricing)"

definition recorded_usage :: "call_db \<Rightarrow> string \<Rightarrow> call_usage_row list" where
  "recorded_usage db i = filter (\<lambda>u. cu_assignment u = i) (cl_usage db)"

definition known_cost :: "call_db \<Rightarrow> string \<Rightarrow> json \<Rightarrow> usd" where
  "known_cost db i pricing = sum_list (List.map_filter (resolved_cost pricing) (recorded_usage db i))"

definition unaccounted_calls :: "call_db \<Rightarrow> string \<Rightarrow> bool" where
  "unaccounted_calls db i \<longleftrightarrow>
     list_ex (\<lambda>c. pc_assignment c = i \<and> pc_status c \<in> {C_STARTED, C_COMPLETED, C_AMBIGUOUS} \<and>
        \<not> list_ex (\<lambda>u. cu_call u = pc_id c) (recorded_usage db i)) (cl_calls db)"

definition all_measured :: "call_db \<Rightarrow> string \<Rightarrow> json \<Rightarrow> bool" where
  "all_measured db i pricing \<longleftrightarrow>
     recorded_usage db i \<noteq> [] \<and> \<not> unaccounted_calls db i \<and>
     list_all (\<lambda>u. resolved_cost pricing u \<noteq> None) (recorded_usage db i)"

definition all_authoritative :: "call_db \<Rightarrow> string \<Rightarrow> bool" where
  "all_authoritative db i \<longleftrightarrow>
     recorded_usage db i \<noteq> [] \<and> \<not> unaccounted_calls db i \<and>
     list_all (\<lambda>u. cu_authoritative u \<and> cu_known u) (recorded_usage db i)"

definition attempt_usage :: "call_db \<Rightarrow> string \<Rightarrow> usd \<Rightarrow> json \<Rightarrow> bool \<Rightarrow> normalized_usage" where
  "attempt_usage db i estimate pricing reconciled =
     (let us = recorded_usage db i; known = known_cost db i pricing in
      \<lparr>nu_input = sum_list (map cu_input us), nu_output = sum_list (map cu_output us),
       nu_cached = sum_list (map cu_cached us),
       nu_cost = Some (if all_measured db i pricing then known else max estimate known),
       nu_authority =
         (if all_authoritative db i then AUTHORITATIVE_ACTUAL
          else if all_measured db i pricing then TOKEN_DERIVED_ESTIMATE
          else if reconciled then RECONCILED_ESTIMATE else CONSERVATIVE_ESTIMATE)\<rparr>)"

text \<open>
  The settlement; a failing one leaves an open failure behind and raises, so the result is the
  new state together with the outcome.
\<close>

definition settle_with :: "usd \<Rightarrow> bool \<Rightarrow> call_db \<Rightarrow> string \<Rightarrow> call_db \<times> unit res" where
  "settle_with percent reconciled db i =
     (case assignment_by_id db i of
        None \<Rightarrow> (db, Inl (KeyError i))
      | Some a \<Rightarrow>
          (case Option.bind (json_get (as_payload a) ''estimated_attempt_cost_usd'') as_num of
             None \<Rightarrow> (db, Inl (KeyError ''estimated_attempt_cost_usd''))
           | Some estimate \<Rightarrow>
               (case res_bind (payload_id (as_payload a) ''reservation_id'') (\<lambda>r.
                   settle percent db r (''usage:'' @ i)
                     (attempt_usage db i estimate (pricing_of (as_payload a)) reconciled)
                     (''attempt-usage:'' @ i)) of
                  Inr db' \<Rightarrow> (db', Inr ())
                | Inl e \<Rightarrow>
                    (open_failure db i None (exn_text e),
                     Inl (AccountingReconciliationRequired ''usage settlement failed; paid execution is blocked'')))))"

definition settle_attempt :: "usd \<Rightarrow> call_db \<Rightarrow> string \<Rightarrow> call_db \<times> unit res" where
  "settle_attempt percent db i = settle_with percent False db i"

section \<open>Reconciling an unknown outcome\<close>

record reconciliation =
  rc_assignment :: string
  rc_estimate :: usd
  rc_remaining :: nat
  rc_settled :: bool

definition remaining_calls :: "call_db \<Rightarrow> string \<Rightarrow> nat" where
  "remaining_calls db i =
     length (filter (\<lambda>c. pc_assignment c = i \<and>
       (pc_status c = C_STARTED \<or>
        pc_status c = C_AMBIGUOUS \<and> map_option fl_status (failure_of_call db (pc_id c)) \<noteq> Some F_ESTIMATED))
       (cl_calls db))"

definition assignment_failures :: "call_db \<Rightarrow> string \<Rightarrow> nat" where
  "assignment_failures db i =
     length (filter (\<lambda>f. fl_assignment f = i \<and> fl_call f = None \<and> fl_status f = F_OPEN) (cl_failures db))"

definition reconciliation_state :: "call_db \<Rightarrow> string \<Rightarrow> string \<Rightarrow> (reconciliation \<times> failure_status) res" where
  "reconciliation_state db session c =
     (case Option.bind (call_by_id db c) (\<lambda>x. map_option (Pair x) (assignment_by_id db (pc_assignment x))) of
        None \<Rightarrow> Inl (KeyError c)
      | Some (x, a) \<Rightarrow>
          if session_of db (as_id a) \<noteq> Some session then Inl (KeyError c)
          else if pc_status x \<noteq> C_AMBIGUOUS then Inl (ValueError ''provider call is not ambiguous'')
          else
            (case failure_of_call db c of
               None \<Rightarrow> Inl (AccountingReconciliationRequired ''ambiguous provider call has no reconcilable failure record'')
             | Some f \<Rightarrow>
                 (let pricing = pricing_of (as_payload a) in
                  if as_cost a < 0 then Inl (AccountingReconciliationRequired ''frozen attempt estimate is invalid'')
                  else if as_cost a = 0 \<and> (price_at pricing ''input_usd_per_million'' = JNull \<or>
                          price_at pricing ''output_usd_per_million'' = JNull)
                    then Inl (AccountingReconciliationRequired ''no priced attempt estimate is available'')
                  else res_bind (payload_id (as_payload a) ''reservation_id'') (\<lambda>r.
                    (case reservation_by_id db r of
                       None \<Rightarrow> Inl (AccountingReconciliationRequired ''attempt reservation is missing'')
                     | Some row \<Rightarrow>
                         Inr (\<lparr>rc_assignment = as_id a, rc_estimate = max (as_cost a) (known_cost db (as_id a) pricing),
                                rc_remaining = remaining_calls db (as_id a) + assignment_failures db (as_id a),
                                rc_settled = (rs_status row = R_SETTLED)\<rparr>, fl_status f))))))"

definition estimate_failure :: "call_db \<Rightarrow> string \<Rightarrow> call_db" where
  "estimate_failure db c =
     db\<lparr>cl_failures := map (\<lambda>f. if fl_call f = Some c \<and> fl_status f = F_OPEN
          then f\<lparr>fl_status := F_ESTIMATED\<rparr> else f) (cl_failures db)\<rparr>"

definition preview_ambiguous_call :: "call_db \<Rightarrow> string \<Rightarrow> string \<Rightarrow> reconciliation res" where
  "preview_ambiguous_call db session c = res_bind (reconciliation_state db session c) (\<lambda>(r, f). Inr r)"

definition reconcile_ambiguous_call :: "usd \<Rightarrow> call_db \<Rightarrow> string \<Rightarrow> string \<Rightarrow> (call_db \<times> reconciliation) res" where
  "reconcile_ambiguous_call percent db session c =
     res_bind (reconciliation_state db session c) (\<lambda>(result, status).
     if rc_settled result then
       (if status \<noteq> F_ESTIMATED
          then Inl (AccountingReconciliationRequired ''reservation was settled without this call's reconciliation'')
        else Inr (db, result))
     else
       (let db1 = (if status = F_OPEN then estimate_failure db c else db) in
        res_bind (reconciliation_state db1 session c) (\<lambda>(result1, s1).
        if rc_remaining result1 = 0 then
          (case settle_with percent True db1 (rc_assignment result1) of
             (db2, Inl e) \<Rightarrow> Inl e
           | (db2, Inr u) \<Rightarrow>
               res_bind (reconciliation_state db2 session c) (\<lambda>(result2, s2). Inr (db2, result2)))
        else Inr (db1, result1))))"

section \<open>Runtime bindings\<close>

record fallback_binding =
  fb_assignment :: string
  fb_provider :: string
  fb_model :: string
  fb_key :: string
  fb_reservation :: string

definition binding_of_row :: "assignment_row \<Rightarrow> fallback_binding res" where
  "binding_of_row a =
     res_bind (payload_id (as_payload a) ''reservation_id'') (\<lambda>r.
       Inr \<lparr>fb_assignment = as_id a, fb_provider = as_provider a, fb_model = as_model a,
            fb_key = as_provider a @ '':'' @ as_model a, fb_reservation = r\<rparr>)"

fun bind_rows ::
  "assignment_row list \<Rightarrow> (string \<rightharpoonup> string) \<Rightarrow> (string \<rightharpoonup> fallback_binding) \<Rightarrow>
     ((string \<rightharpoonup> string) \<times> (string \<rightharpoonup> fallback_binding)) res" where
  "bind_rows [] keys active = Inr (keys, active)"
| "bind_rows (a # as) keys active =
     res_bind (binding_of_row a) (\<lambda>b. bind_rows as (keys(as_id a \<mapsto> fb_key b)) (active(as_attempt a \<mapsto> b)))"

definition runtime_bindings :: "'a journal_db_scheme \<Rightarrow> ((string \<rightharpoonup> string) \<times> (string \<rightharpoonup> fallback_binding)) res" where
  "runtime_bindings db = bind_rows (jd_assignments db) Map.empty Map.empty"

section \<open>Histories of calls\<close>

datatype call_op =
    BeginCall string string string
  | CallSucceeded string
  | CallAmbiguous string string
  | CallRejected string bool
  | RecordCall string "json list" string
  | UnreturnedCalls string
  | ReconcileCall string string
  | SettleAttempt string

definition kept :: "'d \<Rightarrow> 'd res \<Rightarrow> 'd" where
  "kept db m = (case m of Inl e \<Rightarrow> db | Inr d \<Rightarrow> d)"

fun call_next ::
  "usd \<Rightarrow> (string \<Rightarrow> (json \<Rightarrow> normalized_usage option) option) \<Rightarrow> call_db \<Rightarrow> call_op \<Rightarrow> call_db" where
  "call_next percent providers db (BeginCall i key c) = kept db (begin_call db i key c)"
| "call_next percent providers db (CallSucceeded c) = kept db (mark_call_succeeded db c)"
| "call_next percent providers db (CallAmbiguous c summary) = kept db (mark_ambiguous db c summary)"
| "call_next percent providers db (CallRejected c rejected) = kept db (mark_rejected db c rejected)"
| "call_next percent providers db (RecordCall i response c) = kept db (record_call providers db i response c)"
| "call_next percent providers db (UnreturnedCalls i) = fst (mark_unreturned_calls_ambiguous db i)"
| "call_next percent providers db (ReconcileCall session c) =
     kept db (map_sum id fst (reconcile_ambiguous_call percent db session c))"
| "call_next percent providers db (SettleAttempt i) = fst (settle_attempt percent db i)"

definition call_history ::
  "usd \<Rightarrow> (string \<Rightarrow> (json \<Rightarrow> normalized_usage option) option) \<Rightarrow> call_db \<Rightarrow> call_op list \<Rightarrow> call_db" where
  "call_history percent providers db ops = foldl (call_next percent providers) db ops"

text \<open>Unique keys, and failures exactly for the calls whose outcome is unknown.\<close>

definition call_failures :: "call_db \<Rightarrow> string list" where
  "call_failures db = List.map_filter fl_call (cl_failures db)"

definition calls_ok :: "call_db \<Rightarrow> bool" where
  "calls_ok db \<longleftrightarrow>
     distinct (map pc_id (cl_calls db)) \<and>
     distinct (map (\<lambda>c. (pc_assignment c, pc_key c)) (cl_calls db)) \<and>
     distinct (map (\<lambda>c. (pc_assignment c, pc_ordinal c)) (cl_calls db)) \<and>
     distinct (call_failures db) \<and>
     list_all (\<lambda>c. pc_status c = C_AMBIGUOUS \<longrightarrow>
       list_ex (\<lambda>f. fl_call f = Some (pc_id c) \<and> fl_assignment f = pc_assignment c) (cl_failures db)) (cl_calls db) \<and>
     list_all (\<lambda>f. fl_call f \<noteq> None \<longrightarrow>
       list_ex (\<lambda>c. fl_call f = Some (pc_id c) \<and> fl_assignment f = pc_assignment c \<and> pc_status c = C_AMBIGUOUS)
         (cl_calls db)) (cl_failures db)"

text \<open>What a later state keeps of a call: its identity, and its outcome once it is known.\<close>

definition same_call :: "call_row \<Rightarrow> call_row \<Rightarrow> bool" where
  "same_call c c' \<longleftrightarrow> pc_id c' = pc_id c \<and> pc_assignment c' = pc_assignment c \<and> pc_attempt c' = pc_attempt c \<and>
     pc_key c' = pc_key c \<and> pc_ordinal c' = pc_ordinal c \<and>
     (pc_status c \<noteq> C_STARTED \<longrightarrow> pc_status c' = pc_status c)"

definition calls_kept :: "call_db \<Rightarrow> call_db \<Rightarrow> bool" where
  "calls_kept db db' \<longleftrightarrow> (\<forall>c \<in> set (cl_calls db). \<exists>c' \<in> set (cl_calls db'). same_call c c')"

lemma calls_ok_iff:
  "calls_ok db \<longleftrightarrow>
     distinct (map pc_id (cl_calls db)) \<and>
     distinct (map (\<lambda>c. (pc_assignment c, pc_key c)) (cl_calls db)) \<and>
     distinct (map (\<lambda>c. (pc_assignment c, pc_ordinal c)) (cl_calls db)) \<and>
     distinct (call_failures db) \<and>
     (\<forall>c \<in> set (cl_calls db). pc_status c = C_AMBIGUOUS \<longrightarrow>
       (\<exists>f \<in> set (cl_failures db). fl_call f = Some (pc_id c) \<and> fl_assignment f = pc_assignment c)) \<and>
     (\<forall>f \<in> set (cl_failures db). fl_call f \<noteq> None \<longrightarrow>
       (\<exists>c \<in> set (cl_calls db). fl_call f = Some (pc_id c) \<and> fl_assignment f = pc_assignment c \<and> pc_status c = C_AMBIGUOUS))"
  by (simp only: calls_ok_def list_all_iff list_ex_iff)

lemma calls_ok_cong:
  assumes "cl_calls db' = cl_calls db"
    and "map (\<lambda>f. (fl_call f, fl_assignment f)) (cl_failures db') = map (\<lambda>f. (fl_call f, fl_assignment f)) (cl_failures db)"
  shows "calls_ok db' \<longleftrightarrow> calls_ok db"
proof -
  have f: "call_failures d = List.map_filter fst (map (\<lambda>f. (fl_call f, fl_assignment f)) (cl_failures d))" for d :: call_db
    by (simp add: call_failures_def List.map_filter_def comp_def filter_map)
  have a: "(\<exists>f \<in> set (cl_failures d). fl_call f = c \<and> fl_assignment f = i) \<longleftrightarrow>
      (c, i) \<in> set (map (\<lambda>f. (fl_call f, fl_assignment f)) (cl_failures d))" for d :: call_db and c i
    by auto
  have b: "(\<forall>f \<in> set (cl_failures d). fl_call f \<noteq> None \<longrightarrow> P (fl_call f) (fl_assignment f)) \<longleftrightarrow>
      (\<forall>(c, i) \<in> set (map (\<lambda>f. (fl_call f, fl_assignment f)) (cl_failures d)). c \<noteq> None \<longrightarrow> P c i)"
    for d :: call_db and P by auto
  show ?thesis
    unfolding calls_ok_iff a f b [of _ "\<lambda>c i. \<exists>x \<in> set (cl_calls _). c = Some (pc_id x) \<and> i = pc_assignment x \<and> pc_status x = C_AMBIGUOUS"]
      assms by (rule refl)
qed

definition keeps_identity :: "(call_row \<Rightarrow> call_row) \<Rightarrow> bool" where
  "keeps_identity f \<longleftrightarrow> (\<forall>x. pc_id (f x) = pc_id x \<and> pc_assignment (f x) = pc_assignment x \<and>
     pc_attempt (f x) = pc_attempt x \<and> pc_key (f x) = pc_key x \<and> pc_ordinal (f x) = pc_ordinal x)"

lemma update_call_fields [simp]:
  "cl_failures (update_call db c f) = cl_failures db"
  "cl_calls (update_call db c f) = map (\<lambda>x. if pc_id x = c then f x else x) (cl_calls db)"
  "journal_db.truncate (update_call db c f) = journal_db.truncate db"
  by (simp_all add: update_call_def journal_db.truncate_def)

lemma update_call_keys:
  assumes "keeps_identity f"
  shows "map pc_id (cl_calls (update_call db c f)) = map pc_id (cl_calls db)"
    "map (\<lambda>c. (pc_assignment c, pc_key c)) (cl_calls (update_call db c f)) = map (\<lambda>c. (pc_assignment c, pc_key c)) (cl_calls db)"
    "map (\<lambda>c. (pc_assignment c, pc_ordinal c)) (cl_calls (update_call db c f)) = map (\<lambda>c. (pc_assignment c, pc_ordinal c)) (cl_calls db)"
  using assms by (simp_all add: keeps_identity_def)

lemma same_id_same_call:
  "calls_ok db \<Longrightarrow> x \<in> set (cl_calls db) \<Longrightarrow> y \<in> set (cl_calls db) \<Longrightarrow> pc_id x = pc_id y \<Longrightarrow> x = y"
  by (auto simp: calls_ok_def distinct_map dest: inj_onD)

lemma calls_ok_update:
  assumes ok: "calls_ok db" and x: "x \<in> set (cl_calls db)" and f: "keeps_identity f"
    and st: "pc_status x \<noteq> C_AMBIGUOUS" "pc_status (f x) \<noteq> C_AMBIGUOUS"
  shows "calls_ok (update_call db (pc_id x) f)"
proof -
  have only: "y = x" if "y \<in> set (cl_calls db)" "pc_id y = pc_id x" for y
    using same_id_same_call [OF ok that(1) x that(2)] .
  have amb: "y' \<in> set (cl_calls (update_call db (pc_id x) f)) \<and> pc_status y' = C_AMBIGUOUS \<longleftrightarrow>
      y' \<in> set (cl_calls db) \<and> pc_status y' = C_AMBIGUOUS" for y'
    using only st by (auto simp: image_iff)
  show ?thesis
    using ok amb unfolding calls_ok_iff update_call_keys [OF f] call_failures_def update_call_fields(1)
    by blast
qed

lemma open_failure_calls [simp]: "cl_calls (open_failure db i c s) = cl_calls db"
  by (simp add: open_failure_def)

lemma calls_ok_unknown:
  assumes ok: "calls_ok db" and x: "x \<in> set (cl_calls db)" and f: "keeps_identity f"
    and st: "pc_status (f x) = C_AMBIGUOUS"
  shows "calls_ok (open_failure (update_call db (pc_id x) f) (pc_assignment x) (Some (pc_id x)) s)"
proof -
  let ?d = "update_call db (pc_id x) f" and ?g = "\<lambda>y. if pc_id y = pc_id x then f y else y"
  let ?e = "open_failure ?d (pc_assignment x) (Some (pc_id x)) s"
  have only: "y = x" if "y \<in> set (cl_calls db)" "pc_id y = pc_id x" for y
    using same_id_same_call [OF ok that(1) x that(2)] .
  have id: "pc_id (?g y) = pc_id y" "pc_assignment (?g y) = pc_assignment y" for y
    using f by (auto simp: keeps_identity_def)
  have fails: "set (cl_failures db) \<subseteq> set (cl_failures ?e)" by (auto simp: open_failure_def)
  have has: "\<exists>g \<in> set (cl_failures ?e). fl_call g = Some (pc_id x) \<and> fl_assignment g = pc_assignment x"
    by (auto simp: open_failure_def list_ex_iff)
  have old: "g \<in> set (cl_failures db) \<or> fl_call g = Some (pc_id x) \<and> fl_assignment g = pc_assignment x"
    if "g \<in> set (cl_failures ?e)" for g
    using that by (auto simp: open_failure_def split: if_splits)
  have "distinct (call_failures ?e)"
  proof (cases "list_ex (\<lambda>g. fl_assignment g = pc_assignment x \<and> fl_call g = Some (pc_id x)) (cl_failures db)")
    case True
    with ok show ?thesis by (simp add: open_failure_def call_failures_def calls_ok_def)
  next
    case False
    have "pc_id x \<notin> set (call_failures db)"
    proof
      assume "pc_id x \<in> set (call_failures db)"
      then obtain g where g: "g \<in> set (cl_failures db)" "fl_call g = Some (pc_id x)"
        by (auto simp: call_failures_def List.map_filter_def)
      then obtain y where "y \<in> set (cl_calls db)" "pc_id y = pc_id x" "fl_assignment g = pc_assignment y"
        using ok unfolding calls_ok_iff by force
      with only g False show False by (auto simp: list_ex_iff)
    qed
    with ok False show ?thesis
      by (simp add: open_failure_def call_failures_def calls_ok_def List.map_filter_def)
  qed
  moreover have "\<forall>y \<in> set (cl_calls ?e). pc_status y = C_AMBIGUOUS \<longrightarrow>
      (\<exists>g \<in> set (cl_failures ?e). fl_call g = Some (pc_id y) \<and> fl_assignment g = pc_assignment y)"
  proof (intro ballI impI)
    fix y assume "y \<in> set (cl_calls ?e)" and amb: "pc_status y = C_AMBIGUOUS"
    then obtain z where z: "z \<in> set (cl_calls db)" "y = ?g z" by auto
    show "\<exists>g \<in> set (cl_failures ?e). fl_call g = Some (pc_id y) \<and> fl_assignment g = pc_assignment y"
    proof (cases "pc_id z = pc_id x")
      case True
      then have "pc_id y = pc_id x" "pc_assignment y = pc_assignment x"
        using only [OF z(1) True] z(2) id [of x] by simp_all
      with has show ?thesis by simp
    next
      case False
      then have "y = z" using z(2) by simp
      with ok amb z(1) fails show ?thesis unfolding calls_ok_iff by blast
    qed
  qed
  moreover have "\<forall>g \<in> set (cl_failures ?e). fl_call g \<noteq> None \<longrightarrow>
      (\<exists>y \<in> set (cl_calls ?e). fl_call g = Some (pc_id y) \<and> fl_assignment g = pc_assignment y \<and> pc_status y = C_AMBIGUOUS)"
  proof (intro ballI impI)
    fix g assume g: "g \<in> set (cl_failures ?e)" and "fl_call g \<noteq> None"
    then consider "g \<in> set (cl_failures db)" | "fl_call g = Some (pc_id x)" "fl_assignment g = pc_assignment x"
      using old by blast
    then show "\<exists>y \<in> set (cl_calls ?e). fl_call g = Some (pc_id y) \<and> fl_assignment g = pc_assignment y \<and> pc_status y = C_AMBIGUOUS"
    proof cases
      case 1
      then obtain z where z: "z \<in> set (cl_calls db)" "fl_call g = Some (pc_id z)"
          "fl_assignment g = pc_assignment z" "pc_status z = C_AMBIGUOUS"
        using ok \<open>fl_call g \<noteq> None\<close> unfolding calls_ok_iff by blast
      have "?g z \<in> set (cl_calls ?e)" using z(1) by auto
      moreover have "pc_status (?g z) = C_AMBIGUOUS" using only [OF z(1)] z(4) st by auto
      moreover have "fl_call g = Some (pc_id (?g z))" "fl_assignment g = pc_assignment (?g z)"
        using z(2,3) by (simp_all only: id)
      ultimately show ?thesis by blast
    next
      case 2
      have "f x \<in> set (cl_calls ?e)" using x by auto
      moreover have "pc_id (f x) = pc_id x" "pc_assignment (f x) = pc_assignment x" using id [of x] by simp_all
      ultimately show ?thesis by (intro bexI [of _ "f x"]) (simp_all add: 2 st)
    qed
  qed
  ultimately show ?thesis
    using ok update_call_keys [OF f, of db "pc_id x"] by (simp only: calls_ok_iff open_failure_calls)
qed

section \<open>What every operation keeps\<close>

definition call_step_ok :: "call_db \<Rightarrow> call_db \<Rightarrow> bool" where
  "call_step_ok db db' \<longleftrightarrow> calls_ok db' \<and> calls_kept db db' \<and> same_owners db db' \<and>
     jd_assignments db' = jd_assignments db \<and>
     {f \<in> set (cl_failures db). fl_call f = None} \<subseteq> set (cl_failures db')"

lemma same_call_refl [simp]: "same_call c c" by (simp add: same_call_def)

lemma same_call_trans: "same_call a b \<Longrightarrow> same_call b c \<Longrightarrow> same_call a c"
  by (auto simp: same_call_def)

lemma calls_kept_same: "cl_calls db' = cl_calls db \<Longrightarrow> calls_kept db db'"
  unfolding calls_kept_def using same_call_refl by metis

lemma calls_kept_refl [simp]: "calls_kept db db" by (simp add: calls_kept_same)

lemma call_step_refl: "calls_ok db \<Longrightarrow> call_step_ok db db"
  by (auto simp: call_step_ok_def)

lemma call_step_trans: "call_step_ok a b \<Longrightarrow> call_step_ok b c \<Longrightarrow> call_step_ok a c"
  unfolding call_step_ok_def calls_kept_def same_owners_def
  by (auto intro: same_call_trans) (meson same_call_trans)

lemma call_by_id_Some: "call_by_id db c = Some x \<Longrightarrow> x \<in> set (cl_calls db) \<and> pc_id x = c"
  unfolding call_by_id_def using find_in by fast

lemma calls_kept_update:
  assumes ok: "calls_ok db" and x: "x \<in> set (cl_calls db)" and f: "keeps_identity f"
    and st: "pc_status x \<noteq> C_STARTED \<Longrightarrow> pc_status (f x) = pc_status x"
    and same: "cl_calls db' = cl_calls (update_call db (pc_id x) f)"
  shows "calls_kept db db'"
  unfolding calls_kept_def
proof
  fix y assume y: "y \<in> set (cl_calls db)"
  let ?y = "if pc_id y = pc_id x then f y else y"
  have "pc_id y = pc_id x \<Longrightarrow> y = x" using same_id_same_call [OF ok y x] .
  then have "same_call y ?y" using f st by (auto simp: same_call_def keeps_identity_def)
  moreover have "?y \<in> set (cl_calls db')" using y by (auto simp: same)
  ultimately show "\<exists>c' \<in> set (cl_calls db'). same_call y c'" by blast
qed

lemma step_update:
  assumes "calls_ok db" "x \<in> set (cl_calls db)" "keeps_identity f"
    and "pc_status x \<noteq> C_AMBIGUOUS" "pc_status (f x) \<noteq> C_AMBIGUOUS"
    and "pc_status x \<noteq> C_STARTED \<Longrightarrow> pc_status (f x) = pc_status x"
  shows "call_step_ok db (update_call db (pc_id x) f)"
  using calls_ok_update [OF assms(1-5)] calls_kept_update [OF assms(1-3,6) refl]
  by (auto simp: call_step_ok_def same_owners_def update_call_def)

lemma step_unknown:
  assumes "calls_ok db" "x \<in> set (cl_calls db)" "keeps_identity f"
    and "pc_status (f x) = C_AMBIGUOUS" "pc_status x \<in> {C_STARTED, C_AMBIGUOUS}"
  shows "call_step_ok db (open_failure (update_call db (pc_id x) f) (pc_assignment x) (Some (pc_id x)) s)"
proof -
  have "calls_kept db (open_failure (update_call db (pc_id x) f) (pc_assignment x) (Some (pc_id x)) s)"
    by (rule calls_kept_update [OF assms(1-3)]) (use assms(4,5) in auto)
  with calls_ok_unknown [OF assms(1-4)] show ?thesis
    by (auto simp: call_step_ok_def same_owners_def update_call_def open_failure_def)
qed

lemma keeps_identityI:
  "keeps_identity (as_ambiguous s)" "keeps_identity (as_completed b u)"
  "keeps_identity (\<lambda>x. x\<lparr>pc_status := st, pc_authority := au\<rparr>)"
  "keeps_identity (\<lambda>x. x\<lparr>pc_status := st, pc_authority := au, pc_error := er\<rparr>)"
  "keeps_identity (\<lambda>y. if pc_status y = C_STARTED then as_ambiguous s y else y)"
  by (simp_all add: keeps_identity_def as_ambiguous_def as_completed_def)

lemma status_of_updates [simp]:
  "pc_status (as_ambiguous s x) = C_AMBIGUOUS" "pc_status (as_completed b u x) = C_COMPLETED"
  by (simp_all add: as_ambiguous_def as_completed_def)

lemma step_mark_succeeded:
  assumes ok: "calls_ok db" and r: "mark_call_succeeded db c = Inr db'"
  shows "call_step_ok db db'"
proof -
  from r obtain x where x: "call_by_id db c = Some x" by (auto simp: mark_call_succeeded_def split: option.splits)
  note in_calls = call_by_id_Some [OF x]
  show ?thesis
  proof (cases "pc_status x = C_STARTED")
    case True
    with r x have "db' = update_call db (pc_id x) (\<lambda>x. x\<lparr>pc_status := C_COMPLETED, pc_authority := Some UNKNOWN_AUTHORITY\<rparr>)"
      using in_calls by (simp add: mark_call_succeeded_def)
    with step_update [OF ok _ keeps_identityI(3), of x] in_calls True show ?thesis by simp
  next
    case False
    with r x have "db' = db" by (auto simp: mark_call_succeeded_def split: if_splits)
    with ok show ?thesis by (simp add: call_step_refl)
  qed
qed

lemma step_mark_rejected:
  assumes ok: "calls_ok db" and r: "mark_rejected db c rejected = Inr db'"
  shows "call_step_ok db db'"
proof -
  from r obtain x where x: "call_by_id db c = Some x" and rj: "rejected"
    by (auto simp: mark_rejected_def split: option.splits if_splits)
  note in_calls = call_by_id_Some [OF x]
  show ?thesis
  proof (cases "pc_status x = C_STARTED")
    case True
    with r x rj have "db' = update_call db (pc_id x) (\<lambda>x. x\<lparr>pc_status := C_REJECTED, pc_authority := Some UNKNOWN_AUTHORITY,
        pc_error := Some ''ProviderRequestRejected: HTTP 400 validation error''\<rparr>)"
      using in_calls by (simp add: mark_rejected_def)
    with step_update [OF ok _ keeps_identityI(4), of x] in_calls True show ?thesis by simp
  next
    case False
    with r x rj have "db' = db" by (auto simp: mark_rejected_def split: if_splits)
    with ok show ?thesis by (simp add: call_step_refl)
  qed
qed

lemma step_mark_ambiguous:
  assumes ok: "calls_ok db" and r: "mark_ambiguous db c summary = Inr db'"
  shows "call_step_ok db db'"
proof -
  from r obtain x where x: "call_by_id db c = Some x" by (auto simp: mark_ambiguous_def split: option.splits)
  note in_calls = call_by_id_Some [OF x]
  show ?thesis
  proof (cases "pc_status x \<in> {C_COMPLETED, C_REJECTED}")
    case True
    with r x have "db' = db" by (auto simp: mark_ambiguous_def)
    with ok show ?thesis by (simp add: call_step_refl)
  next
    case False
    then have st: "pc_status x \<in> {C_STARTED, C_AMBIGUOUS}" by (cases "pc_status x") auto
    from False r x have "db' = open_failure (update_call db (pc_id x) (as_ambiguous summary)) (pc_assignment x) (Some (pc_id x)) summary"
      using in_calls by (simp add: mark_ambiguous_def)
    with step_unknown [OF ok _ keeps_identityI(1) _ st] in_calls show ?thesis by simp
  qed
qed

lemma step_usage:
  assumes "calls_ok db"
  shows "call_step_ok db (db\<lparr>cl_usage := us\<rparr>)"
  using assms calls_ok_cong [of "db\<lparr>cl_usage := us\<rparr>" db] calls_kept_same [of "db\<lparr>cl_usage := us\<rparr>" db]
  by (auto simp: call_step_ok_def same_owners_def)

lemma step_record_call:
  assumes ok: "calls_ok db" and r: "record_call providers db i response c = Inr db'"
  shows "call_step_ok db db'"
proof -
  obtain unknown u where eff: "db' = db \<or>
     (let db1 = db\<lparr>cl_usage := cl_usage db @ [usage_row_of i c u]\<rparr> in
        db' = db1 \<or> (\<exists>x. call_by_id db c = Some x \<and> pc_status x \<in> {C_STARTED, C_COMPLETED} \<and>
          db' = update_call db1 c (as_completed unknown u)))"
  proof -
    from r obtain a adapter unknown u where "assignment_by_id db i = Some a" "providers (as_provider a) = Some adapter"
      "call_usage adapter response (as_payload a) = (unknown, u)"
      by (auto simp: record_call_def split: option.splits prod.splits)
    with r have "db' = db \<or>
     (let db1 = db\<lparr>cl_usage := cl_usage db @ [usage_row_of i c u]\<rparr> in
        db' = db1 \<or> (\<exists>x. call_by_id db c = Some x \<and> pc_status x \<in> {C_STARTED, C_COMPLETED} \<and>
          db' = update_call db1 c (as_completed unknown u)))"
      by (auto simp: record_call_def Let_def split: option.splits if_splits) (metis call_status.exhaust)+
    then show ?thesis by (rule that)
  qed
  let ?db1 = "db\<lparr>cl_usage := cl_usage db @ [usage_row_of i c u]\<rparr>"
  have s1: "call_step_ok db ?db1" by (rule step_usage [OF ok])
  consider "db' = db" | "db' = ?db1" | x where "call_by_id db c = Some x" "pc_status x \<in> {C_STARTED, C_COMPLETED}"
      "db' = update_call ?db1 c (as_completed unknown u)"
    using eff by (auto simp: Let_def)
  then show ?thesis
  proof cases
    case 1
    with ok show ?thesis by (simp add: call_step_refl)
  next
    case 2
    with s1 show ?thesis by simp
  next
    case (3 x)
    have x: "x \<in> set (cl_calls ?db1)" "pc_id x = c" using call_by_id_Some [OF 3(1)] by simp_all
    have "call_step_ok ?db1 (update_call ?db1 (pc_id x) (as_completed unknown u))"
      by (rule step_update [OF _ x(1) keeps_identityI(2)]) (use s1 3(2) in \<open>auto simp: call_step_ok_def\<close>)
    with s1 3(3) x(2) show ?thesis using call_step_trans by simp
  qed
qed

lemma fold_max_bound: "x \<in> set xs \<Longrightarrow> x \<le> fold max xs (m :: nat)"
proof (induction xs arbitrary: m)
  case Nil
  then show ?case by simp
next
  case (Cons y ys)
  have mono: "a \<le> fold max zs a" for zs and a :: nat
    by (induction zs arbitrary: a) (simp_all, metis max.boundedE)
  show ?case
  proof (cases "x \<in> set ys")
    case True
    then show ?thesis using Cons.IH by simp
  next
    case False
    then show ?thesis using Cons.prems mono [of "max y m" ys] by simp
  qed
qed

lemma ordinal_below_next: "c \<in> set (cl_calls db) \<Longrightarrow> pc_assignment c = i \<Longrightarrow> pc_ordinal c < next_ordinal db i"
  unfolding next_ordinal_def using fold_max_bound [of "pc_ordinal c" _ 0] by (force simp: less_Suc_eq_le)

lemma begin_call_steps:
  assumes "begin_call db i key c = Inr db'"
  obtains a rid r row where "assignment_by_id db i = Some a" "run_of db i = Some rid"
    "\<not> list_ex (\<lambda>c. pc_assignment c = i \<and> pc_key c = key) (cl_calls db)" "\<not> uncertain_run db rid"
    "\<And>l. run_limit db rid = Some (Some l) \<Longrightarrow> observed_cost db rid < l"
    "payload_id (as_payload a) ''reservation_id'' = Inr r" "reservation_by_id db r = Some row" "rs_status row = R_RESERVED"
    "\<not> list_ex (\<lambda>x. pc_id x = c) (cl_calls db)"
    "db' = db\<lparr>cl_calls := cl_calls db @ [new_call db i (as_attempt a) key c]\<rparr>"
proof -
  from assms obtain a rid where a: "assignment_by_id db i = Some a" and rid: "run_of db i = Some rid"
    by (auto simp: begin_call_def split: option.splits)
  note run = assms [unfolded begin_call_def a rid, simplified]
  from run have gates: "\<not> list_ex (\<lambda>c. pc_assignment c = i \<and> pc_key c = key) (cl_calls db)" "\<not> uncertain_run db rid"
    by (simp_all split: if_splits)
  have limit: "observed_cost db rid < l" if "run_limit db rid = Some (Some l)" for l
    using run gates that by (simp add: not_le split: if_splits)
  have "\<not> (case run_limit db rid of Some (Some l) \<Rightarrow> l \<le> observed_cost db rid | _ \<Rightarrow> False)"
    using limit by (auto split: option.splits simp: not_le)
  with run gates obtain r where r: "payload_id (as_payload a) ''reservation_id'' = Inr r"
    and rest: "(if map_option rs_status (reservation_by_id db r) \<noteq> Some R_RESERVED
              then Inl (AccountingReconciliationRequired ''provider call has no active funded reservation'')
            else if list_ex (\<lambda>c'. pc_id c' = c) (cl_calls db) then Inl (IntegrityError ''provider_calls'')
            else Inr (db\<lparr>cl_calls := cl_calls db @ [new_call db i (as_attempt a) key c]\<rparr>)) = Inr db'"
    by (auto simp: res_simps)
  from rest obtain row where "reservation_by_id db r = Some row" "rs_status row = R_RESERVED"
    by (auto split: if_splits)
  then show thesis using rest by (intro that [OF a rid gates limit r]) (auto split: if_splits)
qed

lemma step_begin_call:
  assumes ok: "calls_ok db" and r: "begin_call db i key c = Inr db'"
  shows "call_step_ok db db'"
proof (rule begin_call_steps [OF r])
  fix a
  let ?x = "new_call db i (as_attempt a) key c"
  assume key: "\<not> list_ex (\<lambda>c. pc_assignment c = i \<and> pc_key c = key) (cl_calls db)"
    and id: "\<not> list_ex (\<lambda>x. pc_id x = c) (cl_calls db)" and db': "db' = db\<lparr>cl_calls := cl_calls db @ [?x]\<rparr>"
  have x: "pc_id ?x = c" "pc_assignment ?x = i" "pc_key ?x = key" "pc_ordinal ?x = next_ordinal db i" "pc_status ?x = C_STARTED"
    by (simp_all add: new_call_def)
  have "(i, next_ordinal db i) \<notin> (\<lambda>c. (pc_assignment c, pc_ordinal c)) ` set (cl_calls db)"
    using ordinal_below_next by fastforce
  then have "calls_ok db'"
    using ok key id x by (auto simp: calls_ok_iff db' call_failures_def list_ex_iff)
  moreover have "calls_kept db db'" using same_call_refl by (fastforce simp: calls_kept_def db')
  ultimately show ?thesis by (auto simp: call_step_ok_def same_owners_def db')
qed

lemma step_open_null:
  assumes "calls_ok db"
  shows "call_step_ok db (open_failure db i None s)"
proof -
  have "calls_ok (open_failure db i None s)"
    using assms by (auto simp: calls_ok_iff open_failure_def call_failures_def List.map_filter_def)
  moreover have "calls_kept db (open_failure db i None s)" by (rule calls_kept_same) simp
  ultimately show ?thesis by (auto simp: call_step_ok_def same_owners_def open_failure_def)
qed

lemma settle_frame:
  "settle percent db r uid usage key = Inr db' \<Longrightarrow>
     same_owners db db' \<and> jd_assignments db' = jd_assignments db \<and> journal_db.more db' = journal_db.more db"
  by (auto simp: settle_def settle_new_def settle_existing_def set_reservation_def set_usage_def res_simps Let_def
      same_owners_def dest!: update_warning_Inr split: option.splits if_splits prod.splits)

lemma calls_of_more:
  "journal_db.more db' = journal_db.more db \<Longrightarrow> cl_calls (db' :: call_db) = cl_calls db"
  "journal_db.more db' = journal_db.more db \<Longrightarrow> cl_failures (db' :: call_db) = cl_failures db"
  "journal_db.more db' = journal_db.more db \<Longrightarrow> cl_usage (db' :: call_db) = cl_usage db"
  by (cases db; cases db'; simp)+

lemma step_settle:
  assumes ok: "calls_ok db" and r: "settle percent db r uid usage key = Inr db'"
  shows "call_step_ok db db'"
proof -
  note frame = settle_frame [OF r]
  then have same: "cl_calls db' = cl_calls db" "cl_failures db' = cl_failures db" by (auto dest: calls_of_more)
  have "calls_ok db'" using ok calls_ok_cong [of db' db] by (simp add: same)
  moreover have "calls_kept db db'" by (rule calls_kept_same) (simp add: same)
  ultimately show ?thesis using frame same by (auto simp: call_step_ok_def)
qed

lemma step_settle_with:
  assumes ok: "calls_ok db"
  shows "call_step_ok db (fst (settle_with percent reconciled db i))"
proof (cases "assignment_by_id db i")
  case None
  with ok show ?thesis by (simp add: settle_with_def call_step_refl)
next
  case (Some a)
  show ?thesis
  proof (cases "Option.bind (json_get (as_payload a) ''estimated_attempt_cost_usd'') as_num")
    case None
    with Some ok show ?thesis by (simp add: settle_with_def call_step_refl)
  next
    case (Some estimate)
    let ?s = "res_bind (payload_id (as_payload a) ''reservation_id'') (\<lambda>r.
                   settle percent db r (''usage:'' @ i)
                     (attempt_usage db i estimate (pricing_of (as_payload a)) reconciled)
                     (''attempt-usage:'' @ i))"
    show ?thesis
    proof (cases ?s)
      case (Inl e)
      with \<open>assignment_by_id db i = Some a\<close> Some step_open_null [OF ok] show ?thesis by (simp add: settle_with_def)
    next
      case (Inr db')
      then have "call_step_ok db db'" using step_settle [OF ok] by (auto simp: res_simps)
      with Inr \<open>assignment_by_id db i = Some a\<close> Some show ?thesis by (simp add: settle_with_def)
    qed
  qed
qed

lemma step_estimate_failure:
  assumes "calls_ok db"
  shows "call_step_ok db (estimate_failure db c)"
proof -
  have "calls_ok (estimate_failure db c)"
    using assms calls_ok_cong [of "estimate_failure db c" db] by (simp add: estimate_failure_def comp_def if_distrib)
  moreover have "calls_kept db (estimate_failure db c)" by (rule calls_kept_same) (simp add: estimate_failure_def)
  ultimately show ?thesis by (auto simp: call_step_ok_def same_owners_def estimate_failure_def image_iff)
qed

definition unsettled_call :: "call_db \<Rightarrow> string \<Rightarrow> string \<Rightarrow> bool" where
  "unsettled_call db i c \<longleftrightarrow>
     (\<exists>x \<in> set (cl_calls db). pc_id x = c \<and> pc_assignment x = i \<and> pc_status x \<in> {C_STARTED, C_AMBIGUOUS})"

lemma unsettled_kept:
  "unsettled_call db i c \<Longrightarrow> unsettled_call (mark_unreturned j x db) i c"
  unfolding unsettled_call_def mark_unreturned_def
  by (elim bexE, rule_tac x = "if pc_id xa = pc_id x \<and> pc_status xa = C_STARTED then as_ambiguous unreturned_summary xa else xa" in bexI)
    (auto simp: as_ambiguous_def)

lemma step_mark_unreturned:
  assumes ok: "calls_ok db" and x: "unsettled_call db i (pc_id x)"
  shows "call_step_ok db (mark_unreturned i x db)"
proof -
  obtain y where y: "y \<in> set (cl_calls db)" "pc_id y = pc_id x" "pc_assignment y = i" "pc_status y \<in> {C_STARTED, C_AMBIGUOUS}"
    using x by (auto simp: unsettled_call_def)
  have "call_step_ok db (open_failure (update_call db (pc_id y)
      (\<lambda>y. if pc_status y = C_STARTED then as_ambiguous unreturned_summary y else y)) (pc_assignment y) (Some (pc_id y)) unreturned_summary)"
    by (rule step_unknown [OF ok y(1) keeps_identityI(5) _ y(4)]) (use y(4) in auto)
  then show ?thesis using y(2,3) by (simp add: mark_unreturned_def)
qed

lemma step_fold_unreturned:
  "calls_ok db \<Longrightarrow> (\<forall>x \<in> set xs. unsettled_call db i (pc_id x)) \<Longrightarrow> call_step_ok db (fold (mark_unreturned i) xs db)"
proof (induction xs arbitrary: db)
  case Nil
  then show ?case by (simp add: call_step_refl)
next
  case (Cons x xs)
  have s: "call_step_ok db (mark_unreturned i x db)" by (rule step_mark_unreturned) (use Cons.prems in auto)
  have "call_step_ok (mark_unreturned i x db) (fold (mark_unreturned i) xs (mark_unreturned i x db))"
    by (rule Cons.IH) (use s Cons.prems(2) unsettled_kept in \<open>auto simp: call_step_ok_def\<close>)
  with s call_step_trans show ?case by simp
qed

lemma step_unreturned:
  "calls_ok db \<Longrightarrow> call_step_ok db (fst (mark_unreturned_calls_ambiguous db i))"
  unfolding mark_unreturned_calls_ambiguous_def
  by (auto simp: unreturned_calls_def unsettled_call_def intro!: step_fold_unreturned)

lemma reconcile_cases:
  assumes "reconcile_ambiguous_call percent db session c = Inr (db', result)"
  obtains (replay) "db' = db" "rc_settled result" "reconciliation_state db session c = Inr (result, F_ESTIMATED)"
  | (waiting) st s1 result0 where "reconciliation_state db session c = Inr (result0, st)" "\<not> rc_settled result0"
      "db' = (if st = F_OPEN then estimate_failure db c else db)"
      "reconciliation_state db' session c = Inr (result, s1)" "rc_remaining result \<noteq> 0"
  | (settled) st s1 s2 result0 result1 db1 where "reconciliation_state db session c = Inr (result0, st)" "\<not> rc_settled result0"
      "db1 = (if st = F_OPEN then estimate_failure db c else db)"
      "reconciliation_state db1 session c = Inr (result1, s1)" "rc_remaining result1 = 0"
      "settle_with percent True db1 (rc_assignment result1) = (db', Inr ())"
      "reconciliation_state db' session c = Inr (result, s2)"
proof -
  obtain result0 st where r0: "reconciliation_state db session c = Inr (result0, st)"
    using assms by (auto simp: reconcile_ambiguous_call_def res_simps)
  note run = assms [unfolded reconcile_ambiguous_call_def r0 res_bind_Inr prod.case]
  show thesis
  proof (cases "rc_settled result0")
    case True
    with run r0 show thesis by (intro replay) (auto split: if_splits)
  next
    case False
    let ?db1 = "if st = F_OPEN then estimate_failure db c else db"
    from run False obtain result1 s1 where r1: "reconciliation_state ?db1 session c = Inr (result1, s1)"
      and rest: "(if rc_remaining result1 = 0 then
          (case settle_with percent True ?db1 (rc_assignment result1) of
             (db2, Inl e) \<Rightarrow> Inl e
           | (db2, Inr u) \<Rightarrow>
               res_bind (reconciliation_state db2 session c) (\<lambda>(result2, s2). Inr (db2, result2)))
        else Inr (?db1, result1)) = Inr (db', result)"
      by (auto simp: res_simps Let_def)
    show thesis
    proof (cases "rc_remaining result1 = 0")
      case True
      with rest have "settle_with percent True ?db1 (rc_assignment result1) = (db', Inr ())"
        "\<exists>s2. reconciliation_state db' session c = Inr (result, s2)"
        by (auto simp: res_simps split: prod.splits sum.splits)
      with settled [OF r0 False refl r1 True] show thesis by blast
    next
      case no: False
      with rest have "db' = ?db1" "result = result1" by simp_all
      with waiting [OF r0 False] r1 no show thesis by simp
    qed
  qed
qed

lemma step_reconcile:
  assumes ok: "calls_ok db" and r: "reconcile_ambiguous_call percent db session c = Inr (db', result)"
  shows "call_step_ok db db'"
  using r
proof (cases rule: reconcile_cases)
  case replay
  with ok show ?thesis by (simp add: call_step_refl)
next
  case (waiting st s1 result0)
  with ok step_estimate_failure show ?thesis by (simp add: call_step_refl)
next
  case (settled st s1 s2 result0 result1 db1)
  have s: "call_step_ok db db1" using settled(3) ok step_estimate_failure by (simp add: call_step_refl)
  then have "calls_ok db1" by (simp add: call_step_ok_def)
  from step_settle_with [OF this, of percent True "rc_assignment result1"] settled(6)
  have "call_step_ok db1 db'" by simp
  with s show ?thesis using call_step_trans by blast
qed

lemma kept_step: "calls_ok db \<Longrightarrow> (\<And>d. m = Inr d \<Longrightarrow> call_step_ok db d) \<Longrightarrow> call_step_ok db (kept db m)"
  by (cases m) (simp_all add: kept_def call_step_refl)

lemma call_next_step: "calls_ok db \<Longrightarrow> call_step_ok db (call_next percent providers db op)"
proof (induction op)
  case (BeginCall i key c)
  then show ?case by (simp add: kept_step step_begin_call)
next
  case (CallSucceeded c)
  then show ?case by (simp add: kept_step step_mark_succeeded)
next
  case (CallAmbiguous c s)
  then show ?case by (simp add: kept_step step_mark_ambiguous)
next
  case (CallRejected c b)
  then show ?case by (simp add: kept_step step_mark_rejected)
next
  case (RecordCall i js c)
  then show ?case by (simp add: kept_step step_record_call)
next
  case (UnreturnedCalls i)
  then show ?case by (simp add: step_unreturned)
next
  case (ReconcileCall session c)
  show ?case
    unfolding call_next.simps
  proof (rule kept_step [OF ReconcileCall])
    fix d
    assume "map_sum id fst (reconcile_ambiguous_call percent db session c) = Inr d"
    then obtain result where "reconcile_ambiguous_call percent db session c = Inr (d, result)"
      by (cases "reconcile_ambiguous_call percent db session c") auto
    then show "call_step_ok db d" by (rule step_reconcile [OF ReconcileCall])
  qed
next
  case (SettleAttempt i)
  then show ?case by (simp add: settle_attempt_def step_settle_with)
qed

lemma call_history_step: "calls_ok db \<Longrightarrow> call_step_ok db (call_history percent providers db ops)"
  unfolding call_history_def
proof (induction ops arbitrary: db)
  case Nil
  then show ?case by (simp add: call_step_refl)
next
  case (Cons op ops)
  have s: "call_step_ok db (call_next percent providers db op)" by (rule call_next_step [OF Cons.prems])
  then have "calls_ok (call_next percent providers db op)" by (simp add: call_step_ok_def)
  from call_step_trans [OF s Cons.IH [OF this]] show ?case by simp
qed

text \<open>A failed settlement blocks the paid calls of its run for good: nothing closes its failure.\<close>

lemma run_of_kept: "call_step_ok db db' \<Longrightarrow> run_of db' i = run_of db i"
  by (simp add: call_step_ok_def same_owners_def run_of_def assignment_by_id_def)

lemma failed_settlement_blocks_run:
  assumes ok: "calls_ok db" and f: "f \<in> set (cl_failures db)" "fl_call f = None" "fl_status f = F_OPEN"
    and run: "run_of db (fl_assignment f) = Some rid" "run_of db i = Some rid"
  shows "\<not> is_ok (begin_call (call_history percent providers db ops) i key c)"
proof -
  let ?d = "call_history percent providers db ops"
  have s: "call_step_ok db ?d" by (rule call_history_step [OF ok])
  then have "f \<in> set (cl_failures ?d)" using f(1,2) by (auto simp: call_step_ok_def)
  then have "uncertain_run ?d rid"
    using f(3) run(1) by (auto simp: uncertain_run_def list_ex_iff run_of_kept [OF s])
  moreover have "run_of ?d i = Some rid" using run(2) by (simp add: run_of_kept [OF s])
  ultimately show ?thesis
    unfolding is_ok_iff by (auto elim!: begin_call_steps)
qed

section \<open>Settlement and reconciliation\<close>

lemma settle_with_ok:
  assumes "settle_with percent reconciled db i = (db', Inr ())"
  obtains a estimate r where "assignment_by_id db i = Some a"
    "Option.bind (json_get (as_payload a) ''estimated_attempt_cost_usd'') as_num = Some estimate"
    "payload_id (as_payload a) ''reservation_id'' = Inr r"
    "settle percent db r (''usage:'' @ i) (attempt_usage db i estimate (pricing_of (as_payload a)) reconciled)
       (''attempt-usage:'' @ i) = Inr db'"
  using assms that by (auto simp: settle_with_def res_simps split: option.splits sum.splits)

lemma attempt_usage_fields [simp]:
  "nu_cost (attempt_usage db i estimate pricing reconciled) =
     Some (if all_measured db i pricing then known_cost db i pricing else max estimate (known_cost db i pricing))"
  "nu_authority (attempt_usage db i estimate pricing reconciled) = AUTHORITATIVE_ACTUAL \<longleftrightarrow> all_authoritative db i"
  by (simp_all add: attempt_usage_def Let_def)

lemma settled_row:
  assumes ok: "ledger_ok db" and st: "settle percent db r uid usage key = Inr db'"
  obtains row u cost where "reservation_by_id db' r = Some row" "rs_status row = R_SETTLED" "usage_for db' r = Some u"
    "nu_cost usage = Some cost" "us_amount u = cost" "us_authoritative u \<longleftrightarrow> nu_authority usage = AUTHORITATIVE_ACTUAL"
proof (rule settle_effect [OF ok st])
  fix row cost
  assume r: "reservation_by_id db r = Some row" and cost: "nu_cost usage = Some cost" and ok': "ledger_ok db'"
  have "usage_settled db' r uid cost (nu_authority usage) key" by (rule settle_records [OF ok st cost])
  then obtain u where u: "usage_for db' r = Some u" "us_amount u = cost"
      "us_authoritative u \<longleftrightarrow> nu_authority usage = AUTHORITATIVE_ACTUAL"
    by (auto simp: usage_settled_def same_usage_def split: option.splits)
  obtain row' where row': "reservation_by_id db' r = Some row'"
    using r settle_keeps_reservation [OF st] by (metis option.exhaust option.distinct(1) reservation_by_id_iff)
  show thesis
    by (rule that [OF row' usage_for_settled(1) [OF ok' u(1) row'] u(1) cost u(2,3)])
qed

lemma find_map_pred: "(\<And>x. p (g x) = p x) \<Longrightarrow> List.find p (map g xs) = map_option g (List.find p xs)"
  by (induction xs) auto

lemma failure_of_estimated:
  "failure_of_call db c = Some f \<Longrightarrow> \<exists>f'. failure_of_call (estimate_failure db c) c = Some f' \<and> fl_status f' = F_ESTIMATED"
  unfolding failure_of_call_def estimate_failure_def
  by (simp, subst find_map_pred) (auto dest: find_in intro: failure_status.exhaust)

lemma reconciliation_state_steps:
  assumes "reconciliation_state db session c = Inr (r, st)"
  obtains x a f rid row where "call_by_id db c = Some x" "assignment_by_id db (pc_assignment x) = Some a"
    "failure_of_call db c = Some f" "st = fl_status f" "payload_id (as_payload a) ''reservation_id'' = Inr rid"
    "reservation_by_id db rid = Some row" "rc_settled r \<longleftrightarrow> rs_status row = R_SETTLED" "rc_assignment r = as_id a"
proof -
  obtain x a where x: "call_by_id db c = Some x" and a: "assignment_by_id db (pc_assignment x) = Some a"
    using assms by (auto simp: reconciliation_state_def bind_eq_Some_conv split: option.splits)
  then have "Option.bind (call_by_id db c) (\<lambda>x. map_option (Pair x) (assignment_by_id db (pc_assignment x))) = Some (x, a)"
    by simp
  note run = assms [unfolded reconciliation_state_def this option.case prod.case]
  from run obtain f where f: "failure_of_call db c = Some f" by (auto split: if_splits option.splits)
  note run = run [unfolded f option.case Let_def]
  show thesis
    using run by (auto simp: res_simps split: if_splits option.splits intro!: that [OF x a f])
qed

text \<open>A reconciliation of a state that a reconciliation produced changes nothing.\<close>

lemma reconcile_again:
  assumes r: "reconciliation_state db session c = Inr (result, F_ESTIMATED)"
    and s: "rc_settled result \<or> rc_remaining result \<noteq> 0"
  shows "reconcile_ambiguous_call percent db session c = Inr (db, result)"
  using s by (auto simp: reconcile_ambiguous_call_def r)

lemma status_after_estimate:
  assumes "reconciliation_state db session c = Inr (r0, st)"
    and "reconciliation_state (if st = F_OPEN then estimate_failure db c else db) session c = Inr (r1, s1)"
  shows "s1 = F_ESTIMATED"
proof (cases st)
  case F_OPEN
  from assms(1) obtain f where "failure_of_call db c = Some f" by (rule reconciliation_state_steps)
  from failure_of_estimated [OF this] obtain f' where "failure_of_call (estimate_failure db c) c = Some f'" "fl_status f' = F_ESTIMATED"
    by blast
  with assms(2) F_OPEN show ?thesis by (auto elim: reconciliation_state_steps)
next
  case F_ESTIMATED
  with assms show ?thesis by simp
qed

lemma state_after_settlement:
  assumes ok: "ledger_ok db" and r: "reconciliation_state db session c = Inr (r1, st)"
    and s: "settle_with percent reconciled db (rc_assignment r1) = (db', Inr ())"
    and r': "reconciliation_state db' session c = Inr (r2, st')"
  shows "st' = st \<and> rc_settled r2"
proof (rule settle_with_ok [OF s])
  fix a estimate rid
  assume a: "assignment_by_id db (rc_assignment r1) = Some a" and rid: "payload_id (as_payload a) ''reservation_id'' = Inr rid"
    and st: "settle percent db rid (''usage:'' @ rc_assignment r1)
      (attempt_usage db (rc_assignment r1) estimate (pricing_of (as_payload a)) reconciled)
      (''attempt-usage:'' @ rc_assignment r1) = Inr db'"
  note frame = settle_frame [OF st]
  have calls: "cl_calls db' = cl_calls db" "cl_failures db' = cl_failures db" using frame by (auto dest: calls_of_more)
  have same: "call_by_id db' = call_by_id db" "failure_of_call db' = failure_of_call db" "assignment_by_id db' = assignment_by_id db"
    using frame by (auto simp: fun_eq_iff call_by_id_def failure_of_call_def assignment_by_id_def calls)
  obtain row where row: "reservation_by_id db' rid = Some row" "rs_status row = R_SETTLED"
    using settled_row [OF ok st] by metis
  show ?thesis
  proof (rule reconciliation_state_steps [OF r], rule reconciliation_state_steps [OF r'])
    fix x b f rid1 row1 x' b' f' rid2 row2
    assume b: "call_by_id db c = Some x" "assignment_by_id db (pc_assignment x) = Some b" "rc_assignment r1 = as_id b"
      "failure_of_call db c = Some f" "st = fl_status f"
      and b': "call_by_id db' c = Some x'" "assignment_by_id db' (pc_assignment x') = Some b'"
      "payload_id (as_payload b') ''reservation_id'' = Inr rid2" "reservation_by_id db' rid2 = Some row2"
      "rc_settled r2 \<longleftrightarrow> rs_status row2 = R_SETTLED" "failure_of_call db' c = Some f'" "st' = fl_status f'"
    have "as_id b = pc_assignment x" using b(2) by (auto simp: assignment_by_id_def dest: find_in)
    then have "b = a" "b' = b" using a b b' same by simp_all
    then have "rid2 = rid" using b'(3) rid by simp
    then show ?thesis using row b'(4-7) b(4,5) same by simp
  qed
qed

section \<open>Properties\<close>

text \<open>
  C18: paid calls are recorded once.  Every history of call operations keeps the call tables
  consistent (unique identifiers, execution keys and ordinals, one failure for exactly each call of
  unknown outcome), forgets no call and never changes the outcome of a call that has one.
\<close>

theorem calls_recorded_once:
  assumes "calls_ok db"
  shows "calls_ok (call_history percent providers db ops) \<and>
     (\<forall>c \<in> set (cl_calls db). \<exists>c' \<in> set (cl_calls (call_history percent providers db ops)). same_call c c')"
  using call_history_step [OF assms] by (auto simp: call_step_ok_def calls_kept_def)

text \<open>
  C19: the gate of a paid call.  A call starts only for a funded attempt of a run below its limit
  in which every call of unknown outcome has been given its estimate, and starting it adds exactly
  one row, in status started, under the next ordinal of the assignment.
\<close>

theorem paid_call_gate:
  assumes "calls_ok db" and "begin_call db i key c = Inr db'"
  shows "\<exists>a rid r row x. assignment_by_id db i = Some a \<and> run_of db i = Some rid \<and>
     payload_id (as_payload a) ''reservation_id'' = Inr r \<and> reservation_by_id db r = Some row \<and> rs_status row = R_RESERVED \<and>
     (\<forall>l. run_limit db rid = Some (Some l) \<longrightarrow> observed_cost db rid < l) \<and>
     (\<forall>y \<in> set (cl_calls db). pc_status y = C_AMBIGUOUS \<longrightarrow> run_of db (pc_assignment y) = Some rid \<longrightarrow>
        map_option fl_status (failure_of_call db (pc_id y)) = Some F_ESTIMATED) \<and>
     db' = db\<lparr>cl_calls := cl_calls db @ [x]\<rparr> \<and> pc_id x = c \<and> pc_assignment x = i \<and> pc_key x = key \<and>
     pc_status x = C_STARTED \<and>
     (\<forall>y \<in> set (cl_calls db). pc_assignment y = i \<longrightarrow> pc_ordinal y < pc_ordinal x \<and> pc_key y \<noteq> key)"
proof (rule begin_call_steps [OF assms(2)])
  fix a rid r row
  assume st: "assignment_by_id db i = Some a" "run_of db i = Some rid" "payload_id (as_payload a) ''reservation_id'' = Inr r"
      "reservation_by_id db r = Some row" "rs_status row = R_RESERVED"
      "\<And>l. run_limit db rid = Some (Some l) \<Longrightarrow> observed_cost db rid < l"
      "db' = db\<lparr>cl_calls := cl_calls db @ [new_call db i (as_attempt a) key c]\<rparr>"
    and key: "\<not> list_ex (\<lambda>c. pc_assignment c = i \<and> pc_key c = key) (cl_calls db)" and sure: "\<not> uncertain_run db rid"
  let ?x = "new_call db i (as_attempt a) key c"
  have est: "map_option fl_status (failure_of_call db (pc_id y)) = Some F_ESTIMATED"
    if y: "y \<in> set (cl_calls db)" "pc_status y = C_AMBIGUOUS" "run_of db (pc_assignment y) = Some rid" for y
  proof -
    obtain g where g: "g \<in> set (cl_failures db)" "fl_call g = Some (pc_id y)"
      using assms(1) y(1,2) unfolding calls_ok_iff by blast
    then obtain f where f: "failure_of_call db (pc_id y) = Some f"
      by (cases "failure_of_call db (pc_id y)") (auto simp: failure_of_call_def find_None_iff)
    then have in_f: "f \<in> set (cl_failures db)" "fl_call f = Some (pc_id y)"
      by (auto simp: failure_of_call_def dest: find_in)
    then obtain z where z: "z \<in> set (cl_calls db)" "pc_id z = pc_id y" "fl_assignment f = pc_assignment z"
      using assms(1) unfolding calls_ok_iff by force
    then have "z = y" using same_id_same_call [OF assms(1) z(1) y(1) z(2)] by simp
    then have "fl_status f \<noteq> F_OPEN" using sure in_f z(3) y(3) by (auto simp: uncertain_run_def list_ex_iff)
    with f show ?thesis by (cases "fl_status f") simp_all
  qed
  have x: "pc_id ?x = c" "pc_assignment ?x = i" "pc_key ?x = key" "pc_status ?x = C_STARTED"
    "pc_ordinal ?x = next_ordinal db i" by (simp_all add: new_call_def)
  have older: "\<forall>y \<in> set (cl_calls db). pc_assignment y = i \<longrightarrow> pc_ordinal y < pc_ordinal ?x \<and> pc_key y \<noteq> key"
    using ordinal_below_next key x by (auto simp: list_ex_iff)
  show ?thesis
    by (intro exI [of _ a] exI [of _ rid] exI [of _ r] exI [of _ row] exI [of _ ?x] conjI st(1-5,7) x(1-4) older)
      (use st(6) est in auto)
qed

text \<open>
  C20: a settlement covers what is known to have been spent.  It books exactly the known cost when
  every call is measured, and otherwise at least the known cost and at least the frozen estimate;
  it is authoritative only when every call is; and a settlement that fails leaves the ledger as
  it was and opens a failure.
\<close>

theorem settlement_covers_calls:
  assumes "ledger_ok db" and "assignment_by_id db i = Some a"
    and "Option.bind (json_get (as_payload a) ''estimated_attempt_cost_usd'') as_num = Some estimate"
    and "payload_id (as_payload a) ''reservation_id'' = Inr r"
  shows "case settle_with percent reconciled db i of
      (db', Inr _) \<Rightarrow>
        (\<exists>row u. reservation_by_id db' r = Some row \<and> rs_status row = R_SETTLED \<and> usage_for db' r = Some u \<and>
           known_cost db i (pricing_of (as_payload a)) \<le> us_amount u \<and>
           (if all_measured db i (pricing_of (as_payload a))
              then us_amount u = known_cost db i (pricing_of (as_payload a)) else estimate \<le> us_amount u) \<and>
           (us_authoritative u \<longleftrightarrow> all_authoritative db i))
    | (db', Inl e) \<Rightarrow>
        same_ledger db db' \<and> cl_calls db' = cl_calls db \<and>
        (\<exists>f. cl_failures db' = cl_failures db @ [f] \<and> fl_assignment f = i \<and> fl_call f = None \<and> fl_status f = F_OPEN)"
proof -
  let ?u = "attempt_usage db i estimate (pricing_of (as_payload a)) reconciled"
  let ?s = "settle percent db r (''usage:'' @ i) ?u (''attempt-usage:'' @ i)"
  show ?thesis
  proof (cases ?s)
    case (Inl e)
    then show ?thesis
      by (simp add: settle_with_def assms(2-4) open_failure_def same_ledger_def)
  next
    case (Inr db')
    obtain row u cost where out: "reservation_by_id db' r = Some row" "rs_status row = R_SETTLED" "usage_for db' r = Some u"
      "nu_cost ?u = Some cost" "us_amount u = cost" "us_authoritative u \<longleftrightarrow> nu_authority ?u = AUTHORITATIVE_ACTUAL"
      by (rule settled_row [OF assms(1) Inr])
    then have "known_cost db i (pricing_of (as_payload a)) \<le> us_amount u"
      "if all_measured db i (pricing_of (as_payload a))
              then us_amount u = known_cost db i (pricing_of (as_payload a)) else estimate \<le> us_amount u"
      "us_authoritative u \<longleftrightarrow> all_authoritative db i"
      by (auto simp: max_def split: if_splits)
    with out(1-3) have "\<exists>row u. reservation_by_id db' r = Some row \<and> rs_status row = R_SETTLED \<and> usage_for db' r = Some u \<and>
           known_cost db i (pricing_of (as_payload a)) \<le> us_amount u \<and>
           (if all_measured db i (pricing_of (as_payload a))
              then us_amount u = known_cost db i (pricing_of (as_payload a)) else estimate \<le> us_amount u) \<and>
           (us_authoritative u \<longleftrightarrow> all_authoritative db i)" by blast
    moreover have "settle_with percent reconciled db i = (db', Inr ())"
      using Inr by (simp add: settle_with_def assms(2-4))
    ultimately show ?thesis by simp
  qed
qed

text \<open>
  Reconciling an unknown outcome is idempotent and complete.  A reconciliation that returns
  leaves a state in which the same request returns the same answer and changes nothing, and once no
  call of the attempt is open any more the reservation is settled.
\<close>

theorem reconciliation_idempotent:
  assumes "ledger_ok db" and "reconcile_ambiguous_call percent db session c = Inr (db', result)"
  shows "reconcile_ambiguous_call percent db' session c = Inr (db', result) \<and>
     (rc_remaining result = 0 \<longrightarrow> rc_settled result)"
  using assms(2)
proof (cases rule: reconcile_cases)
  case replay
  then show ?thesis using reconcile_again by simp
next
  case (waiting st s1 result0)
  have "s1 = F_ESTIMATED" by (rule status_after_estimate [OF waiting(1) waiting(4) [unfolded waiting(3)]])
  with waiting(4,5) reconcile_again show ?thesis by simp
next
  case (settled st s1 s2 result0 result1 db1)
  have "s1 = F_ESTIMATED" by (rule status_after_estimate [OF settled(1) settled(4) [unfolded settled(3)]])
  moreover have "ledger_ok db1"
    using assms(1) by (simp add: settled(3) estimate_failure_def ledger_ok_def usage_reservations_def)
  ultimately have "s2 = F_ESTIMATED \<and> rc_settled result"
    using state_after_settlement [OF _ settled(4) settled(6) settled(7)] by simp
  with settled(7) reconcile_again show ?thesis by simp
qed

section \<open>A concrete history\<close>

definition ex_call_start :: call_db where
  "ex_call_start = \<lparr>jd_sessions = jd_sessions ex_batch_db, jd_runs = jd_runs ex_batch_db, jd_tasks = jd_tasks ex_batch_db,
     jd_results = jd_results ex_batch_db, jd_attempts = jd_attempts ex_batch_db, jd_assignments = [],
     jd_reservations = [], jd_usage = [], jd_approvals = [], jd_packets = [], jd_events = [], jd_warning = (\<lambda>_. None),
     cl_calls = [], cl_failures = [], cl_usage = []\<rparr>"

definition ex_assigned_row :: assignment_row where
  "ex_assigned_row = \<lparr>as_id = ''aaaaaaaa-0000-4000-8000-000000000000'', as_attempt = ''a1'', as_provider = ''p'',
     as_model = ''b'', as_cost = 2, as_key = ''assignment:attempt:a1:primary'', as_payload = JObj
      [(''assignment_id'', JStr ''aaaaaaaa-0000-4000-8000-000000000000''),
       (''task_id'', JStr ''aaaaaaaa-aaaa-4aaa-8aaa-aaaaaaaaaaaa''), (''attempt_number'', JNum 1),
       (''provider'', JStr ''p''), (''model'', JStr ''b''), (''routing_mode'', JStr ''auto''),
       (''capability_floor'', JNum (1 / 2)), (''capability_fit'', JNum (3 / 5)),
       (''estimated_attempt_cost_usd'', JNum 2),
       (''reservation_id'', JStr ''aaaaaaaa-0000-4000-8000-000000000001''),
       (''explanation'', JList [JStr ''cost,capability_fit,tool_reliability,latency,stable_key'',
          JStr ''binding_constraint=capability_floor'', JStr ''included=2'', JStr ''excluded.capability_floor=1'']),
       (''catalog_revision'', JStr ''cat''), (''attempt_id'', JStr ''a1''),
       (''requirements'', JObj [(''role'', JStr ''implementer''), (''risk'', JStr ''routine''),
          (''mode'', JStr ''auto''), (''capability_floor'', JNum (1 / 2)), (''role_hard_min'', JNum 0),
          (''tools_required'', JBool True), (''structured_output_required'', JBool False),
          (''minimum_context_tokens'', JNum 1000), (''minimum_output_tokens'', JNum 100),
          (''modalities'', JList [JStr ''text'']), (''escalated'', JBool False),
          (''failed_capability_fit'', JNull), (''excluded_models'', JList [])]),
       (''config'', JNull),
       (''budget'', JObj [(''hard_limit_usd'', JNum 5), (''authoritative_actual_usd'', JNum 0),
          (''estimated_actual_usd'', JNum 0), (''reserved_usd'', JNum 0), (''available_usd'', JNum 5)]),
       (''health_revision'', JStr ''h''),
       (''routing_inputs'', JList (map (\<lambda>(m, cost). JObj [(''provider'', JStr ''p''), (''model'', JStr m),
          (''configured'', JBool True), (''healthy'', JBool True), (''enabled'', JBool True),
          (''estimated_cost_usd'', JNum cost)]) [(''b'', 2), (''a'', 3), (''c'', 1)])),
       (''fallback_of_assignment_id'', JNull),
       (''pricing_evidence'', JObj [(''catalog_revision'', JStr ''cat''), (''input_usd_per_million'', JNum 1),
          (''output_usd_per_million'', JNum 1), (''cached_input_usd_per_million'', JNull)])]\<rparr>"

definition ex_assigned :: call_db where
  "ex_assigned = ex_call_start\<lparr>jd_assignments := [ex_assigned_row],
     jd_reservations := [\<lparr>rs_id = ''aaaaaaaa-0000-4000-8000-000000000001'', rs_run = ''r'',
       rs_task = Some (ex_uuid CHR ''a''), rs_amount = 2, rs_status = R_RESERVED,
       rs_key = ''assignment-reservation:aaaaaaaa-0000-4000-8000-000000000000'', rs_purpose = ''task_attempt''\<rparr>],
     jd_events := [\<lparr>en_id = ''aaaaaaaa-0000-4000-8000-000000000003'', en_run = ''r'', en_seq = 1, en_json = ''budget.reserved''\<rparr>,
       \<lparr>en_id = ''aaaaaaaa-0000-4000-8000-000000000004'', en_run = ''r'', en_seq = 2, en_json = ''route.selected''\<rparr>]\<rparr>"

text \<open>The example database is the one an assignment leaves.\<close>

lemma ex_assigned_reached:
  "(case assign ex_assign_env (\<lambda>_. True) ex_call_start (ex_assignment_request CHR ''a'') 0 (\<lambda>_. ex_routing_snapshot) 2 of
      Inl e \<Rightarrow> None | Inr (db, r) \<Rightarrow> Some (jd_assignments db, jd_reservations db, jd_events db)) =
     Some (jd_assignments ex_assigned, jd_reservations ex_assigned, jd_events ex_assigned)"
  by code_simp

definition ex_assignment_id :: string where
  "ex_assignment_id = en_fresh ex_assign_env 0 0"

definition ex_providers :: "string \<Rightarrow> (json \<Rightarrow> normalized_usage option) option" where
  "ex_providers p = (if p = ''p'' then Some (\<lambda>j. map_option (\<lambda>n. \<lparr>nu_input = \<lfloor>n\<rfloor>, nu_output = 0, nu_cached = 0,
     nu_cost = None, nu_authority = UNKNOWN_AUTHORITY\<rparr>) (as_num j)) else None)"

definition ex_call_ops :: "call_op list" where
  "ex_call_ops = [BeginCall ex_assignment_id ''k1'' ''c1'', CallSucceeded ''c1'',
     RecordCall ex_assignment_id [JNum 500000] ''c1'', BeginCall ex_assignment_id ''k2'' ''c2'',
     CallAmbiguous ''c2'' ''Timeout'', BeginCall ex_assignment_id ''k3'' ''c3'', ReconcileCall ''s'' ''c2'']"

definition ex_ambiguous :: call_db where
  "ex_ambiguous = call_history (8/10) ex_providers ex_assigned (take 6 ex_call_ops)"

definition ex_reconciled :: "(call_db \<times> reconciliation) res" where
  "ex_reconciled = reconcile_ambiguous_call (8/10) ex_ambiguous ''s'' ''c2''"

lemma ex_assigned_ok: "calls_ok ex_assigned" by code_simp

theorem calls_recorded_once_witness:
  "map (\<lambda>c. (pc_id c, pc_status c)) (cl_calls (call_history (8/10) ex_providers ex_assigned ex_call_ops)) =
     [(''c1'', C_COMPLETED), (''c2'', C_AMBIGUOUS)] \<and>
   calls_ok (call_history (8/10) ex_providers ex_assigned ex_call_ops)"
proof
  show "map (\<lambda>c. (pc_id c, pc_status c)) (cl_calls (call_history (8/10) ex_providers ex_assigned ex_call_ops)) =
     [(''c1'', C_COMPLETED), (''c2'', C_AMBIGUOUS)]" by code_simp
  show "calls_ok (call_history (8/10) ex_providers ex_assigned ex_call_ops)"
    using calls_recorded_once [OF ex_assigned_ok] by blast
qed

theorem paid_call_gate_witness:
  "\<exists>x. begin_call ex_assigned ex_assignment_id ''k1'' ''c1'' = Inr (ex_assigned\<lparr>cl_calls := [x]\<rparr>) \<and>
     pc_status x = C_STARTED \<and> \<not> is_ok (begin_call ex_ambiguous ex_assignment_id ''k3'' ''c3'')"
proof -
  have "is_ok (begin_call ex_assigned ex_assignment_id ''k1'' ''c1'')" by code_simp
  then obtain db' where b: "begin_call ex_assigned ex_assignment_id ''k1'' ''c1'' = Inr db'" by (auto simp: is_ok_iff)
  have no: "\<not> is_ok (begin_call ex_ambiguous ex_assignment_id ''k3'' ''c3'')" by code_simp
  have none: "cl_calls ex_assigned = []" by code_simp
  from paid_call_gate [OF ex_assigned_ok b] obtain x
    where "db' = ex_assigned\<lparr>cl_calls := cl_calls ex_assigned @ [x]\<rparr>" "pc_status x = C_STARTED" by blast
  with b no none show ?thesis by (intro exI [of _ x]) simp
qed

definition ex_spent :: call_db where
  "ex_spent = call_history (8/10) ex_providers ex_assigned (take 3 ex_call_ops)"

theorem settlement_covers_calls_witness:
  "\<exists>db' u. settle_with (8/10) False ex_spent ex_assignment_id = (db', Inr ()) \<and>
     usage_for db' (en_fresh ex_assign_env 0 1) = Some u \<and> us_amount u = 1 / 2"
proof -
  have ok: "ledger_ok ex_spent" by code_simp
  have "assignment_by_id ex_spent ex_assignment_id \<noteq> None" by code_simp
  then obtain a where a: "assignment_by_id ex_spent ex_assignment_id = Some a" by blast
  have "map_option (\<lambda>a. Option.bind (json_get (as_payload a) ''estimated_attempt_cost_usd'') as_num)
      (assignment_by_id ex_spent ex_assignment_id) = Some (Some 2)" by code_simp
  with a have est: "Option.bind (json_get (as_payload a) ''estimated_attempt_cost_usd'') as_num = Some 2" by simp
  have "map_option (\<lambda>a. payload_id (as_payload a) ''reservation_id'') (assignment_by_id ex_spent ex_assignment_id) =
      Some (Inr (en_fresh ex_assign_env 0 1))" by code_simp
  with a have r: "payload_id (as_payload a) ''reservation_id'' = Inr (en_fresh ex_assign_env 0 1)" by simp
  have "map_option (\<lambda>a. (known_cost ex_spent ex_assignment_id (pricing_of (as_payload a)),
      all_measured ex_spent ex_assignment_id (pricing_of (as_payload a)))) (assignment_by_id ex_spent ex_assignment_id) =
      Some (1 / 2, True)" by code_simp
  with a have cost: "known_cost ex_spent ex_assignment_id (pricing_of (as_payload a)) = 1 / 2"
    "all_measured ex_spent ex_assignment_id (pricing_of (as_payload a))" by simp_all
  have "is_ok (snd (settle_with (8/10) False ex_spent ex_assignment_id))" by code_simp
  then obtain db' where s: "settle_with (8/10) False ex_spent ex_assignment_id = (db', Inr ())"
    by (cases "settle_with (8/10) False ex_spent ex_assignment_id") (auto simp: is_ok_iff)
  from settlement_covers_calls [OF ok a est r, of "8/10" False] s cost show ?thesis by auto
qed

theorem reconciliation_idempotent_witness:
  "\<exists>db' result. reconcile_ambiguous_call (8/10) ex_ambiguous ''s'' ''c2'' = Inr (db', result) \<and>
     reconcile_ambiguous_call (8/10) db' ''s'' ''c2'' = Inr (db', result) \<and> rc_settled result \<and> rc_estimate result = 2"
proof -
  have ok: "ledger_ok ex_ambiguous" by code_simp
  have "is_ok ex_reconciled" by code_simp
  then obtain db' result where r: "ex_reconciled = Inr (db', result)"
    using got_ok [of ex_reconciled] by (cases "got ex_reconciled") auto
  have "rc_remaining (snd (got ex_reconciled)) = 0 \<and> rc_estimate (snd (got ex_reconciled)) = 2" by code_simp
  then have "rc_remaining result = 0" "rc_estimate result = 2" by (simp_all add: r got_def)
  with reconciliation_idempotent [OF ok r [unfolded ex_reconciled_def]] r show ?thesis
    by (auto simp: ex_reconciled_def)
qed

end
