(* ===== verification/Scheduler.thy ===== *)
theory Scheduler
  imports Prelude Dependency_Graph
begin

text \<open>
  The child scheduler (\<open>ChildScheduler\<close> in \<open>src/src/skail/runtime/scheduler.py\<close>): submission,
  ordering of the ready children, the running set, completion, failure that blocks the
  transitive dependents, cancellation, approval and retry; the waiting and completion steps of
  \<open>execute\<close> as an interleaving of atomic steps; and the batch loop \<open>run\<close>.

  A child is an entry of the insertion-ordered dictionary \<open>_children\<close>.  The condition
  variable only wakes waiters and is left out: a step that waits for a predicate is a step whose
  guard is the predicate.  Which running operations complete first is a parameter of \<open>run\<close>.
\<close>

section \<open>State\<close>

record scheduled_child =
  sk_id :: string
  sk_priority :: int
  sk_order :: nat
  sk_depends :: "string list"
  sk_awaiting :: bool

record scheduler =
  sc_max :: nat
  sc_children :: "scheduled_child list"
  sc_completed :: "string set"
  sc_failed :: "string set"
  sc_running :: "string set"
  sc_blocked :: "(string \<times> string) list"

definition blocked_ids :: "scheduler \<Rightarrow> string set" where
  "blocked_ids s = set (map fst (sc_blocked s))"

definition child_ids :: "scheduler \<Rightarrow> string list" where
  "child_ids s = map sk_id (sc_children s)"

definition new_scheduler :: "nat \<Rightarrow> scheduler res" where
  "new_scheduler max_children =
     (if \<not> (1 \<le> max_children \<and> max_children \<le> 3) then Inl (ValueError ''max_children must be between 1 and 3'')
      else Inr \<lparr>sc_max = max_children, sc_children = [], sc_completed = {}, sc_failed = {}, sc_running = {}, sc_blocked = []\<rparr>)"

section \<open>Operations\<close>

definition submit ::
  "scheduler \<Rightarrow> string \<Rightarrow> int \<Rightarrow> string list \<Rightarrow> bool \<Rightarrow> scheduler res" where
  "submit s t priority depends awaiting =
     (if t \<in> set (child_ids s) then Inl (ValueError ''scheduler duplicate task ID'')
      else if \<not> set depends \<subseteq> set (child_ids s) then Inl (ValueError ''scheduler dependency is missing'')
      else Inr (s\<lparr>sc_children := sc_children s @ [\<lparr>sk_id = t, sk_priority = priority,
             sk_order = length (sc_children s), sk_depends = depends, sk_awaiting = awaiting\<rparr>]\<rparr>))"

text \<open>Setting a key of the dictionary \<open>blocked\<close>.\<close>

definition block :: "string \<Rightarrow> string \<Rightarrow> (string \<times> string) list \<Rightarrow> (string \<times> string) list" where
  "block t reason b = (t, reason) # filter (\<lambda>(k, v). k \<noteq> t) b"

text \<open>
  \<open>_block_dependents\<close>: the recursion over all children, with the depth Python would allow as
  fuel; \<open>None\<close> is the recursion error.
\<close>

fun block_dependents ::
  "nat \<Rightarrow> scheduled_child list \<Rightarrow> string \<Rightarrow> string \<Rightarrow> (string \<times> string) list \<Rightarrow> (string \<times> string) list option" where
  "block_dependents 0 cs t reason b = None"
| "block_dependents (Suc n) cs t reason b =
     fold (\<lambda>c ob. Option.bind ob (\<lambda>b.
         if t \<in> set (sk_depends c) then block_dependents n cs (sk_id c) reason (block (sk_id c) reason b)
         else Some b)) cs (Some b)"

definition blocking :: "scheduler \<Rightarrow> string \<Rightarrow> string \<Rightarrow> scheduler res" where
  "blocking s t reason =
     (case block_dependents (Suc (length (sc_children s))) (sc_children s) t reason (sc_blocked s) of
        None \<Rightarrow> Inl (RuntimeError ''maximum recursion depth exceeded'')
      | Some b \<Rightarrow> Inr (s\<lparr>sc_failed := insert t (sc_failed s), sc_blocked := b\<rparr>))"

definition finish_child :: "scheduler \<Rightarrow> string \<Rightarrow> bool \<Rightarrow> scheduler res" where
  "finish_child s t succeeded =
     (if t \<notin> set (child_ids s) then Inl (ValueError ''scheduler task is unknown'')
      else if succeeded then Inr (s\<lparr>sc_completed := insert t (sc_completed s)\<rparr>)
      else blocking s t ''dependency_unsuccessful'')"

definition cancel :: "scheduler \<Rightarrow> string \<Rightarrow> scheduler res" where
  "cancel s t =
     (if t \<notin> set (child_ids s) then Inl (ValueError ''scheduler task is unknown'')
      else blocking s t ''dependency_cancelled'')"

definition approve :: "scheduler \<Rightarrow> string \<Rightarrow> scheduler res" where
  "approve s t =
     (if t \<notin> set (child_ids s) then Inl (KeyError t)
      else Inr (s\<lparr>sc_children := map (\<lambda>c. if sk_id c = t then c\<lparr>sk_awaiting := False\<rparr> else c) (sc_children s)\<rparr>))"

definition retry :: "scheduler \<Rightarrow> string \<Rightarrow> scheduler res" where
  "retry s t =
     (if t \<notin> set (child_ids s) then Inl (ValueError ''scheduler task is unknown'')
      else Inr (s\<lparr>sc_failed := sc_failed s - {t}\<rparr>))"

definition is_candidate :: "scheduler \<Rightarrow> scheduled_child \<Rightarrow> bool" where
  "is_candidate s c \<longleftrightarrow>
     \<not> sk_awaiting c \<and> sk_id c \<notin> sc_completed s \<and> sk_id c \<notin> sc_failed s \<and> sk_id c \<notin> sc_running s \<and>
     sk_id c \<notin> blocked_ids s \<and> set (sk_depends c) \<subseteq> sc_completed s"

definition ready :: "scheduler \<Rightarrow> string list" where
  "ready s = map sk_id (sort_key (\<lambda>c. (- sk_priority c, sk_order c)) (filter (is_candidate s) (sc_children s)))"

section \<open>Steps of execute\<close>

text \<open>The predicate a waiting child sleeps on, other than being blocked.\<close>

definition may_start :: "scheduler \<Rightarrow> string \<Rightarrow> bool" where
  "may_start s t \<longleftrightarrow> t \<in> set (take (sc_max s - card (sc_running s)) (ready s))"

definition start :: "scheduler \<Rightarrow> string \<Rightarrow> scheduler" where
  "start s t = s\<lparr>sc_running := insert t (sc_running s)\<rparr>"

text \<open>
  How an operation ends: it returns a task result with its status, another value, or raises.
\<close>

datatype outcome = Returned "string option" | Raised

definition succeeds :: "outcome \<Rightarrow> bool" where
  "succeeds x \<longleftrightarrow> x \<in> {Returned None, Returned (Some ''succeeded'')}"

definition complete :: "scheduler \<Rightarrow> string \<Rightarrow> bool \<Rightarrow> outcome \<Rightarrow> scheduler res" where
  "complete s t final_failure x =
     (case x of
        Raised \<Rightarrow> finish_child s t False
      | Returned status \<Rightarrow>
          if succeeds x then finish_child s t True
          else if final_failure \<or> status \<noteq> Some ''failed'' then finish_child s t False
          else Inr s)"

definition leave :: "scheduler \<Rightarrow> string \<Rightarrow> scheduler" where
  "leave s t = s\<lparr>sc_running := sc_running s - {t}\<rparr>"

inductive sched_step :: "scheduler \<Rightarrow> scheduler \<Rightarrow> bool" where
  submitted: "submit s t p ds w = Inr s' \<Longrightarrow> sched_step s s'"
| finished: "finish_child s t b = Inr s' \<Longrightarrow> sched_step s s'"
| cancelled: "cancel s t = Inr s' \<Longrightarrow> sched_step s s'"
| approved: "approve s t = Inr s' \<Longrightarrow> sched_step s s'"
| retried: "retry s t = Inr s' \<Longrightarrow> sched_step s s'"
| started: "t \<notin> blocked_ids s \<Longrightarrow> may_start s t \<Longrightarrow> sched_step s (start s t)"
| completed: "t \<in> sc_running s \<Longrightarrow> complete s t final x = Inr s' \<Longrightarrow> sched_step s s'"
| left: "t \<in> sc_running s \<Longrightarrow> sched_step s (leave s t)"

inductive_cases sched_stepE: "sched_step s s'"

section \<open>The batch loop\<close>

datatype run_value = Value outcome | Blocked_by string

definition reason_of :: "scheduler \<Rightarrow> string \<Rightarrow> string" where
  "reason_of s t = (case map_of (sc_blocked s) t of None \<Rightarrow> ''dependency_unsuccessful'' | Some r \<Rightarrow> r)"

text \<open>The subset of the running operations that the next wait reports as done.\<close>

definition done_of :: "(string list \<Rightarrow> string list) \<Rightarrow> string list \<Rightarrow> string list" where
  "done_of pick running =
     (let d = remdups (filter (\<lambda>t. t \<in> set running) (pick running)) in if d = [] then running else d)"

fun collect ::
  "(string \<Rightarrow> outcome) \<Rightarrow> scheduler \<Rightarrow> string list \<Rightarrow> (string \<times> run_value) list \<Rightarrow>
     (scheduler \<times> (string \<times> run_value) list) res" where
  "collect result s [] results = Inr (s, results)"
| "collect result s (t # ts) results =
     res_bind (finish_child (leave s t) t (succeeds (result t))) (\<lambda>s'.
       collect result s' ts (results @ [(t, Value (result t))]))"

definition launch :: "scheduler \<Rightarrow> string list \<Rightarrow> string list \<Rightarrow> string list" where
  "launch s pending running = take (sc_max s - length running) (filter (\<lambda>t. t \<in> set pending) (ready s))"

function run_loop ::
  "(string list \<Rightarrow> string list) \<Rightarrow> (string \<Rightarrow> outcome) \<Rightarrow> scheduler \<Rightarrow> string list \<Rightarrow> string list \<Rightarrow>
     (string \<times> run_value) list \<Rightarrow> (scheduler \<times> (string \<times> run_value) list) res" where
  "run_loop pick result s pending running results =
     (if pending = [] \<and> running = [] then Inr (s, results)
      else
        (let stuck = filter (\<lambda>t. t \<in> blocked_ids s) pending;
             results1 = results @ map (\<lambda>t. (t, Blocked_by (reason_of s t))) stuck;
             pending1 = filter (\<lambda>t. t \<notin> blocked_ids s) pending;
             new = launch s pending1 running;
             s1 = s\<lparr>sc_running := sc_running s \<union> set new\<rparr>;
             running1 = running @ new;
             pending2 = filter (\<lambda>t. t \<notin> set new) pending1
         in if running1 = [] then Inr (s1, results1 @ map (\<lambda>t. (t, Blocked_by (reason_of s1 t))) pending2)
            else
              (let d = done_of pick running1 in
               case collect result s1 d results1 of
                 Inl e \<Rightarrow> Inl e
               | Inr (s2, results2) \<Rightarrow>
                   run_loop pick result s2 pending2 (filter (\<lambda>t. t \<notin> set d) running1) results2)))"
  by pat_completeness auto

lemma done_of_set: "running \<noteq> [] \<Longrightarrow> done_of pick running \<noteq> [] \<and> set (done_of pick running) \<subseteq> set running"
  by (auto simp: done_of_def Let_def)

lemma card_set_filter: "set xs \<subseteq> set ys \<Longrightarrow> card (set xs) + length (filter (\<lambda>t. t \<notin> set xs) ys) \<le> length ys"
proof -
  assume sub: "set xs \<subseteq> set ys"
  then have "set xs = set (filter (\<lambda>t. t \<in> set xs) ys)" by auto
  then have "card (set xs) \<le> length (filter (\<lambda>t. t \<in> set xs) ys)" by (metis card_length)
  with sum_length_filter_compl [of "\<lambda>t. t \<in> set xs" ys] show ?thesis by simp
qed

lemma launch_sub: "set (launch s pending running) \<subseteq> set pending"
  unfolding launch_def by (auto dest: in_set_takeD)

lemma run_loop_decreases:
  assumes "running @ launch s pending running \<noteq> []"
  shows "2 * length (filter (\<lambda>t. t \<notin> set (launch s pending running)) pending) +
      card (set (filter (\<lambda>t. t \<notin> set (done_of pick (running @ launch s pending running))) (running @ launch s pending running)))
    < 2 * length pending + card (set running)"
proof -
  let ?n = "launch s pending running" and ?r = "running @ launch s pending running"
  have d: "done_of pick ?r \<noteq> []" "set (done_of pick ?r) \<subseteq> set ?r" using done_of_set [OF assms] by auto
  then have "set (filter (\<lambda>t. t \<notin> set (done_of pick ?r)) ?r) \<subset> set ?r" by (auto simp: neq_Nil_conv)
  then have "card (set (filter (\<lambda>t. t \<notin> set (done_of pick ?r)) ?r)) < card (set ?r)"
    by (rule psubset_card_mono [OF finite_set])
  moreover have "card (set ?r) \<le> card (set running) + card (set ?n)" by (simp add: card_Un_le)
  moreover have "card (set ?n) + length (filter (\<lambda>t. t \<notin> set ?n) pending) \<le> length pending"
    by (rule card_set_filter [OF launch_sub])
  ultimately show ?thesis by linarith
qed

termination run_loop
proof (relation "measure (\<lambda>(pick, result, s, pending, running, results). 2 * length pending + card (set running))")
  fix pick :: "string list \<Rightarrow> string list" and result :: "string \<Rightarrow> outcome" and s :: scheduler
    and pending running :: "string list" and results :: "(string \<times> run_value) list"
    and stuck results1 pending1 new s1 running1 pending2 d p s2 results2
  assume eq: "pending1 = filter (\<lambda>t. t \<notin> blocked_ids s) pending" "new = launch s pending1 running"
      "running1 = running @ new" "pending2 = filter (\<lambda>t. t \<notin> set new) pending1" "d = done_of pick running1"
    and ne: "running1 \<noteq> []"
  have "2 * length pending2 + card (set (filter (\<lambda>t. t \<notin> set d) running1)) < 2 * length pending1 + card (set running)"
    using run_loop_decreases [of running s pending1 pick] ne by (simp add: eq)
  moreover have "length pending1 \<le> length pending" by (simp add: eq)
  ultimately show "((pick, result, s2, pending2, filter (\<lambda>t. t \<notin> set d) running1, results2), (pick, result, s, pending, running, results))
      \<in> measure (\<lambda>(pick, result, s, pending, running, results). 2 * length pending + card (set running))" by simp
qed simp_all

declare run_loop.simps [simp del]

definition run ::
  "(string list \<Rightarrow> string list) \<Rightarrow> (string \<Rightarrow> outcome) \<Rightarrow> scheduler \<Rightarrow> string list \<Rightarrow>
     (scheduler \<times> (string \<times> run_value) list) res" where
  "run pick result s operations = run_loop pick result s operations [] []"

lemma fields_of_update [simp]:
  "blocked_ids (s\<lparr>sc_failed := x\<rparr>) = blocked_ids s" "blocked_ids (s\<lparr>sc_running := x\<rparr>) = blocked_ids s"
  "blocked_ids (s\<lparr>sc_completed := x\<rparr>) = blocked_ids s" "blocked_ids (s\<lparr>sc_children := cs\<rparr>) = blocked_ids s"
  "child_ids (s\<lparr>sc_failed := x\<rparr>) = child_ids s" "child_ids (s\<lparr>sc_running := x\<rparr>) = child_ids s"
  "child_ids (s\<lparr>sc_completed := x\<rparr>) = child_ids s" "child_ids (s\<lparr>sc_children := cs\<rparr>) = map sk_id cs"
  by (simp_all add: blocked_ids_def child_ids_def)

lemma leave_fields [simp]:
  "blocked_ids (leave s t) = blocked_ids s" "child_ids (leave s t) = child_ids s"
  "sc_children (leave s t) = sc_children s" "sc_completed (leave s t) = sc_completed s" "sc_max (leave s t) = sc_max s"
  "sc_failed (leave s t) = sc_failed s" "sc_running (leave s t) = sc_running s - {t}"
  by (simp_all add: leave_def)

section \<open>Dependencies\<close>

text \<open>Every child depends on earlier children only, and identifiers are not reused.\<close>

fun well_ordered :: "string set \<Rightarrow> scheduled_child list \<Rightarrow> bool" where
  "well_ordered seen [] = True"
| "well_ordered seen (c # cs) \<longleftrightarrow>
     set (sk_depends c) \<subseteq> seen \<and> sk_id c \<notin> seen \<and> well_ordered (insert (sk_id c) seen) cs"

definition dep_of :: "scheduled_child list \<Rightarrow> (string \<times> string) set" where
  "dep_of cs = {(x, d). \<exists>c \<in> set cs. sk_id c = x \<and> d \<in> set (sk_depends c)}"

text \<open>The children that depend on \<open>t\<close>, directly or through others.\<close>

definition all_dependents :: "scheduled_child list \<Rightarrow> string \<Rightarrow> string set" where
  "all_dependents cs t = {x. (x, t) \<in> (dep_of cs)\<^sup>+}"

lemma well_ordered_fresh: "well_ordered seen cs \<Longrightarrow> c \<in> set cs \<Longrightarrow> sk_id c \<notin> seen"
  by (induction cs arbitrary: seen) auto

lemma well_ordered_distinct: "well_ordered seen cs \<Longrightarrow> distinct (map sk_id cs)"
  by (induction cs arbitrary: seen) (auto dest: well_ordered_fresh)

lemma well_ordered_append:
  "well_ordered seen (cs @ [c]) \<longleftrightarrow>
     well_ordered seen cs \<and> set (sk_depends c) \<subseteq> seen \<union> set (map sk_id cs) \<and> sk_id c \<notin> seen \<union> set (map sk_id cs)"
  by (induction cs arbitrary: seen) auto

lemma well_ordered_map:
  "(\<And>c. sk_id (f c) = sk_id c \<and> sk_depends (f c) = sk_depends c) \<Longrightarrow> well_ordered seen (map f cs) = well_ordered seen cs"
  by (induction cs arbitrary: seen) auto

lemma idx_less_length: "x \<in> set xs \<Longrightarrow> idx xs x < length xs"
  by (induction xs) auto

lemma well_ordered_idx:
  "well_ordered seen cs \<Longrightarrow> c \<in> set cs \<Longrightarrow> d \<in> set (sk_depends c) \<Longrightarrow> d \<notin> seen \<Longrightarrow>
     idx (map sk_id cs) d < idx (map sk_id cs) (sk_id c)"
proof (induction cs arbitrary: seen)
  case Nil
  then show ?case by simp
next
  case (Cons a cs)
  show ?case
  proof (cases "c = a")
    case True
    with Cons.prems show ?thesis by auto
  next
    case False
    with Cons.prems have c: "c \<in> set cs" "well_ordered (insert (sk_id a) seen) cs" by auto
    then have ne: "sk_id c \<noteq> sk_id a" using well_ordered_fresh by blast
    show ?thesis
    proof (cases "d = sk_id a")
      case True
      with ne show ?thesis by simp
    next
      case False
      with Cons.IH [OF c(2,1) Cons.prems(3)] Cons.prems(4) ne show ?thesis by simp
    qed
  qed
qed

lemma block_map_of [simp]: "map_of (block t r b) = (map_of b)(t \<mapsto> r)"
proof
  fix x
  have "map_of (filter (\<lambda>(k, v). k \<noteq> t) b) x = map_of b x" if "x \<noteq> t"
    using that by (induction b) auto
  then show "map_of (block t r b) x = ((map_of b)(t \<mapsto> r)) x" by (simp add: block_def)
qed

definition marks :: "string set \<Rightarrow> string \<Rightarrow> (string \<times> string) list \<Rightarrow> (string \<times> string) list \<Rightarrow> bool" where
  "marks X r b b' \<longleftrightarrow> (\<forall>x. map_of b' x = (if x \<in> X then Some r else map_of b x))"

lemma all_dependents_step:
  "all_dependents cs t = (\<Union>c \<in> {c \<in> set cs. t \<in> set (sk_depends c)}. insert (sk_id c) (all_dependents cs (sk_id c)))"
proof -
  have "(x, t) \<in> (dep_of cs)\<^sup>+ \<longleftrightarrow> (\<exists>c \<in> set cs. t \<in> set (sk_depends c) \<and> (x = sk_id c \<or> (x, sk_id c) \<in> (dep_of cs)\<^sup>+))" for x
    by (subst trancl.simps) (auto simp: dep_of_def)
  then show ?thesis by (auto simp: all_dependents_def)
qed

lemma block_dependents_marks:
  assumes wf: "well_ordered {} cs" and n: "length cs - idx (map sk_id cs) t < n"
  shows "\<exists>b'. block_dependents n cs t r b = Some b' \<and> marks (all_dependents cs t) r b b'"
  using n
proof (induction n arbitrary: t b)
  case 0
  then show ?case by simp
next
  case (Suc n)
  let ?X = "\<lambda>ys. \<Union>c \<in> {c \<in> set ys. t \<in> set (sk_depends c)}. insert (sk_id c) (all_dependents cs (sk_id c))"
  let ?F = "\<lambda>c ob. Option.bind ob (\<lambda>b. if t \<in> set (sk_depends c)
      then block_dependents n cs (sk_id c) r (block (sk_id c) r b) else Some b)"
  have "\<exists>b'. fold ?F ys (Some b) = Some b' \<and> marks (?X ys) r b b'" if "set ys \<subseteq> set cs" for ys b
    using that
  proof (induction ys arbitrary: b)
    case Nil
    then show ?case by (simp add: marks_def)
  next
    case (Cons c ys)
    show ?case
    proof (cases "t \<in> set (sk_depends c)")
      case False
      then have "?X (c # ys) = ?X ys" by auto
      with Cons.IH [of b] Cons.prems False show ?thesis by simp
    next
      case True
      have c: "c \<in> set cs" using Cons.prems by simp
      have "idx (map sk_id cs) t < idx (map sk_id cs) (sk_id c)" by (rule well_ordered_idx [OF wf c True]) simp
      moreover have "idx (map sk_id cs) (sk_id c) < length cs" using idx_less_length [of "sk_id c" "map sk_id cs"] c by simp
      ultimately have "length cs - idx (map sk_id cs) (sk_id c) < n" using Suc.prems by linarith
      from Suc.IH [OF this, of "block (sk_id c) r b"] obtain b1 where
        b1: "block_dependents n cs (sk_id c) r (block (sk_id c) r b) = Some b1"
          "marks (all_dependents cs (sk_id c)) r (block (sk_id c) r b) b1" by blast
      from Cons.IH [of b1] Cons.prems obtain b2 where b2: "fold ?F ys (Some b1) = Some b2" "marks (?X ys) r b1 b2" by auto
      have "?X (c # ys) = insert (sk_id c) (all_dependents cs (sk_id c)) \<union> ?X ys" using True by auto
      then have "marks (?X (c # ys)) r b b2" using b1(2) b2(2) by (auto simp: marks_def)
      moreover have "fold ?F (c # ys) (Some b) = Some b2" using True b1(1) b2(1) by simp
      ultimately show ?thesis by blast
    qed
  qed
  from this [of cs b] all_dependents_step [of cs t] show ?case by simp
qed

lemma blocking_effect:
  assumes "well_ordered {} (sc_children s)"
  shows "\<exists>b'. blocking s t r = Inr (s\<lparr>sc_failed := insert t (sc_failed s), sc_blocked := b'\<rparr>) \<and>
    marks (all_dependents (sc_children s) t) r (sc_blocked s) b'"
proof -
  have "length (sc_children s) - idx (map sk_id (sc_children s)) t < Suc (length (sc_children s))" by simp
  from block_dependents_marks [OF assms this, of r "sc_blocked s"] show ?thesis
    by (auto simp: blocking_def simp del: block_dependents.simps)
qed

lemma blocked_ids_map_of: "t \<in> blocked_ids s \<longleftrightarrow> map_of (sc_blocked s) t \<noteq> None"
  by (simp add: blocked_ids_def map_of_eq_None_iff image_iff)

lemma dependents_sub: "all_dependents cs t \<subseteq> set (map sk_id cs)"
  unfolding all_dependents_def
proof
  fix x assume "x \<in> {x. (x, t) \<in> (dep_of cs)\<^sup>+}"
  then have "\<exists>y. (x, y) \<in> dep_of cs" by (auto dest: tranclD)
  then show "x \<in> set (map sk_id cs)" by (auto simp: dep_of_def)
qed

section \<open>The invariant\<close>

definition sched_ok :: "scheduler \<Rightarrow> bool" where
  "sched_ok s \<longleftrightarrow>
     1 \<le> sc_max s \<and> sc_max s \<le> 3 \<and> well_ordered {} (sc_children s) \<and>
     map sk_order (sc_children s) = [0..<length (sc_children s)] \<and>
     sc_completed s \<union> sc_failed s \<union> sc_running s \<union> blocked_ids s \<subseteq> set (child_ids s) \<and>
     card (sc_running s) \<le> sc_max s \<and>
     (\<forall>c \<in> set (sc_children s). sk_id c \<in> sc_running s \<longrightarrow> set (sk_depends c) \<subseteq> sc_completed s)"

lemma sched_okD:
  assumes "sched_ok s"
  shows "well_ordered {} (sc_children s)" "card (sc_running s) \<le> sc_max s" "finite (sc_running s)" "distinct (child_ids s)"
  using assms well_ordered_distinct by (auto simp: sched_ok_def child_ids_def intro: finite_subset)

lemma ready_candidate: "t \<in> set (ready s) \<longleftrightarrow> (\<exists>c \<in> set (sc_children s). sk_id c = t \<and> is_candidate s c)"
  by (auto simp: ready_def)

lemma same_id_child: "sched_ok s \<Longrightarrow> c \<in> set (sc_children s) \<Longrightarrow> c' \<in> set (sc_children s) \<Longrightarrow> sk_id c = sk_id c' \<Longrightarrow> c = c'"
  using sched_okD(4) [of s] by (auto simp: child_ids_def distinct_map dest: inj_onD)

lemma blocking_ok:
  assumes ok: "sched_ok s" and t: "t \<in> set (child_ids s)" and b: "blocking s t r = Inr s'"
  shows "sched_ok s' \<and> sc_children s' = sc_children s \<and> sc_running s' = sc_running s \<and> sc_completed s' = sc_completed s \<and>
    sc_max s' = sc_max s \<and> sc_failed s' = insert t (sc_failed s) \<and>
    marks (all_dependents (sc_children s) t) r (sc_blocked s) (sc_blocked s')"
proof -
  obtain b' where s': "s' = s\<lparr>sc_failed := insert t (sc_failed s), sc_blocked := b'\<rparr>"
    and m: "marks (all_dependents (sc_children s) t) r (sc_blocked s) b'"
    using blocking_effect [OF sched_okD(1) [OF ok], of t r] b by auto
  have "blocked_ids s' \<subseteq> blocked_ids s \<union> all_dependents (sc_children s) t"
    using m by (auto simp: blocked_ids_map_of s' marks_def split: if_splits)
  then have "blocked_ids s' \<subseteq> set (child_ids s)"
    using ok dependents_sub [of "sc_children s" t] by (auto simp: sched_ok_def child_ids_def)
  with ok t m show ?thesis by (auto simp: sched_ok_def s' child_ids_def)
qed

lemma finish_child_ok:
  assumes ok: "sched_ok s" and f: "finish_child s t b = Inr s'"
  shows "sched_ok s' \<and> sc_children s' = sc_children s \<and> sc_running s' = sc_running s \<and> sc_max s' = sc_max s \<and>
    sc_completed s \<subseteq> sc_completed s' \<and> blocked_ids s \<subseteq> blocked_ids s'"
proof -
  have t: "t \<in> set (child_ids s)" using f by (auto simp: finish_child_def split: if_splits)
  show ?thesis
  proof (cases b)
    case True
    with f t have "s' = s\<lparr>sc_completed := insert t (sc_completed s)\<rparr>" by (simp add: finish_child_def)
    with ok t show ?thesis by (auto simp: sched_ok_def child_ids_def blocked_ids_def)
  next
    case False
    with f t have "blocking s t ''dependency_unsuccessful'' = Inr s'" by (simp add: finish_child_def)
    from blocking_ok [OF ok t this] show ?thesis by (auto simp: blocked_ids_map_of marks_def)
  qed
qed

lemma finish_child_total: "sched_ok s \<Longrightarrow> t \<in> set (child_ids s) \<Longrightarrow> \<exists>s'. finish_child s t b = Inr s'"
  using blocking_effect [OF sched_okD(1), of s t] by (auto simp: finish_child_def)

lemma start_ok:
  assumes ok: "sched_ok s" and m: "may_start s t"
  shows "sched_ok (start s t)"
proof -
  from m have r: "t \<in> set (ready s)" and room: "card (sc_running s) < sc_max s"
    by (auto simp: may_start_def not_le [symmetric] dest: in_set_takeD)
  obtain c where c: "c \<in> set (sc_children s)" "sk_id c = t" "is_candidate s c" using r by (auto simp: ready_candidate)
  have "card (insert t (sc_running s)) \<le> sc_max s"
    using room sched_okD(3) [OF ok] by (simp add: card_insert_if)
  moreover have "set (sk_depends c') \<subseteq> sc_completed s" if "c' \<in> set (sc_children s)" "sk_id c' = t" for c'
    using same_id_child [OF ok that(1) c(1)] that(2) c(2,3) by (auto simp: is_candidate_def)
  ultimately show ?thesis using ok c(1,2)
    by (auto simp: sched_ok_def start_def child_ids_def blocked_ids_def)
qed

lemma leave_ok: "sched_ok s \<Longrightarrow> sched_ok (leave s t)"
  using card_mono [OF sched_okD(3), of s "sc_running s - {t}"]
  by (auto simp: sched_ok_def leave_def child_ids_def blocked_ids_def)

lemma sched_step_ok: "sched_step s s' \<Longrightarrow> sched_ok s \<Longrightarrow> sched_ok s'"
proof (erule sched_stepE)
  fix t p ds w
  assume ok: "sched_ok s" and st: "submit s t p ds w = Inr s'"
  then have "t \<notin> set (child_ids s)" "set ds \<subseteq> set (child_ids s)"
    "s' = s\<lparr>sc_children := sc_children s @ [\<lparr>sk_id = t, sk_priority = p, sk_order = length (sc_children s), sk_depends = ds, sk_awaiting = w\<rparr>]\<rparr>"
    by (auto simp: submit_def split: if_splits)
  with ok show "sched_ok s'"
    by (auto simp: sched_ok_def child_ids_def blocked_ids_def well_ordered_append)
next
  fix t b assume "sched_ok s" "finish_child s t b = Inr s'"
  then show "sched_ok s'" using finish_child_ok by blast
next
  fix t assume "sched_ok s" "cancel s t = Inr s'"
  then show "sched_ok s'" using blocking_ok by (auto simp: cancel_def split: if_splits)
next
  fix t assume ok: "sched_ok s" and "approve s t = Inr s'"
  then have s': "s' = s\<lparr>sc_children := map (\<lambda>c. if sk_id c = t then c\<lparr>sk_awaiting := False\<rparr> else c) (sc_children s)\<rparr>"
    by (auto simp: approve_def split: if_splits)
  let ?f = "\<lambda>c. if sk_id c = t then c\<lparr>sk_awaiting := False\<rparr> else c"
  have "map sk_order (map ?f (sc_children s)) = map sk_order (sc_children s)"
    "map sk_id (map ?f (sc_children s)) = map sk_id (sc_children s)" by auto
  moreover have "well_ordered {} (map ?f (sc_children s)) = well_ordered {} (sc_children s)" by (rule well_ordered_map) simp
  ultimately show "sched_ok s'" using ok
    unfolding sched_ok_def s' fields_of_update child_ids_def by (auto simp del: map_map) blast
next
  fix t assume "sched_ok s" "retry s t = Inr s'"
  then show "sched_ok s'" by (auto simp: retry_def sched_ok_def split: if_splits) blast
next
  fix t assume "sched_ok s" "s' = start s t" "may_start s t"
  then show "sched_ok s'" using start_ok by simp
next
  fix t final x assume "sched_ok s" "complete s t final x = Inr s'"
  then show "sched_ok s'" using finish_child_ok by (auto simp: complete_def split: outcome.splits if_splits)
next
  fix t assume "sched_ok s" "s' = leave s t"
  then show "sched_ok s'" using leave_ok by simp
qed

section \<open>The batch loop returns\<close>

lemma collect_ok:
  assumes "sched_ok s" "distinct d" "set d \<subseteq> sc_running s"
  shows "\<exists>s'. collect result s d results = Inr (s', results @ map (\<lambda>t. (t, Value (result t))) d) \<and> sched_ok s' \<and>
    sc_children s' = sc_children s \<and> sc_max s' = sc_max s \<and> sc_running s' = sc_running s - set d \<and>
    sc_completed s \<subseteq> sc_completed s' \<and> blocked_ids s \<subseteq> blocked_ids s'"
  using assms
proof (induction d arbitrary: s results)
  case Nil
  then show ?case by simp
next
  case (Cons t d)
  have ok: "sched_ok (leave s t)" using leave_ok Cons.prems(1) .
  have "t \<in> set (child_ids (leave s t))" using Cons.prems by (auto simp: sched_ok_def)
  from finish_child_total [OF ok this] obtain s1 where f: "finish_child (leave s t) t (succeeds (result t)) = Inr s1" by blast
  note s1 = finish_child_ok [OF ok f, unfolded leave_fields]
  have ok1: "sched_ok s1" and "set d \<subseteq> sc_running s1" and dd: "distinct d" using s1 Cons.prems by auto
  from Cons.IH [OF ok1 dd this(2), of "results @ [(t, Value (result t))]"] obtain s' where
    s': "collect result s1 d (results @ [(t, Value (result t))]) = Inr (s', (results @ [(t, Value (result t))]) @ map (\<lambda>t. (t, Value (result t))) d)"
      "sched_ok s'" "sc_children s' = sc_children s1" "sc_max s' = sc_max s1" "sc_running s' = sc_running s1 - set d"
      "sc_completed s1 \<subseteq> sc_completed s'" "blocked_ids s1 \<subseteq> blocked_ids s'" by blast
  have "sc_completed s \<subseteq> sc_completed s'" "blocked_ids s \<subseteq> blocked_ids s'"
    using s1 s'(6,7) by (meson order_trans)+
  with s1 s'(1-5) f show ?case by (intro exI [of _ s']) auto
qed

lemma launch_ready: "t \<in> set (launch s pending running) \<Longrightarrow> t \<in> set (ready s)"
  unfolding launch_def by (auto dest: in_set_takeD)

lemma ready_distinct: "sched_ok s \<Longrightarrow> distinct (ready s)"
proof -
  assume ok: "sched_ok s"
  have "distinct (map sk_id (filter (is_candidate s) (sc_children s)))"
    using sched_okD(4) [OF ok] by (simp add: child_ids_def distinct_map_filter)
  then have "distinct (filter (is_candidate s) (sc_children s))" "inj_on sk_id (set (filter (is_candidate s) (sc_children s)))"
    by (simp_all add: distinct_map)
  then show ?thesis by (simp add: ready_def distinct_map)
qed

lemma launch_ok:
  assumes ok: "sched_ok s" and r: "sc_running s = set running" "length running \<le> sc_max s" "distinct running"
  shows "sched_ok (s\<lparr>sc_running := sc_running s \<union> set (launch s pending running)\<rparr>) \<and>
    distinct (running @ launch s pending running) \<and> length (running @ launch s pending running) \<le> sc_max s"
proof -
  let ?n = "launch s pending running"
  have len: "length (running @ ?n) \<le> sc_max s" using r(2) by (simp add: launch_def)
  have "sc_running s \<union> set ?n = set (running @ ?n)" using r(1) by simp
  then have card: "card (sc_running s \<union> set ?n) \<le> sc_max s" using len by (metis card_length order_trans)
  have cand: "\<exists>c \<in> set (sc_children s). sk_id c = t \<and> is_candidate s c" if "t \<in> set ?n" for t
    using launch_ready [OF that] by (simp add: ready_candidate)
  have deps: "set (sk_depends c) \<subseteq> sc_completed s" if c: "c \<in> set (sc_children s)" "sk_id c \<in> set ?n" for c
  proof -
    obtain c' where c': "c' \<in> set (sc_children s)" "sk_id c' = sk_id c" "is_candidate s c'" using cand [OF c(2)] by blast
    with same_id_child [OF ok c'(1) c(1)] show ?thesis by (simp add: is_candidate_def)
  qed
  have "set ?n \<subseteq> set (child_ids s)" using cand by (force simp: child_ids_def)
  then have "sched_ok (s\<lparr>sc_running := sc_running s \<union> set ?n\<rparr>)"
    using ok card deps by (auto simp: sched_ok_def child_ids_def blocked_ids_def)
  moreover have "distinct ?n" using ready_distinct [OF ok] by (simp add: launch_def)
  moreover have "set running \<inter> set ?n = {}"
  proof (rule ccontr)
    assume "set running \<inter> set ?n \<noteq> {}"
    then obtain t where "t \<in> set running" "t \<in> set ?n" by blast
    with cand r(1) show False by (auto simp: is_candidate_def)
  qed
  ultimately show ?thesis using r(3) len by auto
qed

definition result_ok :: "(string \<Rightarrow> outcome) \<Rightarrow> scheduler \<Rightarrow> string \<times> run_value \<Rightarrow> bool" where
  "result_ok result s x \<longleftrightarrow>
     (case x of
        (t, Value v) \<Rightarrow> v = result t \<and> (\<forall>c \<in> set (sc_children s). sk_id c = t \<longrightarrow> set (sk_depends c) \<subseteq> sc_completed s)
      | (t, Blocked_by r) \<Rightarrow> t \<notin> set (ready s) \<and> (t \<notin> blocked_ids s \<longrightarrow> r = ''dependency_unsuccessful''))"

definition partial_ok :: "(string \<Rightarrow> outcome) \<Rightarrow> scheduler \<Rightarrow> string \<times> run_value \<Rightarrow> bool" where
  "partial_ok result s x \<longleftrightarrow> (case x of (t, Value v) \<Rightarrow> result_ok result s x | (t, Blocked_by r) \<Rightarrow> t \<in> blocked_ids s)"

lemma partial_result_ok: "partial_ok result s x \<Longrightarrow> result_ok result s x"
  by (auto simp: partial_ok_def result_ok_def ready_candidate is_candidate_def split: prod.splits run_value.splits)

lemma partial_mono:
  "partial_ok result s x \<Longrightarrow> sc_children s' = sc_children s \<Longrightarrow> sc_completed s \<subseteq> sc_completed s' \<Longrightarrow>
     blocked_ids s \<subseteq> blocked_ids s' \<Longrightarrow> partial_ok result s' x"
  by (auto simp: partial_ok_def result_ok_def split: prod.splits run_value.splits)

definition loop_ok :: "(string \<Rightarrow> outcome) \<Rightarrow> scheduler \<Rightarrow> string list \<Rightarrow> string list \<Rightarrow> (string \<times> run_value) list \<Rightarrow> bool" where
  "loop_ok result s pending running results \<longleftrightarrow>
     sched_ok s \<and> sc_running s = set running \<and> length running \<le> sc_max s \<and>
     distinct (running @ pending) \<and> distinct (map fst results) \<and>
     set (map fst results) \<inter> set (running @ pending) = {} \<and> (\<forall>x \<in> set results. partial_ok result s x)"

definition loop_done ::
  "(string \<Rightarrow> outcome) \<Rightarrow> scheduler \<Rightarrow> string set \<Rightarrow> scheduler \<Rightarrow> (string \<times> run_value) list \<Rightarrow> bool" where
  "loop_done result s ids s' results \<longleftrightarrow>
     sched_ok s' \<and> sc_running s' = {} \<and> sc_children s' = sc_children s \<and> distinct (map fst results) \<and>
     set (map fst results) = ids \<and> (\<forall>x \<in> set results. result_ok result s' x)"

lemma run_loop_done:
  "loop_ok result s pending running results \<Longrightarrow>
     \<exists>s' results'. run_loop pick result s pending running results = Inr (s', results') \<and>
       loop_done result s (set (map fst results) \<union> set pending \<union> set running) s' results'"
proof (induction pick result s pending running results rule: run_loop.induct)
  case (1 pick result s pending running results)
  note inv = "1.prems" [unfolded loop_ok_def]
  then have ok: "sched_ok s" by simp
  show ?case
  proof (cases "pending = [] \<and> running = []")
    case True
    with inv show ?thesis
      by (subst run_loop.simps) (auto simp: loop_done_def intro: partial_result_ok)
  next
    case False
    let ?stuck = "filter (\<lambda>t. t \<in> blocked_ids s) pending"
    let ?results1 = "results @ map (\<lambda>t. (t, Blocked_by (reason_of s t))) ?stuck"
    let ?pending1 = "filter (\<lambda>t. t \<notin> blocked_ids s) pending"
    let ?new = "launch s ?pending1 running"
    let ?s1 = "s\<lparr>sc_running := sc_running s \<union> set ?new\<rparr>"
    let ?running1 = "running @ ?new"
    let ?pending2 = "filter (\<lambda>t. t \<notin> set ?new) ?pending1"
    have l: "sched_ok ?s1" "distinct ?running1" "length ?running1 \<le> sc_max s"
      using launch_ok [OF ok, of running ?pending1] inv by auto
    have sub: "set ?new \<subseteq> set ?pending1" by (rule launch_sub)
    have dist: "distinct (?running1 @ ?pending2)" using inv l(2) by auto
    have all: "set (map fst ?results1) \<union> set ?pending2 \<union> set ?running1 = set (map fst results) \<union> set pending \<union> set running"
      using sub by auto
    have res1: "distinct (map fst ?results1)" "set (map fst ?results1) \<inter> set (?running1 @ ?pending2) = {}"
      using inv sub by (auto simp: distinct_map inj_on_def comp_def)
    have part1: "\<forall>x \<in> set ?results1. partial_ok result ?s1 x"
    proof
      fix x assume "x \<in> set ?results1"
      then consider "x \<in> set results" | t where "x = (t, Blocked_by (reason_of s t))" "t \<in> blocked_ids s" by auto
      then show "partial_ok result ?s1 x"
      proof cases
        case 1
        with inv have "partial_ok result s x" by blast
        then show ?thesis by (rule partial_mono) simp_all
      next
        case 2
        then show ?thesis by (simp add: partial_ok_def)
      qed
    qed
    note step = run_loop.simps [of pick result s pending running results, unfolded Let_def if_not_P [OF False]]
    show ?thesis
    proof (cases "?running1 = []")
      case True
      then have none: "running = []" "?new = []" unfolding append_is_Nil_conv by (rule conjunct1, rule conjunct2)
      let ?out = "?results1 @ map (\<lambda>t. (t, Blocked_by (reason_of ?s1 t))) ?pending2"
      have s1: "?s1 = s" unfolding none(2) by simp
      have "0 < sc_max s" using ok by (simp add: sched_ok_def)
      then have idle: "t \<notin> set (ready s)" if "t \<in> set ?pending1" for t
        using none(2) that unfolding launch_def none(1) by (auto simp: filter_empty_conv)
      have "\<forall>x \<in> set ?out. result_ok result s x"
      proof
        fix x assume "x \<in> set ?out"
        then consider "x \<in> set ?results1" | t where "x = (t, Blocked_by (reason_of s t))" "t \<in> set ?pending1"
          unfolding s1 by auto
        then show "result_ok result s x"
        proof cases
          case 1
          with part1 show ?thesis unfolding s1 using partial_result_ok by blast
        next
          case 2
          then have "t \<notin> blocked_ids s" "t \<notin> set (ready s)" using idle by auto
          then show ?thesis using 2(1)
            by (auto simp: result_ok_def reason_of_def blocked_ids_map_of)
        qed
      qed
      moreover have "distinct (map fst ?out)" "set (map fst ?out) = set (map fst results) \<union> set pending \<union> set running"
        using res1 dist all none by (auto simp: distinct_map inj_on_def comp_def)
      moreover have "sc_running s = {}" using inv none by simp
      ultimately have "loop_done result s (set (map fst results) \<union> set pending \<union> set running) s ?out"
        using ok by (simp only: loop_done_def)
      moreover have "run_loop pick result s pending running results = Inr (s, ?out)"
        unfolding step if_P [OF True] unfolding s1 by (rule refl)
      ultimately show ?thesis by blast
    next
      case ne: False
      let ?d = "done_of pick ?running1"
      have d: "set ?d \<subseteq> set ?running1" using done_of_set [OF ne] by blast
      have dd: "distinct ?d" using l(2) by (simp add: done_of_def Let_def)
      have run1: "sc_running ?s1 = set ?running1" using inv by simp
      have dr: "set ?d \<subseteq> sc_running ?s1" using d run1 by blast
      obtain s2 where c: "collect result ?s1 ?d ?results1 = Inr (s2, ?results1 @ map (\<lambda>t. (t, Value (result t))) ?d)"
        "sched_ok s2" "sc_children s2 = sc_children ?s1" "sc_max s2 = sc_max ?s1" "sc_running s2 = sc_running ?s1 - set ?d"
        "sc_completed ?s1 \<subseteq> sc_completed s2" "blocked_ids ?s1 \<subseteq> blocked_ids s2"
        using collect_ok [OF l(1) dd dr, of result ?results1] by blast
      let ?results2 = "?results1 @ map (\<lambda>t. (t, Value (result t))) ?d" and ?running2 = "filter (\<lambda>t. t \<notin> set ?d) ?running1"
      have "\<forall>x \<in> set ?results2. partial_ok result s2 x"
      proof
        fix x assume "x \<in> set ?results2"
        then consider "x \<in> set ?results1" | t where "x = (t, Value (result t))" "t \<in> set ?d" by auto
        then show "partial_ok result s2 x"
        proof cases
          case 1
          with part1 have "partial_ok result ?s1 x" by blast
          then show ?thesis by (rule partial_mono [OF _ c(3,6,7)])
        next
          case 2
          have "set (sk_depends k) \<subseteq> sc_completed ?s1" if "k \<in> set (sc_children ?s1)" "sk_id k = t" for k
            using l(1) that d 2(2) run1 unfolding sched_ok_def by blast
          with 2(1) c(3,6) show ?thesis by (auto simp: partial_ok_def result_ok_def)
        qed
      qed
      moreover have "sc_running s2 = set ?running2" using c(5) run1 by auto
      moreover have "length ?running2 \<le> sc_max s2" using l(3) c(4) length_filter_le [of "\<lambda>t. t \<notin> set ?d" ?running1] by simp
      moreover have "distinct (?running2 @ ?pending2)" using dist by auto
      moreover have "distinct (map fst ?results2)" "set (map fst ?results2) \<inter> set (?running2 @ ?pending2) = {}"
        using res1 dd d dist by (auto simp: comp_def)
      ultimately have loop: "loop_ok result s2 ?pending2 ?running2 ?results2" using c(2) by (simp only: loop_ok_def)
      have ids: "set (map fst ?results2) \<union> set ?pending2 \<union> set ?running2 = set (map fst results) \<union> set pending \<union> set running"
        using all d by auto
      obtain s' out where o: "run_loop pick result s2 ?pending2 ?running2 ?results2 = Inr (s', out)"
        "loop_done result s2 (set (map fst results) \<union> set pending \<union> set running) s' out"
        using "1.IH" [OF False refl refl refl refl refl refl refl ne refl c(1) refl loop] unfolding ids by blast
      have "loop_done result s (set (map fst results) \<union> set pending \<union> set running) s' out"
        using o(2) c(3) by (simp add: loop_done_def)
      moreover have "run_loop pick result s pending running results = Inr (s', out)"
        unfolding step if_not_P [OF ne] c(1) sum.case prod.case by (rule o(1))
      ultimately show ?thesis by blast
    qed
  qed
qed

section \<open>Properties\<close>

text \<open>
  C21: the scheduler is safe under every interleaving.  From a new scheduler, whatever submissions,
  starts, completions, failures, cancellations, approvals and retries follow in whatever order, at
  most \<open>max_children\<close> (itself at most three) children run at once, and a running child's
  dependencies have all succeeded.
\<close>

theorem scheduler_safe:
  assumes "new_scheduler n = Inr s0" and "sched_step\<^sup>*\<^sup>* s0 s"
  shows "card (sc_running s) \<le> sc_max s \<and> sc_max s \<le> 3 \<and>
     (\<forall>c \<in> set (sc_children s). sk_id c \<in> sc_running s \<longrightarrow> set (sk_depends c) \<subseteq> sc_completed s)"
proof -
  have "sched_ok s0"
    using assms(1) by (auto simp: new_scheduler_def sched_ok_def blocked_ids_def split: if_splits)
  with assms(2) have "sched_ok s" by (induction rule: rtranclp_induct) (auto intro: sched_step_ok)
  then show ?thesis by (simp add: sched_ok_def)
qed

text \<open>
  C22: a failure or cancellation blocks exactly the children that depend on the failed one, directly
  or through others, and touches nothing else; the recursion that finds them returns on every
  reachable scheduler.
\<close>

theorem failure_blocks_dependents:
  assumes "sched_ok s" and "t \<in> set (child_ids s)"
  shows "\<exists>s'. finish_child s t False = Inr s' \<and> sc_failed s' = insert t (sc_failed s) \<and>
     sc_children s' = sc_children s \<and> sc_running s' = sc_running s \<and> sc_completed s' = sc_completed s \<and>
     (\<forall>x. map_of (sc_blocked s') x =
        (if x \<in> all_dependents (sc_children s) t then Some ''dependency_unsuccessful'' else map_of (sc_blocked s) x))"
proof -
  obtain s' where f: "finish_child s t False = Inr s'" using finish_child_total [OF assms] by blast
  then have "blocking s t ''dependency_unsuccessful'' = Inr s'" using assms(2) by (simp add: finish_child_def)
  from blocking_ok [OF assms this] f show ?thesis by (auto simp: marks_def)
qed

text \<open>
  The batch loop returns.  For every order in which the operations complete and every way they
  end, \<open>run\<close> returns exactly one result per operation: the operation's own outcome, in which case
  all its dependencies succeeded, or a blocked result, in which case it still cannot run.
\<close>

theorem run_returns_each:
  assumes "sched_ok s" and "sc_running s = {}" and "distinct operations"
  shows "\<exists>s' results. run pick result s operations = Inr (s', results) \<and> sched_ok s' \<and> sc_running s' = {} \<and>
     distinct (map fst results) \<and> set (map fst results) = set operations \<and> (\<forall>x \<in> set results. result_ok result s' x)"
proof -
  have "loop_ok result s operations [] []" using assms by (simp add: loop_ok_def)
  from run_loop_done [OF this, of pick] show ?thesis by (auto simp: run_def loop_done_def)
qed

definition got_scheduler :: "scheduler res \<Rightarrow> scheduler" where
  "got_scheduler m = (case m of Inr s \<Rightarrow> s)"

definition ex_scheduler :: scheduler where
  "ex_scheduler = got_scheduler (foldl (\<lambda>m (t, p, ds). res_bind m (\<lambda>s. submit s t p ds False)) (new_scheduler 2)
     [(''a'', 0, []), (''b'', 5, []), (''c'', 0, [''b'']), (''d'', 0, [''c'']), (''e'', 1, [''a''])])"

definition ex_outcome :: "string \<Rightarrow> outcome" where
  "ex_outcome t = (if t = ''b'' then Raised else Returned (Some ''succeeded''))"

lemma ex_scheduler_ok: "sched_ok ex_scheduler" by code_simp

theorem run_returns_each_witness:
  "\<exists>s' results. run rev ex_outcome ex_scheduler [''a'', ''b'', ''c'', ''d'', ''e''] = Inr (s', results) \<and>
     map_of results ''d'' = Some (Blocked_by ''dependency_unsuccessful'') \<and>
     map_of results ''e'' = Some (Value (Returned (Some ''succeeded''))) \<and> sched_ok s'"
proof -
  have r: "sc_running ex_scheduler = {}" by code_simp
  have d: "distinct [''a'', ''b'', ''c'', ''d'', ''e'']" by simp
  from run_returns_each [OF ex_scheduler_ok r d, of rev ex_outcome] obtain s' results where
    o: "run rev ex_outcome ex_scheduler [''a'', ''b'', ''c'', ''d'', ''e''] = Inr (s', results)" "sched_ok s'" by blast
  have "map_sum id (\<lambda>(s, results). (map_of results ''d'', map_of results ''e''))
      (run rev ex_outcome ex_scheduler [''a'', ''b'', ''c'', ''d'', ''e'']) =
    Inr (Some (Blocked_by ''dependency_unsuccessful''), Some (Value (Returned (Some ''succeeded''))))"
    by code_simp
  with o show ?thesis by simp
qed

theorem failure_blocks_dependents_witness:
  "\<exists>s'. finish_child ex_scheduler ''b'' False = Inr s' \<and> map_of (sc_blocked s') ''d'' = Some ''dependency_unsuccessful'' \<and>
     map_of (sc_blocked s') ''e'' = None"
proof -
  have t: "''b'' \<in> set (child_ids ex_scheduler)" by code_simp
  from failure_blocks_dependents [OF ex_scheduler_ok t] obtain s' where f: "finish_child ex_scheduler ''b'' False = Inr s'" by blast
  have "map_sum id (\<lambda>s. (map_of (sc_blocked s) ''d'', map_of (sc_blocked s) ''e'')) (finish_child ex_scheduler ''b'' False) =
    Inr (Some ''dependency_unsuccessful'', None)" by code_simp
  with f show ?thesis by simp
qed

theorem scheduler_safe_witness:
  "\<exists>s0 s1 s2. new_scheduler 2 = Inr s0 \<and> submit s0 ''a'' 0 [] False = Inr s1 \<and> s2 = start s1 ''a'' \<and>
     sc_running s2 = {''a''} \<and> card (sc_running s2) \<le> sc_max s2"
proof -
  obtain s0 where s0: "new_scheduler 2 = Inr s0" by (simp add: new_scheduler_def)
  let ?s1 = "s0\<lparr>sc_children := [\<lparr>sk_id = ''a'', sk_priority = 0, sk_order = 0, sk_depends = [], sk_awaiting = False\<rparr>]\<rparr>"
  from s0 have e: "s0 = \<lparr>sc_max = 2, sc_children = [], sc_completed = {}, sc_failed = {}, sc_running = {}, sc_blocked = []\<rparr>"
    by (simp add: new_scheduler_def)
  have s1: "submit s0 ''a'' 0 [] False = Inr ?s1" by (simp add: e submit_def child_ids_def)
  have m: "may_start ?s1 ''a''" "''a'' \<notin> blocked_ids ?s1"
    by (simp_all add: e may_start_def ready_def is_candidate_def blocked_ids_def)
  have "sched_step\<^sup>*\<^sup>* s0 (start ?s1 ''a'')"
    by (rule converse_rtranclp_into_rtranclp [of sched_step, OF sched_step.submitted [OF s1]
        r_into_rtranclp [of sched_step, OF sched_step.started [OF m(2,1)]]])
  from scheduler_safe [OF s0 this] have "card (sc_running (start ?s1 ''a'')) \<le> sc_max (start ?s1 ''a'')" by blast
  moreover have "sc_running (start ?s1 ''a'') = {''a''}" by (simp add: start_def e)
  ultimately show ?thesis using s0 s1 by blast
qed

end
