(* ===== verification/Leases.thy ===== *)
theory Leases
  imports Scheduler
begin

text \<open>
  The workspace lease (\<open>WorkspaceLeaseManager\<close> in \<open>src/src/skail/runtime/leases.py\<close>), a
  re-entrant lease with one holder, and the two waits a write-capable child goes through in
  \<open>run_attempt\<close> (\<open>src/src/skail/agents/task_graph.py\<close>): the lease first, then its turn in
  the scheduler.

  The threads and the condition variable only deliver wake-ups: an acquisition that waits is a
  step whose guard is the awaited predicate.
\<close>

section \<open>The lease\<close>

datatype side_effect = READ_ONLY | WORKSPACE_WRITE | EXTERNAL_WRITE | UNKNOWN

definition write_capable :: "side_effect list \<Rightarrow> bool" where
  "write_capable effects \<longleftrightarrow> list_ex (\<lambda>e. e \<noteq> READ_ONLY) effects"

record lease =
  ls_holder :: "string option"
  ls_depth :: int

definition new_lease :: lease where
  "new_lease = \<lparr>ls_holder = None, ls_depth = 0\<rparr>"

text \<open>\<open>_acquire\<close> after its wait: \<open>None\<close> when the predicate does not hold and the caller sleeps on.\<close>

definition acquire :: "lease \<Rightarrow> string \<Rightarrow> bool \<Rightarrow> (lease \<times> bool) option" where
  "acquire l owner cancelled =
     (if \<not> (cancelled \<or> ls_holder l \<in> {None, Some owner}) then None
      else if cancelled then Some (l, False)
      else Some (\<lparr>ls_holder = Some owner, ls_depth = ls_depth l + 1\<rparr>, True))"

definition release :: "lease \<Rightarrow> string \<Rightarrow> lease" where
  "release l owner =
     (if ls_holder l \<noteq> Some owner then l
      else if ls_depth l - 1 = 0 then \<lparr>ls_holder = None, ls_depth = 0\<rparr>
      else l\<lparr>ls_depth := ls_depth l - 1\<rparr>)"

definition recover_stale :: "lease \<Rightarrow> string \<Rightarrow> lease \<times> bool" where
  "recover_stale l owner =
     (if ls_holder l \<noteq> Some owner then (l, False) else (\<lparr>ls_holder = None, ls_depth = 0\<rparr>, True))"

text \<open>
  The asynchronous \<open>acquire\<close> when its task is cancelled: an acquisition that succeeded all the
  same is given back.
\<close>

definition acquire_cancelled :: "lease \<Rightarrow> string \<Rightarrow> bool \<Rightarrow> lease option" where
  "acquire_cancelled l owner seen =
     map_option (\<lambda>(l', acquired). if acquired then release l' owner else l') (acquire l owner seen)"

datatype lease_op = Acquire string | Release string | Recover string | Cancelled_acquire string bool

text \<open>An operation of a history; a wait that cannot be granted leaves the lease alone.\<close>

fun lease_next :: "lease \<Rightarrow> lease_op \<Rightarrow> lease" where
  "lease_next l (Acquire t) = (case acquire l t False of None \<Rightarrow> l | Some (l', b) \<Rightarrow> l')"
| "lease_next l (Release t) = release l t"
| "lease_next l (Recover t) = fst (recover_stale l t)"
| "lease_next l (Cancelled_acquire t seen) = (case acquire_cancelled l t seen of None \<Rightarrow> l | Some l' \<Rightarrow> l')"

definition lease_history :: "lease \<Rightarrow> lease_op list \<Rightarrow> lease" where
  "lease_history l ops = foldl lease_next l ops"

definition lease_ok :: "lease \<Rightarrow> bool" where
  "lease_ok l \<longleftrightarrow> 0 \<le> ls_depth l \<and> (ls_holder l = None \<longleftrightarrow> ls_depth l = 0)"

text \<open>How deep one owner holds the lease.\<close>

definition depth_of :: "lease \<Rightarrow> string \<Rightarrow> int" where
  "depth_of l t = (if ls_holder l = Some t then ls_depth l else 0)"

lemma acquire_ok: "lease_ok l \<Longrightarrow> acquire l t c = Some (l', b) \<Longrightarrow> lease_ok l'"
  by (auto simp: acquire_def lease_ok_def split: if_splits)

lemma release_ok: "lease_ok l \<Longrightarrow> lease_ok (release l t)"
  by (auto simp: release_def lease_ok_def)

lemma acquire_release:
  "lease_ok l \<Longrightarrow> acquire l t False = Some (l', True) \<Longrightarrow> release l' t = l"
  by (cases l) (auto simp: acquire_def release_def lease_ok_def split: if_splits)

lemma acquire_cancelled_same: "lease_ok l \<Longrightarrow> acquire_cancelled l t seen = Some l' \<Longrightarrow> l' = l"
  using acquire_release by (cases seen) (auto simp: acquire_cancelled_def acquire_def split: if_splits)

lemma lease_next_ok: "lease_ok l \<Longrightarrow> lease_ok (lease_next l op)"
proof (cases op)
  case (Cancelled_acquire t seen)
  assume "lease_ok l"
  with Cancelled_acquire acquire_cancelled_same [of l t seen] show ?thesis by (auto split: option.splits)
next
  case (Release t)
  assume "lease_ok l"
  with Release release_ok show ?thesis by simp
qed (auto simp: recover_stale_def lease_ok_def acquire_def split: option.splits)

lemma lease_history_ok: "lease_ok l \<Longrightarrow> lease_ok (lease_history l ops)"
  unfolding lease_history_def by (induction ops arbitrary: l) (simp_all add: lease_next_ok)

lemma lease_others_wait:
  "lease_ok l \<Longrightarrow> 0 < depth_of l t \<Longrightarrow> u \<noteq> t \<Longrightarrow> op \<notin> {Release t, Recover t} \<Longrightarrow>
     acquire l u False = None \<and> depth_of l t \<le> depth_of (lease_next l op) t"
proof -
  assume ok: "lease_ok l" and d: "0 < depth_of l t" and u: "u \<noteq> t" and op: "op \<notin> {Release t, Recover t}"
  have h: "ls_holder l = Some t" using d by (auto simp: depth_of_def split: if_splits)
  have "depth_of l t \<le> depth_of (lease_next l op) t"
  proof (cases op)
    case (Cancelled_acquire v seen)
    with acquire_cancelled_same [OF ok, of v seen] show ?thesis by (auto split: option.splits)
  qed (use h op in \<open>auto simp: acquire_def release_def recover_stale_def depth_of_def split: if_splits\<close>)
  with h u show ?thesis by (simp add: acquire_def)
qed

section \<open>Write-capable children\<close>

text \<open>
  A child of a serialized workspace: it wants the lease, holds it while it waits for the
  scheduler, runs, and gives the lease back.
\<close>

datatype phase = Wants_lease | Waits_turn | Runs | Done

record writers =
  wr_lease :: lease
  wr_sched :: scheduler
  wr_phase :: "string \<Rightarrow> phase"

inductive writer_step :: "writers \<Rightarrow> writers \<Rightarrow> bool" where
  got_lease: "wr_phase w t = Wants_lease \<Longrightarrow> acquire (wr_lease w) t False = Some (l, True) \<Longrightarrow>
    writer_step w (w\<lparr>wr_lease := l, wr_phase := (wr_phase w)(t := Waits_turn)\<rparr>)"
| got_turn: "wr_phase w t = Waits_turn \<Longrightarrow> t \<notin> blocked_ids (wr_sched w) \<Longrightarrow> may_start (wr_sched w) t \<Longrightarrow>
    writer_step w (w\<lparr>wr_sched := start (wr_sched w) t, wr_phase := (wr_phase w)(t := Runs)\<rparr>)"
| was_blocked: "wr_phase w t = Waits_turn \<Longrightarrow> t \<in> blocked_ids (wr_sched w) \<Longrightarrow>
    writer_step w (w\<lparr>wr_lease := release (wr_lease w) t, wr_phase := (wr_phase w)(t := Done)\<rparr>)"
| ended: "wr_phase w t = Runs \<Longrightarrow> complete (wr_sched w) t final x = Inr s \<Longrightarrow>
    writer_step w (w\<lparr>wr_lease := release (wr_lease w) t, wr_sched := leave s t, wr_phase := (wr_phase w)(t := Done)\<rparr>)"

inductive_cases writer_stepE: "writer_step w w'"

text \<open>
  Two write-capable children, the second depending on the first, can deadlock: the dependent
  takes the lease and waits for the scheduler, which waits for its dependency, which waits for the
  lease.
\<close>

definition ex_pair :: writers where
  "ex_pair = \<lparr>wr_lease = new_lease,
     wr_sched = \<lparr>sc_max = 3, sc_children =
        [\<lparr>sk_id = ''a'', sk_priority = 0, sk_order = 0, sk_depends = [], sk_awaiting = False\<rparr>,
         \<lparr>sk_id = ''b'', sk_priority = 0, sk_order = 1, sk_depends = [''a''], sk_awaiting = False\<rparr>],
        sc_completed = {}, sc_failed = {}, sc_running = {}, sc_blocked = []\<rparr>,
     wr_phase = (\<lambda>t. if t \<in> {''a'', ''b''} then Wants_lease else Done)\<rparr>"

definition ex_stuck :: writers where
  "ex_stuck = ex_pair\<lparr>wr_lease := \<lparr>ls_holder = Some ''b'', ls_depth = 1\<rparr>,
     wr_phase := (wr_phase ex_pair)(''b'' := Waits_turn)\<rparr>"

lemma writers_can_deadlock:
  "writer_step ex_pair ex_stuck \<and> (\<forall>w. \<not> writer_step ex_stuck w) \<and> wr_phase ex_stuck ''a'' = Wants_lease"
proof (intro conjI allI notI)
  show "writer_step ex_pair ex_stuck"
    unfolding ex_stuck_def by (rule got_lease) (simp_all add: ex_pair_def acquire_def new_lease_def)
  show "wr_phase ex_stuck ''a'' = Wants_lease" by (simp add: ex_stuck_def ex_pair_def)
  have r: "ready (wr_sched ex_stuck) = [''a'']" by code_simp
  fix w assume "writer_step ex_stuck w"
  then show False
  proof (cases rule: writer_step.cases)
    case (got_lease t l)
    then have "t = ''a''" by (auto simp: ex_stuck_def ex_pair_def split: if_splits)
    with got_lease show False by (simp add: ex_stuck_def acquire_def)
  next
    case (got_turn t)
    then have "t = ''b''" by (auto simp: ex_stuck_def ex_pair_def split: if_splits)
    moreover have "t \<in> set (ready (wr_sched ex_stuck))" using got_turn by (auto simp: may_start_def dest: in_set_takeD)
    ultimately show False by (simp add: r)
  next
    case (was_blocked t)
    then show False by (simp add: ex_stuck_def ex_pair_def blocked_ids_def)
  next
    case (ended t final x s)
    then show False by (auto simp: ex_stuck_def ex_pair_def split: if_splits)
  qed
qed

section \<open>Properties\<close>

text \<open>
  The workspace lease excludes.  After every history of acquisitions, cancelled acquisitions,
  releases and recoveries, while an owner holds the lease every other owner waits, only the owner's
  own release or recovery loosens its hold, and an acquisition that is released leaves the lease as
  it was.
\<close>

theorem lease_excludes:
  assumes "0 < depth_of (lease_history new_lease ops) t" and "u \<noteq> t" and "op \<notin> {Release t, Recover t}"
  shows "acquire (lease_history new_lease ops) u False = None \<and>
     depth_of (lease_history new_lease ops) t \<le> depth_of (lease_next (lease_history new_lease ops) op) t \<and>
     lease_next (lease_next (lease_history new_lease ops) (Acquire t)) (Release t) = lease_history new_lease ops"
proof -
  have ok: "lease_ok (lease_history new_lease ops)"
    by (rule lease_history_ok) (simp add: lease_ok_def new_lease_def)
  have "ls_holder (lease_history new_lease ops) = Some t" using assms(1) by (auto simp: depth_of_def split: if_splits)
  then have "\<exists>l'. acquire (lease_history new_lease ops) t False = Some (l', True)" by (simp add: acquire_def)
  then have "lease_next (lease_next (lease_history new_lease ops) (Acquire t)) (Release t) = lease_history new_lease ops"
    using acquire_release [OF ok] by auto
  with lease_others_wait [OF ok assms] show ?thesis by blast
qed

theorem lease_excludes_witness:
  "depth_of (lease_history new_lease [Acquire ''a'', Acquire ''a'', Release ''a'', Release ''b'', Cancelled_acquire ''a'' False]) ''a'' = 1 \<and>
   acquire (lease_history new_lease [Acquire ''a'', Acquire ''a'', Release ''a'', Release ''b'', Cancelled_acquire ''a'' False]) ''b'' False = None"
proof -
  let ?ops = "[Acquire ''a'', Acquire ''a'', Release ''a'', Release ''b'', Cancelled_acquire ''a'' False]"
  have d: "depth_of (lease_history new_lease ?ops) ''a'' = 1" by code_simp
  then have "0 < depth_of (lease_history new_lease ?ops) ''a''" by simp
  from lease_excludes [OF this, of "''b''" "Acquire ''b''"] d show ?thesis by simp
qed

end
