(* ===== verification/Task_Validation.thy ===== *)
theory Task_Validation
  imports Changeset_Domain Assignment
begin

text \<open>
  The contract of a delegated task: the request and specification values of
  \<open>src/src/skail/domain/tasks.py\<close>, the agent profile they name and
  \<open>TaskValidator\<close> of \<open>src/src/skail/runtime/task_validation.py\<close>, which normalises a
  request, checks it against the profile and the workspace and freezes it as a specification.

  Parameters: the fresh task identifier, the hash of the canonical JSON (\<open>sha\<close>) and, for
  scopes, whether the resolved path of a list of components lies in the workspace root
  (\<open>tv_inside\<close>, which depends on the symbolic links of the file system).
\<close>

section \<open>Values\<close>

record permission_set =
  ps_read :: bool
  ps_write :: bool
  ps_execute :: bool
  ps_network :: bool

text \<open>The permission set of a task repeats the fields of the profile's and adds the allowed paths.\<close>

record task_permissions = permission_set +
  tp_paths :: "string list"

definition contains :: "permission_set \<Rightarrow> permission_set \<Rightarrow> bool" where
  "contains allowed requested \<longleftrightarrow>
     (\<not> ps_read requested \<or> ps_read allowed) \<and> (\<not> ps_write requested \<or> ps_write allowed) \<and>
     (\<not> ps_execute requested \<or> ps_execute allowed) \<and> (\<not> ps_network requested \<or> ps_network allowed)"

record agent_profile =
  pf_name :: string
  pf_role :: string
  pf_tools :: "string list"
  pf_permissions :: permission_set
  pf_schema :: "string option"
  pf_role_floor :: rat

definition profile_write_capable :: "agent_profile \<Rightarrow> bool" where
  "profile_write_capable p \<longleftrightarrow> ps_write (pf_permissions p) \<or> ps_execute (pf_permissions p)"

record model_constraint =
  mc_provider :: "string option"
  mc_model :: "string option"
  mc_minimum :: "rat option"

record task_request =
  tq_description :: string
  tq_profile :: string
  tq_criteria :: "string list"
  tq_depends :: "string list"
  tq_scope :: "string list"
  tq_policy :: "model_constraint option"
  tq_budget :: "usd option"
  tq_background :: bool
  tq_priority :: int
  tq_artifacts :: "string list"
  tq_revisions :: "string list"
  tq_lineage :: "string option"

record task_spec =
  sp_id :: string
  sp_run :: string
  sp_parent :: "string option"
  sp_depth :: int
  sp_fingerprint :: string
  sp_request :: task_request
  sp_requirements :: routing_requirements
  sp_permissions :: task_permissions

record task_validator =
  tv_profiles :: "string \<Rightarrow> agent_profile option"
  tv_inside :: "string list \<Rightarrow> bool"
  tv_max_depth :: int
  tv_background :: bool
  tv_max_chars :: nat

text \<open>A dictionary of arguments: reading is \<open>map_of\<close>, writing a key replaces its value.\<close>

type_synonym args = "(string \<times> json) list"

definition set_arg :: "string \<Rightarrow> json \<Rightarrow> args \<Rightarrow> args" where
  "set_arg k v kvs = (k, v) # filter (\<lambda>(x, y). x \<noteq> k) kvs"

definition del_arg :: "string \<Rightarrow> args \<Rightarrow> args" where
  "del_arg k kvs = filter (\<lambda>(x, y). x \<noteq> k) kvs"

section \<open>Texts\<close>

text \<open>\<open>str.split()\<close>: the maximal runs of characters that are not white space.\<close>

function words_of :: "string \<Rightarrow> string list" where
  "words_of s =
     (case dropWhile is_space s of
        [] \<Rightarrow> []
      | c # cs \<Rightarrow> (c # takeWhile (\<lambda>x. \<not> is_space x) cs) # words_of (dropWhile (\<lambda>x. \<not> is_space x) cs))"
  by pat_completeness auto
termination
proof (relation "measure length", goal_cases)
  case (2 s c cs)
  have "length (dropWhile (\<lambda>x. \<not> is_space x) cs) \<le> length cs" by (rule length_dropWhile_le)
  also have "\<dots> < length (dropWhile is_space s)" using 2 by simp
  also have "\<dots> \<le> length s" by (rule length_dropWhile_le)
  finally show ?case by simp
qed simp

declare words_of.simps [simp del]

definition normalize_text :: "string \<Rightarrow> string" where
  "normalize_text value = join_on CHR '' '' (words_of value)"

definition word_ok :: "string \<Rightarrow> bool" where
  "word_ok w \<longleftrightarrow> w \<noteq> [] \<and> (\<forall>c \<in> set w. \<not> is_space c)"

lemma space_is_space [simp]: "is_space CHR '' ''"
  by (simp add: is_space_def)

lemma words_of_ok: "w \<in> set (words_of s) \<Longrightarrow> word_ok w"
proof (induction s rule: words_of.induct)
  case (1 s)
  show ?case
  proof (cases "dropWhile is_space s")
    case Nil
    with "1.prems" show ?thesis by (simp add: words_of.simps)
  next
    case (Cons c cs)
    then have "\<not> is_space c" using hd_dropWhile [of is_space s] by simp
    then have "word_ok (c # takeWhile (\<lambda>x. \<not> is_space x) cs)"
      by (auto simp: word_ok_def dest: set_takeWhileD)
    with 1 Cons show ?thesis by (auto simp: words_of.simps [of s])
  qed
qed

lemma words_of_word_rest:
  "word_ok w \<Longrightarrow> (rest = [] \<or> is_space (hd rest)) \<Longrightarrow> words_of (w @ rest) = w # words_of rest"
proof -
  assume w: "word_ok w" and r: "rest = [] \<or> is_space (hd rest)"
  then obtain c cs where c: "w = c # cs" "\<not> is_space c" "\<forall>x \<in> set cs. \<not> is_space x"
    by (cases w) (auto simp: word_ok_def)
  from c r have "takeWhile (\<lambda>x. \<not> is_space x) (cs @ rest) = cs"
    "dropWhile (\<lambda>x. \<not> is_space x) (cs @ rest) = rest"
    by (cases rest; simp add: takeWhile_append dropWhile_append)+
  with c show ?thesis by (subst words_of.simps) simp
qed

lemma words_of_space [simp]: "is_space c \<Longrightarrow> words_of (c # s) = words_of s"
  by (simp add: words_of.simps [of "c # s"] words_of.simps [of s])

lemma words_of_Nil [simp]: "words_of [] = []"
  by (simp add: words_of.simps)

lemma words_of_join: "\<forall>w \<in> set ws. word_ok w \<Longrightarrow> words_of (join_on CHR '' '' ws) = ws"
proof (induction "CHR '' ''" ws rule: join_on.induct)
  case 1
  then show ?case by simp
next
  case (2 p)
  then show ?case using words_of_word_rest [of p "[]"] by simp
next
  case (3 p q ps)
  then show ?case using words_of_word_rest [of p "CHR '' '' # join_on CHR '' '' (q # ps)"] by simp
qed

lemma normalize_text_idem [simp]: "normalize_text (normalize_text s) = normalize_text s"
  using words_of_join [of "words_of s"] words_of_ok by (auto simp: normalize_text_def)

section \<open>Scopes and references\<close>

text \<open>\<open>as_posix()\<close> of a relative path.\<close>

definition as_posix :: "string list \<Rightarrow> string" where
  "as_posix parts = (if parts = [] then ''.'' else join_on CHR ''/'' parts)"

text \<open>
  After the backslashes are replaced, \<open>PureWindowsPath\<close> sees a drive in a second character
  \<open>:\<close> or in a leading \<open>//\<close>; the latter is absolute for \<open>PurePosixPath\<close> too.
\<close>

definition scope_shape_bad :: "string \<Rightarrow> bool" where
  "scope_shape_bad c \<longleftrightarrow> c = [] \<or> starts_with c ''/'' \<or> (2 \<le> length c \<and> c ! 1 = CHR '':'') \<or>
     ''..'' \<in> set (posix_parts c)"

definition slashes :: "string \<Rightarrow> string" where
  "slashes s = map (\<lambda>c. if c = CHR 0x5C then CHR ''/'' else c) s"

definition normalize_scope :: "(string list \<Rightarrow> bool) \<Rightarrow> string \<Rightarrow> string res" where
  "normalize_scope inside value =
     (let candidate = slashes (py_strip value) in
      if scope_shape_bad candidate then Inl (TaskValidationError ''task.scope_invalid'')
      else if \<not> inside (posix_parts candidate) then Inl (TaskValidationError ''task.scope_invalid'')
      else Inr (as_posix (posix_parts candidate)))"

definition artifact_char :: "char \<Rightarrow> bool" where
  "artifact_char c \<longleftrightarrow> word_start c \<or> is_digit c \<or> c \<in> set ''./-''"

definition normalize_context_reference :: "(string list \<Rightarrow> bool) \<Rightarrow> string \<Rightarrow> string res" where
  "normalize_context_reference inside value =
     (let reference = py_strip value in
      if reference = [] \<or> 512 < length reference
        then Inl (TaskValidationError ''task.context_reference_invalid'')
      else if starts_with reference ''file:''
        then (case normalize_scope inside (drop 5 reference) of
                Inl e \<Rightarrow> Inl (TaskValidationError ''task.context_reference_invalid'')
              | Inr path \<Rightarrow> Inr (''file:'' @ path))
      else if starts_with reference ''artifact:'' \<and> drop 9 reference \<noteq> [] \<and>
         list_all artifact_char (drop 9 reference) \<and> ''..'' \<notin> set (posix_parts (drop 9 reference))
        then Inr reference
      else Inl (TaskValidationError ''task.context_reference_invalid''))"

definition normalize_context_revision :: "string \<Rightarrow> string res" where
  "normalize_context_revision value =
     (let revision = py_strip value in
      if revision = [] \<or> 512 < length revision \<or> list_ex is_space revision
        then Inl (TaskValidationError ''task.context_revision_invalid'')
      else Inr revision)"

definition validate_id :: "string \<Rightarrow> string \<Rightarrow> unit res" where
  "validate_id value code =
     (case ensure_uuid4 value of Inl e \<Rightarrow> Inl (TaskValidationError code) | Inr _ \<Rightarrow> Inr ())"

text \<open>\<open>tuple(f(x) for x in xs)\<close> where \<open>f\<close> may raise.\<close>

fun map_res :: "('a \<Rightarrow> 'b res) \<Rightarrow> 'a list \<Rightarrow> 'b list res" where
  "map_res f [] = Inr []"
| "map_res f (x # xs) = res_bind (f x) (\<lambda>y. res_bind (map_res f xs) (\<lambda>ys. Inr (y # ys)))"

lemma map_res_Inr: "map_res f xs = Inr ys \<longleftrightarrow> list_all2 (\<lambda>x y. f x = Inr y) xs ys"
  by (induction xs arbitrary: ys) (auto simp: res_bind_eq_Inr list_all2_Cons1)

lemma map_res_all: "map_res f xs = Inr ys \<Longrightarrow> (\<And>x y. f x = Inr y \<Longrightarrow> P y) \<Longrightarrow> \<forall>y \<in> set ys. P y"
  by (induction xs arbitrary: ys) (auto simp: res_bind_eq_Inr)

lemma validate_id_Inr [simp]: "validate_id v c = Inr u \<longleftrightarrow> is_ok (ensure_uuid4 v)"
  by (auto simp: validate_id_def split: sum.splits)

section \<open>Normalisation of a request\<close>

text \<open>\<open>TaskRequest\<close> validates the budget and the priority at construction.\<close>

definition request_fields_ok :: "task_request \<Rightarrow> bool" where
  "request_fields_ok q \<longleftrightarrow>
     (case tq_budget q of None \<Rightarrow> True | Some b \<Rightarrow> 0 \<le> b) \<and> -100 \<le> tq_priority q \<and> tq_priority q \<le> 100"

definition opt_res :: "('a \<Rightarrow> 'b res) \<Rightarrow> 'a option \<Rightarrow> 'b option res" where
  "opt_res f x = (case x of None \<Rightarrow> Inr None | Some a \<Rightarrow> res_bind (f a) (\<lambda>b. Inr (Some b)))"

lemma opt_res_Inr:
  "opt_res f x = Inr y \<longleftrightarrow> (x = None \<and> y = None) \<or> (\<exists>a b. x = Some a \<and> f a = Inr b \<and> y = Some b)"
  by (auto simp: opt_res_def res_bind_eq_Inr split: option.splits)

definition normalize_request :: "task_validator \<Rightarrow> task_request \<Rightarrow> int \<Rightarrow> task_request res" where
  "normalize_request v q parent_depth =
     (let description = normalize_text (tq_description q); profile_name = py_strip (tq_profile q) in
      if description = [] then Inl (TaskValidationError ''task.description_empty'')
      else if tv_max_chars v < length description
        then Inl (TaskValidationError ''task.description_oversized'')
      else (case tv_profiles v profile_name of
        None \<Rightarrow> Inl (TaskValidationError ''task.profile_unknown'')
      | Some profile \<Rightarrow>
        if ROLE_FLOORS (pf_role profile) = None then Inl (TaskValidationError ''task.profile_invalid'')
        else if tv_max_depth v \<le> parent_depth then Inl (TaskValidationError ''task.depth_exceeded'')
        else if \<not> distinct (tq_depends q) then Inl (TaskValidationError ''task.dependency_invalid'')
        else res_bind (map_res (\<lambda>d. validate_id d ''task.dependency_invalid'') (tq_depends q)) (\<lambda>_.
             res_bind (map_res (normalize_scope (tv_inside v)) (tq_scope q)) (\<lambda>scope.
        if scope \<noteq> [] \<and> \<not> ps_write (pf_permissions profile)
          then Inl (TaskValidationError ''task.scope_forbidden'')
        else if tq_background q \<and> \<not> tv_background v
          then Inl (TaskValidationError ''task.background_disabled'')
        else res_bind (map_res (normalize_context_reference (tv_inside v)) (tq_artifacts q)) (\<lambda>artifacts.
             res_bind (map_res normalize_context_revision (tq_revisions q)) (\<lambda>revisions.
             res_bind (opt_res normalize_context_revision (tq_lineage q)) (\<lambda>lineage.
             Inr (q\<lparr>tq_description := description, tq_profile := profile_name,
                    tq_criteria := map normalize_text (tq_criteria q), tq_scope := scope,
                    tq_artifacts := artifacts, tq_revisions := revisions,
                    tq_lineage := lineage\<rparr>))))))))"

section \<open>Specifications\<close>

definition constraint_json :: "model_constraint \<Rightarrow> json" where
  "constraint_json c = JObj [(''provider'', opt_str (mc_provider c)), (''model'', opt_str (mc_model c)),
     (''minimum_capability'', opt_num (mc_minimum c))]"

definition request_json :: "task_request \<Rightarrow> json" where
  "request_json q = JObj
     [(''description'', JStr (tq_description q)), (''profile'', JStr (tq_profile q)),
      (''success_criteria'', JList (map JStr (tq_criteria q))),
      (''depends_on'', JList (map JStr (tq_depends q))), (''write_scope'', JList (map JStr (tq_scope q))),
      (''model_policy'', case tq_policy q of None \<Rightarrow> JNull | Some c \<Rightarrow> constraint_json c),
      (''budget_usd'', opt_num (tq_budget q)), (''background'', JBool (tq_background q)),
      (''priority'', JNum (of_int (tq_priority q))),
      (''prerequisite_artifacts'', JList (map JStr (tq_artifacts q))),
      (''source_revisions'', JList (map JStr (tq_revisions q))),
      (''attempt_lineage'', opt_str (tq_lineage q))]"

definition fingerprint_payload :: "task_request \<Rightarrow> string option \<Rightarrow> string \<Rightarrow> json" where
  "fingerprint_payload q parent workspace_revision = JObj
     [(''parent_task_id'', opt_str parent),
      (''request'', case tq_lineage q of None \<Rightarrow> request_json q
                    | Some l \<Rightarrow> JObj [(''attempt_lineage'', JStr l)]),
      (''workspace_revision'', JStr (py_strip workspace_revision))]"

definition task_fingerprint :: "(json \<Rightarrow> string) \<Rightarrow> task_request \<Rightarrow> string option \<Rightarrow> string \<Rightarrow> string" where
  "task_fingerprint sha q parent workspace_revision = sha (fingerprint_payload q parent workspace_revision)"

definition profile_requirements :: "agent_profile \<Rightarrow> task_risk \<Rightarrow> requirement_input" where
  "profile_requirements p risk =
     \<lparr>ri_role = pf_role p, ri_risk = risk, ri_mode = AUTO, ri_hard_min = pf_role_floor p,
      ri_tools = (pf_tools p \<noteq> []), ri_structured = (pf_schema p \<noteq> None),
      ri_context = 0, ri_output = 0, ri_modalities = [''text''], ri_hinted_floor = None,
      ri_hinted_context = 0, ri_hinted_output = 0, ri_hinted_modalities = [],
      ri_escalated = False, ri_failed_fit = None, ri_failed_model = None, ri_excluded = []\<rparr>"

text \<open>\<open>TaskSpec\<close> validates its identifiers, depth and fingerprint at construction.\<close>

definition make_spec :: "task_spec \<Rightarrow> task_spec res" where
  "make_spec s =
     (if sp_depth s < 0 \<or> sp_fingerprint s = [] then Inl (ValueError ''spec.fields'')
      else res_bind (check_all ensure_uuid4
          (sp_id s # sp_run s # (case sp_parent s of None \<Rightarrow> [] | Some p \<Rightarrow> [p]))) (\<lambda>_. Inr s))"

definition create_spec ::
  "(json \<Rightarrow> string) \<Rightarrow> task_validator \<Rightarrow> string \<Rightarrow> task_request \<Rightarrow> string \<Rightarrow> string option \<Rightarrow> int \<Rightarrow>
     string \<Rightarrow> task_risk \<Rightarrow> usd option \<Rightarrow> model_constraint option \<Rightarrow> task_spec res" where
  "create_spec sha v new_id q run parent parent_depth workspace_revision risk budget policy =
     res_bind (normalize_request v q parent_depth) (\<lambda>n.
     if py_strip workspace_revision = []
       then Inl (TaskValidationError ''task.workspace_revision_invalid'')
     else res_bind (case parent of None \<Rightarrow> Inr () | Some p \<Rightarrow> validate_id p ''task.parent_invalid'') (\<lambda>_.
     (case tv_profiles v (tq_profile n) of
        None \<Rightarrow> Inl (KeyError (tq_profile n))
      | Some profile \<Rightarrow>
     (case build (profile_requirements profile risk) of
        Inl e \<Rightarrow> Inl (TaskValidationError ''task.profile_invalid'')
      | Inr requirements \<Rightarrow>
     (let r = n\<lparr>tq_budget := (if budget = None then tq_budget n else budget),
                tq_policy := (if policy = None then tq_policy n else policy)\<rparr>;
          p = pf_permissions profile
      in make_spec \<lparr>sp_id = new_id, sp_run = run, sp_parent = parent, sp_depth = parent_depth + 1,
           sp_fingerprint = task_fingerprint sha r parent workspace_revision, sp_request = r,
           sp_requirements = requirements,
           sp_permissions = \<lparr>ps_read = ps_read p, ps_write = ps_write p, ps_execute = ps_execute p,
              ps_network = ps_network p, tp_paths = tq_scope r\<rparr>\<rparr>)))))"

section \<open>The contract of an accepted task\<close>

text \<open>
  A scope is in its canonical form: relative, without empty, \<open>.\<close> or \<open>..\<close> components, inside
  the root.  A component of the form \<open>c:x\<close> can stay, as the first one of \<open>./c:x\<close>.
\<close>

definition scope_ok :: "(string list \<Rightarrow> bool) \<Rightarrow> string \<Rightarrow> bool" where
  "scope_ok inside p \<longleftrightarrow> as_posix (posix_parts p) = p \<and> \<not> starts_with p ''/'' \<and>
     ''..'' \<notin> set (posix_parts p) \<and> inside (posix_parts p)"

definition reference_ok :: "(string list \<Rightarrow> bool) \<Rightarrow> string \<Rightarrow> bool" where
  "reference_ok inside r \<longleftrightarrow>
     (\<exists>p. r = ''file:'' @ p \<and> scope_ok inside p) \<or>
     (\<exists>a. r = ''artifact:'' @ a \<and> a \<noteq> [] \<and> list_all artifact_char a \<and> ''..'' \<notin> set (posix_parts a))"

definition revision_ok :: "string \<Rightarrow> bool" where
  "revision_ok r \<longleftrightarrow> word_ok r \<and> length r \<le> 512"

definition request_ok :: "task_validator \<Rightarrow> agent_profile \<Rightarrow> task_request \<Rightarrow> bool" where
  "request_ok v p q \<longleftrightarrow>
     tv_profiles v (tq_profile q) = Some p \<and> ROLE_FLOORS (pf_role p) \<noteq> None \<and>
     tq_description q \<noteq> [] \<and> length (tq_description q) \<le> tv_max_chars v \<and>
     (\<forall>t \<in> insert (tq_description q) (set (tq_criteria q)). normalize_text t = t) \<and>
     distinct (tq_depends q) \<and> (\<forall>d \<in> set (tq_depends q). is_ok (ensure_uuid4 d)) \<and>
     (\<forall>s \<in> set (tq_scope q). scope_ok (tv_inside v) s) \<and>
     (tq_scope q \<noteq> [] \<longrightarrow> ps_write (pf_permissions p)) \<and>
     (tq_background q \<longrightarrow> tv_background v) \<and>
     (\<forall>r \<in> set (tq_artifacts q). reference_ok (tv_inside v) r) \<and>
     (\<forall>r \<in> set (tq_revisions q) \<union> set_option (tq_lineage q). revision_ok r)"

definition spec_ok :: "task_validator \<Rightarrow> agent_profile \<Rightarrow> task_spec \<Rightarrow> bool" where
  "spec_ok v p s \<longleftrightarrow> request_ok v p (sp_request s) \<and> 0 \<le> sp_depth s \<and> sp_depth s \<le> tv_max_depth v \<and>
     sp_fingerprint s \<noteq> [] \<and> is_ok (ensure_uuid4 (sp_id s)) \<and> is_ok (ensure_uuid4 (sp_run s)) \<and>
     (\<forall>t \<in> set_option (sp_parent s). is_ok (ensure_uuid4 t)) \<and>
     tp_paths (sp_permissions s) = tq_scope (sp_request s) \<and>
     contains (pf_permissions p) (permission_set.truncate (sp_permissions s)) \<and>
     (tp_paths (sp_permissions s) \<noteq> [] \<longrightarrow> ps_write (sp_permissions s)) \<and>
     (\<exists>f. rr_floor (sp_requirements s) = Some f \<and> round2 (pf_role_floor p) \<le> f \<and> f \<le> 85/100)"

lemma split_on_no_sep: "p \<in> set (split_on c s) \<Longrightarrow> c \<notin> set p"
  by (induction c s arbitrary: p rule: split_on.induct) (auto split: list.splits if_splits)

lemma split_on_single: "c \<notin> set p \<Longrightarrow> split_on c p = [p]"
  by (induction p) auto

lemma split_on_append: "c \<notin> set p \<Longrightarrow> split_on c (p @ c # s) = p # split_on c s"
  by (induction p) auto

lemma split_on_join: "ps \<noteq> [] \<Longrightarrow> \<forall>p \<in> set ps. c \<notin> set p \<Longrightarrow> split_on c (join_on c ps) = ps"
  by (induction c ps rule: join_on.induct) (auto simp: split_on_single split_on_append)

lemma posix_parts_clean:
  "p \<in> set (posix_parts s) \<Longrightarrow> p \<noteq> [] \<and> p \<noteq> ''.'' \<and> CHR ''/'' \<notin> set p"
  by (auto simp: posix_parts_def dest: split_on_no_sep)

lemma posix_parts_dot: "posix_parts ''.'' = []"
  by (simp add: posix_parts_def)

lemma posix_parts_as_posix: "posix_parts (as_posix (posix_parts s)) = posix_parts s"
proof (cases "posix_parts s = []")
  case True
  then show ?thesis by (simp add: as_posix_def posix_parts_dot)
next
  case False
  then have "split_on CHR ''/'' (join_on CHR ''/'' (posix_parts s)) = posix_parts s"
    using posix_parts_clean by (intro split_on_join) auto
  with False show ?thesis
    by (simp add: as_posix_def posix_parts_def filter_id_conv)
qed

lemma as_posix_relative: "\<not> starts_with (as_posix (posix_parts s)) ''/''"
proof (cases "posix_parts s")
  case Nil
  then show ?thesis by (simp add: as_posix_def starts_with_def)
next
  case (Cons p ps)
  then have "p \<noteq> [] \<and> hd p \<noteq> CHR ''/''" using posix_parts_clean [of p s] by (cases p) auto
  with Cons show ?thesis
    by (cases p; cases ps) (auto simp: as_posix_def starts_with_def)
qed

lemma normalize_scope_Inr:
  "normalize_scope inside v = Inr p \<longleftrightarrow>
     \<not> scope_shape_bad (slashes (py_strip v)) \<and> inside (posix_parts (slashes (py_strip v))) \<and>
     p = as_posix (posix_parts (slashes (py_strip v)))"
  by (auto simp: normalize_scope_def Let_def)

lemma normalize_scope_ok: "normalize_scope inside v = Inr p \<Longrightarrow> scope_ok inside p"
  by (auto simp: normalize_scope_Inr scope_ok_def scope_shape_bad_def posix_parts_as_posix as_posix_relative)

lemma starts_with_append: "starts_with s p \<Longrightarrow> length p = n \<Longrightarrow> s = p @ drop n s"
  unfolding starts_with_def using append_take_drop_id [of n s] by metis

lemma normalize_reference_ok:
  "normalize_context_reference inside v = Inr r \<Longrightarrow> reference_ok inside r"
proof -
  assume r: "normalize_context_reference inside v = Inr r"
  let ?s = "py_strip v"
  show ?thesis
  proof (cases "starts_with ?s ''file:''")
    case True
    with r show ?thesis
      by (auto simp: normalize_context_reference_def Let_def reference_ok_def split: if_splits sum.splits
          dest!: normalize_scope_ok)
  next
    case False
    with r have "starts_with ?s ''artifact:''" "r = ?s" "drop 9 ?s \<noteq> []" "list_all artifact_char (drop 9 ?s)"
      "''..'' \<notin> set (posix_parts (drop 9 ?s))"
      by (auto simp: normalize_context_reference_def Let_def split: if_splits)
    moreover from this(1) have "?s = ''artifact:'' @ drop 9 ?s"
      by (rule starts_with_append) simp
    ultimately show ?thesis by (auto simp: reference_ok_def)
  qed
qed

lemma normalize_revision_ok: "normalize_context_revision v = Inr r \<Longrightarrow> revision_ok r"
  by (auto simp: normalize_context_revision_def Let_def revision_ok_def word_ok_def list_ex_iff split: if_splits)

lemma normalize_request_ok:
  assumes "normalize_request v q d = Inr n"
  shows "\<exists>p. request_ok v p n \<and> d < tv_max_depth v"
proof -
  from assms obtain p scope artifacts revisions lineage deps where
    n: "n = q\<lparr>tq_description := normalize_text (tq_description q), tq_profile := py_strip (tq_profile q),
          tq_criteria := map normalize_text (tq_criteria q), tq_scope := scope,
          tq_artifacts := artifacts, tq_revisions := revisions, tq_lineage := lineage\<rparr>"
    and p: "tv_profiles v (py_strip (tq_profile q)) = Some p" "ROLE_FLOORS (pf_role p) \<noteq> None"
    and c: "normalize_text (tq_description q) \<noteq> []" "length (normalize_text (tq_description q)) \<le> tv_max_chars v"
      "d < tv_max_depth v" "distinct (tq_depends q)" "scope = [] \<or> ps_write (pf_permissions p)"
      "tq_background q \<longrightarrow> tv_background v"
    and deps: "map_res (\<lambda>d. validate_id d ''task.dependency_invalid'') (tq_depends q) = Inr deps"
    and scope: "map_res (normalize_scope (tv_inside v)) (tq_scope q) = Inr scope"
    and artifacts: "map_res (normalize_context_reference (tv_inside v)) (tq_artifacts q) = Inr artifacts"
    and revisions: "map_res normalize_context_revision (tq_revisions q) = Inr revisions"
    and lineage: "opt_res normalize_context_revision (tq_lineage q) = Inr lineage"
    by (auto simp: normalize_request_def Let_def res_bind_eq_Inr split: if_splits option.splits)
  have "\<forall>t \<in> set (tq_depends q). is_ok (ensure_uuid4 t)"
    using deps by (auto simp: map_res_Inr list_all2_conv_all_nth in_set_conv_nth)
  moreover have "\<forall>s \<in> set scope. scope_ok (tv_inside v) s"
    by (rule map_res_all [OF scope]) (rule normalize_scope_ok)
  moreover have "\<forall>r \<in> set artifacts. reference_ok (tv_inside v) r"
    by (rule map_res_all [OF artifacts]) (rule normalize_reference_ok)
  moreover have "\<forall>r \<in> set revisions. revision_ok r"
    by (rule map_res_all [OF revisions]) (rule normalize_revision_ok)
  moreover have "\<forall>r \<in> set_option lineage. revision_ok r"
    using lineage by (auto simp: opt_res_Inr dest: normalize_revision_ok)
  ultimately have "request_ok v p n"
    using p c by (auto simp: n request_ok_def)
  with c(3) show ?thesis by blast
qed

lemma build_auto_floor:
  assumes "build i = Inr r" "ri_mode i = AUTO" "\<not> ri_escalated i"
  shows "\<exists>f. rr_floor r = Some f \<and> round2 (ri_hard_min i) \<le> f \<and> f \<le> 85/100"
proof -
  obtain rf where rf: "ROLE_FLOORS (ri_role i) = Some rf" "ri_hard_min i \<le> rf"
    and r: "rr_floor r = capability_floor (base_floor rf (ri_risk i) (ri_hinted_floor i))
       (ri_mode i) (ri_hard_min i) (ri_escalated i)"
    by (rule build_Inr [OF assms(1)])
  then have "ri_hard_min i \<le> 60/100" using ROLE_FLOORS_range [OF rf(1)] by simp
  moreover obtain f where "rr_floor r = Some f" using assms(2) by (simp add: r capability_floor_def)
  ultimately show ?thesis
    using floor_not_below_hard_min [of _ "ri_mode i" "ri_hard_min i" "ri_escalated i"] r assms(3)
    by (auto simp: floor_ceiling_def)
qed

lemma request_ok_policy [simp]:
  "request_ok v p (q\<lparr>tq_budget := b\<rparr>) = request_ok v p q"
  "request_ok v p (q\<lparr>tq_policy := c\<rparr>) = request_ok v p q"
  by (simp_all add: request_ok_def)

section \<open>Properties\<close>

text \<open>
  C23: every specification the validator accepts satisfies the contract of a task.  Its texts are
  normalised and non-empty, its profile is known, its dependencies are distinct UUIDs, every write
  scope is a canonical relative path inside the workspace and needs a write permission, every
  context reference and revision has its form; its depth is one more than the parent's and within
  the limit; its permissions are those of the profile with the scope as allowed paths; its
  capability floor lies between the role's minimum and 0.85; and its fingerprint is the hash of
  the payload of the request it holds.
\<close>
theorem accepted_spec_contract:
  assumes "create_spec sha v new_id q run parent parent_depth revision risk budget policy = Inr s"
  shows "\<exists>p. spec_ok v p s \<and> sp_depth s = parent_depth + 1 \<and> sp_id s = new_id \<and> sp_parent s = parent \<and>
     sp_fingerprint s = task_fingerprint sha (sp_request s) parent revision \<and>
     contains (permission_set.truncate (sp_permissions s)) (pf_permissions p)"
proof -
  from assms obtain n p r where n: "normalize_request v q parent_depth = Inr n"
    and p: "tv_profiles v (tq_profile n) = Some p"
    and r: "build (profile_requirements p risk) = Inr r"
    and s: "make_spec \<lparr>sp_id = new_id, sp_run = run, sp_parent = parent, sp_depth = parent_depth + 1,
       sp_fingerprint = task_fingerprint sha (n\<lparr>tq_budget := (if budget = None then tq_budget n else budget),
         tq_policy := (if policy = None then tq_policy n else policy)\<rparr>) parent revision,
       sp_request = n\<lparr>tq_budget := (if budget = None then tq_budget n else budget),
         tq_policy := (if policy = None then tq_policy n else policy)\<rparr>,
       sp_requirements = r,
       sp_permissions = \<lparr>ps_read = ps_read (pf_permissions p), ps_write = ps_write (pf_permissions p),
         ps_execute = ps_execute (pf_permissions p), ps_network = ps_network (pf_permissions p),
         tp_paths = tq_scope n\<rparr>\<rparr> = Inr s"
    by (auto simp: create_spec_def Let_def res_bind_eq_Inr split: if_splits option.splits sum.splits)
  obtain p' where "request_ok v p' n" and d: "parent_depth < tv_max_depth v"
    using normalize_request_ok [OF n] by blast
  moreover from this(1) have "p' = p" using p by (simp add: request_ok_def)
  ultimately have q: "request_ok v p n" by simp
  have f: "\<exists>f. rr_floor r = Some f \<and> round2 (pf_role_floor p) \<le> f \<and> f \<le> 85/100"
    using build_auto_floor [OF r] by (simp add: profile_requirements_def)
  from q have w: "tq_scope n \<noteq> [] \<longrightarrow> ps_write (pf_permissions p)" by (simp add: request_ok_def)
  from s have "spec_ok v p s" and "sp_depth s = parent_depth + 1" "sp_id s = new_id" "sp_parent s = parent"
    and "sp_fingerprint s = task_fingerprint sha (sp_request s) parent revision"
    and "contains (permission_set.truncate (sp_permissions s)) (pf_permissions p)"
    using q f w d by (auto simp: make_spec_def spec_ok_def res_bind_eq_Inr check_all_Inr contains_def
        permission_set.truncate_def split: if_splits option.splits)
  then show ?thesis by blast
qed

definition ex_profile :: agent_profile where
  "ex_profile = \<lparr>pf_name = ''implementer'', pf_role = ''implementer'', pf_tools = [''read_file'', ''write_file''],
     pf_permissions = \<lparr>ps_read = True, ps_write = True, ps_execute = True, ps_network = False\<rparr>,
     pf_schema = Some ''task_result'', pf_role_floor = 50/100\<rparr>"

definition ex_validator :: task_validator where
  "ex_validator = \<lparr>tv_profiles = [''implementer'' \<mapsto> ex_profile], tv_inside = (\<lambda>parts. hd parts \<noteq> ''link''),
     tv_max_depth = 1, tv_background = False, tv_max_chars = 20000\<rparr>"

definition ex_task_request :: task_request where
  "ex_task_request = \<lparr>tq_description = ''  fix  the parser '', tq_profile = '' implementer'', tq_criteria = [''tests pass''],
     tq_depends = [ex_uuid CHR ''d''], tq_scope = ['' ./src//lib/''], tq_policy = None, tq_budget = None,
     tq_background = False, tq_priority = 0, tq_artifacts = [''file:src/a.py'', ''artifact:log-1''],
     tq_revisions = [''rev1''], tq_lineage = None\<rparr>"

definition ex_spec :: "task_spec res" where
  "ex_spec = create_spec (\<lambda>_. ''h'') ex_validator (ex_uuid CHR ''a'') ex_task_request (ex_uuid CHR ''b'') None 0
     ''rev1'' ROUTINE None None"

theorem accepted_spec_contract_witness:
  "\<exists>s. ex_spec = Inr s \<and> sp_depth s = 1 \<and> tq_description (sp_request s) = ''fix the parser'' \<and>
     tq_scope (sp_request s) = [''src/lib''] \<and> (\<exists>p. spec_ok ex_validator p s)"
proof -
  have "(case ex_spec of Inl e \<Rightarrow> None | Inr s \<Rightarrow> Some (tq_description (sp_request s), tq_scope (sp_request s)))
     = Some (''fix the parser'', [''src/lib''])" by code_simp
  then obtain s where s: "ex_spec = Inr s" "tq_description (sp_request s) = ''fix the parser''"
    "tq_scope (sp_request s) = [''src/lib'']" by (auto split: sum.splits)
  from accepted_spec_contract [OF s(1) [unfolded ex_spec_def]]
  show ?thesis using s by (intro exI [of _ s]) auto
qed

end
