(* ===== verification/Task_Registry.thy ===== *)
theory Task_Registry
  imports Task_Validation Dependency_Graph Status_Machines Journal_Tables
begin

text \<open>
  \<open>TaskRegistry\<close> of \<open>src/src/skail/runtime/task_registry.py\<close>: the identities of the
  delegated tasks of a run, their dependency graph, the compare-and-set of their status and the
  count of failed attempts per fingerprint, which \<open>load_from_journal\<close> restores from the
  tables.  The dictionary of tasks is a list in insertion order; the re-entrant lock makes every
  method atomic and is left out.
\<close>

section \<open>State\<close>

record registered_task =
  rt_spec :: task_spec
  rt_status :: task_status

record task_registry =
  rg_tasks :: "registered_task list"
  rg_failed :: "string \<Rightarrow> int"
  rg_diagnostics :: "(string \<times> string) list"

abbreviation rt_id :: "registered_task \<Rightarrow> string" where
  "rt_id t \<equiv> sp_id (rt_spec t)"

definition new_registry :: task_registry where
  "new_registry = \<lparr>rg_tasks = [], rg_failed = (\<lambda>_. 0), rg_diagnostics = []\<rparr>"

definition registered :: "task_registry \<Rightarrow> string \<Rightarrow> registered_task option" where
  "registered r t = List.find (\<lambda>x. rt_id x = t) (rg_tasks r)"

definition get_task :: "task_registry \<Rightarrow> string \<Rightarrow> registered_task res" where
  "get_task r t = (case registered r t of
     None \<Rightarrow> Inl (TaskValidationError ''task.unknown'') | Some x \<Rightarrow> Inr x)"

definition dependencies_for :: "task_registry \<Rightarrow> string \<Rightarrow> string list res" where
  "dependencies_for r t = res_bind (get_task r t) (\<lambda>x. Inr (tq_depends (sp_request (rt_spec x))))"

section \<open>Registration\<close>

definition spec_of :: "task_spec list \<Rightarrow> string \<Rightarrow> task_spec option" where
  "spec_of specs t = List.find (\<lambda>s. sp_id s = t) specs"

definition spec_deps :: "task_spec list \<Rightarrow> string \<Rightarrow> string list" where
  "spec_deps specs t = (case spec_of specs t of None \<Rightarrow> [] | Some s \<Rightarrow> tq_depends (sp_request s))"

text \<open>\<open>_has_dependency_cycle\<close>: the depth-first visit from every identifier in order.\<close>

definition has_dependency_cycle :: "task_spec list \<Rightarrow> bool" where
  "has_dependency_cycle specs = has_cycle (spec_deps specs) (sort (map sp_id specs))"

definition unsuccessful :: "task_status \<Rightarrow> bool" where
  "unsuccessful s \<longleftrightarrow> s \<in> set TERMINAL_TASK_STATUSES - {SUCCEEDED}"

definition check_spec :: "task_registry \<Rightarrow> task_spec list \<Rightarrow> task_spec \<Rightarrow> unit res" where
  "check_spec r combined s =
     (let deps = tq_depends (sp_request s) in
      if sp_id s \<in> set deps then Inl (TaskValidationError ''task.dependency_self'')
      else if list_ex (\<lambda>d. d \<notin> set (map sp_id combined)) deps
        then Inl (TaskValidationError ''task.dependency_missing'')
      else if sp_parent s = None \<and> sp_depth s \<noteq> 1 then Inl (TaskValidationError ''task.depth_invalid'')
      else res_bind
        (case sp_parent s of
           None \<Rightarrow> Inr ()
         | Some p \<Rightarrow>
             (case spec_of combined p of
                None \<Rightarrow> Inl (TaskValidationError ''task.parent_missing'')
              | Some parent \<Rightarrow> raise_if (sp_depth s \<noteq> sp_depth parent + 1) (TaskValidationError ''task.depth_invalid'')))
        (\<lambda>_. raise_if (list_ex (\<lambda>d. case registered r d of None \<Rightarrow> False | Some t \<Rightarrow> unsuccessful (rt_status t)) deps)
               (TaskValidationError ''task.dependency_unsuccessful'')))"

definition propose :: "task_spec \<Rightarrow> registered_task" where
  "propose s = \<lparr>rt_spec = s, rt_status = PROPOSED\<rparr>"

definition register_many :: "task_registry \<Rightarrow> task_spec list \<Rightarrow> task_registry res" where
  "register_many r specs =
     (let ids = map sp_id specs; combined = map rt_spec (rg_tasks r) @ specs;
          fingerprints = map sp_fingerprint specs in
      if \<not> distinct ids \<or> list_ex (\<lambda>i. registered r i \<noteq> None) ids
        then Inl (TaskValidationError ''task.id_duplicate'')
      else if list_ex (\<lambda>s. 2 \<le> rg_failed r (sp_fingerprint s)) specs
        then Inl (TaskValidationError ''task.fingerprint_exhausted'')
      else res_bind (check_all (check_spec r combined) specs) (\<lambda>_.
        if has_dependency_cycle combined then Inl (TaskValidationError ''task.dependency_cycle'')
        else if \<not> distinct fingerprints \<or>
            set fingerprints \<inter> set (map (\<lambda>t. sp_fingerprint (rt_spec t)) (rg_tasks r)) \<noteq> {}
          then Inl (TaskValidationError ''task.fingerprint_duplicate'')
        else Inr (r\<lparr>rg_tasks := rg_tasks r @ map propose specs\<rparr>)))"

definition register :: "task_registry \<Rightarrow> task_spec \<Rightarrow> task_registry res" where
  "register r s = register_many r [s]"

section \<open>Status and failed attempts\<close>

definition set_task_status :: "string \<Rightarrow> task_status \<Rightarrow> registered_task \<Rightarrow> registered_task" where
  "set_task_status i s t = (if rt_id t = i then t\<lparr>rt_status := s\<rparr> else t)"

definition transition_registered ::
  "task_registry \<Rightarrow> string \<Rightarrow> task_status \<Rightarrow> task_status \<Rightarrow> int \<Rightarrow> task_registry res" where
  "transition_registered r i expected target attempt_number =
     res_bind (get_task r i) (\<lambda>current.
       if rt_status current \<noteq> expected then Inl (TaskValidationError ''task.state_conflict'')
       else if rt_status current = target \<and> rt_status current \<in> set TERMINAL_TASK_STATUSES
         then Inr (r\<lparr>rg_diagnostics := rg_diagnostics r @ [(''task.terminal_transition_duplicate'', i)]\<rparr>)
       else (case transition_task (rt_status current) target attempt_number of
               Inl e \<Rightarrow> Inl (TaskValidationError ''task.transition_invalid'')
             | Inr s \<Rightarrow> Inr (r\<lparr>rg_tasks := map (set_task_status i s) (rg_tasks r)\<rparr>)))"

definition record_failed_automatic_attempt :: "task_registry \<Rightarrow> string \<Rightarrow> (task_registry \<times> int) res" where
  "record_failed_automatic_attempt r i =
     res_bind (get_task r i) (\<lambda>t.
       if rt_status t \<notin> {FAILED, RETURNED_TO_LEAD}
         then Inl (TaskValidationError ''task.attempt_not_failed'')
       else let fp = sp_fingerprint (rt_spec t); count = rg_failed r fp in
         if 2 \<le> count then Inl (TaskValidationError ''task.fingerprint_exhausted'')
         else Inr (r\<lparr>rg_failed := (rg_failed r)(fp := count + 1)\<rparr>, count + 1))"

text \<open>
  The two queries of \<open>load_from_journal\<close>, for one fingerprint: the failed or interrupted
  attempts of the session's tasks, and whether a task of the session was returned to the lead.
\<close>

definition session_tasks :: "'a journal_db_scheme \<Rightarrow> string \<Rightarrow> string \<Rightarrow> task_row list" where
  "session_tasks db session fp =
     filter (\<lambda>t. ta_fingerprint t = fp \<and>
         list_ex (\<lambda>u. ru_id u = ta_run t \<and> ru_session u = session) (jd_runs db)) (jd_tasks db)"

definition failure_count :: "'a journal_db_scheme \<Rightarrow> string \<Rightarrow> string \<Rightarrow> nat" where
  "failure_count db session fp =
     length (remdups (map at_id (filter (\<lambda>a. at_status a \<in> {A_FAILED, A_INTERRUPTED} \<and>
         at_task a \<in> set (map ta_id (session_tasks db session fp))) (jd_attempts db))))"

definition returned_before :: "'a journal_db_scheme \<Rightarrow> string \<Rightarrow> string \<Rightarrow> bool" where
  "returned_before db session fp \<longleftrightarrow> list_ex (\<lambda>t. ta_status t = RETURNED_TO_LEAD) (session_tasks db session fp)"

definition load_from_journal :: "task_registry \<Rightarrow> 'a journal_db_scheme \<Rightarrow> string \<Rightarrow> task_registry" where
  "load_from_journal r db session =
     r\<lparr>rg_failed := (\<lambda>fp.
         let n = failure_count db session fp;
             c = (if n = 0 then rg_failed r fp else max (rg_failed r fp) (int n))
         in if returned_before db session fp then max c 2 else c)\<rparr>"

section \<open>Histories\<close>

datatype registry_op =
    Register_Many "task_spec list"
  | Transition string task_status task_status int
  | Record_Failed string
  | Load journal_db string

text \<open>A method that raises leaves the registry as it was.\<close>

definition kept_registry :: "task_registry \<Rightarrow> task_registry res \<Rightarrow> task_registry" where
  "kept_registry r x = (case x of Inl e \<Rightarrow> r | Inr r' \<Rightarrow> r')"

fun registry_apply :: "task_registry \<Rightarrow> registry_op \<Rightarrow> task_registry" where
  "registry_apply r (Register_Many specs) = kept_registry r (register_many r specs)"
| "registry_apply r (Transition i e t n) = kept_registry r (transition_registered r i e t n)"
| "registry_apply r (Record_Failed i) =
     kept_registry r (res_bind (record_failed_automatic_attempt r i) (\<lambda>(r', n). Inr r'))"
| "registry_apply r (Load db session) = load_from_journal r db session"

definition registry_run :: "task_registry \<Rightarrow> registry_op list \<Rightarrow> task_registry" where
  "registry_run r ops = fold (\<lambda>op r. registry_apply r op) ops r"

lemma registry_run_simps [simp]:
  "registry_run r [] = r" "registry_run r (op # ops) = registry_run (registry_apply r op) ops"
  "registry_run r (ops @ ops') = registry_run (registry_run r ops) ops'"
  by (simp_all add: registry_run_def)

section \<open>Invariant\<close>

definition specs_ok :: "task_spec list \<Rightarrow> bool" where
  "specs_ok specs \<longleftrightarrow>
     distinct (map sp_id specs) \<and> distinct (map sp_fingerprint specs) \<and>
     (\<forall>s \<in> set specs. set (tq_depends (sp_request s)) \<subseteq> set (map sp_id specs)) \<and>
     (\<forall>s \<in> set specs. case sp_parent s of
        None \<Rightarrow> sp_depth s = 1
      | Some p \<Rightarrow> \<exists>q \<in> set specs. sp_id q = p \<and> sp_depth s = sp_depth q + 1) \<and>
     acyclic (dep_rel (spec_deps specs) (set (map sp_id specs)))"

definition registry_ok :: "task_registry \<Rightarrow> bool" where
  "registry_ok r \<longleftrightarrow> specs_ok (map rt_spec (rg_tasks r))"

lemma find_key:
  "distinct (map f xs) \<Longrightarrow> x \<in> set xs \<Longrightarrow> List.find (\<lambda>y. f y = f x) xs = Some x"
  by (induction xs) (auto simp: image_iff)

lemma registered_in: "registered r i = Some t \<Longrightarrow> t \<in> set (rg_tasks r) \<and> rt_id t = i"
  by (auto simp: registered_def simp: find_Some_iff)

lemma registered_None: "registered r i = None \<longleftrightarrow> i \<notin> set (map rt_id (rg_tasks r))"
  by (auto simp: registered_def find_None_iff)

lemma check_spec_Inr:
  "check_spec r combined s = Inr u \<longleftrightarrow>
     sp_id s \<notin> set (tq_depends (sp_request s)) \<and>
     set (tq_depends (sp_request s)) \<subseteq> set (map sp_id combined) \<and>
     (case sp_parent s of None \<Rightarrow> sp_depth s = 1
      | Some p \<Rightarrow> \<exists>q. spec_of combined p = Some q \<and> sp_depth s = sp_depth q + 1) \<and>
     (\<forall>d \<in> set (tq_depends (sp_request s)). \<forall>t. registered r d = Some t \<longrightarrow> \<not> unsuccessful (rt_status t))"
  by (cases "sp_parent s"; cases "spec_of combined (the (sp_parent s))")
     (auto simp: check_spec_def Let_def list_ex_iff res_bind_eq_Inr split: option.splits)

lemma register_many_Inr:
  "register_many r specs = Inr r' \<longleftrightarrow>
     r' = r\<lparr>rg_tasks := rg_tasks r @ map propose specs\<rparr> \<and>
     distinct (map sp_id specs) \<and> set (map sp_id specs) \<inter> set (map rt_id (rg_tasks r)) = {} \<and>
     (\<forall>s \<in> set specs. rg_failed r (sp_fingerprint s) < 2) \<and>
     (\<forall>s \<in> set specs. is_ok (check_spec r (map rt_spec (rg_tasks r) @ specs) s)) \<and>
     \<not> has_dependency_cycle (map rt_spec (rg_tasks r) @ specs) \<and>
     distinct (map sp_fingerprint specs) \<and>
     set (map sp_fingerprint specs) \<inter> set (map (\<lambda>t. sp_fingerprint (rt_spec t)) (rg_tasks r)) = {}"
  unfolding register_many_def Let_def
  by (auto simp: res_bind_eq_Inr list_ex_iff registered_None not_le simp del: set_map split: if_splits)
     (use not_le in blast)

lemma spec_deps_in: "s \<in> set specs \<Longrightarrow> distinct (map sp_id specs) \<Longrightarrow> spec_deps specs (sp_id s) = tq_depends (sp_request s)"
  by (simp add: spec_deps_def spec_of_def find_key)

lemma spec_of_in: "spec_of specs i = Some s \<Longrightarrow> s \<in> set specs \<and> sp_id s = i"
  by (auto simp: spec_of_def find_Some_iff)

lemma register_ok:
  assumes ok: "registry_ok r" and reg: "register_many r specs = Inr r'"
  shows "registry_ok r'"
proof -
  let ?all = "map rt_spec (rg_tasks r) @ specs"
  note c = reg [unfolded register_many_Inr]
  note c3 = c [THEN conjunct2, THEN conjunct2, THEN conjunct2, THEN conjunct2]
  have reg1: "rg_tasks r' = rg_tasks r @ map propose specs" by (simp add: c [THEN conjunct1])
  note reg2 = c [THEN conjunct2, THEN conjunct1]
  note reg3 = c [THEN conjunct2, THEN conjunct2, THEN conjunct1]
  note checks = c3 [THEN conjunct1] and cyc = c3 [THEN conjunct2, THEN conjunct1]
  note reg4 = c3 [THEN conjunct2, THEN conjunct2, THEN conjunct1]
    and reg5 = c3 [THEN conjunct2, THEN conjunct2, THEN conjunct2]
  have old: "distinct (map rt_id (rg_tasks r))" "distinct (map (\<lambda>t. sp_fingerprint (rt_spec t)) (rg_tasks r))"
    using ok by (simp_all add: registry_ok_def specs_ok_def comp_def)
  have "map rt_spec (map propose specs) = specs"
    by (induction specs) (simp_all add: propose_def)
  then have r': "map rt_spec (rg_tasks r') = ?all" using reg1 by simp
  have ids: "distinct (map sp_id ?all)"
    using old(1) reg2 reg3 by (simp add: comp_def Int_commute)
  have fps: "distinct (map sp_fingerprint ?all)"
    using old(2) reg4 reg5 by (simp add: comp_def Int_commute)
  have new: "set (tq_depends (sp_request s)) \<subseteq> set (map sp_id ?all)"
    "case sp_parent s of None \<Rightarrow> sp_depth s = 1
      | Some p \<Rightarrow> \<exists>q \<in> set ?all. sp_id q = p \<and> sp_depth s = sp_depth q + 1" if "s \<in> set specs" for s
  proof -
    from that checks obtain u where u: "check_spec r ?all s = Inr u" by (auto simp only: is_ok_iff)
    show "set (tq_depends (sp_request s)) \<subseteq> set (map sp_id ?all)"
      using u unfolding check_spec_Inr by blast
    from u have "case sp_parent s of None \<Rightarrow> sp_depth s = 1
      | Some p \<Rightarrow> \<exists>q. spec_of ?all p = Some q \<and> sp_depth s = sp_depth q + 1"
      unfolding check_spec_Inr by blast
    then show "case sp_parent s of None \<Rightarrow> sp_depth s = 1
      | Some p \<Rightarrow> \<exists>q \<in> set ?all. sp_id q = p \<and> sp_depth s = sp_depth q + 1"
      by (cases "sp_parent s") (simp_all only: option.case, blast dest: spec_of_in)
  qed
  have was: "set (tq_depends (sp_request s)) \<subseteq> set (map sp_id ?all)"
    "case sp_parent s of None \<Rightarrow> sp_depth s = 1
      | Some p \<Rightarrow> \<exists>q \<in> set ?all. sp_id q = p \<and> sp_depth s = sp_depth q + 1" if "s \<in> rt_spec ` set (rg_tasks r)" for s
    using that ok by (cases "sp_parent s"; force simp: registry_ok_def specs_ok_def)+
  have closed: "set (tq_depends (sp_request s)) \<subseteq> set (map sp_id ?all)"
    and depth: "case sp_parent s of None \<Rightarrow> sp_depth s = 1
      | Some p \<Rightarrow> \<exists>q \<in> set ?all. sp_id q = p \<and> sp_depth s = sp_depth q + 1" if "s \<in> set ?all" for s
    using that new was unfolding set_append set_map by blast+
  have "acyclic (dep_rel (spec_deps ?all) (set (sort (map sp_id ?all))))"
  proof -
    have "set (spec_deps ?all n) \<subseteq> set (sort (map sp_id ?all))" if "n \<in> set (sort (map sp_id ?all))" for n
    proof -
      from that obtain s where "s \<in> set ?all" "n = sp_id s" by auto
      with closed [OF this(1)] spec_deps_in [OF this(1) ids] show ?thesis by simp
    qed
    from has_cycle_iff [OF this] cyc show ?thesis by (simp add: has_dependency_cycle_def)
  qed
  then show ?thesis
    using ids fps closed depth unfolding registry_ok_def r' specs_ok_def by simp
qed

lemma transition_registered_Inr:
  "transition_registered r i expected target n = Inr r' \<longleftrightarrow>
     (\<exists>t. registered r i = Some t \<and> rt_status t = expected \<and>
       (expected = target \<and> task_final expected \<and>
          r' = r\<lparr>rg_diagnostics := rg_diagnostics r @ [(''task.terminal_transition_duplicate'', i)]\<rparr> \<or>
        \<not> task_final expected \<and> transition_task expected target n = Inr target \<and>
          r' = r\<lparr>rg_tasks := map (set_task_status i target) (rg_tasks r)\<rparr>))"
proof (cases "registered r i")
  case None
  then show ?thesis by (simp add: transition_registered_def get_task_def)
next
  case (Some t)
  show ?thesis
  proof (cases "rt_status t = expected")
    case False
    with Some show ?thesis by (simp add: transition_registered_def get_task_def)
  next
    case True
    have u: "transition_task expected target n = Inr u \<Longrightarrow> u = target" for u
      by (simp add: transition_task_Inr)
    have f: "task_final expected \<Longrightarrow> expected \<noteq> target \<Longrightarrow> \<exists>e. transition_task expected target n = Inl e"
      using task_transitions_final [of expected] by (cases "transition_task expected target n") (auto simp: transition_task_Inr)
    have "transition_registered r i expected target n =
      (if expected = target \<and> task_final expected
         then Inr (r\<lparr>rg_diagnostics := rg_diagnostics r @ [(''task.terminal_transition_duplicate'', i)]\<rparr>)
       else (case transition_task expected target n of
               Inl e \<Rightarrow> Inl (TaskValidationError ''task.transition_invalid'')
             | Inr s \<Rightarrow> Inr (r\<lparr>rg_tasks := map (set_task_status i s) (rg_tasks r)\<rparr>)))"
      using Some True by (auto simp: transition_registered_def get_task_def task_final_def)
    then show ?thesis
      using Some True u f by (cases "transition_task expected target n") auto
  qed
qed

lemma set_task_status_spec [simp]: "rt_spec (set_task_status i s t) = rt_spec t"
  by (simp add: set_task_status_def)

lemma registry_apply_ok: "registry_ok r \<Longrightarrow> registry_ok (registry_apply r op)"
proof (cases op)
  case (Register_Many specs)
  then show "registry_ok r \<Longrightarrow> ?thesis"
    by (auto simp: kept_registry_def split: sum.splits dest: register_ok)
next
  case (Transition i e t n)
  then show "registry_ok r \<Longrightarrow> ?thesis"
    by (auto simp: kept_registry_def registry_ok_def transition_registered_Inr comp_def split: sum.splits)
next
  case (Record_Failed i)
  then show "registry_ok r \<Longrightarrow> ?thesis"
    by (auto simp: kept_registry_def registry_ok_def record_failed_automatic_attempt_def Let_def res_bind_eq_Inr
        split: sum.splits if_splits)
next
  case (Load db session)
  then show "registry_ok r \<Longrightarrow> ?thesis" by (simp add: load_from_journal_def registry_ok_def)
qed

lemma registry_run_ok: "registry_ok r \<Longrightarrow> registry_ok (registry_run r ops)"
  by (induction ops arbitrary: r) (auto intro: registry_apply_ok)

lemma new_registry_ok: "registry_ok new_registry"
  by (simp add: registry_ok_def specs_ok_def new_registry_def dep_rel_def acyclic_def)

text \<open>A registered task keeps its specification, and its status once that is terminal.\<close>

definition task_kept :: "registered_task \<Rightarrow> registered_task \<Rightarrow> bool" where
  "task_kept t t' \<longleftrightarrow> rt_spec t' = rt_spec t \<and> (task_final (rt_status t) \<longrightarrow> rt_status t' = rt_status t)"

lemma registered_append:
  "registered r i = Some t \<Longrightarrow> registered (r\<lparr>rg_tasks := rg_tasks r @ ts\<rparr>) i = Some t"
proof -
  have "List.find P xs = Some t \<Longrightarrow> List.find P (xs @ ts) = Some t" for P and xs :: "registered_task list"
    by (induction xs) auto
  then show "registered r i = Some t \<Longrightarrow> ?thesis" by (simp add: registered_def)
qed

lemma registered_map_status:
  "registered r i = Some t \<Longrightarrow>
     registered (r\<lparr>rg_tasks := map (set_task_status j s) (rg_tasks r)\<rparr>) i = Some (set_task_status j s t)"
proof -
  have "List.find (\<lambda>x. rt_id x = i) xs = Some t \<Longrightarrow>
      List.find (\<lambda>x. rt_id x = i) (map (set_task_status j s) xs) = Some (set_task_status j s t)" for xs
    by (induction xs) (auto simp: set_task_status_def split: if_splits)
  then show "registered r i = Some t \<Longrightarrow> ?thesis" by (simp add: registered_def)
qed

lemma task_kept_refl [simp]: "task_kept t t"
  by (simp add: task_kept_def)

lemma task_kept_trans: "task_kept t u \<Longrightarrow> task_kept u v \<Longrightarrow> task_kept t v"
  by (auto simp: task_kept_def)

lemma registered_same_tasks: "rg_tasks r' = rg_tasks r \<Longrightarrow> registered r' = registered r"
  by (rule ext) (simp add: registered_def)

lemma register_many_tasks: "register_many r specs = Inr r' \<Longrightarrow> r' = r\<lparr>rg_tasks := rg_tasks r @ map propose specs\<rparr>"
  unfolding register_many_Inr by (rule conjunct1)

lemma registry_apply_kept:
  assumes "registered r i = Some t"
  shows "\<exists>t'. registered (registry_apply r op) i = Some t' \<and> task_kept t t'"
proof (cases op)
  case (Register_Many specs)
  with assms show ?thesis
    by (cases "register_many r specs") (auto simp: kept_registry_def registered_append dest!: register_many_tasks)
next
  case (Transition j e u n)
  show ?thesis
  proof (cases "transition_registered r j e u n")
    case (Inl x)
    with assms Transition show ?thesis by (simp add: kept_registry_def)
  next
    case (Inr r')
    then obtain x where x: "registered r j = Some x" "rt_status x = e"
      and r': "r' = r\<lparr>rg_diagnostics := rg_diagnostics r @ [(''task.terminal_transition_duplicate'', j)]\<rparr> \<or>
        \<not> task_final e \<and> r' = r\<lparr>rg_tasks := map (set_task_status j u) (rg_tasks r)\<rparr>"
      unfolding transition_registered_Inr by blast
    have "\<exists>t'. registered r' i = Some t' \<and> task_kept t t'"
      using r'
    proof (elim disjE conjE)
      assume "r' = r\<lparr>rg_diagnostics := rg_diagnostics r @ [(''task.terminal_transition_duplicate'', j)]\<rparr>"
      then have "registered r' = registered r" by (intro registered_same_tasks) simp
      then show ?thesis using assms by simp
    next
      assume n: "\<not> task_final e" and r': "r' = r\<lparr>rg_tasks := map (set_task_status j u) (rg_tasks r)\<rparr>"
      have "task_kept t (set_task_status j u t)"
        using registered_in [OF assms] assms x n by (auto simp: task_kept_def set_task_status_def)
      then show ?thesis using registered_map_status [OF assms, of j u] r' by simp
    qed
    then show ?thesis using Inr Transition by (simp add: kept_registry_def)
  qed
next
  case (Record_Failed j)
  have "rg_tasks (registry_apply r op) = rg_tasks r"
    using Record_Failed
    by (auto simp: kept_registry_def record_failed_automatic_attempt_def Let_def res_bind_eq_Inr split: sum.splits if_splits)
  from registered_same_tasks [OF this] assms show ?thesis by simp
next
  case (Load db session)
  then have "registered (registry_apply r op) = registered r"
    by (intro registered_same_tasks) (simp add: load_from_journal_def)
  then show ?thesis using assms by simp
qed

lemma registry_run_kept:
  "registered r i = Some t \<Longrightarrow> \<exists>t'. registered (registry_run r ops) i = Some t' \<and> task_kept t t'"
proof (induction ops arbitrary: r t)
  case Nil
  then show ?case by simp
next
  case (Cons op ops)
  from registry_apply_kept [OF Cons.prems] obtain u where
    u: "registered (registry_apply r op) i = Some u" "task_kept t u" by blast
  from Cons.IH [OF u(1)] u(2) show ?case by (auto intro: task_kept_trans)
qed

lemma transition_keeps_failed: "transition_registered r i e t n = Inr r' \<Longrightarrow> rg_failed r' = rg_failed r"
  by (auto simp: transition_registered_Inr)

lemma registry_apply_failed_mono: "rg_failed r fp \<le> rg_failed (registry_apply r op) fp"
proof (cases op)
  case (Record_Failed i)
  then show ?thesis
    by (auto simp: kept_registry_def record_failed_automatic_attempt_def Let_def res_bind_eq_Inr split: sum.splits if_splits)
next
  case (Register_Many specs)
  then show ?thesis
    by (cases "register_many r specs") (auto simp: kept_registry_def dest!: register_many_tasks)
next
  case (Transition i e t n)
  then show ?thesis
    by (cases "transition_registered r i e t n") (auto simp: kept_registry_def dest!: transition_keeps_failed)
next
  case (Load db session)
  then show ?thesis by (auto simp: load_from_journal_def Let_def le_max_iff_disj)
qed

lemma registry_run_failed_mono: "rg_failed r fp \<le> rg_failed (registry_run r ops) fp"
  by (induction ops arbitrary: r) (auto intro: order_trans registry_apply_failed_mono)

lemma register_exhausted: "2 \<le> rg_failed r (sp_fingerprint s) \<Longrightarrow> s \<in> set specs \<Longrightarrow> \<not> is_ok (register_many r specs)"
  by (auto simp: register_many_def is_ok_iff list_ex_iff Let_def)

section \<open>Properties\<close>

text \<open>
  C24: in every history of registrations, transitions, recorded failures and reloads the registry
  keeps its contract: identifiers and fingerprints are unique, every dependency and parent is
  registered, depths count from the parent, and the dependencies are acyclic, so that every
  non-empty set of tasks has a member that waits for none of them.  No later operation removes a
  task, changes its specification or moves it out of a terminal status.
\<close>
theorem registry_integrity:
  "registry_ok (registry_run new_registry ops) \<and>
   (\<forall>S. S \<noteq> {} \<and> S \<subseteq> set (map rt_id (rg_tasks (registry_run new_registry ops))) \<longrightarrow>
      (\<exists>i \<in> S. set (spec_deps (map rt_spec (rg_tasks (registry_run new_registry ops))) i) \<inter> S = {})) \<and>
   (\<forall>i t. registered (registry_run new_registry ops) i = Some t \<longrightarrow>
      (\<exists>t'. registered (registry_run new_registry (ops @ ops')) i = Some t' \<and> task_kept t t'))"
proof (intro conjI allI impI; (elim conjE)?)
  let ?r = "registry_run new_registry ops"
  show ok: "registry_ok ?r" by (rule registry_run_ok [OF new_registry_ok])
  fix S assume S: "S \<noteq> {}" "S \<subseteq> set (map rt_id (rg_tasks ?r))"
  let ?specs = "map rt_spec (rg_tasks ?r)"
  have ids: "set (map sp_id ?specs) = set (map rt_id (rg_tasks ?r))" by (simp add: comp_def)
  have so: "specs_ok ?specs" using ok by (simp add: registry_ok_def)
  have "set (spec_deps ?specs n) \<subseteq> set (map sp_id ?specs)" if n: "n \<in> set (map sp_id ?specs)" for n
  proof -
    from n obtain s where s: "s \<in> set ?specs" "n = sp_id s" by auto
    have "distinct (map sp_id ?specs)" using so by (simp only: specs_ok_def)
    from spec_deps_in [OF s(1) this] s so show ?thesis unfolding specs_ok_def by metis
  qed
  note closed = this
  have "acyclic (dep_rel (spec_deps ?specs) (set (map sp_id ?specs)))" using so by (simp only: specs_ok_def)
  from acyclic_minimal [OF this finite_set closed] S
  show "\<exists>i \<in> S. set (spec_deps ?specs i) \<inter> S = {}" unfolding ids by blast
next
  fix i t assume "registered (registry_run new_registry ops) i = Some t"
  then show "\<exists>t'. registered (registry_run new_registry (ops @ ops')) i = Some t' \<and> task_kept t t'"
    by (simp add: registry_run_kept)
qed

definition ex_plain_spec :: "char \<Rightarrow> string list \<Rightarrow> task_spec" where
  "ex_plain_spec c deps =
     \<lparr>sp_id = [c], sp_run = ''r'', sp_parent = None, sp_depth = 1, sp_fingerprint = [c],
      sp_request = ex_task_request\<lparr>tq_depends := deps\<rparr>,
      sp_requirements = \<lparr>rr_role = ''tester'', rr_risk = ROUTINE, rr_mode = AUTO, rr_floor = Some (40/100),
        rr_hard_min = 0, rr_tools = True, rr_structured = False, rr_context = 0, rr_output = 0,
        rr_modalities = [''text''], rr_escalated = False, rr_failed_fit = None, rr_excluded = []\<rparr>,
      sp_permissions = \<lparr>ps_read = True, ps_write = True, ps_execute = False, ps_network = False, tp_paths = []\<rparr>\<rparr>"

text \<open>
  C25: a request whose fingerprint failed or was interrupted twice in the session, or was returned to
  the lead, is exhausted: once the registry has been loaded from the journal no registration that
  contains it is accepted, whatever happened in between.
\<close>
theorem exhausted_never_registered:
  assumes "2 \<le> failure_count db session (sp_fingerprint s) \<or> returned_before db session (sp_fingerprint s)"
    and "s \<in> set specs"
  shows "\<not> is_ok (register_many (registry_run (load_from_journal r db session) ops) specs)"
proof (rule register_exhausted [OF _ assms(2)])
  have "2 \<le> rg_failed (load_from_journal r db session) (sp_fingerprint s)"
    using assms(1) by (auto simp: load_from_journal_def Let_def)
  then show "2 \<le> rg_failed (registry_run (load_from_journal r db session) ops) (sp_fingerprint s)"
    using registry_run_failed_mono order_trans by blast
qed

definition ex_registry_ops :: "registry_op list" where
  "ex_registry_ops =
     [Register_Many [ex_plain_spec CHR ''b'' [''a''], ex_plain_spec CHR ''a'' []],
      Transition ''a'' PROPOSED QUEUED 1, Transition ''a'' QUEUED RUNNING 1,
      Transition ''a'' RUNNING SUCCEEDED 1]"

theorem registry_integrity_witness:
  "\<exists>t'. registered (registry_run new_registry (ex_registry_ops @ [Transition ''a'' SUCCEEDED QUEUED 1, Record_Failed ''b'']))
      ''a'' = Some t' \<and> rt_status t' = SUCCEEDED"
proof -
  have "map_option rt_status (registered (registry_run new_registry ex_registry_ops) ''a'') = Some SUCCEEDED"
    by code_simp
  then obtain t where t: "registered (registry_run new_registry ex_registry_ops) ''a'' = Some t" "rt_status t = SUCCEEDED"
    by blast
  from registry_integrity [of ex_registry_ops "[Transition ''a'' SUCCEEDED QUEUED 1, Record_Failed ''b'']"] t(1)
  obtain t' where t': "registered (registry_run new_registry (ex_registry_ops @ [Transition ''a'' SUCCEEDED QUEUED 1, Record_Failed ''b'']))
      ''a'' = Some t'" "task_kept t t'" by blast
  then show ?thesis using t(2) by (auto simp: task_kept_def)
qed

definition ex_failed_journal :: journal_db where
  "ex_failed_journal = ex_journal
     \<lparr>jd_runs := [\<lparr>ru_id = ''r'', ru_session = ''s'', ru_status = ''failed'', ru_key = ''k'', ru_budget = None\<rparr>],
      jd_tasks := [\<lparr>ta_id = ''t'', ta_run = ''r'', ta_description = ''d'', ta_status = FAILED,
        ta_fingerprint = ''a'', ta_key = ''k''\<rparr>],
      jd_attempts := [\<lparr>at_id = ''1'', at_task = ''t'', at_number = 1, at_status = A_FAILED, at_key = ''1''\<rparr>,
        \<lparr>at_id = ''2'', at_task = ''t'', at_number = 2, at_status = A_INTERRUPTED, at_key = ''2''\<rparr>]\<rparr>"

theorem exhausted_never_registered_witness:
  "\<not> is_ok (register_many (registry_run (load_from_journal new_registry ex_failed_journal ''s'')
      [Register_Many [ex_plain_spec CHR ''c'' []]]) [ex_plain_spec CHR ''a'' []])"
proof (rule exhausted_never_registered)
  have "failure_count ex_failed_journal ''s'' ''a'' = 2" by code_simp
  then show "2 \<le> failure_count ex_failed_journal ''s'' (sp_fingerprint (ex_plain_spec CHR ''a'' [])) \<or>
      returned_before ex_failed_journal ''s'' (sp_fingerprint (ex_plain_spec CHR ''a'' []))"
    by (simp add: ex_plain_spec_def)
qed simp

end
