(* ===== verification/Result_Evaluator.thy ===== *)
theory Result_Evaluator
  imports Task_Validation Status_Machines
begin

text \<open>
  What a child reports and when the runtime believes it: the result values of
  \<open>src/src/skail/domain/tasks.py\<close> and \<open>src/src/skail/agents/result_evaluator.py\<close>.

  Parameters: the JSON parser, the decoding of a payload by the validation library and the two
  validators of evidence, which look at the workspace.
\<close>

section \<open>Values\<close>

record artifact_ref =
  ar_kind :: string
  ar_path :: string
  ar_digest :: "string option"

record verification_result =
  vr_criterion :: string
  vr_passed :: bool
  vr_evidence :: "string option"
  vr_ref :: "artifact_ref option"

record attempt_summary =
  su_attempt :: string
  su_number :: int
  su_status :: attempt_status
  su_model :: string

datatype result_status =
    R_SUCCEEDED | R_FAILED | R_BLOCKED | R_CANCELLED | R_BUDGET_BLOCKED | R_RETURNED_TO_LEAD

datatype failure_category =
    F_PROVIDER_ERROR | F_MALFORMED_RESULT | F_RESULT_VALIDATION | F_ROUTING_INELIGIBLE
  | F_BUDGET_BLOCKED | F_TASK_FAILURE

record task_result =
  re_task :: string
  re_status :: result_status
  re_summary :: string
  re_artifacts :: "artifact_ref list"
  re_verification :: "verification_result list"
  re_attempts :: "attempt_summary list"
  re_failures :: "(string \<times> failure_category) list"
  re_changed :: "string list"
  re_follow_up :: "string option"
  re_authority :: "string option"
  re_category :: "failure_category option"
  re_path :: "string option"

text \<open>\<open>TaskResult(task_id, status, summary)\<close> with its defaults.\<close>

definition plain_result :: "string \<Rightarrow> result_status \<Rightarrow> string \<Rightarrow> task_result" where
  "plain_result task status summary =
     \<lparr>re_task = task, re_status = status, re_summary = summary, re_artifacts = [], re_verification = [],
      re_attempts = [], re_failures = [], re_changed = [], re_follow_up = None, re_authority = None,
      re_category = None, re_path = None\<rparr>"

section \<open>Source references\<close>

text \<open>
  The matches of \<open>[A-Za-z0-9_.\\/-]+:[1-9][0-9]*\<close>, left to right.  A colon is not a path
  character, so the path of a match is a maximal run of path characters.
\<close>

definition ref_char :: "char \<Rightarrow> bool" where
  "ref_char c \<longleftrightarrow> word_start c \<or> is_digit c \<or> c \<in> set ''./-'' \<or> c = CHR 0x5C"

lemma dropWhile_length:
  "dropWhile p xs = ys \<Longrightarrow> length ys \<le> length xs" "ys = dropWhile p xs \<Longrightarrow> length ys \<le> length xs"
  using length_dropWhile_le [of p xs] by auto

function source_refs :: "string \<Rightarrow> string list" where
  "source_refs [] = []"
| "source_refs (c # cs) =
     (if \<not> ref_char c then source_refs cs
      else (case dropWhile ref_char cs of
              d # e # rest \<Rightarrow>
                if d = CHR '':'' \<and> is_digit e \<and> e \<noteq> CHR ''0''
                  then (c # takeWhile ref_char cs @ d # e # takeWhile is_digit rest)
                       # source_refs (dropWhile is_digit rest)
                else source_refs (d # e # rest)
            | rest \<Rightarrow> source_refs rest))"
  by pat_completeness auto
termination
  by (relation "measure length")
     (auto simp: less_Suc_eq_le dest!: dropWhile_length intro: order_trans [OF length_dropWhile_le])

section \<open>Evaluation\<close>

definition failed_result :: "task_result \<Rightarrow> string \<Rightarrow> string \<Rightarrow> task_result" where
  "failed_result r follow_up path =
     r\<lparr>re_status := R_FAILED, re_follow_up := Some follow_up, re_category := Some F_RESULT_VALIDATION,
       re_path := Some path\<rparr>"

text \<open>\<open>{item.criterion: item for item in verification}\<close>: the last item of a criterion counts.\<close>

definition matched :: "verification_result list \<Rightarrow> string \<Rightarrow> verification_result option" where
  "matched vs c = List.find (\<lambda>v. vr_criterion v = c) (rev vs)"

definition blank :: "string option \<Rightarrow> bool" where
  "blank e \<longleftrightarrow> (case e of None \<Rightarrow> True | Some s \<Rightarrow> py_strip s = [])"

definition lacks_evidence :: "verification_result list \<Rightarrow> string \<Rightarrow> bool" where
  "lacks_evidence vs c \<longleftrightarrow>
     (case matched vs c of None \<Rightarrow> True | Some v \<Rightarrow> \<not> vr_passed v \<or> blank (vr_evidence v))"

fun first_index :: "('a \<Rightarrow> bool) \<Rightarrow> 'a list \<Rightarrow> (nat \<times> 'a) option" where
  "first_index p [] = None"
| "first_index p (x # xs) =
     (if p x then Some (0, x) else map_option (\<lambda>(i, y). (Suc i, y)) (first_index p xs))"

definition evidence_path :: "nat \<Rightarrow> string \<Rightarrow> string" where
  "evidence_path i suffix = ''$.verification.'' @ nat_text i @ ''.'' @ suffix"

definition references_of :: "task_result \<Rightarrow> string list" where
  "references_of r =
     concat (map (\<lambda>v. case vr_evidence v of None \<Rightarrow> [] | Some e \<Rightarrow> source_refs e) (re_verification r))"

definition evaluate_result ::
  "task_result \<Rightarrow> string list \<Rightarrow> string option \<Rightarrow> (artifact_ref \<Rightarrow> bool) option \<Rightarrow> bool \<Rightarrow>
     (string \<Rightarrow> bool) option \<Rightarrow> task_result" where
  "evaluate_result r required expected evidence_ok model_authored source_ok =
     (if expected \<noteq> None \<and> expected \<noteq> Some (re_task r)
        then failed_result r ''task result identity mismatch'' ''$.task_id''
      else if re_status r \<noteq> R_SUCCEEDED then r
      else if re_verification r = []
        then failed_result r ''evidence-bearing verification is required'' ''$.verification''
      else (case first_index (\<lambda>v. \<not> vr_passed v) (re_verification r) of
        Some (i, v) \<Rightarrow>
          failed_result r (''verification failed for: '' @ vr_criterion v) (evidence_path i ''passed'')
      | None \<Rightarrow>
      (case List.find (lacks_evidence (re_verification r)) required of
        Some c \<Rightarrow>
          failed_result r (''required verification missing or lacks evidence: '' @ c) ''$.verification''
      | None \<Rightarrow>
        if model_authored then
          (if py_strip (re_summary r) = [] \<or> 8000 < length (re_summary r)
             then failed_result r ''analysis report is empty or oversized'' ''$.summary''
           else if references_of r = [] \<or>
               (case source_ok of None \<Rightarrow> True | Some ok \<Rightarrow> \<not> list_all ok (references_of r))
             then failed_result r ''analysis requires valid concrete source references'' ''$.verification''
           else r\<lparr>re_authority := Some ''model-authored''\<rparr>)
        else (case evidence_ok of
            None \<Rightarrow> r
          | Some ok \<Rightarrow>
              (case first_index (\<lambda>v. case vr_ref v of None \<Rightarrow> True | Some a \<Rightarrow> \<not> ok a) (re_verification r) of
                 Some (i, v) \<Rightarrow>
                   failed_result r (''unsupported verification evidence: '' @ vr_criterion v)
                     (evidence_path i ''evidence_ref'')
               | None \<Rightarrow> r\<lparr>re_authority := Some ''runtime''\<rparr>)))))"

section \<open>Parsing a child's output\<close>

datatype loc_part = L_Index nat | L_Name string

definition TASK_RESULT_FIELDS :: "string list" where
  "TASK_RESULT_FIELDS =
     [''task_id'', ''status'', ''summary'', ''artifacts'', ''kind'', ''path'', ''digest'', ''verification'',
      ''criterion'', ''passed'', ''evidence'', ''evidence_ref'', ''attempts'', ''attempt_id'', ''number'',
      ''model'', ''changed_paths'', ''follow_up'', ''verification_authority'', ''failure_category'',
      ''validation_path'']"

fun location_text :: "loc_part list \<Rightarrow> string option" where
  "location_text [] = Some []"
| "location_text (L_Index n # ps) = map_option (\<lambda>t. CHR ''.'' # nat_text n @ t) (location_text ps)"
| "location_text (L_Name s # ps) =
     (if s \<in> set TASK_RESULT_FIELDS then map_option (\<lambda>t. CHR ''.'' # s @ t) (location_text ps) else None)"

text \<open>The location of the first validation error, if every part of it is known to be safe.\<close>

definition safe_validation_path :: "loc_part list option \<Rightarrow> string" where
  "safe_validation_path location =
     (case location of None \<Rightarrow> ''$'' | Some ps \<Rightarrow>
        (case location_text ps of None \<Rightarrow> ''$'' | Some t \<Rightarrow> CHR ''$'' # t))"

text \<open>What the validation library makes of a payload: a result, located errors, or another \<open>ValueError\<close>.\<close>

datatype child_decode = Valid task_result | Located "loc_part list option" | Bad_Value

definition invalid_result :: "string \<Rightarrow> failure_category \<Rightarrow> string \<Rightarrow> task_result" where
  "invalid_result task category path =
     (plain_result task R_FAILED ''child returned an invalid result'')
       \<lparr>re_follow_up := Some ''child must return a structured TaskResult'', re_category := Some category,
        re_path := Some path\<rparr>"

definition with_default_category :: "task_result \<Rightarrow> task_result" where
  "with_default_category r =
     (if re_category r = None \<and> re_status r = R_FAILED then r\<lparr>re_category := Some F_TASK_FAILURE\<rparr>
      else if re_category r = None \<and> re_status r = R_BUDGET_BLOCKED then r\<lparr>re_category := Some F_BUDGET_BLOCKED\<rparr>
      else r)"

definition parse_child_result ::
  "(string \<Rightarrow> json option) \<Rightarrow> (args \<Rightarrow> child_decode) \<Rightarrow> string \<Rightarrow> string \<Rightarrow> string list \<Rightarrow>
     (artifact_ref \<Rightarrow> bool) option \<Rightarrow> bool \<Rightarrow> (string \<Rightarrow> bool) option \<Rightarrow> task_result" where
  "parse_child_result loads decode output task required evidence_ok model_authored source_ok =
     (case loads output of
        None \<Rightarrow> invalid_result task F_MALFORMED_RESULT ''$''
      | Some (JObj payload) \<Rightarrow>
          if map_of payload ''task_id'' \<notin> {None, Some JNull, Some (JStr task)}
            then (plain_result task R_FAILED ''child returned a mismatched task identity'')
              \<lparr>re_follow_up := Some ''task result identity mismatch'', re_category := Some F_RESULT_VALIDATION,
               re_path := Some ''$.task_id''\<rparr>
          else (case decode (set_arg ''task_id'' (JStr task)
                  (del_arg ''validation_path'' (del_arg ''failure_category'' payload))) of
                  Located location \<Rightarrow>
                    invalid_result task F_RESULT_VALIDATION (safe_validation_path location)
                | Bad_Value \<Rightarrow> invalid_result task F_MALFORMED_RESULT ''$''
                | Valid r \<Rightarrow>
                    with_default_category
                      (evaluate_result r required (Some task) evidence_ok model_authored source_ok))
      | Some _ \<Rightarrow> invalid_result task F_MALFORMED_RESULT ''$'')"

section \<open>When a success is believed\<close>

definition supported :: "string list \<Rightarrow> task_result \<Rightarrow> bool" where
  "supported required r \<longleftrightarrow>
     re_verification r \<noteq> [] \<and> (\<forall>v \<in> set (re_verification r). vr_passed v) \<and>
     (\<forall>c \<in> set required. \<exists>v \<in> set (re_verification r). vr_criterion v = c \<and> \<not> blank (vr_evidence v))"

lemma first_index_None: "first_index p xs = None \<longleftrightarrow> (\<forall>x \<in> set xs. \<not> p x)"
  by (induction xs) auto

lemma failed_result_status [simp]: "re_status (failed_result r f p) = R_FAILED"
  by (simp add: failed_result_def)

lemma matched_in: "matched vs c = Some v \<Longrightarrow> v \<in> set vs \<and> vr_criterion v = c"
  by (auto simp: matched_def find_Some_iff in_set_conv_nth) (metis length_rev nth_mem rev_rev_ident set_rev in_set_conv_nth)

lemma not_lacks_evidence:
  "\<not> lacks_evidence vs c \<Longrightarrow> \<exists>v \<in> set vs. vr_criterion v = c \<and> vr_passed v \<and> \<not> blank (vr_evidence v)"
  by (auto simp: lacks_evidence_def split: option.splits dest: matched_in)

lemma evaluate_result_succeeded:
  assumes "re_status (evaluate_result r required expected evidence_ok model_authored source_ok) = R_SUCCEEDED"
  shows "re_status r = R_SUCCEEDED \<and> supported required r \<and> (expected = None \<or> expected = Some (re_task r)) \<and>
     (model_authored \<longrightarrow> references_of r \<noteq> [] \<and> (\<exists>ok. source_ok = Some ok \<and> list_all ok (references_of r))) \<and>
     (\<not> model_authored \<longrightarrow> (\<forall>ok. evidence_ok = Some ok \<longrightarrow>
        (\<forall>v \<in> set (re_verification r). \<exists>a. vr_ref v = Some a \<and> ok a)))"
proof -
  let ?e = "evaluate_result r required expected evidence_ok model_authored source_ok"
  have id: "expected = None \<or> expected = Some (re_task r)" and st: "re_status r = R_SUCCEEDED"
    and ne: "re_verification r \<noteq> []"
    using assms by (auto simp: evaluate_result_def split: if_splits)
  have passed: "first_index (\<lambda>v. \<not> vr_passed v) (re_verification r) = None"
    using assms id st ne by (auto simp: evaluate_result_def split: option.splits)
  have found: "List.find (lacks_evidence (re_verification r)) required = None"
    using assms id st ne passed by (auto simp: evaluate_result_def split: option.splits)
  have "supported required r"
    using ne passed found not_lacks_evidence unfolding supported_def first_index_None find_None_iff by blast
  moreover have "model_authored \<longrightarrow> references_of r \<noteq> [] \<and> (\<exists>ok. source_ok = Some ok \<and> list_all ok (references_of r))"
    using assms id st ne passed found by (auto simp: evaluate_result_def split: option.splits if_splits)
  moreover have "\<not> model_authored \<longrightarrow> (\<forall>ok. evidence_ok = Some ok \<longrightarrow>
        (\<forall>v \<in> set (re_verification r). \<exists>a. vr_ref v = Some a \<and> ok a))"
  proof (intro impI allI)
    fix ok assume "\<not> model_authored" "evidence_ok = Some ok"
    then have "first_index (\<lambda>v. case vr_ref v of None \<Rightarrow> True | Some a \<Rightarrow> \<not> ok a) (re_verification r) = None"
      using assms id st ne passed found by (auto simp: evaluate_result_def split: option.splits)
    then show "\<forall>v \<in> set (re_verification r). \<exists>a. vr_ref v = Some a \<and> ok a"
      by (auto simp: first_index_None split: option.splits)
  qed
  ultimately show ?thesis using id st by blast
qed

lemma evaluate_result_task [simp]:
  "re_task (evaluate_result r required expected evidence_ok model_authored source_ok) = re_task r"
  by (auto simp: evaluate_result_def failed_result_def split: option.splits prod.splits)

lemma evaluate_result_status:
  "re_status (evaluate_result r required expected evidence_ok model_authored source_ok) \<in> {re_status r, R_FAILED}"
  by (auto simp: evaluate_result_def failed_result_def split: option.splits prod.splits)

lemma evaluate_result_verification [simp]:
  "re_verification (evaluate_result r required expected evidence_ok model_authored source_ok) = re_verification r"
  by (auto simp: evaluate_result_def failed_result_def split: option.splits prod.splits)

lemma supported_evaluated:
  "re_status (evaluate_result r required expected evidence_ok model_authored source_ok) = R_SUCCEEDED \<Longrightarrow>
     supported required (evaluate_result r required expected evidence_ok model_authored source_ok)"
  using evaluate_result_succeeded by (fastforce simp: supported_def)

end
