(* ===== verification/Context_Packet.thy ===== *)
theory Context_Packet
  imports Prelude
begin

text \<open>
  The bounded context a child receives (\<open>src/src/skail/agents/context.py\<close>): three required
  components, then the references that still fit the token budget.  The redactor is a parameter;
  the revision of a packet is a hash and is left out.
\<close>

record context_component =
  cc_label :: string
  cc_revision :: string
  cc_content :: string
  cc_rationale :: string
  cc_tokens :: nat
  cc_disposition :: string
  cc_source :: string

record context_packet =
  cp_version :: int
  cp_task :: string
  cp_components :: "context_component list"
  cp_tokens :: nat
  cp_omissions :: "string list"

definition CONTEXT_PACKET_VERSION :: int where
  "CONTEXT_PACKET_VERSION = 1"

text \<open>\<open>_tokens\<close>: a token per four characters, rounded up.\<close>

definition tokens_of :: "string \<Rightarrow> nat" where
  "tokens_of s = (length s + 3) div 4"

definition scrub_component :: "(string \<Rightarrow> string) \<Rightarrow> context_component \<Rightarrow> context_component" where
  "scrub_component scrub c = (let content = scrub (cc_content c) in c\<lparr>cc_content := content, cc_tokens := tokens_of content\<rparr>)"

definition required_component :: "string \<Rightarrow> string \<Rightarrow> string \<Rightarrow> context_component" where
  "required_component label content rationale =
     \<lparr>cc_label = label, cc_revision = ''current'', cc_content = content, cc_rationale = rationale,
      cc_tokens = tokens_of content, cc_disposition = ''selected'', cc_source = []\<rparr>"

fun join_lines :: "string list \<Rightarrow> string" where
  "join_lines [] = []"
| "join_lines [p] = p"
| "join_lines (p # q # ps) = p @ CHR 0x0A # join_lines (q # ps)"

definition used_tokens :: "context_component list \<Rightarrow> nat" where
  "used_tokens cs = sum_list (map cc_tokens cs)"

fun select_references ::
  "(string \<Rightarrow> string) \<Rightarrow> nat \<Rightarrow> (string \<times> string) list \<Rightarrow> context_component list \<Rightarrow> context_component list \<Rightarrow>
     string list \<Rightarrow> context_component list \<times> string list" where
  "select_references scrub limit seen [] selected omitted = (selected, omitted)"
| "select_references scrub limit seen (raw # raws) selected omitted =
     (if (cc_label raw, cc_revision raw) \<in> set seen
        then select_references scrub limit seen raws selected omitted
      else
        (let c = scrub_component scrub raw; seen' = (cc_label raw, cc_revision raw) # seen in
         if used_tokens selected + cc_tokens c \<le> limit
           then select_references scrub limit seen' raws (selected @ [c]) omitted
         else select_references scrub limit seen' raws selected (omitted @ [cc_label c @ '':token_budget''])))"

definition assemble ::
  "(string \<Rightarrow> string) \<Rightarrow> nat \<Rightarrow> context_component list \<Rightarrow> string \<Rightarrow> string \<Rightarrow> string list \<Rightarrow> string \<Rightarrow>
     context_component list \<Rightarrow> context_packet" where
  "assemble scrub limit base_references task objective constraints state references =
     (let required = map (scrub_component scrub)
            [required_component ''objective'' objective ''current work'',
             required_component ''constraints'' (join_lines constraints) ''explicit user constraints'',
             required_component ''task-state'' state ''required persisted state''];
          (selected, omitted) = select_references scrub limit [] (base_references @ references) required []
      in \<lparr>cp_version = CONTEXT_PACKET_VERSION, cp_task = task, cp_components = selected,
          cp_tokens = used_tokens selected, cp_omissions = omitted\<rparr>)"

text \<open>
  The required components are always kept, references never push a packet over the limit, and every
  content is scrubbed and counted after scrubbing.
\<close>

lemma select_references_bound:
  "select_references scrub limit seen raws selected omitted = (selected', omitted') \<Longrightarrow>
     (\<exists>added. selected' = selected @ added \<and> set added \<subseteq> scrub_component scrub ` set raws) \<and>
     used_tokens selected' \<le> max limit (used_tokens selected)"
proof (induction scrub limit seen raws selected omitted rule: select_references.induct)
  case (1 scrub limit seen selected omitted)
  then show ?case by simp
next
  case (2 scrub limit seen raw raws selected omitted)
  let ?c = "scrub_component scrub raw" and ?seen = "(cc_label raw, cc_revision raw) # seen"
  consider (dup) "(cc_label raw, cc_revision raw) \<in> set seen"
    | (fits) "(cc_label raw, cc_revision raw) \<notin> set seen" "used_tokens selected + cc_tokens ?c \<le> limit"
    | (omitted) "(cc_label raw, cc_revision raw) \<notin> set seen" "\<not> used_tokens selected + cc_tokens ?c \<le> limit"
    by blast
  then show ?case
  proof cases
    case dup
    with 2 show ?thesis by auto
  next
    case fits
    with 2 have i: "(\<exists>added. selected' = (selected @ [?c]) @ added \<and> set added \<subseteq> scrub_component scrub ` set raws) \<and>
        used_tokens selected' \<le> max limit (used_tokens (selected @ [?c]))"
      by (simp add: Let_def)
    then obtain added where "selected' = selected @ (?c # added)" "set added \<subseteq> scrub_component scrub ` set raws" by auto
    moreover have "used_tokens selected' \<le> max limit (used_tokens selected)"
      using i fits(2) by (simp add: used_tokens_def)
    ultimately show ?thesis by (intro conjI exI [of _ "?c # added"]) auto
  next
    case omitted
    with 2 have "(\<exists>added. selected' = selected @ added \<and> set added \<subseteq> scrub_component scrub ` set raws) \<and>
        used_tokens selected' \<le> max limit (used_tokens selected)"
      by (simp add: Let_def)
    then show ?thesis by auto
  qed
qed

lemma assemble_bounded:
  "cp_tokens (assemble scrub limit base task objective constraints state references) \<le>
     max limit (tokens_of (scrub objective) + tokens_of (scrub (join_lines constraints)) + tokens_of (scrub state))"
proof -
  let ?r = "map (scrub_component scrub)
            [required_component ''objective'' objective ''current work'',
             required_component ''constraints'' (join_lines constraints) ''explicit user constraints'',
             required_component ''task-state'' state ''required persisted state'']"
  obtain sel om where s: "select_references scrub limit [] (base @ references) ?r [] = (sel, om)" by fastforce
  have "used_tokens ?r = tokens_of (scrub objective) + tokens_of (scrub (join_lines constraints)) + tokens_of (scrub state)"
    by (simp add: used_tokens_def scrub_component_def required_component_def Let_def)
  with select_references_bound [OF s] s show ?thesis by (simp add: assemble_def)
qed

end
