(* ===== verification/Task_Lifecycle.thy ===== *)
theory Task_Lifecycle
  imports Task_Registry Result_Evaluator Context_Packet
begin

text \<open>
  The lifecycle of one delegated task (\<open>build_task_graph\<close> in
  \<open>src/src/skail/agents/task_graph.py\<close>): the graph of the nodes \<open>validate_task\<close>,
  \<open>assign_attempt\<close>, \<open>run_attempt\<close>, \<open>evaluate_attempt\<close> and \<open>return_result\<close> with the
  conditional edges after assignment and evaluation, on the task registry.

  The environment gives the routing decision of an attempt (theory \<open>Assignment\<close> models the one
  the program uses), the outcome of running it, the redactor and \<open>repr\<close> of a hand-off.  The
  waits for the lease and the scheduler are theories \<open>Leases\<close> and \<open>Scheduler\<close>.  Callbacks
  (context, settlement, results, events) are recorded as effects in order.
\<close>

section \<open>State and environment\<close>

datatype attempt_binding = Bound string task_assignment | No_Route route_failure

datatype attempt_outcome = Returned task_result | Raised bool

record lifecycle_env =
  le_assign :: "int \<Rightarrow> (string \<times> string) list \<Rightarrow> attempt_binding"
  le_execute :: "int \<Rightarrow> task_assignment \<Rightarrow> context_packet \<Rightarrow> attempt_outcome"
  le_scrub :: "string \<Rightarrow> string"
  le_repr :: "failure_handoff \<Rightarrow> string"

datatype lifecycle_effect =
    Context_Persisted context_packet
  | Executed int task_assignment
  | Settled string task_result
  | Result_Persisted task_result
  | Fingerprint_Exhausted string
  | Task_Event string "string option" "string option"

record lifecycle_state =
  lc_spec :: task_spec
  lc_number :: int
  lc_excluded :: "(string \<times> string) list"
  lc_assignment :: "task_assignment option"
  lc_attempt :: "string option"
  lc_attempts :: "attempt_summary list"
  lc_failures :: "(string \<times> failure_category) list"
  lc_packet :: "context_packet option"
  lc_previous :: "task_result option"
  lc_result :: "task_result option"
  lc_registry :: task_registry
  lc_effects :: "lifecycle_effect list"

definition lifecycle_start :: "task_spec \<Rightarrow> task_registry \<Rightarrow> lifecycle_state" where
  "lifecycle_start spec registry =
     \<lparr>lc_spec = spec, lc_number = 0, lc_excluded = [], lc_assignment = None, lc_attempt = None,
      lc_attempts = [], lc_failures = [], lc_packet = None, lc_previous = None, lc_result = None,
      lc_registry = registry, lc_effects = []\<rparr>"

fun status_name :: "result_status \<Rightarrow> string" where
  "status_name R_SUCCEEDED = ''succeeded''"
| "status_name R_FAILED = ''failed''"
| "status_name R_BLOCKED = ''blocked''"
| "status_name R_CANCELLED = ''cancelled''"
| "status_name R_BUDGET_BLOCKED = ''budget_blocked''"
| "status_name R_RETURNED_TO_LEAD = ''returned_to_lead''"

fun category_name :: "failure_category \<Rightarrow> string" where
  "category_name F_PROVIDER_ERROR = ''provider_error''"
| "category_name F_MALFORMED_RESULT = ''malformed_result''"
| "category_name F_RESULT_VALIDATION = ''result_validation''"
| "category_name F_ROUTING_INELIGIBLE = ''routing_ineligible''"
| "category_name F_BUDGET_BLOCKED = ''budget_blocked''"
| "category_name F_TASK_FAILURE = ''task_failure''"

definition emit_effects :: "lifecycle_effect list \<Rightarrow> lifecycle_state \<Rightarrow> lifecycle_state" where
  "emit_effects es st = st\<lparr>lc_effects := lc_effects st @ es\<rparr>"

section \<open>Nodes\<close>

definition validate_node :: "lifecycle_state \<Rightarrow> lifecycle_state" where
  "validate_node st = st\<lparr>lc_number := 1, lc_excluded := [], lc_attempts := [], lc_result := None\<rparr>"

text \<open>An attempt that cannot be routed ends the task as blocked.\<close>

definition route_blocked :: "task_spec \<Rightarrow> route_failure \<Rightarrow> task_result" where
  "route_blocked spec f =
     (if rf_binding f = Some ''budget_unaffordable''
        then (plain_result (sp_id spec) R_BUDGET_BLOCKED ''budget_unaffordable'')\<lparr>re_category := Some F_BUDGET_BLOCKED\<rparr>
      else (plain_result (sp_id spec) R_BLOCKED
              (case rf_binding f of None \<Rightarrow> ''no eligible route'' | Some b \<Rightarrow> if b = [] then ''no eligible route'' else b))
            \<lparr>re_category := Some F_ROUTING_INELIGIBLE\<rparr>)"

definition not_routed :: "lifecycle_state \<Rightarrow> route_failure \<Rightarrow> lifecycle_state res" where
  "not_routed st f =
     (let spec = lc_spec st; r0 = route_blocked spec f;
          r = r0\<lparr>re_attempts := lc_attempts st, re_failures := lc_failures st\<rparr>
      in res_bind (transition_registered (lc_registry st) (sp_id spec) QUEUED BLOCKED (lc_number st)) (\<lambda>g.
         Inr (emit_effects [Task_Event (status_name (re_status r0)) None (Some (re_summary r0)), Result_Persisted r]
           (st\<lparr>lc_registry := g, lc_result := Some r\<rparr>))))"

text \<open>The check that a second assignment raised the capability floor.\<close>

definition escalation_rejected :: "rat option \<Rightarrow> rat option \<Rightarrow> bool" where
  "escalation_rejected previous new =
     (case (escalation_floor previous, new) of (Some required, Some f) \<Rightarrow> f < required | _ \<Rightarrow> False)"

definition handoff_of :: "task_result \<Rightarrow> failure_handoff" where
  "handoff_of r = bounded_handoff (re_summary r)
     (map (\<lambda>v. case vr_evidence v of Some e \<Rightarrow> if e = [] then vr_criterion v else e | None \<Rightarrow> vr_criterion v) (re_verification r))
     (re_changed r)
     (map (\<lambda>v. vr_criterion v @ (if vr_passed v then ''=True'' else ''=False'')) (re_verification r))
     8 (map_option category_name (re_category r)) (re_path r)"

definition reference_component :: "string \<Rightarrow> string \<Rightarrow> string \<Rightarrow> string \<Rightarrow> nat \<Rightarrow> string \<Rightarrow> context_component" where
  "reference_component label version content rationale tokens disposition =
     \<lparr>cc_label = label, cc_revision = version, cc_content = content, cc_rationale = rationale,
      cc_tokens = tokens, cc_disposition = disposition, cc_source = []\<rparr>"

definition attempt_references :: "lifecycle_env \<Rightarrow> lifecycle_state \<Rightarrow> context_component list" where
  "attempt_references env st =
     (let q = sp_request (lc_spec st); quarter = (\<lambda>s. max 1 (length s div 4)) in
      (case (lc_previous st, lc_result st) of
         (Some r, _) \<Rightarrow> [reference_component ''failure-handoff'' (''attempt-'' @ nat_text (nat (lc_number st - 1)))
             (le_repr env (handoff_of r)) ''evidence from the failed prior attempt''
             (quarter (le_repr env (handoff_of r))) ''selected'']
       | (None, Some r) \<Rightarrow> [reference_component ''failure-handoff'' (''attempt-'' @ nat_text (nat (lc_number st - 1)))
             (le_repr env (handoff_of r)) ''evidence from the failed prior attempt''
             (quarter (le_repr env (handoff_of r))) ''selected'']
       | _ \<Rightarrow> []) @
      (if tq_artifacts q = [] then []
       else [reference_component ''prerequisite-artifacts'' ''declared'' (join_lines (tq_artifacts q))
               ''bounded prerequisite artifact references'' (quarter (join_lines (tq_artifacts q))) ''reference'',
             reference_component ''authorized-retrieval'' ''runtime-policy''
               ''Retrieve listed references only through enabled Skail tools; runtime policy rechecks access.''
               ''progressive retrieval boundary'' 24 ''reference'']) @
      (if tq_revisions q = [] then []
       else [reference_component ''source-revisions'' ''declared'' (join_lines (tq_revisions q))
               ''source revisions for this task packet'' (quarter (join_lines (tq_revisions q))) ''reference'']))"

definition attempt_packet :: "lifecycle_env \<Rightarrow> lifecycle_state \<Rightarrow> task_assignment \<Rightarrow> context_packet" where
  "attempt_packet env st a =
     assemble (le_scrub env) 2000 [] (sp_id (lc_spec st)) (tq_description (sp_request (lc_spec st)))
       (tq_criteria (sp_request (lc_spec st)))
       (''attempt='' @ nat_text (nat (lc_number st)) @ ''; assignment='' @ tk_id a)
       (attempt_references env st)"

definition assign_attempt :: "lifecycle_env \<Rightarrow> lifecycle_state \<Rightarrow> lifecycle_state res" where
  "assign_attempt env st =
     (case le_assign env (lc_number st) (lc_excluded st) of
        No_Route f \<Rightarrow> not_routed st f
      | Bound attempt a \<Rightarrow>
          if tk_task a \<noteq> sp_id (lc_spec st) \<or> tk_number a \<noteq> lc_number st
            then Inl (ValueError ''assignment does not match task attempt'')
          else if lc_number st = 2 \<and>
             (case lc_assignment st of None \<Rightarrow> False | Some p \<Rightarrow> escalation_rejected (tk_floor p) (tk_floor a))
            then Inl (ValueError ''escalated assignment did not raise the capability floor'')
          else
            (let packet = attempt_packet env st a in
             Inr (emit_effects [Context_Persisted packet]
               (st\<lparr>lc_assignment := Some a, lc_attempt := Some attempt, lc_packet := Some packet,
                   lc_result := None\<rparr>))))"

text \<open>An exception of the execution is a failed result.\<close>

definition execution_failed :: "string \<Rightarrow> bool \<Rightarrow> task_result" where
  "execution_failed task provider_error =
     (plain_result task R_FAILED ''attempt execution failed'')
       \<lparr>re_category := Some (if provider_error then F_PROVIDER_ERROR else F_TASK_FAILURE)\<rparr>"

definition attempt_result :: "lifecycle_env \<Rightarrow> lifecycle_state \<Rightarrow> task_assignment \<Rightarrow> context_packet \<Rightarrow> task_result" where
  "attempt_result env st a packet =
     (case le_execute env (lc_number st) a packet of
        Returned raw \<Rightarrow> evaluate_result raw (tq_criteria (sp_request (lc_spec st))) None None False None
      | Raised provider_error \<Rightarrow> execution_failed (sp_id (lc_spec st)) provider_error)"

definition run_attempt :: "lifecycle_env \<Rightarrow> lifecycle_state \<Rightarrow> lifecycle_state res" where
  "run_attempt env st =
     (case (lc_assignment st, lc_packet st) of
        (Some a, Some packet) \<Rightarrow>
          res_bind (transition_registered (lc_registry st) (sp_id (lc_spec st)) QUEUED RUNNING (lc_number st)) (\<lambda>g.
          (let r = attempt_result env st a packet in
           if re_task r \<noteq> sp_id (lc_spec st) then Inl (ValueError ''task result identity mismatch'')
           else Inr (emit_effects [Task_Event ''started'' (lc_attempt st) None, Executed (lc_number st) a]
             (st\<lparr>lc_registry := g, lc_result := Some r\<rparr>))))
      | _ \<Rightarrow> Inl (KeyError ''assignment''))"

fun attempt_status_of :: "result_status \<Rightarrow> attempt_status" where
  "attempt_status_of R_SUCCEEDED = A_SUCCEEDED"
| "attempt_status_of R_FAILED = A_FAILED"
| "attempt_status_of R_CANCELLED = A_CANCELLED"
| "attempt_status_of R_BLOCKED = A_BLOCKED"
| "attempt_status_of R_BUDGET_BLOCKED = A_BLOCKED"
| "attempt_status_of R_RETURNED_TO_LEAD = A_FAILED"

fun task_target :: "int \<Rightarrow> result_status \<Rightarrow> task_status" where
  "task_target n R_SUCCEEDED = SUCCEEDED"
| "task_target n R_FAILED = (if n = 2 then RETURNED_TO_LEAD else FAILED)"
| "task_target n R_CANCELLED = CANCELLED"
| "task_target n R_BLOCKED = BLOCKED"
| "task_target n R_BUDGET_BLOCKED = BUDGET_BLOCKED"
| "task_target n R_RETURNED_TO_LEAD = RETURNED_TO_LEAD"

text \<open>The evaluated result of an attempt, with the summaries of all attempts so far.\<close>

definition attempt_summary_of :: "lifecycle_state \<Rightarrow> string \<Rightarrow> task_assignment \<Rightarrow> task_result \<Rightarrow> attempt_summary" where
  "attempt_summary_of st attempt a r =
     \<lparr>su_attempt = attempt, su_number = lc_number st, su_status = attempt_status_of (re_status r), su_model = tk_model a\<rparr>"

definition summarized :: "lifecycle_state \<Rightarrow> string \<Rightarrow> task_assignment \<Rightarrow> task_result \<Rightarrow> task_result" where
  "summarized st attempt a r0 =
     (let r = with_default_category r0 in
      r\<lparr>re_attempts := lc_attempts st @ [attempt_summary_of st attempt a r],
        re_failures := lc_failures st @
          (case re_category r of
             Some c \<Rightarrow> if re_status r \<noteq> R_SUCCEEDED then [(attempt, c)] else []
           | None \<Rightarrow> [])\<rparr>)"

definition final_result :: "task_result \<Rightarrow> task_result" where
  "final_result r = (if re_status r = R_FAILED then r\<lparr>re_status := R_RETURNED_TO_LEAD\<rparr> else r)"

definition evaluate_node :: "lifecycle_state \<Rightarrow> lifecycle_state res" where
  "evaluate_node st =
     (case (lc_result st, lc_assignment st, lc_attempt st) of
        (Some r0, Some a, Some attempt) \<Rightarrow>
          (let spec = lc_spec st; number = lc_number st; r = summarized st attempt a r0;
               event = (if re_status r = R_FAILED \<and> number = 2 then ''returned_to_lead'' else status_name (re_status r)) in
           res_bind (transition_registered (lc_registry st) (sp_id spec) RUNNING (task_target number (re_status r)) number) (\<lambda>g.
             (let st1 = emit_effects [Settled attempt r, Task_Event event (Some attempt) (Some (re_summary r))]
                    (st\<lparr>lc_registry := g\<rparr>) in
              if re_status r \<noteq> R_FAILED \<or> number = 2 then
                (let f = final_result r in
                 Inr (emit_effects (Result_Persisted f #
                     (if re_status f = R_RETURNED_TO_LEAD then [Fingerprint_Exhausted (sp_fingerprint spec)] else []))
                   (st1\<lparr>lc_result := Some f, lc_attempts := re_attempts r\<rparr>)))
              else
                res_bind (transition_registered g (sp_id spec) FAILED QUEUED 1) (\<lambda>g2.
                  Inr (st1\<lparr>lc_registry := g2, lc_number := 2, lc_excluded := [(tk_provider a, tk_model a)],
                       lc_attempts := re_attempts r, lc_failures := re_failures r,
                       lc_previous := Some r, lc_result := None\<rparr>)))))
      | _ \<Rightarrow> Inl (AssertionError ''result''))"

section \<open>The graph\<close>

datatype graph_node = G_VALIDATE | G_ASSIGN | G_RUN | G_EVALUATE | G_RETURN

definition after_assign :: "lifecycle_state \<Rightarrow> graph_node" where
  "after_assign st = (if lc_result st \<noteq> None then G_RETURN else G_RUN)"

definition after_evaluate :: "lifecycle_state \<Rightarrow> graph_node" where
  "after_evaluate st = (if lc_result st = None then G_ASSIGN else G_RETURN)"

fun graph_step :: "lifecycle_env \<Rightarrow> graph_node \<Rightarrow> lifecycle_state \<Rightarrow> (graph_node \<times> lifecycle_state) res" where
  "graph_step env G_VALIDATE st = Inr (G_ASSIGN, validate_node st)"
| "graph_step env G_ASSIGN st = res_bind (assign_attempt env st) (\<lambda>s. Inr (after_assign s, s))"
| "graph_step env G_RUN st = res_bind (run_attempt env st) (\<lambda>s. Inr (G_EVALUATE, s))"
| "graph_step env G_EVALUATE st = res_bind (evaluate_node st) (\<lambda>s. Inr (after_evaluate s, s))"
| "graph_step env G_RETURN st = Inr (G_RETURN, st)"

text \<open>The engine runs nodes up to its recursion limit, the fuel.\<close>

fun run_graph :: "lifecycle_env \<Rightarrow> nat \<Rightarrow> graph_node \<Rightarrow> lifecycle_state \<Rightarrow> lifecycle_state res" where
  "run_graph env fuel G_RETURN st = Inr st"
| "run_graph env 0 node st = Inl (RuntimeError ''recursion limit'')"
| "run_graph env (Suc n) node st = res_bind (graph_step env node st) (\<lambda>(node', st'). run_graph env n node' st')"

section \<open>Phases of a run\<close>

text \<open>The registered status of the task of a state.\<close>

definition task_at :: "lifecycle_state \<Rightarrow> task_status \<Rightarrow> bool" where
  "task_at st s \<longleftrightarrow> (\<exists>t. registered (lc_registry st) (sp_id (lc_spec st)) = Some t \<and> rt_status t = s)"

lemma transition_move:
  assumes "registered r i = Some t" "rt_status t = e" "\<not> task_final e" "transition_task e u n = Inr u"
  shows "\<exists>r' t'. transition_registered r i e u n = Inr r' \<and> registered r' i = Some t' \<and> rt_status t' = u"
proof -
  let ?r = "r\<lparr>rg_tasks := map (set_task_status i u) (rg_tasks r)\<rparr>"
  have "transition_registered r i e u n = Inr ?r"
    unfolding transition_registered_Inr using assms by blast
  moreover have "registered ?r i = Some (set_task_status i u t)" by (rule registered_map_status [OF assms(1)])
  ultimately show ?thesis using registered_in [OF assms(1)] by (auto simp: set_task_status_def)
qed

text \<open>
  What the lifecycle relies on to end without an exception: assignments are for the task and attempt
  asked for, the second one raises the capability floor of the first, and results carry the task's
  identifier.
\<close>

definition first_of :: "lifecycle_env \<Rightarrow> task_assignment \<Rightarrow> bool" where
  "first_of env a \<longleftrightarrow> (\<exists>i. le_assign env 1 [] = Bound i a)"

definition env_ok :: "lifecycle_env \<Rightarrow> task_spec \<Rightarrow> bool" where
  "env_ok env spec \<longleftrightarrow>
     (\<forall>k ex i a. k \<in> {1, 2} \<and> le_assign env k ex = Bound i a \<longrightarrow> tk_task a = sp_id spec \<and> tk_number a = k) \<and>
     (\<forall>p i a. first_of env p \<and> le_assign env 2 [(tk_provider p, tk_model p)] = Bound i a \<longrightarrow>
        \<not> escalation_rejected (tk_floor p) (tk_floor a)) \<and>
     (\<forall>k a packet r. le_execute env k a packet = Returned r \<longrightarrow> re_task r = sp_id spec)"

definition executions :: "lifecycle_effect list \<Rightarrow> nat" where
  "executions es = length (filter (\<lambda>e. case e of Executed k a \<Rightarrow> True | _ \<Rightarrow> False) es)"

lemma executions_append [simp]: "executions (es @ es') = executions es + executions es'"
  by (simp add: executions_def)

lemma executions_simps [simp]:
  "executions [] = 0" "executions (Executed k a # es) = Suc (executions es)"
  "executions (Context_Persisted c # es) = executions es" "executions (Settled i r # es) = executions es"
  "executions (Result_Persisted r # es) = executions es" "executions (Fingerprint_Exhausted f # es) = executions es"
  "executions (Task_Event e x y # es) = executions es"
  by (simp_all add: executions_def)

text \<open>Ready to route attempt \<open>k\<close>, after \<open>k - 1\<close> failed attempts.\<close>

definition at_assign :: "lifecycle_env \<Rightarrow> task_spec \<Rightarrow> int \<Rightarrow> lifecycle_state \<Rightarrow> bool" where
  "at_assign env spec k st \<longleftrightarrow> executions (lc_effects st) = length (lc_attempts st) \<and> lc_spec st = spec \<and> lc_number st = k \<and> lc_result st = None \<and> task_at st QUEUED \<and>
     (k = 1 \<and> lc_attempts st = [] \<and> lc_excluded st = [] \<or>
      k = 2 \<and> (\<exists>a x. lc_assignment st = Some a \<and> first_of env a \<and> lc_excluded st = [(tk_provider a, tk_model a)] \<and>
        lc_attempts st = [x] \<and> su_number x = 1 \<and> su_status x = A_FAILED))"

definition at_run :: "lifecycle_env \<Rightarrow> task_spec \<Rightarrow> int \<Rightarrow> lifecycle_state \<Rightarrow> bool" where
  "at_run env spec k st \<longleftrightarrow> executions (lc_effects st) = length (lc_attempts st) \<and> lc_spec st = spec \<and> lc_number st = k \<and> task_at st QUEUED \<and>
     lc_assignment st \<noteq> None \<and> lc_attempt st \<noteq> None \<and> lc_packet st \<noteq> None \<and>
     (k = 1 \<and> lc_attempts st = [] \<and> (\<exists>a. lc_assignment st = Some a \<and> first_of env a) \<or>
      k = 2 \<and> (\<exists>x. lc_attempts st = [x] \<and> su_number x = 1 \<and> su_status x = A_FAILED))"

definition at_evaluate :: "lifecycle_env \<Rightarrow> task_spec \<Rightarrow> int \<Rightarrow> lifecycle_state \<Rightarrow> bool" where
  "at_evaluate env spec k st \<longleftrightarrow> executions (lc_effects st) = Suc (length (lc_attempts st)) \<and> lc_spec st = spec \<and> lc_number st = k \<and> task_at st RUNNING \<and>
     lc_assignment st \<noteq> None \<and> lc_attempt st \<noteq> None \<and>
     (\<exists>r. lc_result st = Some r \<and> re_task r = sp_id spec \<and>
        (re_status r = R_SUCCEEDED \<longrightarrow> supported (tq_criteria (sp_request spec)) r)) \<and>
     (k = 1 \<and> lc_attempts st = [] \<and> (\<exists>a. lc_assignment st = Some a \<and> first_of env a) \<or>
      k = 2 \<and> (\<exists>x. lc_attempts st = [x] \<and> su_number x = 1 \<and> su_status x = A_FAILED))"

text \<open>The status of the registry that a result stands for.\<close>

fun settled_as :: "result_status \<Rightarrow> task_status \<Rightarrow> bool" where
  "settled_as R_SUCCEEDED s \<longleftrightarrow> s = SUCCEEDED"
| "settled_as R_FAILED s \<longleftrightarrow> False"
| "settled_as R_CANCELLED s \<longleftrightarrow> s = CANCELLED"
| "settled_as R_BLOCKED s \<longleftrightarrow> s = BLOCKED"
| "settled_as R_BUDGET_BLOCKED s \<longleftrightarrow> s \<in> {BLOCKED, BUDGET_BLOCKED}"
| "settled_as R_RETURNED_TO_LEAD s \<longleftrightarrow> s = RETURNED_TO_LEAD"

definition at_return :: "task_spec \<Rightarrow> lifecycle_state \<Rightarrow> bool" where
  "at_return spec st \<longleftrightarrow>
     (\<exists>r s. lc_result st = Some r \<and> task_at st s \<and> settled_as (re_status r) s \<and> lc_spec st = spec \<and>
        re_task r = sp_id spec \<and> map su_number (re_attempts r) \<in> {[], [1], [1, 2]} \<and>
        (length (re_attempts r) = 2 \<longrightarrow> su_status (hd (re_attempts r)) = A_FAILED) \<and>
        (re_status r = R_SUCCEEDED \<longrightarrow> supported (tq_criteria (sp_request spec)) r) \<and>
        executions (lc_effects st) = length (re_attempts r) \<and> Result_Persisted r \<in> set (lc_effects st))"

lemma assign_phase:
  assumes "at_assign env spec k st"
  shows "(\<exists>e. assign_attempt env st = Inl (ValueError e)) \<and> \<not> env_ok env spec \<or>
     (\<exists>st'. assign_attempt env st = Inr st' \<and>
        (at_run env spec k st' \<and> after_assign st' = G_RUN \<or> at_return spec st' \<and> after_assign st' = G_RETURN))"
proof (cases "le_assign env (lc_number st) (lc_excluded st)")
  case (No_Route f)
  from assms obtain t where t: "registered (lc_registry st) (sp_id spec) = Some t" "rt_status t = QUEUED"
    by (auto simp: at_assign_def task_at_def)
  have "transition_task QUEUED BLOCKED k = Inr BLOCKED" by (simp add: transition_task_Inr)
  from transition_move [OF t _ this] obtain g t' where
    g: "transition_registered (lc_registry st) (sp_id spec) QUEUED BLOCKED k = Inr g"
      "registered g (sp_id spec) = Some t'" "rt_status t' = BLOCKED" by auto
  have n: "map su_number (lc_attempts st) \<in> {[], [1], [1, 2]}" "length (lc_attempts st) < 2" "lc_spec st = spec" "lc_number st = k"
    "executions (lc_effects st) = length (lc_attempts st)"
    using assms by (auto simp: at_assign_def)
  have "assign_attempt env st = not_routed st f" by (simp add: assign_attempt_def No_Route)
  then show ?thesis
    using g n by (auto simp: not_routed_def Let_def at_return_def after_assign_def emit_effects_def task_at_def
        route_blocked_def plain_result_def)
next
  case (Bound attempt a)
  show ?thesis
  proof (cases "tk_task a \<noteq> sp_id (lc_spec st) \<or> tk_number a \<noteq> lc_number st \<or> (lc_number st = 2 \<and>
      (case lc_assignment st of None \<Rightarrow> False | Some p \<Rightarrow> escalation_rejected (tk_floor p) (tk_floor a)))")
    case True
    moreover have "\<not> env_ok env spec"
    proof
      assume ok: "env_ok env spec"
      have "lc_number st \<in> {1, 2}" "lc_spec st = spec" using assms by (auto simp: at_assign_def)
      with ok Bound have "tk_task a = sp_id (lc_spec st)" "tk_number a = lc_number st"
        unfolding env_ok_def by metis+
      with True obtain p where p: "lc_number st = 2" "lc_assignment st = Some p"
        "escalation_rejected (tk_floor p) (tk_floor a)" by (auto split: option.splits)
      with assms have "first_of env p" "lc_excluded st = [(tk_provider p, tk_model p)]"
        by (auto simp: at_assign_def)
      with p Bound ok show False unfolding env_ok_def by metis
    qed
    ultimately show ?thesis by (auto simp: assign_attempt_def Bound)
  next
    case False
    let ?p = "attempt_packet env st a"
    let ?st = "emit_effects [Context_Persisted ?p]
       (st\<lparr>lc_assignment := Some a, lc_attempt := Some attempt, lc_packet := Some ?p, lc_result := None\<rparr>)"
    have "assign_attempt env st = Inr ?st"
      using False by (auto simp: assign_attempt_def Bound Let_def)
    moreover have "at_run env spec k ?st \<and> after_assign ?st = G_RUN"
      using assms Bound by (auto simp: at_assign_def at_run_def after_assign_def emit_effects_def task_at_def first_of_def)
    ultimately show ?thesis by blast
  qed
qed

lemma run_phase:
  assumes "at_run env spec k st"
  shows "(\<exists>e. run_attempt env st = Inl (ValueError e)) \<and> \<not> env_ok env spec \<or>
     (\<exists>st'. run_attempt env st = Inr st' \<and> at_evaluate env spec k st')"
proof -
  from assms obtain t a p where t: "registered (lc_registry st) (sp_id spec) = Some t" "rt_status t = QUEUED"
    and a: "lc_assignment st = Some a" "lc_packet st = Some p" and s: "lc_spec st = spec" "lc_number st = k"
    by (auto simp: at_run_def task_at_def)
  have "transition_task QUEUED RUNNING k = Inr RUNNING" by (simp add: transition_task_Inr)
  from transition_move [OF t _ this] obtain g t' where
    g: "transition_registered (lc_registry st) (sp_id spec) QUEUED RUNNING k = Inr g"
      "registered g (sp_id spec) = Some t'" "rt_status t' = RUNNING" by auto
  let ?r = "attempt_result env st a p"
  let ?st = "emit_effects [Task_Event ''started'' (lc_attempt st) None, Executed k a] (st\<lparr>lc_registry := g, lc_result := Some ?r\<rparr>)"
  have "re_status ?r = R_SUCCEEDED \<Longrightarrow> supported (tq_criteria (sp_request spec)) ?r"
    by (cases "le_execute env (lc_number st) a p")
       (auto simp: attempt_result_def s execution_failed_def plain_result_def supported_evaluated)
  then have "re_task ?r = sp_id spec \<Longrightarrow> at_evaluate env spec k ?st"
    using assms g by (auto simp: at_run_def at_evaluate_def emit_effects_def task_at_def)
  moreover have "env_ok env spec \<Longrightarrow> re_task ?r = sp_id spec"
    by (cases "le_execute env (lc_number st) a p")
       (auto simp: attempt_result_def s execution_failed_def plain_result_def env_ok_def)
  ultimately show ?thesis using a s g by (auto simp: run_attempt_def Let_def)
qed

lemma with_default_category_fields [simp]:
  "re_status (with_default_category r) = re_status r" "re_task (with_default_category r) = re_task r"
  "re_verification (with_default_category r) = re_verification r"
  by (simp_all add: with_default_category_def)

lemma summarized_fields [simp]:
  "re_status (summarized st i a r) = re_status r" "re_task (summarized st i a r) = re_task r"
  "re_verification (summarized st i a r) = re_verification r"
  "re_attempts (summarized st i a r) = lc_attempts st @ [attempt_summary_of st i a (with_default_category r)]"
  by (simp_all add: summarized_def Let_def)

lemma attempt_summary_of_fields [simp]:
  "su_number (attempt_summary_of st i a r) = lc_number st"
  "su_status (attempt_summary_of st i a r) = attempt_status_of (re_status r)"
  by (simp_all add: attempt_summary_of_def)

lemma task_target_legal:
  "transition_task RUNNING (task_target k s) n = Inr (task_target k s)"
  by (cases s) (auto simp: transition_task_Inr)

lemma supported_verification: "re_verification r' = re_verification r \<Longrightarrow> supported c r' = supported c r"
  by (simp add: supported_def)

lemma evaluate_phase:
  assumes "at_evaluate env spec k st"
  shows "\<exists>st'. evaluate_node st = Inr st' \<and>
     (at_return spec st' \<and> after_evaluate st' = G_RETURN \<or>
      k = 1 \<and> at_assign env spec 2 st' \<and> after_evaluate st' = G_ASSIGN)"
proof -
  from assms obtain t a i r0 where t: "registered (lc_registry st) (sp_id spec) = Some t" "rt_status t = RUNNING"
    and s: "lc_spec st = spec" "lc_number st = k" and a: "lc_assignment st = Some a" "lc_attempt st = Some i"
    and r0: "lc_result st = Some r0" "re_task r0 = sp_id spec"
      "re_status r0 = R_SUCCEEDED \<longrightarrow> supported (tq_criteria (sp_request spec)) r0"
    and k: "k = 1 \<and> lc_attempts st = [] \<and> first_of env a \<or>
      k = 2 \<and> (\<exists>x. lc_attempts st = [x] \<and> su_number x = 1 \<and> su_status x = A_FAILED)"
    by (auto simp: at_evaluate_def task_at_def)
  have ex: "executions (lc_effects st) = Suc (length (lc_attempts st))" using assms by (simp add: at_evaluate_def)
  let ?r = "summarized st i a r0" and ?u = "task_target k (re_status r0)"
  obtain g t' where g: "transition_registered (lc_registry st) (sp_id spec) RUNNING ?u k = Inr g"
      "registered g (sp_id spec) = Some t'" "rt_status t' = ?u"
    using transition_move [OF t _ task_target_legal] by fastforce
  let ?st1 = "emit_effects [Settled i ?r, Task_Event (if re_status r0 = R_FAILED \<and> k = 2 then ''returned_to_lead''
      else status_name (re_status r0)) (Some i) (Some (re_summary ?r))] (st\<lparr>lc_registry := g\<rparr>)"
  show ?thesis
  proof (cases "re_status r0 \<noteq> R_FAILED \<or> k = 2")
    case True
    let ?f = "final_result ?r"
    let ?st = "emit_effects (Result_Persisted ?f #
         (if re_status ?f = R_RETURNED_TO_LEAD then [Fingerprint_Exhausted (sp_fingerprint spec)] else []))
       (?st1\<lparr>lc_result := Some ?f, lc_attempts := re_attempts ?r\<rparr>)"
    have e: "evaluate_node st = Inr ?st"
      using True by (auto simp: evaluate_node_def r0 a s g(1) Let_def)
    have f: "settled_as (re_status ?f) ?u" "re_attempts ?f = re_attempts ?r" "re_task ?f = sp_id spec"
      "re_status ?f = R_SUCCEEDED \<longrightarrow> supported (tq_criteria (sp_request spec)) ?f"
      using True r0 by (cases "re_status r0"; auto simp: final_result_def supported_verification [of ?r r0])+
    have m: "map su_number (re_attempts ?f) \<in> {[], [1], [1, 2]} \<and>
        (length (re_attempts ?f) = 2 \<longrightarrow> su_status (hd (re_attempts ?f)) = A_FAILED)"
      using k s unfolding f(2) by auto
    have "at_return spec ?st"
      unfolding at_return_def using f m g s ex
      by (intro exI [of _ ?f] exI [of _ ?u]) (simp add: emit_effects_def task_at_def)
    then show ?thesis using e by (auto simp: after_evaluate_def emit_effects_def)
  next
    case False
    then have k1: "k = 1" and ff: "re_status r0 = R_FAILED" using k by auto
    have "transition_task FAILED QUEUED 1 = Inr QUEUED" by (simp add: transition_task_Inr)
    with g(2,3) k1 ff obtain g2 t2 where g2: "transition_registered g (sp_id spec) FAILED QUEUED 1 = Inr g2"
      "registered g2 (sp_id spec) = Some t2" "rt_status t2 = QUEUED"
      using transition_move [of g "sp_id spec" t' FAILED QUEUED 1] by auto
    let ?st = "?st1\<lparr>lc_registry := g2, lc_number := 2, lc_excluded := [(tk_provider a, tk_model a)],
       lc_attempts := re_attempts ?r, lc_failures := re_failures ?r, lc_previous := Some ?r, lc_result := None\<rparr>"
    have "evaluate_node st = Inr ?st"
      using ff k1 s(2) g(1) g2(1) by (simp add: evaluate_node_def r0 a s(1) Let_def)
    moreover have "at_assign env spec 2 ?st"
      using g2 s a k k1 ff ex by (simp add: at_assign_def task_at_def emit_effects_def)
    ultimately show ?thesis using k1 by (auto simp: after_evaluate_def emit_effects_def)
  qed
qed

section \<open>Runs\<close>

definition good_end :: "lifecycle_env \<Rightarrow> task_spec \<Rightarrow> lifecycle_state res \<Rightarrow> bool" where
  "good_end env spec x \<longleftrightarrow> (\<exists>e. x = Inl (ValueError e)) \<and> \<not> env_ok env spec \<or> (\<exists>st. x = Inr st \<and> at_return spec st)"

lemma good_end_run: "at_evaluate env spec 2 st \<Longrightarrow> good_end env spec (run_graph env (Suc (Suc n)) G_EVALUATE st)"
  using evaluate_phase [of env spec 2 st] by (auto simp: good_end_def)

lemma second_attempt_ends:
  assumes "at_assign env spec 2 st"
  shows "good_end env spec (run_graph env (Suc (Suc (Suc (Suc n)))) G_ASSIGN st)"
  using assign_phase [OF assms]
proof
  assume "(\<exists>e. assign_attempt env st = Inl (ValueError e)) \<and> \<not> env_ok env spec"
  then show ?thesis by (auto simp: good_end_def)
next
  assume "\<exists>st'. assign_attempt env st = Inr st' \<and>
     (at_run env spec 2 st' \<and> after_assign st' = G_RUN \<or> at_return spec st' \<and> after_assign st' = G_RETURN)"
  then obtain st' where s: "assign_attempt env st = Inr st'"
    "at_run env spec 2 st' \<and> after_assign st' = G_RUN \<or> at_return spec st' \<and> after_assign st' = G_RETURN" by blast
  show ?thesis
  proof (cases "after_assign st' = G_RETURN")
    case True
    with s show ?thesis by (auto simp: good_end_def)
  next
    case False
    with s have r: "at_run env spec 2 st'" "after_assign st' = G_RUN" by auto
    from run_phase [OF r(1)] show ?thesis
      using s r good_end_run [of env spec _ n] by (fastforce simp: good_end_def)
  qed
qed

lemma first_attempt_ends:
  assumes "at_assign env spec 1 st"
  shows "good_end env spec (run_graph env (Suc (Suc (Suc (Suc (Suc (Suc (Suc n))))))) G_ASSIGN st)"
  using assign_phase [OF assms]
proof
  assume "(\<exists>e. assign_attempt env st = Inl (ValueError e)) \<and> \<not> env_ok env spec"
  then show ?thesis by (auto simp: good_end_def)
next
  assume "\<exists>st'. assign_attempt env st = Inr st' \<and>
     (at_run env spec 1 st' \<and> after_assign st' = G_RUN \<or> at_return spec st' \<and> after_assign st' = G_RETURN)"
  then obtain st' where s: "assign_attempt env st = Inr st'"
    "at_run env spec 1 st' \<and> after_assign st' = G_RUN \<or> at_return spec st' \<and> after_assign st' = G_RETURN" by blast
  show ?thesis
  proof (cases "after_assign st' = G_RETURN")
    case True
    with s show ?thesis by (auto simp: good_end_def)
  next
    case False
    with s have r: "at_run env spec 1 st'" "after_assign st' = G_RUN" by auto
    from run_phase [OF r(1)] show ?thesis
    proof
      assume "(\<exists>e. run_attempt env st' = Inl (ValueError e)) \<and> \<not> env_ok env spec"
      then show ?thesis using s r by (auto simp: good_end_def)
    next
      assume "\<exists>u. run_attempt env st' = Inr u \<and> at_evaluate env spec 1 u"
      then obtain u where u: "run_attempt env st' = Inr u" "at_evaluate env spec 1 u" by blast
      from evaluate_phase [OF u(2)] obtain v where v: "evaluate_node u = Inr v"
        "at_return spec v \<and> after_evaluate v = G_RETURN \<or> at_assign env spec 2 v \<and> after_evaluate v = G_ASSIGN" by blast
      show ?thesis
      proof (cases "after_evaluate v = G_RETURN")
        case True
        with s r u v show ?thesis by (auto simp: good_end_def)
      next
        case False
        with v have "at_assign env spec 2 v" "after_evaluate v = G_ASSIGN" by auto
        with s r u v second_attempt_ends [of env spec v n] show ?thesis by simp
      qed
    qed
  qed
qed

lemma eight_steps:
  assumes "8 \<le> (n :: nat)"
  obtains m where "n = Suc (Suc (Suc (Suc (Suc (Suc (Suc (Suc m)))))))"
proof -
  from assms obtain m where "n = 8 + m" by (auto simp: le_iff_add)
  then show ?thesis by (intro that [of m]) simp
qed

lemma lifecycle_good_end:
  assumes "registered g (sp_id spec) = Some t" "rt_status t = QUEUED" "8 \<le> n"
  shows "good_end env spec (run_graph env n G_VALIDATE (lifecycle_start spec g))"
proof -
  obtain m where n: "n = Suc (Suc (Suc (Suc (Suc (Suc (Suc (Suc m)))))))"
    using assms(3) by (rule eight_steps)
  have "at_assign env spec 1 (validate_node (lifecycle_start spec g))"
    using assms(1,2) by (auto simp: at_assign_def validate_node_def lifecycle_start_def task_at_def)
  from first_attempt_ends [OF this, of m] show ?thesis by (simp add: n)
qed

section \<open>Escalation of the capability floor\<close>

fun adjustment_hundredths :: "routing_mode \<Rightarrow> int" where
  "adjustment_hundredths AUTO = 0"
| "adjustment_hundredths ECONOMY = -10"
| "adjustment_hundredths QUALITY = 15"
| "adjustment_hundredths MANUAL = 0"

lemma capability_floor_hundredths:
  "mode \<noteq> MANUAL \<Longrightarrow> capability_floor (of_int b / 100) mode (of_int h / 100) escalated =
     Some (of_int (min (max (b + adjustment_hundredths mode + (if escalated then 15 else 0)) h)
        (if escalated then 90 else 85)) / 100)"
proof -
  assume m: "mode \<noteq> MANUAL"
  have adj: "MODE_ADJUSTMENTS mode = of_int (adjustment_hundredths mode) / 100"
    by (cases mode) simp_all
  have mm: "max (of_int x / 100) (of_int y / 100) = (of_int (max x y) / 100 :: rat)"
    "min (of_int x / 100) (of_int y / 100) = (of_int (min x y) / 100 :: rat)" for x y
    by (auto simp: max_def min_def divide_le_cancel)
  have e: "(of_int b / 100 + of_int (adjustment_hundredths mode) / 100 + (if escalated then 15/100 else 0) :: rat) =
      of_int (b + adjustment_hundredths mode + (if escalated then 15 else 0)) / 100"
    "floor_ceiling escalated = of_int (if escalated then 90 else 85) / 100"
    by (simp_all add: floor_ceiling_def add_divide_distrib)
  show ?thesis
    using m by (simp only: capability_floor_def adj e mm round2_hundredths if_False)
qed

lemma escalation_floor_hundredths:
  "escalation_floor (Some (of_int m / 100)) = Some (of_int (min (m + 15) 90) / 100)"
proof -
  have "(of_int m / 100 + 15/100 :: rat) = of_int (m + 15) / 100" by (simp add: add_divide_distrib)
  then have "round2 (of_int m / 100 + 15/100) = of_int (m + 15) / 100" by (metis round2_hundredths)
  then show ?thesis by (auto simp: escalation_floor_def min_def divide_le_cancel)
qed

text \<open>
  The escalated floor misses the required one exactly when the hard minimum of the role lifts the
  first floor and not the second: in economy mode, with a hard minimum above the adjusted base.
\<close>

lemma escalation_rejected_iff:
  assumes "build i = Inr r1" "build (i\<lparr>ri_escalated := True\<rparr>) = Inr r2" "\<not> ri_escalated i" "ri_mode i \<noteq> MANUAL"
    and "ROLE_FLOORS (ri_role i) = Some rf" "base_floor rf (ri_risk i) (ri_hinted_floor i) = of_int b / 100"
    and "ri_hard_min i = of_int h / 100"
  shows "escalation_rejected (rr_floor r1) (rr_floor r2) \<longleftrightarrow> ri_mode i = ECONOMY \<and> b - 10 < h"
proof -
  have hb: "h \<le> b" "h \<le> 60"
  proof -
    obtain rf' where rf': "ROLE_FLOORS (ri_role i) = Some rf'" "ri_hard_min i \<le> rf'"
      by (rule build_Inr [OF assms(1)])
    then have r: "ri_hard_min i \<le> rf" using assms(5) by simp
    moreover have "rf \<le> of_int b / 100" unfolding assms(6) [symmetric]
      by (auto simp: base_floor_def Let_def split: option.splits)
    ultimately have "(of_int h :: rat) \<le> of_int b" unfolding assms(7) by simp
    then show "h \<le> b" by simp
    have "(of_int h :: rat) / 100 \<le> 60/100" using r ROLE_FLOORS_range [OF assms(5)] unfolding assms(7) by simp
    then have "(of_int h :: rat) \<le> of_int 60" by simp
    then show "h \<le> 60" by (simp only: of_int_le_iff)
  qed
  have f1: "rr_floor r1 = Some (of_int (min (max (b + adjustment_hundredths (ri_mode i)) h) 85) / 100)"
  proof (rule build_Inr [OF assms(1)])
    fix rf' assume rf: "ROLE_FLOORS (ri_role i) = Some rf'"
      and r: "rr_floor r1 = capability_floor (base_floor rf' (ri_risk i) (ri_hinted_floor i)) (ri_mode i) (ri_hard_min i) (ri_escalated i)"
    have "rf' = rf" using rf assms(5) by simp
    then have "rr_floor r1 = capability_floor (of_int b / 100) (ri_mode i) (of_int h / 100) False"
      by (simp only: r assms(3,6,7))
    then show ?thesis
      using capability_floor_hundredths [OF assms(4), of b h False] by (simp only: if_False add_0_right)
  qed
  have f2: "rr_floor r2 = Some (of_int (min (max (b + adjustment_hundredths (ri_mode i) + 15) h) 90) / 100)"
  proof (rule build_Inr [OF assms(2)])
    fix rf' assume rf: "ROLE_FLOORS (ri_role (i\<lparr>ri_escalated := True\<rparr>)) = Some rf'"
      and r: "rr_floor r2 = capability_floor (base_floor rf' (ri_risk (i\<lparr>ri_escalated := True\<rparr>)) (ri_hinted_floor (i\<lparr>ri_escalated := True\<rparr>)))
         (ri_mode (i\<lparr>ri_escalated := True\<rparr>)) (ri_hard_min (i\<lparr>ri_escalated := True\<rparr>)) (ri_escalated (i\<lparr>ri_escalated := True\<rparr>))"
    have u: "ri_risk (i\<lparr>ri_escalated := True\<rparr>) = ri_risk i" "ri_hinted_floor (i\<lparr>ri_escalated := True\<rparr>) = ri_hinted_floor i"
      "ri_mode (i\<lparr>ri_escalated := True\<rparr>) = ri_mode i" "ri_hard_min (i\<lparr>ri_escalated := True\<rparr>) = ri_hard_min i"
      "ri_escalated (i\<lparr>ri_escalated := True\<rparr>) = True" by simp_all
    have "rf' = rf" using rf assms(5) by simp
    then have "rr_floor r2 = capability_floor (of_int b / 100) (ri_mode i) (of_int h / 100) True"
      by (simp only: r u assms(6,7))
    then show ?thesis
      using capability_floor_hundredths [OF assms(4), of b h True] by (simp only: if_True)
  qed
  have "escalation_rejected (rr_floor r1) (rr_floor r2) \<longleftrightarrow>
      min (max (b + adjustment_hundredths (ri_mode i) + 15) h) 90 <
      min (min (max (b + adjustment_hundredths (ri_mode i)) h) 85 + 15) 90"
    unfolding f1 f2 escalation_rejected_def escalation_floor_hundredths option.case
    by (simp add: divide_less_cancel)
  also have "\<dots> \<longleftrightarrow> ri_mode i = ECONOMY \<and> b - 10 < h"
    using hb assms(4) by (cases "ri_mode i") auto
  finally show ?thesis .
qed

section \<open>Properties\<close>


text \<open>An environment that routes attempt 1 to \<open>a1\<close>, attempt 2 to \<open>a2\<close> and whose executions raise.\<close>

definition failing_env :: "task_assignment \<Rightarrow> task_assignment \<Rightarrow> lifecycle_env" where
  "failing_env a1 a2 = \<lparr>le_assign = (\<lambda>k ex. if k = 1 then Bound ''1'' a1 else Bound ''2'' a2),
     le_execute = (\<lambda>k a p. Raised False), le_scrub = id, le_repr = (\<lambda>_. [])\<rparr>"


definition ex_attempt_assignment :: "int \<Rightarrow> rat option \<Rightarrow> task_assignment" where
  "ex_attempt_assignment k f = \<lparr>tk_id = ''i'', tk_task = ''a'', tk_number = k, tk_provider = ''p'', tk_model = ''m'',
     tk_mode = ''auto'', tk_floor = f, tk_fit = None, tk_cost = 0, tk_reservation = ''v'',
     tk_explanation = [], tk_catalog = ''c''\<rparr>"

definition ex_lifecycle_env :: lifecycle_env where
  "ex_lifecycle_env = \<lparr>le_assign = (\<lambda>k ex. Bound ''x'' (ex_attempt_assignment k None)),
     le_execute = (\<lambda>k a p. Returned (if k = 1 then plain_result ''a'' R_FAILED ''no''
        else (plain_result ''a'' R_SUCCEEDED ''yes'')\<lparr>re_verification :=
          [\<lparr>vr_criterion = ''tests pass'', vr_passed = True, vr_evidence = Some ''ran'', vr_ref = None\<rparr>]\<rparr>)),
     le_scrub = id, le_repr = (\<lambda>_. ''h'')\<rparr>"

definition ex_queued_registry :: task_registry where
  "ex_queued_registry = registry_run new_registry
     [Register_Many [ex_plain_spec CHR ''a'' []], Transition ''a'' PROPOSED QUEUED 1]"

lemma ex_queued: "\<exists>t. registered ex_queued_registry (sp_id (ex_plain_spec CHR ''a'' [])) = Some t \<and> rt_status t = QUEUED"
proof -
  have "map_option rt_status (registered ex_queued_registry ''a'') = Some QUEUED" by code_simp
  then show ?thesis by (auto simp: ex_plain_spec_def)
qed


definition ex_economy :: requirement_input where
  "ex_economy = \<lparr>ri_role = ''general-purpose'', ri_risk = ROUTINE, ri_mode = ECONOMY, ri_hard_min = 50/100,
     ri_tools = True, ri_structured = True, ri_context = 0, ri_output = 0, ri_modalities = [''text''],
     ri_hinted_floor = Some (50/100), ri_hinted_context = 0, ri_hinted_output = 0, ri_hinted_modalities = [],
     ri_escalated = False, ri_failed_fit = None, ri_failed_model = None, ri_excluded = []\<rparr>"


end
