(* ===== verification/Decision_Gate.thy ===== *)
theory Decision_Gate
  imports Task_Validation Plan_Domain
begin

text \<open>
  The execution-decision gate of \<open>src/src/skail/runtime/decisions.py\<close>: the normalisation of
  the model's arguments, the admission of the first decision and of its revisions, the
  constraints of the user's request, the bounded repair allowance, the preparation of an ordered
  response and the guard in front of every tool call.

  Parameters (\<open>gate_env\<close>): the JSON parser and \<open>str\<close> of a non-string item; the
  decoding of a decision by the validation library, which gives a decision that satisfies the
  model validators or the text of its error; the plan store's admission and revision on a state
  \<open>'s\<close>; and the journal's record of the decision.
\<close>

section \<open>Normalisation of the arguments\<close>

text \<open>\<open>re.split("[;\\n]+", s)\<close> with the parts stripped and the empty ones dropped.\<close>

definition constraint_parts :: "string \<Rightarrow> string list" where
  "constraint_parts s =
     filter (\<lambda>p. p \<noteq> []) (map py_strip (split_on CHR '';'' (map (\<lambda>c. if c = CHR 0x0A then CHR '';'' else c) s)))"

definition item_text :: "(json \<Rightarrow> string) \<Rightarrow> json \<Rightarrow> string" where
  "item_text str_of j = (case j of JStr s \<Rightarrow> s | _ \<Rightarrow> str_of j)"

definition constraint_items :: "(json \<Rightarrow> string) \<Rightarrow> json list \<Rightarrow> string list" where
  "constraint_items str_of xs = filter (\<lambda>p. p \<noteq> []) (map (\<lambda>j. py_strip (item_text str_of j)) xs)"

definition normalize_constraints :: "(json \<Rightarrow> string) \<Rightarrow> args \<Rightarrow> args" where
  "normalize_constraints str_of kvs =
     (case map_of kvs ''constraints'' of
        Some (JStr s) \<Rightarrow> set_arg ''constraints'' (JList (map JStr (constraint_parts s))) kvs
      | Some (JList xs) \<Rightarrow> set_arg ''constraints'' (JList (map JStr (constraint_items str_of xs))) kvs
      | _ \<Rightarrow> kvs)"

text \<open>A plan or revision sent as a string is parsed; an empty one is dropped.\<close>

definition parse_arg :: "(string \<Rightarrow> json option) \<Rightarrow> string \<Rightarrow> args \<Rightarrow> args" where
  "parse_arg loads k kvs =
     (case map_of kvs k of
        Some (JStr s) \<Rightarrow>
          if py_strip s = [] then del_arg k kvs
          else (case loads (py_strip s) of None \<Rightarrow> kvs | Some j \<Rightarrow> set_arg k j kvs)
      | _ \<Rightarrow> kvs)"

definition comparable_field ::
  "(string \<Rightarrow> json option) \<Rightarrow> (json \<Rightarrow> string) \<Rightarrow> string \<Rightarrow> json \<Rightarrow> json" where
  "comparable_field loads str_of name value =
     (case value of
        JStr s \<Rightarrow>
          if name = ''constraints'' then JList (map JStr (constraint_parts s))
          else if name = ''revision'' then (case loads s of Some j \<Rightarrow> j | None \<Rightarrow> JStr (py_strip s))
          else if name = ''mode'' then JStr (py_lower (py_strip s))
          else JStr (py_strip s)
      | JList xs \<Rightarrow>
          if name = ''constraints'' then JList (map JStr (constraint_items str_of xs)) else value
      | _ \<Rightarrow> value)"

fun merge_nested ::
  "(string \<Rightarrow> json option) \<Rightarrow> (json \<Rightarrow> string) \<Rightarrow> args \<Rightarrow> string list \<Rightarrow> args \<Rightarrow> args res" where
  "merge_nested loads str_of nested [] kvs = Inr kvs"
| "merge_nested loads str_of nested (name # names) kvs =
     (case (map_of nested name, map_of kvs name) of
        (None, _) \<Rightarrow> merge_nested loads str_of nested names kvs
      | (Some v, None) \<Rightarrow> merge_nested loads str_of nested names (set_arg name v kvs)
      | (Some v, Some w) \<Rightarrow>
          if comparable_field loads str_of name w \<noteq> comparable_field loads str_of name v
            then Inl (DecisionAdmissionError ''decision.payload_conflict'')
          else merge_nested loads str_of nested names kvs)"

definition unwrap_plan :: "(string \<Rightarrow> json option) \<Rightarrow> (json \<Rightarrow> string) \<Rightarrow> args \<Rightarrow> args res" where
  "unwrap_plan loads str_of kvs =
     (case map_of kvs ''plan'' of
        Some (JObj nested) \<Rightarrow>
          (case map_of nested ''plan'' of
             Some (JObj inner) \<Rightarrow>
               res_bind (merge_nested loads str_of nested
                   [''mode'', ''objective'', ''reason'', ''constraints'', ''revision''] kvs)
                 (\<lambda>kvs'. Inr (set_arg ''plan'' (JObj inner) kvs'))
           | _ \<Rightarrow> Inr kvs)
      | _ \<Rightarrow> Inr kvs)"

definition normalize_decision_args ::
  "(string \<Rightarrow> json option) \<Rightarrow> (json \<Rightarrow> string) \<Rightarrow> args \<Rightarrow> args res" where
  "normalize_decision_args loads str_of value =
     res_bind (unwrap_plan loads str_of (parse_arg loads ''plan'' (normalize_constraints str_of value)))
       (\<lambda>kvs. Inr (parse_arg loads ''revision'' kvs))"

section \<open>The gate\<close>

record 's gate_env =
  ge_loads :: "string \<Rightarrow> json option"
  ge_str :: "json \<Rightarrow> string"
  ge_decode :: "args \<Rightarrow> string + execution_decision"
  ge_admit :: "execution_plan \<Rightarrow> 's \<Rightarrow> 's res"
  ge_revise :: "(plan_delta \<Rightarrow> execution_plan \<Rightarrow> 's \<Rightarrow> 's res) option"
  ge_persist :: "execution_decision \<Rightarrow> 's \<Rightarrow> 's res"

record decision_gate =
  dg_mode :: "execution_mode option"
  dg_requires_answer :: bool
  dg_answered :: bool
  dg_agents :: "int option"
  dg_profile :: "string option"
  dg_repairs :: int
  dg_decision :: "execution_decision option"
  dg_prepared :: "string list"
  dg_rejected :: "(string \<times> string) list"

definition is_exhausted :: "decision_gate \<Rightarrow> bool" where
  "is_exhausted g \<longleftrightarrow> dg_decision g = None \<and> dg_repairs g = 0"

definition requires_user_answer_for :: "decision_gate \<Rightarrow> string \<Rightarrow> bool" where
  "requires_user_answer_for g tool \<longleftrightarrow> dg_requires_answer g \<and> \<not> dg_answered g \<and> tool \<noteq> ''ask_user''"

definition rejection_code :: "decision_gate \<Rightarrow> string option \<Rightarrow> string option" where
  "rejection_code g call_id = (case call_id of None \<Rightarrow> None | Some i \<Rightarrow> map_of (dg_rejected g) i)"

definition is_prepared_decision :: "decision_gate \<Rightarrow> string option \<Rightarrow> bool" where
  "is_prepared_decision g call_id \<longleftrightarrow> (case call_id of None \<Rightarrow> False | Some i \<Rightarrow> i \<in> set (dg_prepared g))"

definition allows :: "decision_gate \<Rightarrow> string \<Rightarrow> string option \<Rightarrow> bool" where
  "allows g tool call_id \<longleftrightarrow>
     (if rejection_code g call_id \<noteq> None then False
      else if tool = ''ask_user'' then True
      else if requires_user_answer_for g tool then False
      else dg_decision g \<noteq> None)"

definition reject :: "decision_gate \<Rightarrow> string \<Rightarrow> string \<Rightarrow> decision_gate" where
  "reject g call_id code = g\<lparr>dg_rejected := (call_id, code) # dg_rejected g\<rparr>"

section \<open>Constraints of the request\<close>

text \<open>\<open>str.strip("/")\<close>.\<close>

definition strip_slash :: "string \<Rightarrow> string" where
  "strip_slash s = rev (dropWhile (\<lambda>c. c = CHR ''/'') (rev (dropWhile (\<lambda>c. c = CHR ''/'') s)))"

definition agent_scopes :: "plan_node \<Rightarrow> string list" where
  "agent_scopes n =
     map (\<lambda>s. strip_slash (slashes (py_strip s)))
       (filter (\<lambda>s. strip_slash (py_strip s) \<noteq> []) (resource_scopes n))"

definition path_overlap :: "string list \<Rightarrow> string list \<Rightarrow> bool" where
  "path_overlap p q \<longleftrightarrow> take (length q) p = q \<or> take (length p) q = p"

text \<open>The scopes claimed so far, or the conflict of the next one.\<close>

fun claim_scopes :: "string list \<Rightarrow> string list \<Rightarrow> string list option" where
  "claim_scopes owned [] = Some owned"
| "claim_scopes owned (s # ss) =
     (if posix_parts s = [] \<or> list_ex (\<lambda>e. path_overlap (posix_parts s) (posix_parts e)) owned then None
      else claim_scopes (owned @ [s]) ss)"

fun scopes_conflict :: "string list \<Rightarrow> plan_node list \<Rightarrow> bool" where
  "scopes_conflict owned [] = False"
| "scopes_conflict owned (n # ns) =
     (if agent_scopes n = [] then True
      else (case claim_scopes owned (agent_scopes n) of
              None \<Rightarrow> True | Some owned' \<Rightarrow> scopes_conflict owned' ns))"

definition agent_profile_of :: "plan_node \<Rightarrow> json" where
  "agent_profile_of n =
     (case map_of (task_features n) ''profile'' of
        None \<Rightarrow> JStr (if effect_scope n = E_READ then ''explorer'' else ''implementer'')
      | Some JNull \<Rightarrow> JStr (if effect_scope n = E_READ then ''explorer'' else ''implementer'')
      | Some j \<Rightarrow> j)"

definition plan_agents :: "execution_decision \<Rightarrow> plan_node list" where
  "plan_agents d = (case dec_plan d of None \<Rightarrow> [] | Some p \<Rightarrow> filter (\<lambda>n. node_kind n = K_AGENT) (plan_nodes p))"

definition constraint_error :: "decision_gate \<Rightarrow> execution_decision \<Rightarrow> string option" where
  "constraint_error g d =
     (if (case dg_mode g of None \<Rightarrow> False | Some m \<Rightarrow> dec_mode d \<noteq> m) then Some ''execution.intent_conflict''
      else if dg_agents g = None \<and> dg_profile g = None then None
      else if (case dg_agents g of None \<Rightarrow> False | Some k \<Rightarrow> int (length (plan_agents d)) \<noteq> k)
        then Some ''execution.agent_count_conflict''
      else if (case dg_profile g of None \<Rightarrow> False
               | Some p \<Rightarrow> list_ex (\<lambda>n. agent_profile_of n \<noteq> JStr p) (plan_agents d))
        then Some ''execution.agent_profile_conflict''
      else if scopes_conflict [] (plan_agents d) then Some ''execution.agent_scope_conflict''
      else None)"

section \<open>Admission\<close>

text \<open>\<open>_consume_repair\<close>, then the error: an exhausted allowance replaces it.\<close>

definition spend_repair :: "decision_gate \<Rightarrow> string \<Rightarrow> decision_gate \<times> 'a res" where
  "spend_repair g code =
     (if dg_repairs g = 0 then (g, Inl (DecisionAdmissionError ''decision.repair_exhausted''))
      else (g\<lparr>dg_repairs := dg_repairs g - 1\<rparr>, Inl (DecisionAdmissionError code)))"

fun occurs_in :: "string \<Rightarrow> string \<Rightarrow> bool" where
  "occurs_in p [] \<longleftrightarrow> p = []"
| "occurs_in p (c # cs) \<longleftrightarrow> starts_with (c # cs) p \<or> occurs_in p cs"

definition parse_decision ::
  "'s gate_env \<Rightarrow> decision_gate \<Rightarrow> args \<Rightarrow> decision_gate \<times> execution_decision res" where
  "parse_decision env g value =
     (case normalize_decision_args (ge_loads env) (ge_str env) value of
        Inl e \<Rightarrow> spend_repair g ''decision.payload_conflict''
      | Inr kvs \<Rightarrow>
          (case ge_decode env kvs of
             Inr d \<Rightarrow> (g, Inr d)
           | Inl message \<Rightarrow>
               if occurs_in ''revision_mismatch'' message \<or> occurs_in ''revision_required'' message
                 then (g, Inl (DecisionAdmissionError ''decision.revision_conflict''))
               else if occurs_in ''plan_required'' message then spend_repair g ''decision.plan_required''
               else spend_repair g ''decision.plan_invalid''))"

text \<open>
  \<open>_record\<close>: the plan store first, then the gate, then the journal; an error of the journal
  leaves the decision recorded in the gate.
\<close>

definition store_decision :: "'s gate_env \<Rightarrow> execution_decision \<Rightarrow> 's \<Rightarrow> 's res" where
  "store_decision env d s =
     (case dec_plan d of
        None \<Rightarrow> Inr s
      | Some p \<Rightarrow>
          (case (dec_revision d, ge_revise env) of
             (None, _) \<Rightarrow> ge_admit env p s
           | (Some r, None) \<Rightarrow> Inl (DecisionAdmissionError ''decision.revision_unavailable'')
           | (Some r, Some revise) \<Rightarrow> revise r p s))"

definition record_decision ::
  "'s gate_env \<Rightarrow> decision_gate \<Rightarrow> 's \<Rightarrow> execution_decision \<Rightarrow> decision_gate \<times> 's \<times> execution_decision res" where
  "record_decision env g s d =
     (case store_decision env d s of
        Inl e \<Rightarrow> (let (g', r) = spend_repair g ''decision.plan_refused'' in (g', s, r))
      | Inr s1 \<Rightarrow>
          let g1 = g\<lparr>dg_decision := Some d\<rparr> in
          (case ge_persist env d s1 of
             Inl e \<Rightarrow> (g1, s1, Inl e)
           | Inr s2 \<Rightarrow> (g1, s2, Inr d)))"

text \<open>The checks on a decision that follows an admitted one.\<close>

definition transition_error :: "execution_decision \<Rightarrow> execution_decision \<Rightarrow> string option" where
  "transition_error current d =
     (if dec_mode d = M_DIRECT then Some ''decision.already_recorded''
      else (case dec_plan current of
          None \<Rightarrow> None
        | Some p \<Rightarrow>
            (case dec_revision d of
               None \<Rightarrow>
                 (case dec_plan d of
                    Some q \<Rightarrow> if plan_revision q \<noteq> plan_revision p then Some ''decision.revision_conflict''
                              else Some ''decision.already_recorded''
                  | None \<Rightarrow> Some ''decision.already_recorded'')
             | Some r \<Rightarrow>
                 if expected_revision r \<noteq> plan_revision p \<or>
                    (case dec_plan d of None \<Rightarrow> False | Some q \<Rightarrow> plan_revision q \<noteq> expected_revision r + 1)
                   then Some ''decision.revision_conflict'' else None)))"

definition admit_decision ::
  "'s gate_env \<Rightarrow> decision_gate \<Rightarrow> 's \<Rightarrow> args \<Rightarrow> decision_gate \<times> 's \<times> execution_decision res" where
  "admit_decision env g s value =
     (case parse_decision env g value of
        (g', Inl e) \<Rightarrow> (g', s, Inl e)
      | (g', Inr d) \<Rightarrow>
          (case constraint_error g d of
             Some code \<Rightarrow> (let (g'', r) = spend_repair g' code in (g'', s, r))
           | None \<Rightarrow>
               (case dg_decision g of
                  None \<Rightarrow> record_decision env g' s d
                | Some current \<Rightarrow>
                    (case transition_error current d of
                       Some code \<Rightarrow> (g', s, Inl (DecisionAdmissionError code))
                     | None \<Rightarrow> record_decision env g' s d))))"

text \<open>
  The constructor: a restored decision is validated again and must satisfy the constraints, at no cost
  in repairs.
\<close>

definition validate_decision :: "execution_decision \<Rightarrow> execution_decision res" where
  "validate_decision d =
     (if dec_objective d = [] \<or> dec_reason d = [] then Inl (ValueError ''decision.fields'')
      else res_bind (case dec_plan d of None \<Rightarrow> Inr () | Some p \<Rightarrow> res_bind (load_plan p) (\<lambda>_. Inr ()))
        (\<lambda>_. validate_mode d))"

definition new_gate ::
  "execution_decision option \<Rightarrow> execution_mode option \<Rightarrow> bool \<Rightarrow> bool \<Rightarrow> int option \<Rightarrow> string option \<Rightarrow>
     decision_gate res" where
  "new_gate restored mode requires answered agents profile =
     (let g = \<lparr>dg_mode = mode, dg_requires_answer = requires, dg_answered = answered, dg_agents = agents,
               dg_profile = profile, dg_repairs = 2, dg_decision = None, dg_prepared = [], dg_rejected = []\<rparr> in
      case restored of
        None \<Rightarrow> Inr g
      | Some d \<Rightarrow>
          res_bind (validate_decision d) (\<lambda>d.
          (case constraint_error g d of
             Some code \<Rightarrow> Inl (DecisionAdmissionError code)
           | None \<Rightarrow> Inr (g\<lparr>dg_decision := Some d\<rparr>))))"

section \<open>Responses and tool calls\<close>

record tool_call =
  tc_name :: "string option"
  tc_id :: "string option"
  tc_args :: "args option"

text \<open>
  One call of an ordered response.  The second component of the result is an exception other
  than the gate's own, which ends the preparation.
\<close>

definition prepare_call ::
  "'s gate_env \<Rightarrow> decision_gate \<Rightarrow> 's \<Rightarrow> tool_call \<Rightarrow> decision_gate \<times> 's \<times> unit res" where
  "prepare_call env g s c =
     (case (tc_name c, tc_id c) of
        (Some name, Some i) \<Rightarrow>
          if i \<in> set (dg_prepared g) \<or> rejection_code g (Some i) \<noteq> None then (g, s, Inr ())
          else if requires_user_answer_for g name then (reject g i ''execution.question_required'', s, Inr ())
          else if name = ''execution_decision'' then
            (case tc_args c of
               None \<Rightarrow> (reject g i ''decision.plan_invalid'', s, Inr ())
             | Some value \<Rightarrow>
                 (case admit_decision env g s value of
                    (g', s', Inl (DecisionAdmissionError code)) \<Rightarrow> (reject g' i code, s', Inr ())
                  | (g', s', Inl e) \<Rightarrow> (g', s', Inl e)
                  | (g', s', Inr d) \<Rightarrow> (g'\<lparr>dg_prepared := i # dg_prepared g'\<rparr>, s', Inr ())))
          else if \<not> allows g name (Some i) then (reject g i ''execution.decision_required'', s, Inr ())
          else (g, s, Inr ())
      | _ \<Rightarrow> (g, s, Inr ()))"

fun prepare_response ::
  "'s gate_env \<Rightarrow> decision_gate \<Rightarrow> 's \<Rightarrow> tool_call list \<Rightarrow> decision_gate \<times> 's \<times> unit res" where
  "prepare_response env g s [] = (g, s, Inr ())"
| "prepare_response env g s (c # cs) =
     (case prepare_call env g s c of
        (g', s', Inl e) \<Rightarrow> (g', s', Inl e)
      | (g', s', Inr u) \<Rightarrow> prepare_response env g' s' cs)"

datatype guard_outcome = Handled | Rejected string | Decision_Accepted | Decision_Exhausted | Decision_Required

definition guard :: "decision_gate \<Rightarrow> string \<Rightarrow> string option \<Rightarrow> guard_outcome" where
  "guard g name call_id =
     (case rejection_code g call_id of
        Some code \<Rightarrow> Rejected code
      | None \<Rightarrow>
          if requires_user_answer_for g name then Rejected ''execution.question_required''
          else if name = ''execution_decision'' \<and> is_prepared_decision g call_id then Decision_Accepted
          else if allows g name call_id \<or> name = ''execution_decision'' then Handled
          else if is_exhausted g then Decision_Exhausted
          else Decision_Required)"

text \<open>
  A history: responses are prepared, then their calls run; a decision call that was not prepared
  reaches the tool, which admits it (\<open>execution_decision_tool\<close>).
\<close>

datatype gate_event = Response "tool_call list" | Tool string "string option" args

fun gate_step :: "'s gate_env \<Rightarrow> gate_event \<Rightarrow> decision_gate \<times> 's \<Rightarrow> decision_gate \<times> 's" where
  "gate_step env (Response calls) (g, s) = (case prepare_response env g s calls of (g', s', r) \<Rightarrow> (g', s'))"
| "gate_step env (Tool name call_id value) (g, s) =
     (if guard g name call_id = Handled \<and> name = ''execution_decision''
        then (case admit_decision env g s value of (g', s', r) \<Rightarrow> (g', s'))
      else (g, s))"

definition gate_run :: "'s gate_env \<Rightarrow> gate_event list \<Rightarrow> decision_gate \<times> 's \<Rightarrow> decision_gate \<times> 's" where
  "gate_run env es = fold (gate_step env) es"

section \<open>What an admission can change\<close>

definition spent :: "decision_gate \<Rightarrow> decision_gate \<Rightarrow> bool" where
  "spent g g' \<longleftrightarrow> g' = g \<or> (dg_repairs g \<noteq> 0 \<and> g' = g\<lparr>dg_repairs := dg_repairs g - 1\<rparr>)"

text \<open>\<open>d\<close> is decoded, meets the constraints, follows the current decision and enters the store.\<close>

definition admissible :: "'s gate_env \<Rightarrow> decision_gate \<Rightarrow> 's \<Rightarrow> execution_decision \<Rightarrow> bool" where
  "admissible env g s d \<longleftrightarrow>
     (\<exists>kvs. ge_decode env kvs = Inr d) \<and> constraint_error g d = None \<and> is_ok (store_decision env d s) \<and>
     (case dg_decision g of None \<Rightarrow> True | Some c \<Rightarrow> transition_error c d = None)"

lemma spend_repair_spent: "spend_repair g code = (g', r) \<Longrightarrow> spent g g' \<and> \<not> is_ok r"
  by (auto simp: spend_repair_def spent_def split: if_splits)

lemma spent_refl [simp]: "spent g g"
  by (simp add: spent_def)

lemma parse_decision_cases:
  "parse_decision env g value = (g', r) \<Longrightarrow>
     (spent g g' \<and> \<not> is_ok r) \<or> (\<exists>d kvs. r = Inr d \<and> g' = g \<and> ge_decode env kvs = Inr d)"
  by (auto simp: parse_decision_def split: sum.splits if_splits dest: spend_repair_spent)

lemma record_decision_cases:
  assumes "record_decision env g s d = (g', s', r)"
  shows "(spent g g' \<and> s' = s \<and> \<not> is_ok r) \<or>
     (g' = g\<lparr>dg_decision := Some d\<rparr> \<and> is_ok (store_decision env d s) \<and> (\<forall>x. r = Inr x \<longrightarrow> x = d))"
proof (cases "store_decision env d s")
  case (Inl e)
  then show ?thesis
    using assms by (auto simp: record_decision_def Let_def split: prod.splits dest: spend_repair_spent)
next
  case (Inr s1)
  then show ?thesis using assms by (auto simp: record_decision_def Let_def split: sum.splits)
qed

lemma admit_decision_cases:
  assumes "admit_decision env g s value = (g', s', r)"
  shows "(spent g g' \<and> s' = s \<and> \<not> is_ok r) \<or>
     (\<exists>d. admissible env g s d \<and> g' = g\<lparr>dg_decision := Some d\<rparr> \<and> (\<forall>x. r = Inr x \<longrightarrow> x = d))"
proof -
  obtain g1 r1 where p: "parse_decision env g value = (g1, r1)" by fastforce
  from parse_decision_cases [OF p] show ?thesis
  proof
    assume "spent g g1 \<and> \<not> is_ok r1"
    then show ?thesis using assms p by (cases r1) (auto simp: admit_decision_def)
  next
    assume "\<exists>d kvs. r1 = Inr d \<and> g1 = g \<and> ge_decode env kvs = Inr d"
    then obtain d kvs where d: "r1 = Inr d" "g1 = g" "ge_decode env kvs = Inr d" by blast
    show ?thesis
    proof (cases "constraint_error g d")
      case (Some code)
      then show ?thesis
        using assms p d by (auto simp: admit_decision_def Let_def split: prod.splits dest: spend_repair_spent)
    next
      case c: None
      have step: "record_decision env g s d = (g', s', r) \<Longrightarrow>
          (case dg_decision g of None \<Rightarrow> True | Some c \<Rightarrow> transition_error c d = None) \<Longrightarrow> ?thesis"
        using record_decision_cases [of env g s d g' s' r] c d(3) unfolding admissible_def by blast
      show ?thesis
      proof (cases "dg_decision g")
        case None
        then show ?thesis using assms p d c step by (simp add: admit_decision_def)
      next
        case (Some cur)
        then show ?thesis
          using assms p d c step by (cases "transition_error cur d") (auto simp: admit_decision_def)
      qed
    qed
  qed
qed

section \<open>Invariant\<close>

definition same_request_constraints :: "decision_gate \<Rightarrow> decision_gate \<Rightarrow> bool" where
  "same_request_constraints g g' \<longleftrightarrow> dg_mode g' = dg_mode g \<and> dg_agents g' = dg_agents g \<and>
     dg_profile g' = dg_profile g \<and> dg_requires_answer g' = dg_requires_answer g \<and>
     dg_answered g' = dg_answered g"

lemma constraint_error_same:
  "same_request_constraints g g' \<Longrightarrow> constraint_error g' d = constraint_error g d"
  by (simp add: same_request_constraints_def constraint_error_def)

definition gate_ok :: "'s gate_env \<Rightarrow> decision_gate \<Rightarrow> decision_gate \<Rightarrow> bool" where
  "gate_ok env g0 g \<longleftrightarrow>
     same_request_constraints g0 g \<and> 0 \<le> dg_repairs g \<and> dg_repairs g \<le> 2 \<and>
     (dg_prepared g \<noteq> [] \<longrightarrow> dg_decision g \<noteq> None) \<and>
     (\<forall>d. dg_decision g = Some d \<longrightarrow> constraint_error g0 d = None \<and> (\<exists>kvs. ge_decode env kvs = Inr d) \<and>
        (\<exists>t. is_ok (store_decision env d t)))"

lemma gate_ok_reject [simp]: "gate_ok env g0 (reject g i code) = gate_ok env g0 g"
  by (simp add: gate_ok_def reject_def same_request_constraints_def)

lemma gate_ok_spent: "gate_ok env g0 g \<Longrightarrow> spent g g' \<Longrightarrow> gate_ok env g0 g'"
  by (auto simp: gate_ok_def spent_def same_request_constraints_def)

lemma gate_ok_admit:
  assumes "gate_ok env g0 g" "admit_decision env g s value = (g', s', r)"
  shows "gate_ok env g0 g' \<and> (is_ok r \<longrightarrow> dg_decision g' \<noteq> None)"
  using admit_decision_cases [OF assms(2)]
proof
  assume "spent g g' \<and> s' = s \<and> \<not> is_ok r"
  then show ?thesis using assms(1) gate_ok_spent by blast
next
  assume "\<exists>d. admissible env g s d \<and> g' = g\<lparr>dg_decision := Some d\<rparr> \<and> (\<forall>x. r = Inr x \<longrightarrow> x = d)"
  then obtain d where d: "admissible env g s d" "g' = g\<lparr>dg_decision := Some d\<rparr>" by blast
  have "constraint_error g0 d = None"
    using d(1) assms(1) constraint_error_same by (auto simp: admissible_def gate_ok_def)
  then show ?thesis
    using assms(1) d by (auto simp: gate_ok_def same_request_constraints_def admissible_def)
qed

lemma gate_ok_prepare_call:
  assumes "gate_ok env g0 g" "prepare_call env g s c = (g', s', r)"
  shows "gate_ok env g0 g'"
proof -
  have p: "gate_ok env g0 (h\<lparr>dg_prepared := i # dg_prepared h\<rparr>)" if "gate_ok env g0 h" "dg_decision h \<noteq> None" for h i
    using that by (simp add: gate_ok_def same_request_constraints_def)
  show ?thesis
  proof (cases "\<exists>name i v. tc_name c = Some name \<and> tc_id c = Some i \<and> name = ''execution_decision'' \<and>
      tc_args c = Some v \<and> i \<notin> set (dg_prepared g) \<and> rejection_code g (Some i) = None \<and>
      \<not> requires_user_answer_for g name")
    case True
    then obtain i v where c: "tc_name c = Some ''execution_decision''" "tc_id c = Some i" "tc_args c = Some v"
      "i \<notin> set (dg_prepared g)" "rejection_code g (Some i) = None" "\<not> requires_user_answer_for g ''execution_decision''"
      by blast
    obtain g1 s1 r1 where a: "admit_decision env g s v = (g1, s1, r1)" by (metis prod_cases3)
    from gate_ok_admit [OF assms(1) a] have g1: "gate_ok env g0 g1" "is_ok r1 \<longrightarrow> dg_decision g1 \<noteq> None" by auto
    show ?thesis
    proof (cases r1)
      case (Inr d)
      then show ?thesis using assms(2) c a p [OF g1(1)] g1(2) by (auto simp: prepare_call_def)
    next
      case (Inl e)
      then show ?thesis using assms(2) c a g1(1) by (cases e) (auto simp: prepare_call_def)
    qed
  next
    case False
    then show ?thesis
      using assms by (auto simp: prepare_call_def split: option.splits if_splits)
  qed
qed

lemma gate_ok_prepare:
  "gate_ok env g0 g \<Longrightarrow> prepare_response env g s cs = (g', s', r) \<Longrightarrow> gate_ok env g0 g'"
proof (induction cs arbitrary: g s)
  case Nil
  then show ?case by simp
next
  case (Cons c cs)
  obtain g1 s1 r1 where p: "prepare_call env g s c = (g1, s1, r1)" by (metis prod_cases3)
  from gate_ok_prepare_call [OF Cons.prems(1) p] have "gate_ok env g0 g1" .
  then show ?case using Cons.IH [of g1 s1] Cons.prems(2) p by (cases r1) auto
qed

lemma gate_ok_step:
  assumes "gate_ok env g0 g" "gate_step env e (g, s) = (g', s')"
  shows "gate_ok env g0 g'"
proof (cases e)
  case (Response calls)
  obtain g1 s1 r where p: "prepare_response env g s calls = (g1, s1, r)" by (metis prod_cases3)
  from gate_ok_prepare [OF assms(1) p] show ?thesis using p assms(2) Response by simp
next
  case (Tool name i v)
  obtain g1 s1 r where a: "admit_decision env g s v = (g1, s1, r)" by (metis prod_cases3)
  from gate_ok_admit [OF assms(1) a] show ?thesis using a assms Tool by (simp split: if_splits)
qed

lemma gate_ok_run:
  "gate_ok env g0 g \<Longrightarrow> gate_run env es (g, s) = (g', s') \<Longrightarrow> gate_ok env g0 g'"
proof (induction es arbitrary: g s)
  case Nil
  then show ?case by (simp add: gate_run_def)
next
  case (Cons e es)
  obtain g1 s1 where e: "gate_step env e (g, s) = (g1, s1)" by fastforce
  from gate_ok_step [OF Cons.prems(1) e] Cons.IH [of g1 s1] Cons.prems(2) e show ?case
    by (simp add: gate_run_def)
qed

lemma new_gate_None:
  "new_gate None mode requires answered agents profile = Inr g \<Longrightarrow>
     gate_ok env g g \<and> dg_requires_answer g = requires \<and> dg_answered g = answered \<and> dg_decision g = None \<and>
     dg_repairs g = 2"
  by (auto simp: new_gate_def Let_def gate_ok_def same_request_constraints_def)

text \<open>
  Exhaustion is not a lock: a gate whose repairs are spent still admits the first valid decision.
\<close>

lemma exhausted_gate_admits:
  assumes "is_exhausted g" "normalize_decision_args (ge_loads env) (ge_str env) value = Inr kvs"
    and "ge_decode env kvs = Inr d" "constraint_error g d = None"
    and "store_decision env d s = Inr s1" "ge_persist env d s1 = Inr s2"
  shows "admit_decision env g s value = (g\<lparr>dg_decision := Some d\<rparr>, s2, Inr d)"
  using assms by (simp add: is_exhausted_def admit_decision_def parse_decision_def record_decision_def)

section \<open>Later decisions\<close>

text \<open>\<open>d\<close> is \<open>c\<close> itself or a planned decision whose plan has a higher revision.\<close>

definition follows :: "execution_decision \<Rightarrow> execution_decision \<Rightarrow> bool" where
  "follows c d \<longleftrightarrow> d = c \<or>
     (dec_mode d \<noteq> M_DIRECT \<and>
      (\<forall>p. dec_plan c = Some p \<longrightarrow> (\<exists>q. dec_plan d = Some q \<and> plan_revision p < plan_revision q)))"

lemma follows_refl [simp]: "follows c c"
  by (simp add: follows_def)

lemma follows_trans: "follows c d \<Longrightarrow> follows d e \<Longrightarrow> follows c e"
  by (fastforce simp: follows_def)

lemma transition_next:
  assumes "transition_error c d = None" "decision_contract d" "dec_plan c = Some p"
  shows "\<exists>q r. dec_plan d = Some q \<and> dec_revision d = Some r \<and> expected_revision r = plan_revision p \<and>
    plan_revision q = plan_revision p + 1"
proof -
  from assms(1,3) have "dec_mode d \<noteq> M_DIRECT" by (auto simp: transition_error_def split: if_splits)
  with assms(2) obtain q where q: "dec_plan d = Some q" by (auto simp: decision_contract_def)
  from assms(1,3) obtain r where "dec_revision d = Some r"
    by (auto simp: transition_error_def q split: if_splits option.splits)
  with assms q show ?thesis by (auto simp: transition_error_def split: if_splits)
qed

lemma transition_follows:
  "transition_error c d = None \<Longrightarrow> decision_contract d \<Longrightarrow> follows c d"
  using transition_next [of c d]
  by (cases "dec_plan c") (auto simp: follows_def transition_error_def split: if_splits)

text \<open>What a step of a history keeps: the decision moves forward, rejections stay.\<close>

definition moves_on :: "decision_gate \<Rightarrow> decision_gate \<Rightarrow> bool" where
  "moves_on g g' \<longleftrightarrow>
     (\<forall>c. dg_decision g = Some c \<longrightarrow> (\<exists>d. dg_decision g' = Some d \<and> follows c d)) \<and>
     (\<forall>i. rejection_code g i \<noteq> None \<longrightarrow> rejection_code g' i = rejection_code g i) \<and>
     dg_repairs g' \<le> dg_repairs g"

lemma rejection_code_update [simp]:
  "rejection_code (g\<lparr>dg_prepared := x\<rparr>) i = rejection_code g i"
  "rejection_code (g\<lparr>dg_repairs := n\<rparr>) i = rejection_code g i"
  "rejection_code (g\<lparr>dg_decision := d\<rparr>) i = rejection_code g i"
  by (cases i; simp add: rejection_code_def)+

lemma moves_on_refl [simp]: "moves_on g g"
  by (simp add: moves_on_def)

lemma moves_on_trans: "moves_on g h \<Longrightarrow> moves_on h k \<Longrightarrow> moves_on g k"
proof -
  assume gh: "moves_on g h" and hk: "moves_on h k"
  have "\<exists>d. dg_decision k = Some d \<and> follows c d" if "dg_decision g = Some c" for c
    using gh hk that follows_trans unfolding moves_on_def by blast
  moreover have "rejection_code k i = rejection_code g i" if "rejection_code g i \<noteq> None" for i
    using gh hk that unfolding moves_on_def by metis
  ultimately show ?thesis using gh hk by (simp add: moves_on_def)
qed

lemma moves_on_reject: "rejection_code g (Some i) = None \<Longrightarrow> moves_on g (reject g i code)"
  by (auto simp: moves_on_def reject_def rejection_code_def split: option.splits)

lemma moves_on_prepared: "moves_on g h \<Longrightarrow> moves_on g (h\<lparr>dg_prepared := x\<rparr>)"
  by (simp add: moves_on_def)

lemma moves_on_admit:
  assumes "\<And>kvs d. ge_decode env kvs = Inr d \<Longrightarrow> decision_contract d"
    and "admit_decision env g s v = (g', s', r)"
  shows "moves_on g g' \<and> dg_rejected g' = dg_rejected g"
  using admit_decision_cases [OF assms(2)]
proof
  assume "spent g g' \<and> s' = s \<and> \<not> is_ok r"
  then show ?thesis by (auto simp: spent_def moves_on_def)
next
  assume "\<exists>d. admissible env g s d \<and> g' = g\<lparr>dg_decision := Some d\<rparr> \<and> (\<forall>x. r = Inr x \<longrightarrow> x = d)"
  then obtain d where d: "admissible env g s d" "g' = g\<lparr>dg_decision := Some d\<rparr>" by blast
  then have "follows c d" if "dg_decision g = Some c" for c
    using that assms(1) by (auto simp: admissible_def intro: transition_follows)
  then show ?thesis using d(2) by (simp add: moves_on_def)
qed

lemma moves_on_prepare_call:
  assumes dec: "\<And>kvs d. ge_decode env kvs = Inr d \<Longrightarrow> decision_contract d"
    and c: "prepare_call env g s c = (g', s', r)"
  shows "moves_on g g'"
proof (cases "tc_name c = None \<or> tc_id c = None")
  case True
  with c show ?thesis by (auto simp: prepare_call_def split: option.splits)
next
  case False
  then obtain name i where ni: "tc_name c = Some name" "tc_id c = Some i" by auto
  show ?thesis
  proof (cases "i \<in> set (dg_prepared g) \<or> rejection_code g (Some i) \<noteq> None")
    case True
    with c ni show ?thesis by (auto simp: prepare_call_def)
  next
    case new: False
    note rej = moves_on_reject [of g i]
    show ?thesis
    proof (cases "requires_user_answer_for g name \<or> name \<noteq> ''execution_decision'' \<or> tc_args c = None")
      case True
      with c ni new rej show ?thesis by (auto simp: prepare_call_def split: if_splits option.splits)
    next
      case False
      then obtain v where v: "\<not> requires_user_answer_for g name" "name = ''execution_decision''" "tc_args c = Some v"
        by auto
      obtain g1 s1 r1 where a: "admit_decision env g s v = (g1, s1, r1)" by (metis prod_cases3)
      from moves_on_admit [OF dec a] have g1: "moves_on g g1" "dg_rejected g1 = dg_rejected g" by auto
      then have "rejection_code g1 (Some i) = None" using new by (simp add: rejection_code_def)
      then have "moves_on g (reject g1 i code)" for code
        using moves_on_trans [OF g1(1) moves_on_reject] by blast
      then show ?thesis
        using c ni new v a g1(1) moves_on_prepared [OF g1(1)]
        by (cases r1) (auto simp: prepare_call_def split: py_exn.splits)
    qed
  qed
qed

lemma moves_on_prepare:
  assumes dec: "\<And>kvs d. ge_decode env kvs = Inr d \<Longrightarrow> decision_contract d"
  shows "prepare_response env g s cs = (g', s', r) \<Longrightarrow> moves_on g g'"
proof (induction cs arbitrary: g s)
  case Nil
  then show ?case by simp
next
  case (Cons c cs)
  obtain g1 s1 r1 where p: "prepare_call env g s c = (g1, s1, r1)" by (metis prod_cases3)
  from moves_on_prepare_call [OF dec p] have m: "moves_on g g1" .
  show ?case
  proof (cases r1)
    case (Inl e)
    then show ?thesis using Cons.prems p m by simp
  next
    case (Inr u)
    then have "moves_on g1 g'" using Cons.IH [of g1 s1] Cons.prems p by simp
    with m show ?thesis by (rule moves_on_trans)
  qed
qed

lemma moves_on_run:
  assumes dec: "\<And>kvs d. ge_decode env kvs = Inr d \<Longrightarrow> decision_contract d"
  shows "gate_run env es (g, s) = (g', s') \<Longrightarrow> moves_on g g'"
proof (induction es arbitrary: g s)
  case Nil
  then show ?case by (simp add: gate_run_def)
next
  case (Cons e es)
  obtain g1 s1 where e: "gate_step env e (g, s) = (g1, s1)" by fastforce
  have "moves_on g g1"
  proof (cases e)
    case (Response calls)
    obtain g2 s2 r where p: "prepare_response env g s calls = (g2, s2, r)" by (metis prod_cases3)
    with moves_on_prepare [OF dec p] e Response show ?thesis by simp
  next
    case (Tool name i v)
    obtain g2 s2 r where a: "admit_decision env g s v = (g2, s2, r)" by (metis prod_cases3)
    with moves_on_admit [OF dec a] e Tool show ?thesis by (simp split: if_splits)
  qed
  moreover have "moves_on g1 g'" using Cons.IH [of g1 s1] Cons.prems e by (simp add: gate_run_def)
  ultimately show ?case by (rule moves_on_trans)
qed

section \<open>Properties\<close>

text \<open>
  C28: whatever the model answers and in whatever order its calls run, a tool call that reaches its
  handler was not rejected, and it is a question to the user, or the required answer is present and
  the call is a decision or an admitted decision exists; such a decision satisfies the decision
  contract and the constraints of the request and was accepted by the plan store.  The repair
  allowance never exceeds two.
\<close>
theorem operations_gated:
  assumes "new_gate None mode requires answered agents profile = Inr g0"
    and "\<forall>kvs d. ge_decode env kvs = Inr d \<longrightarrow> decision_contract d"
    and "gate_run env es (g0, s0) = (g, s)" and "guard g name call_id = Handled"
  shows "rejection_code g call_id = None \<and> 0 \<le> dg_repairs g \<and> dg_repairs g \<le> 2 \<and>
     (name = ''ask_user'' \<or>
      (requires \<longrightarrow> answered) \<and>
      (name = ''execution_decision'' \<or>
       (\<exists>d. dg_decision g = Some d \<and> decision_contract d \<and> constraint_error g0 d = None \<and>
          (\<exists>t. is_ok (store_decision env d t)))))"
proof -
  from new_gate_None [OF assms(1), of env] have g0: "gate_ok env g0 g0" "dg_requires_answer g0 = requires"
    "dg_answered g0 = answered" by auto
  from gate_ok_run [OF g0(1) assms(3)] have g: "gate_ok env g0 g" .
  from assms(4) have r: "rejection_code g call_id = None" and q: "\<not> requires_user_answer_for g name"
    and a: "allows g name call_id \<or> name = ''execution_decision''"
    by (auto simp: guard_def split: option.splits if_splits)
  have "name = ''ask_user'' \<or> (requires \<longrightarrow> answered)"
    using q g g0(2,3) by (auto simp: requires_user_answer_for_def gate_ok_def same_request_constraints_def)
  moreover have "name = ''ask_user'' \<or> name = ''execution_decision'' \<or>
      (\<exists>d. dg_decision g = Some d \<and> decision_contract d \<and> constraint_error g0 d = None \<and>
          (\<exists>t. is_ok (store_decision env d t)))"
    using a r g assms(2) by (auto simp: allows_def gate_ok_def split: if_splits)
  ultimately show ?thesis using r g by (auto simp: gate_ok_def)
qed

text \<open>
  C29: in every continuation of a history an admitted decision is never lost: it stays or is replaced
  by a planned or discovery decision whose plan has a strictly higher revision; a rejected call
  keeps its rejection and repairs are never given back.
\<close>
theorem decisions_move_forward:
  assumes "\<forall>kvs d. ge_decode env kvs = Inr d \<longrightarrow> decision_contract d"
    and "gate_run env es (g, s) = (g', s')"
  shows "(dg_decision g = Some c \<longrightarrow> (\<exists>d. dg_decision g' = Some d \<and> follows c d)) \<and>
     (rejection_code g i \<noteq> None \<longrightarrow> rejection_code g' i = rejection_code g i \<and> guard g' name i \<noteq> Handled) \<and>
     dg_repairs g' \<le> dg_repairs g"
proof -
  have "moves_on g g'" using assms by (intro moves_on_run) auto
  then show ?thesis by (auto simp: moves_on_def guard_def)
qed

definition ex_checkpoint :: plan_node where
  "ex_checkpoint = \<lparr>local_id = ''c'', node_kind = K_CHECKPOINT, objective = ''look'', depends_on = [],
     acceptance_criteria = [], node_inputs = [], output_contract = None, effect_scope = E_READ,
     resource_scopes = [], task_features = [], artifact_refs = [], task_lineage = None\<rparr>"

definition ex_decision :: "int \<Rightarrow> execution_decision" where
  "ex_decision n = \<lparr>dec_mode = M_PLANNED, dec_objective = ''o'', dec_constraints = [], dec_reason = ''r'',
     dec_plan = Some \<lparr>schema_version = 1, policy_version = ''adaptive-v1'', plan_revision = n,
       plan_nodes = [ex_checkpoint]\<rparr>,
     dec_revision = (if n = 1 then None else Some \<lparr>expected_revision = n - 1, added_nodes = [],
       replaced_local_ids = [], cancelled_local_ids = [''c''], justification = ''j'', evidence_refs = [''e'']\<rparr>)\<rparr>"

text \<open>The store of the example is the list of accepted plan revisions.\<close>

definition ex_gate_env :: "int list gate_env" where
  "ex_gate_env = \<lparr>ge_loads = (\<lambda>_. None), ge_str = (\<lambda>_. ''''),
     ge_decode = (\<lambda>kvs. case map_of kvs ''reason'' of
        Some (JStr s) \<Rightarrow> if s = ''first'' then Inr (ex_decision 1) else if s = ''next'' then Inr (ex_decision 2)
          else Inl ''plan_required''
      | _ \<Rightarrow> Inl ''missing''),
     ge_admit = (\<lambda>p s. Inr (plan_revision p # s)),
     ge_revise = Some (\<lambda>r p s. Inr (plan_revision p # s)),
     ge_persist = (\<lambda>d s. Inr s)\<rparr>"

definition ex_gate_events :: "string \<Rightarrow> gate_event list" where
  "ex_gate_events reason =
     [Response [\<lparr>tc_name = Some ''write_file'', tc_id = Some ''1'', tc_args = None\<rparr>,
        \<lparr>tc_name = Some ''execution_decision'', tc_id = Some ''2'', tc_args = Some [(''reason'', JStr reason)]\<rparr>,
        \<lparr>tc_name = Some ''write_file'', tc_id = Some ''3'', tc_args = None\<rparr>]]"

definition ex_gate :: decision_gate where
  "ex_gate = got (new_gate None None True True None None)"

lemma ex_decode_contract: "ge_decode ex_gate_env kvs = Inr d \<Longrightarrow> decision_contract d"
proof -
  have "decision_contract (ex_decision 1)" "decision_contract (ex_decision 2)"
    by (simp_all add: decision_contract_def ex_decision_def)
  then show "ge_decode ex_gate_env kvs = Inr d \<Longrightarrow> decision_contract d"
    by (auto simp: ex_gate_env_def split: option.splits json.splits if_splits)
qed

theorem operations_gated_witness:
  "(case gate_run ex_gate_env (ex_gate_events ''first'') (ex_gate, []) of (g, s) \<Rightarrow>
      s = [1] \<and> guard g ''write_file'' (Some ''1'') = Rejected ''execution.decision_required'' \<and>
      guard g ''write_file'' (Some ''3'') = Handled \<and>
      (\<exists>d. dg_decision g = Some d \<and> decision_contract d \<and> constraint_error ex_gate d = None))"
proof -
  obtain g s where g: "gate_run ex_gate_env (ex_gate_events ''first'') (ex_gate, []) = (g, s)" by fastforce
  have 1: "(case gate_run ex_gate_env (ex_gate_events ''first'') (ex_gate, []) of (g, s) \<Rightarrow>
      s = [1] \<and> guard g ''write_file'' (Some ''1'') = Rejected ''execution.decision_required'' \<and>
      guard g ''write_file'' (Some ''3'') = Handled)" by code_simp
  have "is_ok (new_gate None None True True None None)" by code_simp
  then have "new_gate None None True True None None = Inr ex_gate"
    by (auto simp: ex_gate_def got_def is_ok_iff)
  note made = this
  have "guard g ''write_file'' (Some ''3'') = Handled" using 1 g by simp
  from operations_gated [OF made _ g this] ex_decode_contract
  have "\<exists>d. dg_decision g = Some d \<and> decision_contract d \<and> constraint_error ex_gate d = None" by auto
  then show ?thesis using 1 g by simp
qed

theorem decisions_move_forward_witness:
  "(case gate_run ex_gate_env (ex_gate_events ''first'') (ex_gate, []) of (g, s) \<Rightarrow>
      case gate_run ex_gate_env [Tool ''execution_decision'' (Some ''4'') [(''reason'', JStr ''next'')]] (g, s) of (g', s') \<Rightarrow>
        s' = [2, 1] \<and> guard g' ''write_file'' (Some ''1'') \<noteq> Handled)"
proof -
  obtain g s where g: "gate_run ex_gate_env (ex_gate_events ''first'') (ex_gate, []) = (g, s)" by fastforce
  obtain g' s' where g': "gate_run ex_gate_env [Tool ''execution_decision'' (Some ''4'') [(''reason'', JStr ''next'')]] (g, s) = (g', s')"
    by fastforce
  have "(case gate_run ex_gate_env (ex_gate_events ''first'') (ex_gate, []) of (g, s) \<Rightarrow>
      case gate_run ex_gate_env [Tool ''execution_decision'' (Some ''4'') [(''reason'', JStr ''next'')]] (g, s) of (g', s') \<Rightarrow>
        s' = [2, 1] \<and> rejection_code g (Some ''1'') = Some ''execution.decision_required'')" by code_simp
  then have 1: "s' = [2, 1]" "rejection_code g (Some ''1'') \<noteq> None" using g g' by auto
  from decisions_move_forward [OF _ g', of _ "Some ''1''" "''write_file''"] ex_decode_contract 1(2)
  have "guard g' ''write_file'' (Some ''1'') \<noteq> Handled" by blast
  then show ?thesis using g g' 1(1) by simp
qed

end
