(* ===== verification/Event_Bus.thy ===== *)
theory Event_Bus
  imports Assignment
begin

text \<open>
  The in-process event bus (\<open>src/src/skail/runtime/event_bus.py\<close>): it numbers the events of a
  run after the journal, persists them and hands them to the queues subscribed to the run and to the
  listeners.  A queue is unbounded, so putting an event never fails; what a listener does with an
  event is not part of the bus (its exceptions are swallowed), so \<open>eb_heard\<close> only logs the calls.
  Publishing holds the lock from the numbering to the snapshot of the subscribers and does not wait
  in between, so it is one step.
\<close>

record event_bus =
  eb_sequences :: "string \<Rightarrow> int"
  eb_subscribers :: "string \<Rightarrow> nat list"
  eb_queues :: "nat \<Rightarrow> envelope_row list"
  eb_listeners :: "nat list"
  eb_heard :: "(nat \<times> envelope_row) list"

definition new_bus :: event_bus where
  "new_bus = \<lparr>eb_sequences = (\<lambda>_. 0), eb_subscribers = (\<lambda>_. []), eb_queues = (\<lambda>_. []),
     eb_listeners = [], eb_heard = []\<rparr>"

definition add_listener :: "event_bus \<Rightarrow> nat \<Rightarrow> event_bus" where
  "add_listener bus l = bus\<lparr>eb_listeners := List.insert l (eb_listeners bus)\<rparr>"

definition remove_listener :: "event_bus \<Rightarrow> nat \<Rightarrow> event_bus" where
  "remove_listener bus l = bus\<lparr>eb_listeners := removeAll l (eb_listeners bus)\<rparr>"

definition replay_from :: "'a journal_db_scheme option \<Rightarrow> string \<Rightarrow> int \<Rightarrow> envelope_row list" where
  "replay_from journal rid cursor =
     (case journal of None \<Rightarrow> [] | Some db \<Rightarrow> events_after db rid cursor)"

definition deliver :: "event_bus \<Rightarrow> envelope_row \<Rightarrow> nat list \<Rightarrow> event_bus" where
  "deliver bus e queues =
     bus\<lparr>eb_queues := (\<lambda>q. if q \<in> set queues then eb_queues bus q @ [e] else eb_queues bus q),
         eb_heard := eb_heard bus @ map (\<lambda>l. (l, e)) (eb_listeners bus)\<rparr>"

definition publish ::
  "event_bus \<Rightarrow> 'a journal_db_scheme option \<Rightarrow> string \<Rightarrow> string \<Rightarrow> (int \<Rightarrow> string) \<Rightarrow>
     (event_bus \<times> 'a journal_db_scheme option \<times> envelope_row) res" where
  "publish bus journal rid event_id json =
     (case journal of
        None \<Rightarrow>
          let n = eb_sequences bus rid + 1;
              e = \<lparr>en_id = event_id, en_run = rid, en_seq = n, en_json = json n\<rparr>
          in Inr (deliver (bus\<lparr>eb_sequences := (eb_sequences bus)(rid := n)\<rparr>) e (eb_subscribers bus rid), None, e)
      | Some db \<Rightarrow>
          let n = max (eb_sequences bus rid) (last_sequence db rid) + 1;
              e = \<lparr>en_id = event_id, en_run = rid, en_seq = n, en_json = json n\<rparr>
          in res_bind (append_event db e) (\<lambda>db'.
            Inr (deliver (bus\<lparr>eb_sequences := (eb_sequences bus)(rid := n)\<rparr>) e (eb_subscribers bus rid), Some db', e)))"

definition publish_persisted_nowait :: "event_bus \<Rightarrow> envelope_row \<Rightarrow> event_bus" where
  "publish_persisted_nowait bus e =
     deliver (bus\<lparr>eb_sequences := (eb_sequences bus)(en_run e := max (eb_sequences bus (en_run e)) (en_seq e))\<rparr>)
       e (eb_subscribers bus (en_run e))"

text \<open>\<open>subscribe\<close> is a generator: it registers a queue when it starts, hands out the queue's
  events one by one, and unregisters the queue when it is closed.\<close>

definition subscribe :: "event_bus \<Rightarrow> string \<Rightarrow> nat \<Rightarrow> event_bus" where
  "subscribe bus rid q =
     bus\<lparr>eb_subscribers := (eb_subscribers bus)(rid := List.insert q (eb_subscribers bus rid)),
         eb_queues := (eb_queues bus)(q := [])\<rparr>"

definition receive :: "event_bus \<Rightarrow> nat \<Rightarrow> (envelope_row \<times> event_bus) option" where
  "receive bus q =
     (case eb_queues bus q of
        [] \<Rightarrow> None
      | e # es \<Rightarrow> Some (e, bus\<lparr>eb_queues := (eb_queues bus)(q := es)\<rparr>))"

definition unsubscribe :: "event_bus \<Rightarrow> string \<Rightarrow> nat \<Rightarrow> event_bus" where
  "unsubscribe bus rid q =
     bus\<lparr>eb_subscribers := (eb_subscribers bus)(rid := removeAll q (eb_subscribers bus rid))\<rparr>"

section \<open>The log grows at its end\<close>

lemma fold_max_ge: "(m :: int) \<le> fold max xs m \<and> (\<forall>x \<in> set xs. x \<le> fold max xs m)"
proof (induction xs arbitrary: m)
  case (Cons x xs)
  from Cons [of "max x m"] show ?case by auto
qed simp

lemma last_sequence_ge: "e \<in> set (jd_events db) \<Longrightarrow> en_seq e \<le> last_sequence db (en_run e)"
  using fold_max_ge [of 0 "map en_seq (filter (\<lambda>x. en_run x = en_run e) (jd_events db))"]
  by (auto simp: last_sequence_def)

lemma insort_key_last: "f x < f e \<Longrightarrow> insort_key f x (ys @ [e]) = insort_key f x ys @ [e]"
  by (induction ys) auto

lemma sort_key_last: "\<forall>x \<in> set xs. f x < f e \<Longrightarrow> sort_key f (xs @ [e]) = sort_key f xs @ [e]"
  by (induction xs) (auto simp: insort_key_last)

text \<open>An event numbered after the last one of its run is added at the end of the run's log.\<close>

lemma append_new_event:
  assumes "append_event db e = Inr db'" and "last_sequence db (en_run e) < en_seq e" and "en_id e \<notin> en_id ` set (jd_events db)"
  shows "jd_events db' = jd_events db @ [e]"
    and "events_after db' rid c = events_after db rid c @ (if en_run e = rid \<and> c < en_seq e then [e] else [])"
    and "last_sequence db' rid = (if en_run e = rid then max (last_sequence db rid) (en_seq e) else last_sequence db rid)"
proof -
  obtain rows where ins: "insert_idempotent (envelope_clash db) en_id en_json (jd_events db) e = Inr rows"
    and db': "db' = db\<lparr>jd_events := rows\<rparr>"
    using assms(1) by (auto simp: append_event_def res_simps)
  have "rows = jd_events db @ [e]"
    using events_table.insert_cases [OF ins] assms(3) by (metis image_eqI)
  then show j: "jd_events db' = jd_events db @ [e]" by (simp add: db')
  have "\<forall>x \<in> set (filter (\<lambda>e. en_run e = rid \<and> c < en_seq e) (jd_events db)). en_seq x < en_seq e" if "en_run e = rid"
    using that assms(2) last_sequence_ge by fastforce
  then show "events_after db' rid c = events_after db rid c @ (if en_run e = rid \<and> c < en_seq e then [e] else [])"
    by (auto simp: events_after_def j sort_key_last)
  show "last_sequence db' rid = (if en_run e = rid then max (last_sequence db rid) (en_seq e) else last_sequence db rid)"
    by (simp add: last_sequence_def j max.commute)
qed

lemma events_after_last [simp]: "events_after db rid (last_sequence db rid) = []"
proof -
  have "filter (\<lambda>e. en_run e = rid \<and> last_sequence db rid < en_seq e) (jd_events db) = []"
    using last_sequence_ge [of _ db] by (auto simp: filter_empty_conv not_less)
  then show ?thesis by (simp only: events_after_def sort_key_simps)
qed

section \<open>A subscription and the log\<close>

text \<open>
  The bus of one process with its journal and the subscriptions opened so far: what each has
  received, the run it follows and the last number of the run when it started.
\<close>

record 'a stream_state =
  st_bus :: event_bus
  st_db :: "'a journal_db_scheme"
  st_got :: "nat \<Rightarrow> envelope_row list"
  st_start :: "nat \<Rightarrow> (string \<times> int) option"

inductive stream_step :: "'a stream_state \<Rightarrow> 'a stream_state \<Rightarrow> bool" where
  published: "publish (st_bus s) (Some (st_db s)) rid i json = Inr (bus, Some db, e) \<Longrightarrow>
     i \<notin> en_id ` set (jd_events (st_db s)) \<Longrightarrow> stream_step s (s\<lparr>st_bus := bus, st_db := db\<rparr>)"
| committed: "append_event (st_db s) e = Inr db \<Longrightarrow> en_seq e = last_sequence (st_db s) (en_run e) + 1 \<Longrightarrow>
     en_id e \<notin> en_id ` set (jd_events (st_db s)) \<Longrightarrow>
     stream_step s (s\<lparr>st_bus := publish_persisted_nowait (st_bus s) e, st_db := db\<rparr>)"
| subscribed: "st_start s q = None \<Longrightarrow>
     stream_step s (s\<lparr>st_bus := subscribe (st_bus s) rid q,
       st_start := (st_start s)(q \<mapsto> (rid, last_sequence (st_db s) rid))\<rparr>)"
| received: "receive (st_bus s) q = Some (e, bus) \<Longrightarrow>
     stream_step s (s\<lparr>st_bus := bus, st_got := (st_got s)(q := st_got s q @ [e])\<rparr>)"
| closed: "st_start s q = Some (rid, c) \<Longrightarrow>
     stream_step s (s\<lparr>st_bus := unsubscribe (st_bus s) rid q\<rparr>)"
| listened: "stream_step s (s\<lparr>st_bus := add_listener (st_bus s) l\<rparr>)"
| unlistened: "stream_step s (s\<lparr>st_bus := remove_listener (st_bus s) l\<rparr>)"

definition stream_start :: "'a journal_db_scheme \<Rightarrow> 'a stream_state" where
  "stream_start db = \<lparr>st_bus = new_bus, st_db = db, st_got = (\<lambda>_. []), st_start = (\<lambda>_. None)\<rparr>"

definition stream_of :: "'a stream_state \<Rightarrow> nat \<Rightarrow> envelope_row list" where
  "stream_of s q = st_got s q @ eb_queues (st_bus s) q"

definition stream_ok :: "'a stream_state \<Rightarrow> bool" where
  "stream_ok s \<longleftrightarrow>
     (\<forall>rid. eb_sequences (st_bus s) rid \<le> last_sequence (st_db s) rid) \<and>
     (\<forall>rid q. q \<in> set (eb_subscribers (st_bus s) rid) \<longrightarrow>
        (\<exists>c. st_start s q = Some (rid, c) \<and> c \<le> last_sequence (st_db s) rid \<and>
           stream_of s q = events_after (st_db s) rid c)) \<and>
     (\<forall>q. st_start s q = None \<longrightarrow> stream_of s q = [])"

lemma stream_okD:
  assumes "stream_ok s" and "q \<in> set (eb_subscribers (st_bus s) rid)"
  obtains c where "st_start s q = Some (rid, c)" "c \<le> last_sequence (st_db s) rid"
    "stream_of s q = events_after (st_db s) rid c"
  using assms unfolding stream_ok_def by blast

text \<open>The two ways an event reaches the bus have the same effect.\<close>

lemma deliver_ok:
  assumes ok: "stream_ok s" and a: "append_event (st_db s) e = Inr db"
    and n: "en_seq e = last_sequence (st_db s) (en_run e) + 1" and i: "en_id e \<notin> en_id ` set (jd_events (st_db s))"
    and m: "m = en_seq e"
  shows "stream_ok (s\<lparr>st_bus := deliver ((st_bus s)\<lparr>eb_sequences := (eb_sequences (st_bus s))(en_run e := m)\<rparr>) e
       (eb_subscribers (st_bus s) (en_run e)), st_db := db\<rparr>)"
proof -
  have less: "last_sequence (st_db s) (en_run e) < en_seq e" using n by simp
  note new = append_new_event [OF a less i]
  have seqs: "eb_sequences (st_bus s) rid \<le> last_sequence (st_db s) rid" for rid
    using ok by (simp add: stream_ok_def)
  let ?t = "s\<lparr>st_bus := deliver ((st_bus s)\<lparr>eb_sequences := (eb_sequences (st_bus s))(en_run e := m)\<rparr>) e
       (eb_subscribers (st_bus s) (en_run e)), st_db := db\<rparr>"
  have of: "stream_of ?t q =
      stream_of s q @ (if q \<in> set (eb_subscribers (st_bus s) (en_run e)) then [e] else [])" for q
    by (simp add: stream_of_def deliver_def)
  have subs: "\<exists>c. st_start s q = Some (rid, c) \<and> c \<le> last_sequence db rid \<and> stream_of ?t q = events_after db rid c"
    if q: "q \<in> set (eb_subscribers (st_bus s) rid)" for q rid
  proof -
    from ok q obtain c where c: "st_start s q = Some (rid, c)" "c \<le> last_sequence (st_db s) rid"
      "stream_of s q = events_after (st_db s) rid c" by (rule stream_okD)
    have "q \<in> set (eb_subscribers (st_bus s) (en_run e)) \<longleftrightarrow> en_run e = rid"
      using stream_okD [OF ok] q c(1) by (metis option.inject prod.inject)
    with c less show ?thesis by (auto simp: new(2,3) of)
  qed
  have rest: "stream_of ?t q = []" if "st_start s q = None" for q
    using ok that stream_okD [OF ok, of q "en_run e"] by (auto simp: stream_ok_def of)
  show ?thesis
    unfolding stream_ok_def
  proof (intro conjI allI impI)
    show "eb_sequences (st_bus ?t) rid \<le> last_sequence (st_db ?t) rid" for rid
      using seqs by (simp add: deliver_def new(3) m)
  qed (use subs rest in \<open>simp_all add: deliver_def\<close>)
qed

lemma stream_step_ok: "stream_step s t \<Longrightarrow> stream_ok s \<Longrightarrow> stream_ok t"
proof (induction rule: stream_step.induct)
  case (published s rid i json bus db e)
  have "eb_sequences (st_bus s) rid \<le> last_sequence (st_db s) rid" using published.prems by (simp add: stream_ok_def)
  then have mx: "max (eb_sequences (st_bus s) rid) (last_sequence (st_db s) rid) = last_sequence (st_db s) rid" by simp
  from published.hyps(1) have e: "e = \<lparr>en_id = i, en_run = rid, en_seq = last_sequence (st_db s) rid + 1,
        en_json = json (last_sequence (st_db s) rid + 1)\<rparr>"
    and "append_event (st_db s) e = Inr db"
    and "bus = deliver ((st_bus s)\<lparr>eb_sequences := (eb_sequences (st_bus s))(rid := last_sequence (st_db s) rid + 1)\<rparr>) e
       (eb_subscribers (st_bus s) rid)"
    by (auto simp: publish_def Let_def res_simps mx)
  with published deliver_ok [OF published.prems, of e db "en_seq e"] show ?case by simp
next
  case (committed s e db)
  have "max (eb_sequences (st_bus s) (en_run e)) (en_seq e) = en_seq e"
    using committed by (auto simp: stream_ok_def max_def dest: spec [of _ "en_run e"])
  with committed deliver_ok [OF committed.prems, of e db "en_seq e"] show ?case
    by (simp add: publish_persisted_nowait_def)
next
  case (subscribed s q rid)
  have "q \<notin> set (eb_subscribers (st_bus s) r)" for r
    using subscribed stream_okD [of s q r] by force
  moreover have "st_got s q = []" using subscribed by (simp add: stream_ok_def stream_of_def)
  ultimately show ?case
    using subscribed by (auto simp: stream_ok_def subscribe_def stream_of_def)
next
  case (received s q e bus)
  then obtain es where "eb_queues (st_bus s) q = e # es" "bus = (st_bus s)\<lparr>eb_queues := (eb_queues (st_bus s))(q := es)\<rparr>"
    by (auto simp: receive_def split: list.splits)
  then have "stream_of (s\<lparr>st_bus := bus, st_got := (st_got s)(q := st_got s q @ [e])\<rparr>) = stream_of s"
    and "eb_subscribers bus = eb_subscribers (st_bus s)" "eb_sequences bus = eb_sequences (st_bus s)"
    by (auto simp: stream_of_def fun_eq_iff)
  with received.prems show ?case unfolding stream_ok_def by simp
next
  case (closed s q rid c)
  then show ?case by (simp add: stream_ok_def unsubscribe_def stream_of_def)
qed (simp_all add: stream_ok_def stream_of_def add_listener_def remove_listener_def)


definition ex_stream :: "unit stream_state" where
  "ex_stream = (stream_start ex_journal)\<lparr>st_bus := subscribe new_bus ''r'' 0, st_start := [0 \<mapsto> (''r'', 0)]\<rparr>"


end
