(* ===== verification/Questions.thy ===== *)
theory Questions
  imports Prelude
begin

text \<open>
  The questions a run asks its user (\<open>QuestionStore\<close> of \<open>src/src/skail/runtime/interrupts.py\<close>):
  a table in insertion order with a primary key and a unique idempotency key.  The fresh identifier
  is an argument; the JSON text of the options is the list itself.
\<close>

record question =
  qu_id :: string
  qu_graph :: string
  qu_task :: "string option"
  qu_prompt :: string
  qu_options :: "string list"
  qu_reason :: string
  qu_scope :: string
  qu_status :: string
  qu_answer :: "string option"
  qu_key :: string

definition ask ::
  "question list \<Rightarrow> string \<Rightarrow> string \<Rightarrow> string option \<Rightarrow> string \<Rightarrow> string \<Rightarrow> string \<Rightarrow> string \<Rightarrow> string list \<Rightarrow>
     (question list \<times> question) res" where
  "ask rows fresh graph task prompt reason scope key options =
     (case first_such (\<lambda>q. qu_key q = key) rows of
        Some q \<Rightarrow> Inr (rows, q)
      | None \<Rightarrow>
          if list_ex (\<lambda>q. qu_id q = fresh) rows then Inl (IntegrityError ''UNIQUE constraint failed: questions.question_id'')
          else let q = \<lparr>qu_id = fresh, qu_graph = graph, qu_task = task, qu_prompt = prompt, qu_options = options,
                 qu_reason = reason, qu_scope = scope, qu_status = ''pending'', qu_answer = None, qu_key = key\<rparr>
               in Inr (rows @ [q], q))"

definition pending_questions :: "question list \<Rightarrow> string \<Rightarrow> question list" where
  "pending_questions rows graph = filter (\<lambda>q. qu_graph q = graph \<and> qu_status q = ''pending'') rows"

definition question_by_id :: "question list \<Rightarrow> string \<Rightarrow> question option" where
  "question_by_id rows i = first_such (\<lambda>q. qu_id q = i) rows"

definition question_transition ::
  "question list \<Rightarrow> string \<Rightarrow> string \<Rightarrow> string \<Rightarrow> string option \<Rightarrow> (question list \<times> question) res" where
  "question_transition rows i graph status answer =
     (case question_by_id rows i of
        None \<Rightarrow> Inl (StaleAnswerError ''question is invalid, stale, or belongs to another graph'')
      | Some q \<Rightarrow>
          if qu_graph q \<noteq> graph \<or> qu_status q \<noteq> ''pending''
            then Inl (StaleAnswerError ''question is invalid, stale, or belongs to another graph'')
          else if (case answer of Some a \<Rightarrow> qu_options q \<noteq> [] \<and> a \<notin> set (qu_options q) | None \<Rightarrow> False)
            then Inl (ValueError ''answer is not one of the question options'')
          else Inr (map (\<lambda>r. if qu_id r = i then r\<lparr>qu_status := status, qu_answer := answer\<rparr> else r) rows,
                    q\<lparr>qu_status := status, qu_answer := answer\<rparr>))"

definition answer_question :: "question list \<Rightarrow> string \<Rightarrow> string \<Rightarrow> string \<Rightarrow> (question list \<times> question) res" where
  "answer_question rows i answer graph = question_transition rows i graph ''answered'' (Some answer)"

definition cancel_question :: "question list \<Rightarrow> string \<Rightarrow> string \<Rightarrow> (question list \<times> question) res" where
  "cancel_question rows i graph = question_transition rows i graph ''cancelled'' None"

text \<open>A history of the store; an operation that raises leaves the table as it is.\<close>

inductive question_step :: "question list \<Rightarrow> question list \<Rightarrow> bool" where
  asked: "ask rows fresh graph task prompt reason scope key options = Inr (rows', q) \<Longrightarrow> question_step rows rows'"
| answered: "answer_question rows i answer graph = Inr (rows', q) \<Longrightarrow> question_step rows rows'"
| cancelled: "cancel_question rows i graph = Inr (rows', q) \<Longrightarrow> question_step rows rows'"

definition decision_ok :: "question \<Rightarrow> bool" where
  "decision_ok q \<longleftrightarrow>
     (case qu_answer q of
        None \<Rightarrow> qu_status q = ''pending'' \<or> qu_status q = ''cancelled''
      | Some a \<Rightarrow> qu_status q = ''answered'' \<and> (qu_options q = [] \<or> a \<in> set (qu_options q)))"

definition questions_ok :: "question list \<Rightarrow> bool" where
  "questions_ok rows \<longleftrightarrow> distinct (map qu_id rows) \<and> distinct (map qu_key rows) \<and> (\<forall>q \<in> set rows. decision_ok q)"

text \<open>What one question may become: itself, or decided if it is still open.\<close>

definition question_le :: "question \<Rightarrow> question \<Rightarrow> bool" where
  "question_le q q' \<longleftrightarrow> q' = q\<lparr>qu_status := qu_status q', qu_answer := qu_answer q'\<rparr> \<and>
     (qu_status q = ''pending'' \<or> q' = q)"

lemma question_le_refl [simp]: "question_le q q"
  by (simp add: question_le_def)

lemma question_le_trans: "question_le a b \<Longrightarrow> question_le b c \<Longrightarrow> question_le a c"
  by (cases a; cases b; cases c) (auto simp: question_le_def)

lemma question_le_keys: "question_le q q' \<Longrightarrow> qu_id q' = qu_id q \<and> qu_key q' = qu_key q"
  by (cases q; cases q') (auto simp: question_le_def)

lemma transition_rows:
  assumes "question_transition rows i graph status answer = Inr (rows', q)"
  shows "\<exists>q0 \<in> set rows. qu_id q0 = i \<and> qu_graph q0 = graph \<and> qu_status q0 = ''pending'' \<and>
     (\<forall>a. answer = Some a \<longrightarrow> qu_options q0 = [] \<or> a \<in> set (qu_options q0)) \<and>
     rows' = map (\<lambda>r. if qu_id r = i then r\<lparr>qu_status := status, qu_answer := answer\<rparr> else r) rows"
proof -
  obtain q0 where f: "question_by_id rows i = Some q0"
    using assms by (auto simp: question_transition_def split: option.splits)
  then have "q0 \<in> set rows" "qu_id q0 = i" by (auto simp: question_by_id_def dest: first_such_Some)
  with f assms show ?thesis
    by (intro bexI [of _ q0]) (auto simp: question_transition_def split: option.splits if_splits)
qed

definition questions_le :: "question list \<Rightarrow> question list \<Rightarrow> bool" where
  "questions_le rows rows' \<longleftrightarrow> (\<forall>q \<in> set rows. \<exists>q' \<in> set rows'. question_le q q')"

lemma questions_le_mono: "set rows \<subseteq> set rows' \<Longrightarrow> questions_le rows rows'"
  by (auto simp: questions_le_def intro: question_le_refl)

lemma transition_ok:
  assumes ok: "questions_ok rows" and t: "question_transition rows i graph status answer = Inr (rows', q)"
    and "(status = ''cancelled'' \<and> answer = None) \<or> (status = ''answered'' \<and> answer \<noteq> None)"
  shows "questions_ok rows' \<and> questions_le rows rows'"
proof -
  let ?f = "\<lambda>r. if qu_id r = i then r\<lparr>qu_status := status, qu_answer := answer\<rparr> else r"
  obtain q0 where q0: "q0 \<in> set rows" "qu_id q0 = i" "qu_status q0 = ''pending''"
    "\<And>a. answer = Some a \<Longrightarrow> qu_options q0 = [] \<or> a \<in> set (qu_options q0)" and rows': "rows' = map ?f rows"
    using transition_rows [OF t] by blast
  have "distinct (map qu_id rows)" using ok by (simp add: questions_ok_def)
  then have only: "r = q0" if "r \<in> set rows" "qu_id r = i" for r
    using that q0(1,2) by (auto simp: distinct_map dest: inj_onD)
  have keys: "map qu_id rows' = map qu_id rows" "map qu_key rows' = map qu_key rows"
    by (auto simp: rows')
  have "decision_ok (?f r) \<and> question_le r (?f r)" if r: "r \<in> set rows" for r
  proof (cases "qu_id r = i")
    case True
    with only [OF r] q0(3,4) assms(3) show ?thesis
      by (auto simp: decision_ok_def question_le_def split: option.splits)
  next
    case False
    with r ok show ?thesis by (simp add: questions_ok_def)
  qed
  then have "\<forall>r \<in> set rows'. decision_ok r" "questions_le rows rows'"
    unfolding rows' questions_le_def set_map by blast+
  then show ?thesis using ok keys by (simp add: questions_ok_def)
qed

lemma question_step_ok:
  assumes "question_step rows rows'" and "questions_ok rows"
  shows "questions_ok rows' \<and> questions_le rows rows'"
  using assms
proof cases
  case (asked fresh graph task prompt reason scope key options q)
  have new: "decision_ok \<lparr>qu_id = fresh, qu_graph = graph, qu_task = task, qu_prompt = prompt, qu_options = options,
      qu_reason = reason, qu_scope = scope, qu_status = ''pending'', qu_answer = None, qu_key = key\<rparr>"
    by (simp add: decision_ok_def)
  show ?thesis
  proof (cases "first_such (\<lambda>q. qu_key q = key) rows")
    case None
    with asked obtain r where r: "rows' = rows @ [r]" "decision_ok r" "qu_id r = fresh" "qu_key r = key"
      and "\<forall>q \<in> set rows. qu_id q \<noteq> fresh"
      using new by (auto simp: ask_def list_ex_iff Let_def split: if_splits)
    moreover have "\<forall>q \<in> set rows. qu_key q \<noteq> key" using None by (simp add: first_such_None)
    ultimately show ?thesis using assms(2) by (auto simp: questions_ok_def intro!: questions_le_mono)
  next
    case (Some a)
    with asked have "rows' = rows" by (simp add: ask_def)
    with assms(2) show ?thesis by (simp add: questions_le_mono)
  qed
next
  case (answered i answer graph q)
  then show ?thesis
    using transition_ok [OF assms(2), of i graph "''answered''" "Some answer" rows' q]
    by (simp add: answer_question_def)
next
  case (cancelled i graph q)
  then show ?thesis
    using transition_ok [OF assms(2), of i graph "''cancelled''" None rows' q]
    by (simp add: cancel_question_def)
qed

text \<open>
  A question is decided once.  In every history of the store identifiers and idempotency keys
  stay unique, a question that is answered or cancelled never changes, an open one keeps everything
  but its status and answer, an answer is one of the offered options when there are any, and asking
  again under a key returns the question with its decision and changes nothing.
\<close>

theorem question_decided_once:
  assumes "question_step\<^sup>*\<^sup>* rows rows'" and "questions_ok rows"
  shows "questions_ok rows' \<and>
     (\<forall>q \<in> set rows. \<exists>q' \<in> set rows'. question_le q q' \<and>
        ask rows' fresh graph task prompt reason scope (qu_key q) options = Inr (rows', q'))"
proof -
  have "questions_ok rows' \<and> questions_le rows rows'"
    using assms
  proof (induction rule: rtranclp_induct)
    case base
    then show ?case by (simp add: questions_le_mono)
  next
    case (step rows1 rows2)
    with question_step_ok [OF step.hyps(2)] show ?case
      unfolding questions_le_def by (meson question_le_trans)
  qed
  moreover have "ask rows' fresh graph task prompt reason scope (qu_key q) options = Inr (rows', q')"
    if ok: "questions_ok rows'" and q': "q' \<in> set rows'" "qu_key q' = qu_key q" for q q'
  proof -
    obtain x where x: "first_such (\<lambda>r. qu_key r = qu_key q) rows' = Some x"
      using q' first_such_None [of "\<lambda>r. qu_key r = qu_key q" rows'] by fastforce
    with ok q' have "x = q'"
      using first_such_Some [OF x] inj_onD [of qu_key "set rows'" x q']
      by (simp add: questions_ok_def distinct_map)
    with x show ?thesis by (simp add: ask_def)
  qed
  ultimately show ?thesis using question_le_keys unfolding questions_le_def by meson
qed

theorem question_decided_once_witness:
  "\<exists>rows'. question_step\<^sup>*\<^sup>* [] rows' \<and> questions_ok rows' \<and> map qu_answer rows' = [Some ''yes'']"
proof -
  let ?q = "\<lparr>qu_id = ''1'', qu_graph = ''g'', qu_task = None, qu_prompt = ''p'', qu_options = [''yes'', ''no''],
     qu_reason = ''r'', qu_scope = ''run'', qu_status = ''pending'', qu_answer = None, qu_key = ''k''\<rparr>"
  have 1: "question_step [] [?q]"
    by (rule asked [of _ "''1''" "''g''" None "''p''" "''r''" "''run''" "''k''" "[''yes'', ''no'']" _ ?q])
      (simp add: ask_def first_such_def Let_def)
  have 2: "question_step [?q] [?q\<lparr>qu_status := ''answered'', qu_answer := Some ''yes''\<rparr>]"
    by (rule answered [of _ "''1''" "''yes''" "''g''" _ "?q\<lparr>qu_status := ''answered'', qu_answer := Some ''yes''\<rparr>"])
      (simp add: answer_question_def question_transition_def question_by_id_def first_such_def)
  from 1 2 have "question_step\<^sup>*\<^sup>* [] [?q\<lparr>qu_status := ''answered'', qu_answer := Some ''yes''\<rparr>]" by auto
  from this question_decided_once [OF this] show ?thesis by (auto simp: questions_ok_def)
qed

end
