(* ===== verification/Failure_Monitor.thy ===== *)
theory Failure_Monitor
  imports Prelude
begin

text \<open>
  The stop rules of a run (\<open>src/src/skail/runtime/failure_monitor.py\<close>): the budget of model
  calls that the lead and every child share, and the monitor that recognises a run which repeats
  itself.  The redacted canonical text of a call's arguments is a parameter, the redacted text of an
  error an argument; elapsed time is a rational.
\<close>

section \<open>The call budget\<close>

record call_budget =
  mb_max :: int
  mb_started :: int

definition new_call_budget :: "int \<Rightarrow> int \<Rightarrow> call_budget res" where
  "new_call_budget limit started =
     (if limit < 1 \<or> started < 0 then Inl (ValueError ''run.model_call_limit_invalid'')
      else Inr \<lparr>mb_max = limit, mb_started = started\<rparr>)"

definition budget_begin_call :: "call_budget \<Rightarrow> call_budget res" where
  "budget_begin_call b =
     (if mb_started b \<ge> mb_max b then Inl (RunModelCallLimitExceeded (mb_max b))
      else Inr (b\<lparr>mb_started := mb_started b + 1\<rparr>))"

text \<open>\<open>n\<close> attempts to begin a call; the attempts that raise leave the budget as it is.\<close>

primrec begin_calls :: "nat \<Rightarrow> call_budget \<Rightarrow> nat \<times> call_budget" where
  "begin_calls 0 b = (0, b)"
| "begin_calls (Suc n) b =
     (case budget_begin_call b of
        Inl e \<Rightarrow> begin_calls n b
      | Inr b' \<Rightarrow> (case begin_calls n b' of (k, b'') \<Rightarrow> (Suc k, b'')))"

text \<open>Of \<open>n\<close> attempts exactly those within the limit start a call.\<close>

lemma begin_calls_count:
  "begin_calls n b = (k, b') \<Longrightarrow> int k = max 0 (min (int n) (mb_max b - mb_started b)) \<and>
     b' = b\<lparr>mb_started := mb_started b + int k\<rparr>"
proof (induction n arbitrary: b k b')
  case 0
  then show ?case by simp
next
  case (Suc n)
  show ?case
  proof (cases "mb_started b \<ge> mb_max b")
    case True
    then have "begin_calls n b = (k, b')" using Suc.prems by (simp add: budget_begin_call_def)
    from Suc.IH [OF this] True show ?thesis by simp
  next
    case False
    then obtain j where j: "begin_calls n (b\<lparr>mb_started := mb_started b + 1\<rparr>) = (j, b')" "k = Suc j"
      using Suc.prems by (auto simp: budget_begin_call_def split: prod.splits)
    from Suc.IH [OF j(1)] False j(2) show ?thesis by (auto simp: algebra_simps)
  qed
qed

section \<open>The error text without unstable parts\<close>

text \<open>
  \<open>_normalize_error\<close> replaces, from the left, every match of
  \<open>\b[0-9a-f]{8,}\b|\b\d+\b|0x[0-9a-f]+\<close> in the lower-cased text.  A maximal run of hexadecimal or
  decimal digits is followed by a word boundary or the alternative fails, since no shorter run ends
  at one.  Word characters are those of Python's \<open>\w\<close> below 256.
\<close>

definition digit_char :: "char \<Rightarrow> bool" where
  "digit_char c \<longleftrightarrow> c \<in> set ''0123456789''"

definition hex_char :: "char \<Rightarrow> bool" where
  "hex_char c \<longleftrightarrow> c \<in> set ''0123456789abcdef''"

definition is_word :: "char \<Rightarrow> bool" where
  "is_word c \<longleftrightarrow>
     (let n = of_char c :: nat in
      48 \<le> n \<and> n \<le> 57 \<or> 65 \<le> n \<and> n \<le> 90 \<or> 97 \<le> n \<and> n \<le> 122 \<or> n = 95 \<or>
      n \<in> {170, 178, 179, 181, 185, 186, 188, 189, 190} \<or> 192 \<le> n \<and> n \<noteq> 215 \<and> n \<noteq> 247)"

definition run_ends :: "string \<Rightarrow> bool" where
  "run_ends rest \<longleftrightarrow> (case rest of [] \<Rightarrow> True | c # _ \<Rightarrow> \<not> is_word c)"

text \<open>The length of the match at the head of the text; \<open>inner\<close> says a word character precedes it.\<close>

definition match_unstable :: "bool \<Rightarrow> string \<Rightarrow> nat option" where
  "match_unstable inner s =
     (let hex = takeWhile hex_char s; dec = takeWhile digit_char s in
      if \<not> inner \<and> 8 \<le> length hex \<and> run_ends (dropWhile hex_char s) then Some (length hex)
      else if \<not> inner \<and> dec \<noteq> [] \<and> run_ends (dropWhile digit_char s) then Some (length dec)
      else if take 2 s = ''0x'' \<and> takeWhile hex_char (drop 2 s) \<noteq> []
        then Some (2 + length (takeWhile hex_char (drop 2 s)))
      else None)"

lemma match_unstable_pos: "match_unstable inner s = Some k \<Longrightarrow> 0 < k \<and> s \<noteq> []"
  by (auto simp: match_unstable_def Let_def split: if_splits)

function replace_unstable :: "bool \<Rightarrow> string \<Rightarrow> string" where
  "replace_unstable inner s =
     (case match_unstable inner s of
        Some k \<Rightarrow> ''<unstable>'' @ replace_unstable True (drop k s)
      | None \<Rightarrow> (case s of [] \<Rightarrow> [] | c # cs \<Rightarrow> c # replace_unstable (is_word c) cs))"
  by pat_completeness auto
termination
  by (relation "measure (\<lambda>(inner, s). length s)") (auto dest!: match_unstable_pos)

declare replace_unstable.simps [simp del]

definition normalize_error :: "string \<Rightarrow> string" where
  "normalize_error text = replace_unstable False (py_lower text)"

text \<open>Errors that differ only in a number, wherever it stands alone, have the same normal form.\<close>

lemma replace_number:
  assumes "ds \<noteq> []" and "\<forall>c \<in> set ds. digit_char c" and "run_ends post"
  shows "replace_unstable False (ds @ post) = ''<unstable>'' @ replace_unstable True post"
proof -
  have hex: "hex_char c" if "digit_char c" for c using that by (auto simp: digit_char_def hex_char_def)
  have word: "is_word c" if "hex_char c" for c using that by (auto simp: hex_char_def is_word_def)
  have stop: "takeWhile p (ds @ post) = ds \<and> dropWhile p (ds @ post) = post"
    if "\<And>c. digit_char c \<Longrightarrow> p c" "\<And>c. p c \<Longrightarrow> is_word c" for p
    using that assms by (cases post) (auto simp: takeWhile_append dropWhile_append run_ends_def)
  have "match_unstable False (ds @ post) = Some (length ds)"
    using stop [of hex_char] stop [of digit_char] hex word assms
    by (auto simp: match_unstable_def Let_def)
  then show ?thesis by (subst replace_unstable.simps) simp
qed

section \<open>The monitor\<close>

text \<open>The deque of at most three calls is a list; the counter of errors maps a text to its count.\<close>

record failure_monitor =
  fm_calls :: "string list"
  fm_errors :: "string \<Rightarrow> nat"
  fm_consecutive :: nat
  fm_max_calls :: "int option"
  fm_max_seconds :: "rat option"
  fm_max_budget :: "usd option"

definition new_monitor :: "int option \<Rightarrow> rat option \<Rightarrow> usd option \<Rightarrow> failure_monitor" where
  "new_monitor calls seconds budget =
     \<lparr>fm_calls = [], fm_errors = (\<lambda>_. 0), fm_consecutive = 0, fm_max_calls = calls,
      fm_max_seconds = seconds, fm_max_budget = budget\<rparr>"

definition last_three :: "'a list \<Rightarrow> 'a list" where
  "last_three xs = drop (length xs - 3) xs"

definition observe_call ::
  "(json \<Rightarrow> string) \<Rightarrow> failure_monitor \<Rightarrow> string \<Rightarrow> json \<Rightarrow> bool \<Rightarrow> failure_monitor \<times> string option" where
  "observe_call canonical m name arguments executed =
     (if \<not> executed then (m, None)
      else let calls = last_three (fm_calls m @ [name @ '':'' @ canonical arguments]) in
        (m\<lparr>fm_calls := calls\<rparr>,
         if length calls = 3 \<and> card (set calls) = 1 then Some ''failure.repeated_call'' else None))"

definition error_key :: "string option \<Rightarrow> string \<Rightarrow> string" where
  "error_key tool text =
     (case tool of
        Some t \<Rightarrow> if t \<noteq> [] then t @ '':'' @ normalize_error text else normalize_error text
      | None \<Rightarrow> normalize_error text)"

definition observe_error ::
  "failure_monitor \<Rightarrow> string \<Rightarrow> bool \<Rightarrow> string option \<Rightarrow> failure_monitor \<times> string option" where
  "observe_error m text blocked tool =
     (if blocked then (m\<lparr>fm_consecutive := 0\<rparr>, None)
      else let k = error_key tool text;
               m' = m\<lparr>fm_consecutive := fm_consecutive m + 1,
                      fm_errors := (fm_errors m)(k := fm_errors m k + 1)\<rparr> in
        (m', if fm_errors m' k \<ge> 2 then Some ''failure.repeated_error''
             else if fm_consecutive m' \<ge> 2 then Some ''failure.consecutive_errors''
             else None))"

definition observe_success :: "failure_monitor \<Rightarrow> failure_monitor" where
  "observe_success m = m\<lparr>fm_consecutive := 0, fm_calls := []\<rparr>"

definition discard_call_window :: "failure_monitor \<Rightarrow> failure_monitor" where
  "discard_call_window m = m\<lparr>fm_calls := []\<rparr>"

definition observe_progress :: "failure_monitor \<Rightarrow> failure_monitor" where
  "observe_progress m = m\<lparr>fm_consecutive := 0\<rparr>"

definition observe_boundary :: "string \<Rightarrow> bool \<Rightarrow> string option" where
  "observe_boundary boundary exhausted =
     (if exhausted then Some (''failure.'' @ boundary @ ''_exhausted'') else None)"

definition check_limits :: "failure_monitor \<Rightarrow> int \<Rightarrow> rat \<Rightarrow> usd \<Rightarrow> string option" where
  "check_limits m calls elapsed spent =
     (if (case fm_max_calls m of Some n \<Rightarrow> calls \<ge> n | None \<Rightarrow> False) then Some ''failure.model_calls_exhausted''
      else if (case fm_max_seconds m of Some n \<Rightarrow> elapsed \<ge> n | None \<Rightarrow> False) then Some ''failure.time_exhausted''
      else if (case fm_max_budget m of Some n \<Rightarrow> spent \<ge> n | None \<Rightarrow> False) then Some ''failure.budget_exhausted''
      else None)"

section \<open>Histories\<close>

datatype observation =
    Called string json bool
  | Erred string bool "string option"
  | Succeeded
  | Discarded
  | Progressed

definition observe :: "(json \<Rightarrow> string) \<Rightarrow> failure_monitor \<Rightarrow> observation \<Rightarrow> failure_monitor" where
  "observe canonical m ob =
     (case ob of
        Called n a executed \<Rightarrow> fst (observe_call canonical m n a executed)
      | Erred text blocked tool \<Rightarrow> fst (observe_error m text blocked tool)
      | Succeeded \<Rightarrow> observe_success m
      | Discarded \<Rightarrow> discard_call_window m
      | Progressed \<Rightarrow> observe_progress m)"

definition observe_all :: "(json \<Rightarrow> string) \<Rightarrow> failure_monitor \<Rightarrow> observation list \<Rightarrow> failure_monitor" where
  "observe_all canonical m obs = foldl (observe canonical) m obs"

text \<open>
  What the rules speak about, read off the history alone: the calls executed since the last success
  or unresolved call, the errors so far, and the errors since something else than an error of the
  lead's own making happened.
\<close>

definition calls_since :: "(json \<Rightarrow> string) \<Rightarrow> observation list \<Rightarrow> string list" where
  "calls_since canonical obs = foldl (\<lambda>calls ob. case ob of
       Called n a executed \<Rightarrow> if executed then calls @ [n @ '':'' @ canonical a] else calls
     | Succeeded \<Rightarrow> [] | Discarded \<Rightarrow> [] | _ \<Rightarrow> calls) [] obs"

definition error_keys :: "observation list \<Rightarrow> string list" where
  "error_keys obs = concat (map (\<lambda>ob. case ob of
       Erred text blocked tool \<Rightarrow> if blocked then [] else [error_key tool text] | _ \<Rightarrow> []) obs)"

definition error_streak :: "observation list \<Rightarrow> nat" where
  "error_streak obs = foldl (\<lambda>n ob. case ob of
       Erred text blocked tool \<Rightarrow> if blocked then 0 else Suc n
     | Succeeded \<Rightarrow> 0 | Progressed \<Rightarrow> 0 | _ \<Rightarrow> n) 0 obs"

lemma last_three_append: "last_three (last_three xs @ [x]) = last_three (xs @ [x])"
proof -
  have "xs = take (length xs - 3) xs @ drop (length xs - 3) xs" by simp
  then show ?thesis by (cases "length xs \<le> 3") (simp_all add: last_three_def flip: Suc_diff_le)
qed

lemma last_three_Nil [simp]: "last_three [] = []"
  by (simp add: last_three_def)

lemma observe_all_history:
  "observe_all canonical (new_monitor c s b) obs =
     (new_monitor c s b)\<lparr>fm_calls := last_three (calls_since canonical obs),
        fm_errors := count_list (error_keys obs), fm_consecutive := error_streak obs\<rparr>"
proof (induction obs rule: rev_induct)
  case Nil
  then show ?case
    by (simp add: observe_all_def new_monitor_def calls_since_def error_keys_def error_streak_def)
next
  case (snoc ob obs)
  have "observe_all canonical (new_monitor c s b) (obs @ [ob]) =
      observe canonical ((new_monitor c s b)\<lparr>fm_calls := last_three (calls_since canonical obs),
        fm_errors := count_list (error_keys obs), fm_consecutive := error_streak obs\<rparr>) ob"
    using snoc.IH by (simp add: observe_all_def)
  then show ?case
    by (cases ob)
      (auto simp: observe_def observe_call_def observe_error_def observe_success_def discard_call_window_def
        observe_progress_def calls_since_def error_keys_def error_streak_def Let_def last_three_append
        fun_eq_iff)
qed

lemma last_three_same:
  "length (last_three xs) = 3 \<and> card (set (last_three xs)) = 1 \<longleftrightarrow> (\<exists>pre x. xs = pre @ [x, x, x])"
proof
  assume a: "length (last_three xs) = 3 \<and> card (set (last_three xs)) = 1"
  then obtain x y z where l: "last_three xs = [x, y, z]"
    by (auto simp: length_Suc_conv numeral_3_eq_3)
  from a l obtain w where "{x, y, z} = {w}" by (auto simp: card_1_singleton_iff)
  then have "y = x" "z = x" by auto
  moreover have "xs = take (length xs - 3) xs @ last_three xs" by (simp add: last_three_def)
  ultimately show "\<exists>pre x. xs = pre @ [x, x, x]" using l by metis
qed (auto simp: last_three_def)

text \<open>
  The monitor stops a run exactly when its history repeats.  A call is reported when it was
  executed and equals the two calls executed before it with no success or unresolved call in
  between; an error is reported as repeated when its normalised text was seen before in the run, and
  as consecutive when the previous outcome was an error too; a blocked call is never reported.
\<close>

theorem monitor_stop_rules:
  "let m = observe_all canonical (new_monitor c s b) obs in
     (snd (observe_call canonical m name args executed) = Some ''failure.repeated_call'' \<longleftrightarrow>
        executed \<and> (\<exists>pre. calls_since canonical obs =
          pre @ [name @ '':'' @ canonical args, name @ '':'' @ canonical args])) \<and>
     snd (observe_error m text blocked tool) =
       (if blocked then None
        else if error_key tool text \<in> set (error_keys obs) then Some ''failure.repeated_error''
        else if 0 < error_streak obs then Some ''failure.consecutive_errors'' else None)"
proof -
  let ?v = "name @ '':'' @ canonical args" and ?cs = "calls_since canonical obs"
  let ?m = "observe_all canonical (new_monitor c s b) obs"
  have "snd (observe_call canonical ?m name args executed) = Some ''failure.repeated_call'' \<longleftrightarrow>
      executed \<and> (\<exists>pre x. ?cs @ [?v] = pre @ [x, x, x])"
    unfolding last_three_same [symmetric]
    by (simp add: observe_all_history observe_call_def Let_def last_three_append)
  moreover have "(\<exists>pre x. ?cs @ [?v] = pre @ [x, x, x]) \<longleftrightarrow> (\<exists>pre. ?cs = pre @ [?v, ?v])"
    by (metis append.assoc append_Cons append_Nil append1_eq_conv)
  moreover have "snd (observe_error ?m text blocked tool) =
       (if blocked then None
        else if error_key tool text \<in> set (error_keys obs) then Some ''failure.repeated_error''
        else if 0 < error_streak obs then Some ''failure.consecutive_errors'' else None)"
    using count_list_0_iff [of "error_keys obs" "error_key tool text"]
    by (auto simp: observe_all_history observe_error_def Let_def simp flip: One_nat_def)
  ultimately show ?thesis by (simp add: Let_def)
qed

end
