(* ===== verification/Command_Policy.thy ===== *)
theory Command_Policy
  imports Prelude
begin

text \<open>
  Which commands a tool may run: \<open>ExecutionPolicy\<close> of \<open>src/src/skail/tools/execution.py\<close> and
  \<open>ApprovalStore\<close> of \<open>src/src/skail/tools/approvals.py\<close>.

  Paths are those of \<open>pathlib\<close> on POSIX.  Parameters: whether the resolved working directory lies
  in the workspace, which home directories \<open>expanduser\<close> knows (their paths are absolute), and what
  running a command returns.  The JSON text of an argument list is the list itself, which
  \<open>json.dumps\<close> determines uniquely; the lock makes every method atomic.
\<close>

section \<open>Requests and decisions\<close>

datatype action_class = ORDINARY | WORKSPACE_MUTATION | EXTERNAL | PRIVILEGE | DESTRUCTIVE | UNKNOWN_ACTION

record command_request =
  cq_executable :: string
  cq_arguments :: "string list"
  cq_cwd :: string
  cq_request :: string
  cq_session :: string
  cq_run :: string
  cq_task :: string
  cq_action :: string

record policy_result =
  po_class :: action_class
  po_allowed :: bool
  po_requires_approval :: bool
  po_rejected :: bool

record execution_result =
  xr_status :: string
  xr_returncode :: "int option"
  xr_stdout :: string
  xr_stderr :: string

record security_context =
  sx_trusted :: bool
  sx_write_allowed :: bool
  sx_lease_held :: bool

definition rejecting :: "action_class \<Rightarrow> policy_result" where
  "rejecting c = \<lparr>po_class = c, po_allowed = False, po_requires_approval = False, po_rejected = True\<rparr>"

definition asking :: "action_class \<Rightarrow> policy_result" where
  "asking c = \<lparr>po_class = c, po_allowed = False, po_requires_approval = True, po_rejected = False\<rparr>"

definition allowing :: "action_class \<Rightarrow> policy_result" where
  "allowing c = \<lparr>po_class = c, po_allowed = True, po_requires_approval = False, po_rejected = False\<rparr>"

section \<open>Paths\<close>

definition posix_absolute :: "string \<Rightarrow> bool" where
  "posix_absolute s = starts_with s ''/''"

definition posix_name :: "string \<Rightarrow> string" where
  "posix_name s = (if posix_parts s = [] then [] else last (posix_parts s))"

text \<open>\<open>Path(argument).expanduser()\<close> raises for a leading part \<open>~user\<close> that names no known home.\<close>

definition expands_home :: "string \<Rightarrow> bool" where
  "expands_home s \<longleftrightarrow> \<not> posix_absolute s \<and> posix_parts s \<noteq> [] \<and> starts_with (hd (posix_parts s)) ''~''"

definition unsafe_argument :: "(string \<Rightarrow> bool) \<Rightarrow> string \<Rightarrow> bool res" where
  "unsafe_argument home argument =
     (if starts_with argument ''-'' then Inr False
      else if expands_home argument \<and> \<not> home (hd (posix_parts argument))
        then Inl (RuntimeError ''Could not determine home directory.'')
      else Inr (expands_home argument \<or> posix_absolute argument \<or> ''..'' \<in> set (posix_parts argument) \<or>
        starts_with argument ''~''))"

fun contains_unsafe_path :: "(string \<Rightarrow> bool) \<Rightarrow> string list \<Rightarrow> bool res" where
  "contains_unsafe_path home [] = Inr False"
| "contains_unsafe_path home (a # args) =
     res_bind (unsafe_argument home a) (\<lambda>unsafe. if unsafe then Inr True else contains_unsafe_path home args)"

section \<open>The policy\<close>

definition ordinary_project_command :: "security_context \<Rightarrow> policy_result" where
  "ordinary_project_command sx =
     \<lparr>po_class = ORDINARY, po_allowed = sx_trusted sx, po_requires_approval = \<not> sx_trusted sx, po_rejected = False\<rparr>"

definition workspace_mutation :: "security_context \<Rightarrow> policy_result" where
  "workspace_mutation sx =
     (let allowed = sx_trusted sx \<and> sx_write_allowed sx \<and> sx_lease_held sx in
      \<lparr>po_class = WORKSPACE_MUTATION, po_allowed = allowed, po_requires_approval = \<not> allowed, po_rejected = False\<rparr>)"

definition git_read_only :: "string list" where
  "git_read_only = [''status'', ''diff'', ''log'', ''show'', ''branch'', ''rev-parse'']"

definition git_policy :: "(string \<Rightarrow> bool) \<Rightarrow> security_context \<Rightarrow> string list \<Rightarrow> policy_result res" where
  "git_policy home sx arguments =
     (let lowered = map py_lower arguments;
          subcommand = (if lowered = [] then [] else hd lowered) in
      if lowered \<noteq> [] \<and> starts_with (hd lowered) ''-'' then Inr (asking UNKNOWN_ACTION)
      else if subcommand = ''diff'' \<and> ''--no-index'' \<in> set lowered then Inr (asking UNKNOWN_ACTION)
      else if subcommand = ''config'' \<and> (''--global'' \<in> set lowered \<or> ''--system'' \<in> set lowered)
        then Inr (asking EXTERNAL)
      else res_bind (contains_unsafe_path home (tl arguments)) (\<lambda>unsafe.
        if unsafe then Inr (asking UNKNOWN_ACTION)
        else if subcommand \<in> {''clean'', ''reset'', ''restore''} then Inr (rejecting DESTRUCTIVE)
        else if subcommand \<in> {''push'', ''fetch'', ''pull'', ''clone''} then Inr (asking EXTERNAL)
        else if arguments \<noteq> [] \<and> hd arguments \<in> set git_read_only then Inr (allowing ORDINARY)
        else Inr (workspace_mutation sx)))"

definition SAFE_SUBCOMMANDS :: "(string \<times> string list) list" where
  "SAFE_SUBCOMMANDS =
     [(''cargo'', [''build'', ''check'', ''test'']), (''dotnet'', [''build'', ''test'']), (''npm'', [''test''])]"

definition tool_policy :: "security_context \<Rightarrow> string \<Rightarrow> string list \<Rightarrow> policy_result" where
  "tool_policy sx name arguments =
     (if name \<in> {''rg'', ''ruff'', ''mypy'', ''pytest''} then ordinary_project_command sx
      else if name \<in> {''python'', ''python.exe''} then
        (if length arguments \<ge> 2 \<and> arguments ! 0 = ''-m'' \<and> arguments ! 1 \<in> {''pytest'', ''ruff'', ''mypy'', ''build''}
         then ordinary_project_command sx else asking UNKNOWN_ACTION)
      else (case map_of SAFE_SUBCOMMANDS name of
          Some subs \<Rightarrow> if arguments \<noteq> [] \<and> hd arguments \<in> set subs then ordinary_project_command sx
                       else asking UNKNOWN_ACTION
        | None \<Rightarrow> asking UNKNOWN_ACTION))"

definition evaluate_command ::
  "(string \<Rightarrow> bool) \<Rightarrow> (string \<Rightarrow> bool) \<Rightarrow> security_context \<Rightarrow> command_request \<Rightarrow> policy_result res" where
  "evaluate_command home inside sx q =
     (let name = py_lower (posix_name (cq_executable q)) in
      if \<not> inside (cq_cwd q) then Inr (rejecting DESTRUCTIVE)
      else if name \<in> {''sudo'', ''runas''} then Inr (rejecting PRIVILEGE)
      else if name \<in> {''rm'', ''rmdir'', ''del'', ''format'', ''shutdown'', ''reboot''} then Inr (rejecting DESTRUCTIVE)
      else if name \<in> {''powershell'', ''powershell.exe'', ''pwsh'', ''cmd'', ''cmd.exe'', ''sh'', ''bash''}
        then Inr (asking UNKNOWN_ACTION)
      else if name \<in> {''curl'', ''wget'', ''ssh'', ''scp'', ''gh''} then Inr (asking EXTERNAL)
      else if name = ''git'' then git_policy home sx (cq_arguments q)
      else if name = ''rg''
        then res_bind (contains_unsafe_path home (cq_arguments q)) (\<lambda>unsafe.
          Inr (if unsafe then asking UNKNOWN_ACTION else tool_policy sx name (cq_arguments q)))
      else Inr (tool_policy sx name (cq_arguments q)))"

section \<open>Approvals\<close>

datatype approval_choice = ALLOW_ONCE | ALLOW_SESSION | ALLOW_PROJECT_RULE | EDIT | REJECT

datatype approval_scope = ONCE_SCOPE | SESSION_SCOPE | PROJECT_SCOPE

record approval_rule =
  al_session :: string
  al_run :: string
  al_task :: string
  al_action :: string
  al_executable :: string
  al_arguments :: "string list"
  al_cwd :: string
  al_scope :: approval_scope
  al_consumed :: bool

type_synonym session_key = "string \<times> string \<times> string list \<times> string"
type_synonym once_key = "string \<times> string \<times> string \<times> string \<times> string \<times> string list \<times> string"

text \<open>The two sets in memory are lists; the table is absent when the store has no path.\<close>

record approval_store =
  av_session :: "session_key list"
  av_once :: "once_key list"
  av_table :: "approval_rule list option"

definition session_key :: "command_request \<Rightarrow> session_key" where
  "session_key q = (cq_session q, cq_executable q, cq_arguments q, cq_cwd q)"

definition once_key :: "command_request \<Rightarrow> once_key" where
  "once_key q = (cq_session q, cq_run q, cq_task q, cq_action q, cq_executable q, cq_arguments q, cq_cwd q)"

definition rule_of :: "command_request \<Rightarrow> approval_scope \<Rightarrow> approval_rule" where
  "rule_of q scope =
     \<lparr>al_session = (if scope = PROJECT_SCOPE then [] else cq_session q),
      al_run = (if scope = ONCE_SCOPE then cq_run q else []),
      al_task = (if scope = ONCE_SCOPE then cq_task q else []),
      al_action = (if scope = ONCE_SCOPE then cq_action q else []),
      al_executable = cq_executable q, al_arguments = cq_arguments q, al_cwd = cq_cwd q,
      al_scope = scope, al_consumed = False\<rparr>"

definition same_rule :: "approval_rule \<Rightarrow> approval_rule \<Rightarrow> bool" where
  "same_rule a b \<longleftrightarrow> a\<lparr>al_consumed := False\<rparr> = b\<lparr>al_consumed := False\<rparr>"

text \<open>\<open>INSERT OR IGNORE\<close> under the primary key, which is every column but \<open>consumed\<close>.\<close>

definition persist_rule :: "approval_store \<Rightarrow> command_request \<Rightarrow> approval_scope \<Rightarrow> approval_store" where
  "persist_rule st q scope =
     (case av_table st of
        None \<Rightarrow> st
      | Some rows \<Rightarrow>
          if list_ex (same_rule (rule_of q scope)) rows then st
          else st\<lparr>av_table := Some (rows @ [rule_of q scope])\<rparr>)"

definition decide_approval ::
  "string \<times> string \<Rightarrow> approval_store \<Rightarrow> command_request \<Rightarrow> approval_choice \<Rightarrow> (string \<times> string list) option \<Rightarrow>
     (approval_store \<times> command_request) res" where
  "decide_approval fresh st q choice edited =
     (case choice of
        EDIT \<Rightarrow> (case edited of
            None \<Rightarrow> Inl (ValueError ''edited action is required'')
          | Some (exe, args) \<Rightarrow> Inr (st, q\<lparr>cq_executable := exe, cq_arguments := args,
              cq_request := fst fresh, cq_action := snd fresh\<rparr>))
      | ALLOW_ONCE \<Rightarrow>
          Inr (if av_table st = None then st\<lparr>av_once := List.insert (once_key q) (av_once st)\<rparr>
               else persist_rule st q ONCE_SCOPE, q)
      | ALLOW_SESSION \<Rightarrow>
          if cq_session q = [] then Inl (ValueError ''session approval requires a session identity'')
          else Inr (persist_rule (st\<lparr>av_session := List.insert (session_key q) (av_session st)\<rparr>) q SESSION_SCOPE, q)
      | ALLOW_PROJECT_RULE \<Rightarrow> Inr (persist_rule st q PROJECT_SCOPE, q)
      | REJECT \<Rightarrow> Inr (st, q))"

definition rule_matches :: "command_request \<Rightarrow> approval_rule \<Rightarrow> bool" where
  "rule_matches q r \<longleftrightarrow>
     (al_session r = cq_session q \<or> al_session r = []) \<and> (al_run r = cq_run q \<or> al_run r = []) \<and>
     (al_task r = cq_task q \<or> al_task r = []) \<and> (al_action r = cq_action q \<or> al_action r = []) \<and>
     al_executable r = cq_executable q \<and> al_arguments r = cq_arguments q \<and> al_cwd r = cq_cwd q \<and>
     \<not> al_consumed r"

definition scope_rank :: "approval_scope \<Rightarrow> nat" where
  "scope_rank s = (case s of ONCE_SCOPE \<Rightarrow> 0 | SESSION_SCOPE \<Rightarrow> 1 | PROJECT_SCOPE \<Rightarrow> 2)"

text \<open>The update that spends a single approval names the identity of the request, not of the rule.\<close>

definition consume_once :: "command_request \<Rightarrow> approval_rule \<Rightarrow> approval_rule" where
  "consume_once q r =
     (if same_rule r (rule_of q ONCE_SCOPE) \<and> \<not> al_consumed r then r\<lparr>al_consumed := True\<rparr> else r)"

definition is_allowed :: "approval_store \<Rightarrow> command_request \<Rightarrow> approval_store \<times> bool" where
  "is_allowed st q =
     (if once_key q \<in> set (av_once st) then (st\<lparr>av_once := removeAll (once_key q) (av_once st)\<rparr>, True)
      else if session_key q \<in> set (av_session st) then (st, True)
      else (case av_table st of
          None \<Rightarrow> (st, False)
        | Some rows \<Rightarrow>
            (case min_by (\<lambda>r. scope_rank (al_scope r)) (filter (rule_matches q) rows) of
               None \<Rightarrow> (st, False)
             | Some r \<Rightarrow>
                 (if al_scope r = ONCE_SCOPE then st\<lparr>av_table := Some (map (consume_once q) rows)\<rparr> else st, True))))"

section \<open>Running a command\<close>

definition finished :: "string \<Rightarrow> execution_result" where
  "finished status = \<lparr>xr_status = status, xr_returncode = None, xr_stdout = [], xr_stderr = []\<rparr>"

definition run_command ::
  "(string \<Rightarrow> bool) \<Rightarrow> (string \<Rightarrow> bool) \<Rightarrow> (command_request \<Rightarrow> int \<times> string \<times> string) \<Rightarrow> security_context \<Rightarrow>
     approval_store option \<Rightarrow> command_request \<Rightarrow> (approval_store option \<times> execution_result) res" where
  "run_command home inside process sx approvals q =
     res_bind (evaluate_command home inside sx q) (\<lambda>d.
       let completed = (case process q of (code, out, err) \<Rightarrow>
             \<lparr>xr_status = ''completed'', xr_returncode = Some code, xr_stdout = out, xr_stderr = err\<rparr>) in
       if po_rejected d then Inr (approvals, finished ''rejected'')
       else if po_requires_approval d then
         (case approvals of
            None \<Rightarrow> Inr (None, finished ''approval_required'')
          | Some st \<Rightarrow> (case is_allowed st q of
              (st', granted) \<Rightarrow> Inr (Some st', if granted then completed else finished ''approval_required'')))
       else Inr (approvals, completed))"

section \<open>What the policy lets through\<close>

lemma policy_results [simp]:
  "po_rejected (rejecting c)" "\<not> po_requires_approval (rejecting c)" "\<not> po_allowed (rejecting c)"
  "\<not> po_rejected (asking c)" "po_requires_approval (asking c)" "\<not> po_allowed (asking c)"
  "\<not> po_rejected (allowing c)" "\<not> po_requires_approval (allowing c)" "po_allowed (allowing c)"
  by (simp_all add: rejecting_def asking_def allowing_def)

text \<open>A decision is exactly one of allowed, refused and subject to approval.\<close>

definition decisive :: "policy_result \<Rightarrow> bool" where
  "decisive d \<longleftrightarrow> (po_allowed d \<longleftrightarrow> \<not> po_requires_approval d \<and> \<not> po_rejected d) \<and>
     \<not> (po_requires_approval d \<and> po_rejected d)"

lemma decisive_simps [simp]:
  "decisive (rejecting c)" "decisive (asking c)" "decisive (allowing c)"
  "decisive (ordinary_project_command sx)" "decisive (workspace_mutation sx)"
  by (auto simp: decisive_def ordinary_project_command_def workspace_mutation_def Let_def)

lemma decisive_tool [simp]: "decisive (tool_policy sx name args)"
  by (simp add: tool_policy_def split: option.splits)

lemma decisive_git: "git_policy home sx args = Inr d \<Longrightarrow> decisive d"
  by (auto simp: git_policy_def Let_def res_simps split: if_splits)

lemma evaluate_decisive: "evaluate_command home inside sx q = Inr d \<Longrightarrow> decisive d"
  by (auto simp: evaluate_command_def Let_def res_simps decisive_git split: if_splits)

text \<open>What no approval can unlock, and what needs none.\<close>

definition forbidden_names :: "string list" where
  "forbidden_names = [''sudo'', ''runas'', ''rm'', ''rmdir'', ''del'', ''format'', ''shutdown'', ''reboot'']"

lemma evaluate_rejects:
  "\<not> inside (cq_cwd q) \<or> py_lower (posix_name (cq_executable q)) \<in> set forbidden_names \<Longrightarrow>
     \<exists>d. evaluate_command home inside sx q = Inr d \<and> po_rejected d"
  by (auto simp: evaluate_command_def forbidden_names_def Let_def)

lemma tool_allowed: "po_allowed (tool_policy sx name args) \<Longrightarrow> sx_trusted sx"
  by (auto simp: tool_policy_def ordinary_project_command_def asking_def split: option.splits if_splits)

lemma if_asking: "(if b then Inr (asking c) else m) = Inr d \<Longrightarrow> po_allowed d \<Longrightarrow> m = (Inr d :: policy_result res) \<and> \<not> b"
  by (cases b) auto

lemma if_rejecting: "(if b then Inr (rejecting c) else m) = Inr d \<Longrightarrow> po_allowed d \<Longrightarrow> m = (Inr d :: policy_result res) \<and> \<not> b"
  by (cases b) auto

lemma git_allowed:
  assumes "git_policy home sx args = Inr d" and a: "po_allowed d"
  shows "contains_unsafe_path home (tl args) = Inr False \<and>
     (hd args \<in> set git_read_only \<or> sx_trusted sx \<and> sx_write_allowed sx \<and> sx_lease_held sx)"
proof -
  note 1 = if_asking [OF assms(1) [unfolded git_policy_def Let_def] a, THEN conjunct1]
  note 2 = if_asking [OF 1 a, THEN conjunct1]
  note 3 = if_asking [OF 2 a, THEN conjunct1]
  then obtain unsafe where u: "contains_unsafe_path home (tl args) = Inr unsafe"
    unfolding res_bind_eq_Inr by (elim exE conjE)
  note 4 = if_asking [OF 3 [unfolded u res_bind_Inr] a]
  note 5 = if_asking [OF if_rejecting [OF 4 [THEN conjunct1] a, THEN conjunct1] a, THEN conjunct1]
  from 5 a have "hd args \<in> set git_read_only \<or> d = workspace_mutation sx"
    by (cases "args \<noteq> [] \<and> hd args \<in> set git_read_only") auto
  with a have "hd args \<in> set git_read_only \<or> sx_trusted sx \<and> sx_write_allowed sx \<and> sx_lease_held sx"
    by (auto simp: workspace_mutation_def Let_def)
  with u 4 show ?thesis by simp
qed

lemma evaluate_allowed:
  assumes e: "evaluate_command home inside sx q = Inr d" and a: "po_allowed d"
  shows "sx_trusted sx \<or> (py_lower (posix_name (cq_executable q)) = ''git'' \<and>
     hd (cq_arguments q) \<in> set git_read_only \<and> contains_unsafe_path home (tl (cq_arguments q)) = Inr False)"
proof -
  let ?n = "py_lower (posix_name (cq_executable q))"
  from e a consider "git_policy home sx (cq_arguments q) = Inr d" "?n = ''git''"
    | "d = tool_policy sx ?n (cq_arguments q)"
    by (auto simp: evaluate_command_def Let_def res_simps split: if_splits)
  then show ?thesis using a git_allowed tool_allowed by cases blast+
qed

lemma run_command_completed:
  assumes "run_command home inside process sx approvals q = Inr (approvals', r)" and "xr_status r = ''completed''"
  shows "inside (cq_cwd q) \<and> py_lower (posix_name (cq_executable q)) \<notin> set forbidden_names \<and>
     (sx_trusted sx \<or>
      (py_lower (posix_name (cq_executable q)) = ''git'' \<and> hd (cq_arguments q) \<in> set git_read_only \<and>
         contains_unsafe_path home (tl (cq_arguments q)) = Inr False) \<or>
      (\<exists>st st'. approvals = Some st \<and> is_allowed st q = (st', True) \<and> approvals' = Some st'))"
proof -
  obtain d where d: "evaluate_command home inside sx q = Inr d" and "\<not> po_rejected d"
    using assms by (cases "process q") (auto simp: run_command_def res_simps finished_def Let_def split: if_splits)
  then have safe: "inside (cq_cwd q)" "py_lower (posix_name (cq_executable q)) \<notin> set forbidden_names"
    using evaluate_rejects [of inside q home sx] by auto
  show ?thesis
  proof (cases "po_requires_approval d")
    case True
    with assms d \<open>\<not> po_rejected d\<close> have "\<exists>st st'. approvals = Some st \<and> is_allowed st q = (st', True) \<and> approvals' = Some st'"
      by (auto simp: run_command_def finished_def Let_def split: option.splits prod.splits if_splits)
    with safe show ?thesis by blast
  next
    case False
    with evaluate_decisive [OF d] \<open>\<not> po_rejected d\<close> have "po_allowed d" by (simp add: decisive_def)
    with evaluate_allowed [OF d] safe show ?thesis by blast
  qed
qed


section \<open>Histories of the approval store\<close>

datatype approval_op =
    Decide "string \<times> string" command_request approval_choice "(string \<times> string list) option"
  | Check command_request

definition approval_next :: "approval_store \<Rightarrow> approval_op \<Rightarrow> approval_store" where
  "approval_next st op =
     (case op of
        Decide fresh q choice edited \<Rightarrow>
          (case decide_approval fresh st q choice edited of Inl e \<Rightarrow> st | Inr (st', _) \<Rightarrow> st')
      | Check q \<Rightarrow> fst (is_allowed st q))"

definition approval_history :: "approval_store \<Rightarrow> approval_op list \<Rightarrow> approval_store" where
  "approval_history st ops = foldl approval_next st ops"

definition empty_approvals :: "bool \<Rightarrow> approval_store" where
  "empty_approvals durable = \<lparr>av_session = [], av_once = [], av_table = (if durable then Some [] else None)\<rparr>"

definition choice_of_scope :: "approval_scope \<Rightarrow> approval_choice" where
  "choice_of_scope s = (case s of ONCE_SCOPE \<Rightarrow> ALLOW_ONCE | SESSION_SCOPE \<Rightarrow> ALLOW_SESSION | PROJECT_SCOPE \<Rightarrow> ALLOW_PROJECT_RULE)"

text \<open>Every entry of the store goes back to a decision of the history.\<close>

definition decided :: "approval_op list \<Rightarrow> command_request \<Rightarrow> approval_choice \<Rightarrow> bool" where
  "decided ops q choice \<longleftrightarrow> (\<exists>fresh edited. Decide fresh q choice edited \<in> set ops)"

definition store_decided :: "approval_op list \<Rightarrow> approval_store \<Rightarrow> bool" where
  "store_decided ops st \<longleftrightarrow>
     (\<forall>k \<in> set (av_once st). \<exists>q. decided ops q ALLOW_ONCE \<and> once_key q = k) \<and>
     (\<forall>k \<in> set (av_session st). \<exists>q. decided ops q ALLOW_SESSION \<and> session_key q = k) \<and>
     (\<forall>rows. av_table st = Some rows \<longrightarrow>
        (\<forall>r \<in> set rows. \<exists>q. decided ops q (choice_of_scope (al_scope r)) \<and> same_rule r (rule_of q (al_scope r))))"

lemma decided_more: "decided ops q c \<Longrightarrow> decided (ops @ [op]) q c"
  by (auto simp: decided_def)

lemma store_decided_more: "store_decided ops st \<Longrightarrow> store_decided (ops @ [op]) st"
  unfolding store_decided_def by (meson decided_more)

lemma persist_decided:
  assumes "store_decided ops st" and "decided ops q (choice_of_scope scope)"
  shows "store_decided ops (persist_rule st q scope)"
proof -
  have "al_scope (rule_of q scope) = scope" "same_rule (rule_of q scope) (rule_of q scope)"
    by (simp_all add: rule_of_def same_rule_def)
  with assms show ?thesis
    by (auto simp: persist_rule_def store_decided_def split: option.splits)
qed

lemma consume_once_fields: "al_scope (consume_once q r) = al_scope r \<and> (same_rule (consume_once q r) r' \<longleftrightarrow> same_rule r r')"
  by (auto simp: consume_once_def same_rule_def)

lemma approval_next_decided:
  assumes "store_decided ops st"
  shows "store_decided (ops @ [op]) (approval_next st op)"
proof (cases op)
  case (Decide fresh q choice edited)
  have now: "decided (ops @ [op]) q choice" unfolding decided_def Decide set_append by (intro exI UnI2) simp
  note old = store_decided_more [OF assms, of op]
  have mem: "store_decided (ops @ [op]) (st\<lparr>av_session := List.insert (session_key q) (av_session st)\<rparr>)" if "choice = ALLOW_SESSION"
    using old now that by (auto simp: store_decided_def)
  have once: "store_decided (ops @ [op]) (st\<lparr>av_once := List.insert (once_key q) (av_once st)\<rparr>)" if "choice = ALLOW_ONCE"
    using old now that by (auto simp: store_decided_def)
  show ?thesis
    using old now mem once persist_decided [OF old, of q] persist_decided [OF mem, of q]
    by (cases choice) (auto simp: approval_next_def Decide decide_approval_def choice_of_scope_def split: option.splits)
next
  case (Check q)
  have "store_decided ops (fst (is_allowed st q))"
    using assms consume_once_fields [of q]
    by (auto simp: is_allowed_def store_decided_def split: option.splits)
  then show ?thesis by (simp add: approval_next_def Check store_decided_more)
qed

lemma approval_history_decided: "store_decided ops (approval_history (empty_approvals durable) ops)"
proof (induction ops rule: rev_induct)
  case Nil
  then show ?case by (simp add: approval_history_def empty_approvals_def store_decided_def)
next
  case (snoc op ops)
  then show ?case by (simp add: approval_history_def approval_next_decided)
qed

lemma is_allowed_cases:
  assumes "is_allowed st q = (st', True)"
  obtains (once) "once_key q \<in> set (av_once st)"
  | (session) "session_key q \<in> set (av_session st)"
  | (rule) rows r where "av_table st = Some rows" "r \<in> set rows" "rule_matches q r"
proof -
  have "\<exists>rows r. av_table st = Some rows \<and> r \<in> set rows \<and> rule_matches q r"
    if "once_key q \<notin> set (av_once st)" "session_key q \<notin> set (av_session st)"
    using assms that by (fastforce simp: is_allowed_def split: option.splits dest: min_by_in)
  then show thesis using that by blast
qed

text \<open>
  An approval never widens.  In every history of an initially empty store, in memory or on disk,
  a request is granted only when an earlier decision allowed the same program with the same arguments
  in the same directory, once, for the session or as a project rule; a decision for a session is used
  in that session, and a rejection or an edit grants nothing.
\<close>

theorem approval_never_widens:
  assumes "is_allowed (approval_history (empty_approvals durable) ops) q = (st', True)"
  shows "\<exists>p choice. decided ops p choice \<and> choice \<in> {ALLOW_ONCE, ALLOW_SESSION, ALLOW_PROJECT_RULE} \<and>
     cq_executable p = cq_executable q \<and> cq_arguments p = cq_arguments q \<and> cq_cwd p = cq_cwd q \<and>
     (choice \<noteq> ALLOW_PROJECT_RULE \<longrightarrow> cq_session p \<in> {cq_session q, []})"
proof -
  have inv: "store_decided ops (approval_history (empty_approvals durable) ops)" by (rule approval_history_decided)
  from assms show ?thesis
  proof (cases rule: is_allowed_cases)
    case once
    with inv obtain p where "decided ops p ALLOW_ONCE" "once_key p = once_key q" by (auto simp: store_decided_def)
    then show ?thesis by (intro exI [of _ p] exI [of _ ALLOW_ONCE]) (simp add: once_key_def)
  next
    case session
    with inv obtain p where "decided ops p ALLOW_SESSION" "session_key p = session_key q"
      by (auto simp: store_decided_def)
    then show ?thesis by (intro exI [of _ p] exI [of _ ALLOW_SESSION]) (simp add: session_key_def)
  next
    case (rule rows r)
    with inv obtain p where p: "decided ops p (choice_of_scope (al_scope r))" "same_rule r (rule_of p (al_scope r))"
      by (auto simp: store_decided_def)
    from p(2) rule(3) have "cq_executable p = cq_executable q \<and> cq_arguments p = cq_arguments q \<and> cq_cwd p = cq_cwd q \<and>
        (al_scope r \<noteq> PROJECT_SCOPE \<longrightarrow> cq_session p \<in> {cq_session q, []})"
      by (cases r) (auto simp: same_rule_def rule_of_def rule_matches_def split: if_splits)
    with p(1) show ?thesis
      by (intro exI [of _ p] exI [of _ "choice_of_scope (al_scope r)"])
        (auto simp: choice_of_scope_def split: approval_scope.splits)
  qed
qed

section \<open>Single use\<close>

definition complete_identity :: "command_request \<Rightarrow> bool" where
  "complete_identity q \<longleftrightarrow> cq_session q \<noteq> [] \<and> cq_run q \<noteq> [] \<and> cq_task q \<noteq> [] \<and> cq_action q \<noteq> []"

text \<open>How often a history grants a request, and how often it was allowed once.\<close>

fun grants :: "command_request \<Rightarrow> approval_store \<Rightarrow> approval_op list \<Rightarrow> nat" where
  "grants q st [] = 0"
| "grants q st (op # ops) =
     (case op of Check p \<Rightarrow> if once_key p = once_key q \<and> snd (is_allowed st p) then 1 else 0 | _ \<Rightarrow> 0)
     + grants q (approval_next st op) ops"

fun single_decisions :: "command_request \<Rightarrow> approval_op list \<Rightarrow> nat" where
  "single_decisions q [] = 0"
| "single_decisions q (op # ops) =
     (case op of Decide fresh p ALLOW_ONCE edited \<Rightarrow> if once_key p = once_key q then 1 else 0 | _ \<Rightarrow> 0)
     + single_decisions q ops"

text \<open>A history in which nothing but single approvals can grant the request.\<close>

definition single_only :: "command_request \<Rightarrow> approval_op \<Rightarrow> bool" where
  "single_only q op \<longleftrightarrow>
     (case op of
        Decide fresh p ALLOW_ONCE edited \<Rightarrow> complete_identity p
      | Decide fresh p ALLOW_SESSION edited \<Rightarrow> session_key p \<noteq> session_key q
      | Decide fresh p ALLOW_PROJECT_RULE edited \<Rightarrow>
          (cq_executable p, cq_arguments p, cq_cwd p) \<noteq> (cq_executable q, cq_arguments q, cq_cwd q)
      | _ \<Rightarrow> True)"

definition store_single :: "command_request \<Rightarrow> approval_store \<Rightarrow> bool" where
  "store_single q st \<longleftrightarrow> session_key q \<notin> set (av_session st) \<and>
     (\<forall>rows. av_table st = Some rows \<longrightarrow> av_once st = [] \<and>
        (\<forall>r \<in> set rows. rule_matches q r \<longrightarrow> al_scope r = ONCE_SCOPE \<and> same_rule r (rule_of q ONCE_SCOPE)))"

definition available_once :: "command_request \<Rightarrow> approval_store \<Rightarrow> bool" where
  "available_once q st \<longleftrightarrow> once_key q \<in> set (av_once st) \<or>
     (\<exists>rows. av_table st = Some rows \<and> (\<exists>r \<in> set rows. rule_matches q r))"

lemma rule_of_once_matches:
  "complete_identity p \<Longrightarrow> rule_matches q (rule_of p ONCE_SCOPE) \<longleftrightarrow> once_key p = once_key q"
  by (auto simp: rule_matches_def rule_of_def complete_identity_def once_key_def)

lemma rule_of_once_key: "once_key p = once_key q \<Longrightarrow> rule_of p ONCE_SCOPE = rule_of q ONCE_SCOPE"
  by (simp add: rule_of_def once_key_def)

lemma rule_matches_once_key: "once_key p = once_key q \<Longrightarrow> rule_matches p r = rule_matches q r"
  by (simp add: rule_matches_def once_key_def)

lemma matches_consumed: "rule_matches q (consume_once p r) \<longleftrightarrow> rule_matches q r \<and> \<not> same_rule r (rule_of p ONCE_SCOPE)"
  by (auto simp: consume_once_def rule_matches_def)

lemma persist_single:
  assumes s: "store_single q st"
    and new: "rule_matches q (rule_of p scope) \<Longrightarrow> scope = ONCE_SCOPE \<and> once_key p = once_key q"
  shows "store_single q (persist_rule st p scope) \<and>
     (available_once q (persist_rule st p scope) \<longrightarrow> available_once q st \<or> scope = ONCE_SCOPE \<and> once_key p = once_key q)"
proof -
  have "al_scope (rule_of p ONCE_SCOPE) = ONCE_SCOPE" "same_rule (rule_of p ONCE_SCOPE) (rule_of p ONCE_SCOPE)"
    by (simp_all add: rule_of_def same_rule_def)
  then show ?thesis
    using s new rule_of_once_key [of p q]
    by (auto simp: persist_rule_def store_single_def available_once_def split: option.splits)
qed

lemma decide_single:
  assumes s: "store_single q st" and o: "single_only q (Decide fresh p choice edited)"
  shows "store_single q (approval_next st (Decide fresh p choice edited)) \<and>
     (available_once q (approval_next st (Decide fresh p choice edited)) \<longrightarrow>
        available_once q st \<or> choice = ALLOW_ONCE \<and> once_key p = once_key q)"
proof (cases choice)
  case ALLOW_ONCE
  with o have c: "complete_identity p" by (simp add: single_only_def)
  from persist_single [OF s, of p ONCE_SCOPE] rule_of_once_matches [OF c, of q] s show ?thesis
    by (cases "av_table st") (auto simp: approval_next_def decide_approval_def ALLOW_ONCE store_single_def available_once_def)
next
  case ALLOW_SESSION
  with o have k: "session_key p \<noteq> session_key q" by (simp add: single_only_def)
  let ?st = "st\<lparr>av_session := List.insert (session_key p) (av_session st)\<rparr>"
  have "store_single q ?st" and a: "available_once q ?st = available_once q st"
    using s k by (auto simp: store_single_def available_once_def)
  moreover have "\<not> rule_matches q (rule_of p SESSION_SCOPE)" if "cq_session p \<noteq> []"
    using k that by (auto simp: rule_matches_def rule_of_def session_key_def)
  ultimately show ?thesis
    using persist_single [of q ?st p SESSION_SCOPE] s
    by (auto simp: approval_next_def decide_approval_def ALLOW_SESSION)
next
  case ALLOW_PROJECT_RULE
  with o have "\<not> rule_matches q (rule_of p PROJECT_SCOPE)"
    by (auto simp: single_only_def rule_matches_def rule_of_def)
  with persist_single [OF s, of p PROJECT_SCOPE] show ?thesis
    by (simp add: approval_next_def decide_approval_def ALLOW_PROJECT_RULE)
qed (use s in \<open>auto simp: approval_next_def decide_approval_def split: option.splits\<close>)

lemma check_single:
  assumes s: "store_single q st"
  shows "store_single q (fst (is_allowed st p)) \<and>
     (available_once q (fst (is_allowed st p)) \<longrightarrow> available_once q st \<and> (once_key p = once_key q \<longrightarrow> \<not> snd (is_allowed st p))) \<and>
     (once_key p = once_key q \<and> snd (is_allowed st p) \<longrightarrow> available_once q st)"
proof (cases "once_key p \<in> set (av_once st) \<or> session_key p \<in> set (av_session st)")
  case True
  have "session_key p \<notin> set (av_session st)" if "once_key p = once_key q"
    using s that by (auto simp: store_single_def session_key_def once_key_def)
  moreover have "av_table st = None" if "once_key p \<in> set (av_once st)"
    using s that by (cases "av_table st") (auto simp: store_single_def)
  ultimately show ?thesis using True s by (auto simp: is_allowed_def store_single_def available_once_def)
next
  case False
  show ?thesis
  proof (cases "av_table st")
    case None
    with False s show ?thesis by (auto simp: is_allowed_def store_single_def available_once_def)
  next
    case (Some rows)
    let ?pick = "min_by (\<lambda>r. scope_rank (al_scope r)) (filter (rule_matches p) rows)"
    show ?thesis
    proof (cases ?pick)
      case None
      with False Some s rule_matches_once_key [of p q] show ?thesis
        by (auto simp: is_allowed_def filter_empty_conv available_once_def)
    next
      case (Some r)
      with \<open>av_table st = Some rows\<close> have r: "r \<in> set rows" "rule_matches p r" by (auto dest: min_by_in)
      have same: "al_scope r = ONCE_SCOPE \<and> rule_matches q r" if "once_key p = once_key q"
        using s r that rule_matches_once_key [OF that] \<open>av_table st = Some rows\<close> by (auto simp: store_single_def)
      have gone: "\<not> rule_matches q (consume_once p x)" if "once_key p = once_key q" "x \<in> set rows" for x
        using s that \<open>av_table st = Some rows\<close> rule_of_once_key [OF that(1)]
        by (auto simp: store_single_def matches_consumed)
      show ?thesis
        using False Some \<open>av_table st = Some rows\<close> s same gone r(1) consume_once_fields [of p]
        by (auto simp: is_allowed_def store_single_def available_once_def matches_consumed)
    qed
  qed
qed

lemma grants_bound:
  "store_single q st \<Longrightarrow> list_all (single_only q) ops \<Longrightarrow>
     grants q st ops \<le> (if available_once q st then 1 else 0) + single_decisions q ops"
proof (induction ops arbitrary: st)
  case Nil
  then show ?case by simp
next
  case (Cons op ops)
  show ?case
  proof (cases op)
    case (Decide fresh p choice edited)
    with Cons.prems decide_single [of q st fresh p choice edited]
    have s: "store_single q (approval_next st op)" and
      a: "available_once q (approval_next st op) \<Longrightarrow> available_once q st \<or> choice = ALLOW_ONCE \<and> once_key p = once_key q"
      by auto
    from Cons.IH [OF s] Cons.prems a show ?thesis
      by (cases choice) (auto simp: Decide split: if_splits)
  next
    case (Check p)
    with check_single [OF Cons.prems(1), of p]
    have s: "store_single q (approval_next st op)" and
      a: "available_once q (approval_next st op) \<Longrightarrow> available_once q st \<and> (once_key p = once_key q \<longrightarrow> \<not> snd (is_allowed st p))" and
      g: "once_key p = once_key q \<Longrightarrow> snd (is_allowed st p) \<Longrightarrow> available_once q st"
      by (auto simp: approval_next_def)
    from Cons.IH [OF s] Cons.prems a g show ?thesis
      by (auto simp: Check split: if_splits)
  qed
qed

text \<open>
  C32: a single approval is used once.  In every history of an initially empty store in which single
  approvals are given to requests with a complete identity, and no session or project approval covers
  the request, the request is granted at most as often as it was allowed once.
\<close>

theorem single_approval_used_once:
  assumes "list_all (single_only q) ops"
  shows "grants q (empty_approvals durable) ops \<le> single_decisions q ops"
  using grants_bound [of q "empty_approvals durable" ops] assms
  by (auto simp: store_single_def available_once_def empty_approvals_def split: if_splits)

definition ex_command :: command_request where
  "ex_command = \<lparr>cq_executable = ''gh'', cq_arguments = [''pr''], cq_cwd = ''/w'', cq_request = ''q'',
     cq_session = ''s'', cq_run = ''r'', cq_task = ''t'', cq_action = ''a''\<rparr>"

theorem single_approval_used_once_witness:
  "single_decisions ex_command [Decide (''1'', ''2'') ex_command ALLOW_ONCE None, Check ex_command, Check ex_command] = 1 \<and>
   grants ex_command (empty_approvals True) [Decide (''1'', ''2'') ex_command ALLOW_ONCE None, Check ex_command, Check ex_command] \<le>
   single_decisions ex_command [Decide (''1'', ''2'') ex_command ALLOW_ONCE None, Check ex_command, Check ex_command]"
proof
  show "single_decisions ex_command [Decide (''1'', ''2'') ex_command ALLOW_ONCE None, Check ex_command, Check ex_command] = 1"
    by simp
  have "list_all (single_only ex_command) [Decide (''1'', ''2'') ex_command ALLOW_ONCE None, Check ex_command, Check ex_command]"
    by code_simp
  then show "grants ex_command (empty_approvals True) [Decide (''1'', ''2'') ex_command ALLOW_ONCE None, Check ex_command, Check ex_command] \<le>
     single_decisions ex_command [Decide (''1'', ''2'') ex_command ALLOW_ONCE None, Check ex_command, Check ex_command]"
    by (rule single_approval_used_once)
qed

text \<open>
  The identity has to be complete: a stored single approval whose action is empty matches a request
  with an action, but the update that should spend it names the request's action and finds no row, so
  every later request is granted.
\<close>

lemma incomplete_approval_unspent:
  "grants ex_command (empty_approvals True)
     [Decide (''1'', ''2'') (ex_command\<lparr>cq_action := []\<rparr>) ALLOW_ONCE None,
      Check ex_command, Check ex_command, Check ex_command] = 3"
  by code_simp

text \<open>A single approval given again after it was spent is ignored by the table, not by the memory.\<close>

lemma repeated_approval_ignored:
  "map (\<lambda>durable. grants ex_command (empty_approvals durable)
     [Decide (''1'', ''2'') ex_command ALLOW_ONCE None, Check ex_command,
      Decide (''1'', ''2'') ex_command ALLOW_ONCE None, Check ex_command]) [False, True] = [2, 1]"
  by code_simp

text \<open>Options are not checked, so a reading subcommand of git writes a file anywhere without trust.\<close>

lemma git_output_allowed:
  "evaluate_command (\<lambda>_. False) (\<lambda>_. True) \<lparr>sx_trusted = False, sx_write_allowed = False, sx_lease_held = False\<rparr>
     (ex_command\<lparr>cq_executable := ''git'', cq_arguments := [''diff'', ''--output=/etc/x'']\<rparr>) = Inr (allowing ORDINARY)"
  by code_simp


theorem approval_never_widens_witness:
  "\<exists>p choice. decided [Decide (''1'', ''2'') ex_command ALLOW_PROJECT_RULE None] p choice \<and>
     cq_arguments p = cq_arguments ex_command \<and>
     snd (is_allowed (approval_history (empty_approvals True) [Decide (''1'', ''2'') ex_command ALLOW_PROJECT_RULE None])
       (ex_command\<lparr>cq_session := ''other''\<rparr>))"
proof -
  let ?st = "approval_history (empty_approvals True) [Decide (''1'', ''2'') ex_command ALLOW_PROJECT_RULE None]"
  have g: "snd (is_allowed ?st (ex_command\<lparr>cq_session := ''other''\<rparr>))" by code_simp
  then obtain st' where "is_allowed ?st (ex_command\<lparr>cq_session := ''other''\<rparr>) = (st', True)"
    by (cases "is_allowed ?st (ex_command\<lparr>cq_session := ''other''\<rparr>)") simp
  from approval_never_widens [OF this] g show ?thesis by auto
qed

end
