(* ===== verification/Tool_Arguments.thy ===== *)
theory Tool_Arguments
  imports Task_Validation
begin

text \<open>
  The repair of a model's arguments for the reading tools (\<open>normalize_tool_args\<close> of
  \<open>src/src/skail/tools/assembly.py\<close>): keys in another case or under a common alias, arguments sent
  as a JSON text, numbers sent as strings, and defaults for what is optional.  A dictionary is an
  association list whose order does not matter.

  Parameters (\<open>tool_text\<close>): the JSON parser, \<open>repr\<close> and the name of a value's type, which only
  appear in messages.
\<close>

record tool_text =
  tt_loads :: "string \<Rightarrow> string + json"
  tt_repr :: "json \<Rightarrow> string"
  tt_type :: "json \<Rightarrow> string"

section \<open>The schemas\<close>

definition GREP_FIELDS :: "string list" where
  "GREP_FIELDS = [''pattern'', ''path'', ''glob'', ''max_count'', ''context_lines'']"

definition GLOB_FIELDS :: "string list" where
  "GLOB_FIELDS = [''pattern'', ''path'']"

definition LS_FIELDS :: "string list" where
  "LS_FIELDS = [''path'']"

definition READ_FIELDS :: "string list" where
  "READ_FIELDS = [''file_path'', ''offset'', ''limit'']"

definition GREP_ALIASES :: "(string \<times> string) list" where
  "GREP_ALIASES =
     [(''query'', ''pattern''), (''search'', ''pattern''), (''text'', ''pattern''), (''regex'', ''pattern''),
      (''keyword'', ''pattern''), (''dir'', ''path''), (''directory'', ''path''), (''folder'', ''path''),
      (''cwd'', ''path''), (''filepath'', ''path''), (''file'', ''path''), (''include'', ''glob''),
      (''includes'', ''glob''), (''filepattern'', ''glob''), (''file_pattern'', ''glob''), (''globpattern'', ''glob''),
      (''glob_pattern'', ''glob''), (''maxresults'', ''max_count''), (''max_results'', ''max_count''),
      (''limit'', ''max_count''), (''count'', ''max_count''), (''context'', ''context_lines''),
      (''contextlines'', ''context_lines''), (''context_lines'', ''context_lines''), (''lines'', ''context_lines'')]"

definition GLOB_ALIASES :: "(string \<times> string) list" where
  "GLOB_ALIASES =
     [(''query'', ''pattern''), (''search'', ''pattern''), (''glob'', ''pattern''), (''globpattern'', ''pattern''),
      (''glob_pattern'', ''pattern''), (''include'', ''pattern''), (''includes'', ''pattern''),
      (''filepattern'', ''pattern''), (''file_pattern'', ''pattern''), (''dir'', ''path''), (''directory'', ''path''),
      (''folder'', ''path''), (''cwd'', ''path''), (''filepath'', ''path''), (''file'', ''path'')]"

definition LS_ALIASES :: "(string \<times> string) list" where
  "LS_ALIASES =
     [(''dir'', ''path''), (''directory'', ''path''), (''folder'', ''path''), (''cwd'', ''path''),
      (''filepath'', ''path''), (''file'', ''path'')]"

definition READ_ALIASES :: "(string \<times> string) list" where
  "READ_ALIASES =
     [(''path'', ''file_path''), (''filepath'', ''file_path''), (''file'', ''file_path''), (''filename'', ''file_path''),
      (''offset'', ''offset''), (''start'', ''offset''), (''limit'', ''limit''), (''count'', ''limit''),
      (''maxlines'', ''limit''), (''max_lines'', ''limit'')]"

definition NORMALIZABLE_TOOLS :: "(string \<times> string list \<times> (string \<times> string) list \<times> string) list" where
  "NORMALIZABLE_TOOLS =
     [(''grep'', GREP_FIELDS, GREP_ALIASES, ''grep(pattern, path='' @ [CHR 0x27] @ ''.'' @ [CHR 0x27] @ '', glob=None)''),
      (''glob'', GLOB_FIELDS, GLOB_ALIASES, ''glob(pattern, path=None)''),
      (''ls'', LS_FIELDS, LS_ALIASES, ''ls(path='' @ [CHR 0x27] @ ''.'' @ [CHR 0x27] @ '')''),
      (''read'', READ_FIELDS, READ_ALIASES, ''read(file_path, offset=0, limit=2000)''),
      (''read_file'', READ_FIELDS, READ_ALIASES, ''read(file_path, offset=0, limit=2000)'')]"

section \<open>Keys and numbers\<close>

fun insert_camel :: "bool \<Rightarrow> string \<Rightarrow> string" where
  "insert_camel start [] = []"
| "insert_camel start (c # cs) =
     (if \<not> start \<and> 65 \<le> (of_char c :: nat) \<and> (of_char c :: nat) \<le> 90 then CHR ''_'' # c # insert_camel False cs
      else c # insert_camel False cs)"

fun squeeze_underscores :: "string \<Rightarrow> string" where
  "squeeze_underscores [] = []"
| "squeeze_underscores [c] = [c]"
| "squeeze_underscores (c # d # cs) =
     (if c = CHR ''_'' \<and> d = CHR ''_'' then squeeze_underscores (d # cs) else c # squeeze_underscores (d # cs))"

definition normalize_key :: "string \<Rightarrow> string" where
  "normalize_key raw =
     squeeze_underscores (py_lower (insert_camel True
       (map (\<lambda>c. if c = CHR ''-'' \<or> c = CHR '' '' then CHR ''_'' else c) (py_strip raw))))"

definition decimal_value :: "string \<Rightarrow> nat" where
  "decimal_value ds = foldl (\<lambda>n c. 10 * n + (of_char c - 48)) 0 ds"

text \<open>\<open>int\<close> of an optional sign and digits; Python refuses to convert more than 4300 digits.\<close>

definition parse_int :: "string \<Rightarrow> int res option" where
  "parse_int s =
     (let digits = (case s of c # cs \<Rightarrow> if c = CHR ''+'' \<or> c = CHR ''-'' then cs else s | [] \<Rightarrow> []) in
      if digits = [] \<or> \<not> list_all is_digit digits then None
      else if length digits > 4300 then Some (Inl (ValueError ''Exceeds the limit (4300 digits) for integer string conversion''))
      else Some (Inr (if hd s = CHR ''-'' then - int (decimal_value digits) else int (decimal_value digits))))"

definition coerce_int :: "tool_text \<Rightarrow> json \<Rightarrow> string \<Rightarrow> string \<Rightarrow> int option res" where
  "coerce_int tt j fname hint =
     (let wrong = ToolArgValidationError (''invalid '' @ fname @ '': expected int for '' @ hint @ ''; got '' @ tt_repr tt j) in
      case j of
        JNull \<Rightarrow> Inr None
      | JBool b \<Rightarrow> Inl (ToolArgValidationError (''invalid '' @ fname @ '': expected int for '' @ hint @ ''; got boolean''))
      | JNum q \<Rightarrow> if of_int \<lfloor>q\<rfloor> = q then Inr (Some \<lfloor>q\<rfloor>) else Inl wrong
      | JStr s \<Rightarrow>
          (case parse_int (py_strip s) of
             None \<Rightarrow> Inl wrong
           | Some (Inl e) \<Rightarrow> Inl e
           | Some (Inr n) \<Rightarrow> Inr (Some n))
      | _ \<Rightarrow> Inl wrong)"

section \<open>The normalisation\<close>

text \<open>The dictionary a call carries: sent as such, or as a JSON text of one.\<close>

definition decode_args :: "tool_text \<Rightarrow> string \<Rightarrow> string \<Rightarrow> json \<Rightarrow> args res" where
  "decode_args tt tool hint arguments =
     (case arguments of
        JNull \<Rightarrow> Inr []
      | JObj kvs \<Rightarrow> Inr kvs
      | JStr s \<Rightarrow>
          if py_strip s = [] then Inr []
          else (case tt_loads tt (py_strip s) of
              Inl msg \<Rightarrow> Inl (ToolArgValidationError (''invalid args for '' @ tool @ '': expected '' @ hint @
                ''; got a string that is not JSON ('' @ msg @ '')''))
            | Inr (JObj kvs) \<Rightarrow> Inr kvs
            | Inr j \<Rightarrow> Inl (ToolArgValidationError (''invalid args for '' @ tool @ '': expected '' @ hint @
                ''; got JSON '' @ tt_type tt j)))
      | _ \<Rightarrow> Inl (ToolArgValidationError (''invalid args for '' @ tool @ '': expected '' @ hint @ ''; got '' @
                tt_type tt arguments)))"

text \<open>A single value that is itself the text of a JSON object replaces the dictionary.\<close>

definition object_text :: "tool_text \<Rightarrow> json \<Rightarrow> args option" where
  "object_text tt j =
     (case j of
        JStr s \<Rightarrow>
          let t = py_strip s in
          if t \<noteq> [] \<and> hd t = CHR ''{'' \<and> last t = CHR ''}''
          then (case tt_loads tt t of Inr (JObj kvs) \<Rightarrow> Some kvs | _ \<Rightarrow> None)
          else None
      | _ \<Rightarrow> None)"

definition unwrap_sole :: "tool_text \<Rightarrow> args \<Rightarrow> args" where
  "unwrap_sole tt kvs =
     (case kvs of
        [(k, j)] \<Rightarrow> (case object_text tt j of Some inner \<Rightarrow> inner | None \<Rightarrow> kvs)
      | _ \<Rightarrow> kvs)"

definition strip_value :: "json \<Rightarrow> json" where
  "strip_value j = (case j of JStr s \<Rightarrow> JStr (py_strip s) | _ \<Rightarrow> j)"

definition target_key :: "(string \<times> string) list \<Rightarrow> string \<Rightarrow> string" where
  "target_key aliases raw = (case map_of aliases (normalize_key raw) of Some k \<Rightarrow> k | None \<Rightarrow> normalize_key raw)"

definition rename_keys :: "string list \<Rightarrow> (string \<times> string) list \<Rightarrow> args \<Rightarrow> args" where
  "rename_keys flds aliases raw =
     foldl (\<lambda>out (k, j). if target_key aliases k \<in> set flds then set_arg (target_key aliases k) (strip_value j) out else out)
       [] raw"

text \<open>\<open>normalized.get(k) in (None, "")\<close>.\<close>

definition absent :: "args \<Rightarrow> string \<Rightarrow> bool" where
  "absent kvs k \<longleftrightarrow> map_of kvs k \<in> {None, Some JNull, Some (JStr [])}"

definition required_text :: "tool_text \<Rightarrow> string \<Rightarrow> string \<Rightarrow> args \<Rightarrow> string res" where
  "required_text tt usage k kvs =
     (if absent kvs k
      then Inl (ToolArgValidationError (usage @ ''; '' @ k @ '' is required and must be a non-empty string''))
      else (case map_of kvs k of
          Some (JStr s) \<Rightarrow> Inr s
        | Some j \<Rightarrow> Inl (ToolArgValidationError (usage @ ''; '' @ k @ '' must be a string, got '' @ tt_type tt j))
        | None \<Rightarrow> Inl (ToolArgValidationError usage)))"

definition drop_absent :: "string \<Rightarrow> args \<Rightarrow> args" where
  "drop_absent k kvs = (if absent kvs k then del_arg k kvs else kvs)"

definition normalize_grep :: "tool_text \<Rightarrow> args \<Rightarrow> args res" where
  "normalize_grep tt kvs =
     (let usage = ''invalid grep args: expected grep(pattern, path='' @ [CHR 0x27] @ ''.'' @ [CHR 0x27] @ '', glob=None)'' in
      res_bind (required_text tt usage ''pattern'' kvs) (\<lambda>_.
      let kvs1 = drop_absent ''glob'' (drop_absent ''path'' kvs) in
      res_bind (case map_of kvs1 ''max_count'' of
          None \<Rightarrow> Inr kvs1
        | Some j \<Rightarrow> res_bind (coerce_int tt j ''max_count'' ''grep'') (\<lambda>n. Inr (case n of
            None \<Rightarrow> del_arg ''max_count'' kvs1
          | Some i \<Rightarrow> set_arg ''max_count'' (JNum (of_int i)) kvs1))) (\<lambda>kvs2.
      (case map_of kvs2 ''context_lines'' of
          None \<Rightarrow> Inr kvs2
        | Some j \<Rightarrow> res_bind (coerce_int tt j ''context_lines'' ''grep'') (\<lambda>n.
            Inr (set_arg ''context_lines'' (JNum (of_int (case n of None \<Rightarrow> 0 | Some i \<Rightarrow> i))) kvs2))))))"

definition normalize_glob :: "tool_text \<Rightarrow> args \<Rightarrow> args res" where
  "normalize_glob tt kvs =
     res_bind (required_text tt ''invalid glob args: expected glob(pattern, path=None)'' ''pattern'' kvs)
       (\<lambda>_. Inr (drop_absent ''path'' kvs))"

definition normalize_ls :: "tool_text \<Rightarrow> args \<Rightarrow> args res" where
  "normalize_ls tt kvs =
     (if absent kvs ''path'' then Inr [(''path'', JStr ''.'')]
      else (case map_of kvs ''path'' of
          Some (JStr s) \<Rightarrow> Inr [(''path'', JStr s)]
        | Some j \<Rightarrow> Inl (ToolArgValidationError (''invalid ls args: expected ls(path='' @ [CHR 0x27] @ ''.'' @ [CHR 0x27] @
            ''); path must be a string, got '' @ tt_type tt j))
        | None \<Rightarrow> Inr [(''path'', JStr ''.'')]))"

definition optional_int :: "tool_text \<Rightarrow> string \<Rightarrow> string \<Rightarrow> args \<Rightarrow> args res" where
  "optional_int tt tool k kvs =
     (case map_of kvs k of
        None \<Rightarrow> Inr []
      | Some JNull \<Rightarrow> Inr []
      | Some j \<Rightarrow> res_bind (coerce_int tt j k tool) (\<lambda>n.
          Inr [(k, case n of None \<Rightarrow> JNull | Some i \<Rightarrow> JNum (of_int i))]))"

definition normalize_read :: "tool_text \<Rightarrow> string \<Rightarrow> args \<Rightarrow> args res" where
  "normalize_read tt tool kvs =
     res_bind (required_text tt ''invalid read args: expected read(file_path, offset=0, limit=2000)'' ''file_path'' kvs) (\<lambda>p.
     res_bind (optional_int tt tool ''offset'' kvs) (\<lambda>offset.
     res_bind (optional_int tt tool ''limit'' kvs) (\<lambda>limit.
       Inr ([(''file_path'', JStr p)] @ offset @ limit))))"

definition normalize_tool_args :: "tool_text \<Rightarrow> string \<Rightarrow> json \<Rightarrow> args res" where
  "normalize_tool_args tt name arguments =
     (let tool = py_lower (py_strip name) in
      case map_of NORMALIZABLE_TOOLS tool of
        None \<Rightarrow> Inr (case arguments of JObj kvs \<Rightarrow> kvs | _ \<Rightarrow> [])
      | Some (flds, aliases, hint) \<Rightarrow>
          res_bind (decode_args tt tool hint arguments) (\<lambda>raw.
            let kvs = rename_keys flds aliases (unwrap_sole tt raw) in
            if tool = ''grep'' then normalize_grep tt kvs
            else if tool = ''glob'' then normalize_glob tt kvs
            else if tool = ''ls'' then normalize_ls tt kvs
            else normalize_read tt tool kvs))"

text \<open>The request a tool receives, and the message a request that cannot be repaired gets.\<close>

definition normalize_request_args :: "tool_text \<Rightarrow> string \<Rightarrow> json \<Rightarrow> json res" where
  "normalize_request_args tt name arguments =
     (case normalize_tool_args tt name arguments of
        Inr kvs \<Rightarrow> Inr (JObj kvs)
      | Inl (ToolArgValidationError m) \<Rightarrow> Inr arguments
      | Inl e \<Rightarrow> Inl e)"

definition validation_error_message :: "tool_text \<Rightarrow> string \<Rightarrow> json \<Rightarrow> string option res" where
  "validation_error_message tt name arguments =
     (case normalize_tool_args tt name arguments of
        Inr kvs \<Rightarrow> Inr None
      | Inl (ToolArgValidationError m) \<Rightarrow> Inr (Some m)
      | Inl e \<Rightarrow> Inl e)"

section \<open>What a normalised call carries\<close>

lemma map_of_set_arg [simp]: "map_of (set_arg k j kvs) x = (if x = k then Some j else map_of kvs x)"
  by (induction kvs) (auto simp: set_arg_def)

lemma map_of_del_arg [simp]: "map_of (del_arg k kvs) x = (if x = k then None else map_of kvs x)"
  by (induction kvs) (auto simp: del_arg_def)

lemma keys_set_arg [simp]: "fst ` set (set_arg k j kvs) = insert k (fst ` set kvs)"
  by (auto simp: set_arg_def image_iff)

lemma keys_del_arg [simp]: "fst ` set (del_arg k kvs) = fst ` set kvs - {k}"
  by (auto simp: del_arg_def image_iff)

lemma rename_keys_subset: "fst ` set (rename_keys flds aliases raw) \<subseteq> set flds"
proof -
  have "fst ` set (foldl (\<lambda>out (k, j). if target_key aliases k \<in> set flds
      then set_arg (target_key aliases k) (strip_value j) out else out) out raw) \<subseteq> set flds"
    if "fst ` set out \<subseteq> set flds" for out
    using that
  proof (induction raw arbitrary: out)
    case (Cons kv raw)
    then show ?case by (cases kv) simp
  qed simp
  from this [of "[]"] show ?thesis by (simp add: rename_keys_def)
qed

definition whole_number :: "args \<Rightarrow> string \<Rightarrow> bool" where
  "whole_number kvs k \<longleftrightarrow> map_of kvs k = None \<or> (\<exists>i. map_of kvs k = Some (JNum (of_int i)))"

definition text_given :: "args \<Rightarrow> string \<Rightarrow> bool" where
  "text_given kvs k \<longleftrightarrow> (\<exists>s. map_of kvs k = Some (JStr s) \<and> s \<noteq> [])"

definition absent_or_given :: "args \<Rightarrow> string \<Rightarrow> bool" where
  "absent_or_given kvs k \<longleftrightarrow> map_of kvs k = None \<or> \<not> absent kvs k"

text \<open>What each reading tool may be called with.\<close>

definition tool_contract :: "string \<Rightarrow> args \<Rightarrow> bool" where
  "tool_contract tool kvs \<longleftrightarrow>
     (if tool = ''grep'' then fst ` set kvs \<subseteq> set GREP_FIELDS \<and> text_given kvs ''pattern'' \<and>
        absent_or_given kvs ''path'' \<and> absent_or_given kvs ''glob'' \<and>
        whole_number kvs ''max_count'' \<and> whole_number kvs ''context_lines''
      else if tool = ''glob'' then fst ` set kvs \<subseteq> set GLOB_FIELDS \<and> text_given kvs ''pattern'' \<and> absent_or_given kvs ''path''
      else if tool = ''ls'' then fst ` set kvs = {''path''} \<and> text_given kvs ''path''
      else fst ` set kvs \<subseteq> set READ_FIELDS \<and> text_given kvs ''file_path'' \<and>
        whole_number kvs ''offset'' \<and> whole_number kvs ''limit'')"

lemma required_text_given: "required_text tt usage k kvs = Inr s \<Longrightarrow> map_of kvs k = Some (JStr s) \<and> s \<noteq> []"
  by (auto simp: required_text_def absent_def split: if_splits option.splits json.splits)

lemma map_of_drop_absent: "map_of (drop_absent k kvs) x = (if x = k \<and> absent kvs k then None else map_of kvs x)"
  by (auto simp: drop_absent_def)

lemma keys_drop_absent: "fst ` set (drop_absent k kvs) \<subseteq> fst ` set kvs"
  by (simp add: drop_absent_def)

lemma drop_absent_given: "absent_or_given (drop_absent k kvs) k"
  by (auto simp: absent_or_given_def absent_def map_of_drop_absent)

lemma key_known: "map_of kvs k \<noteq> None \<Longrightarrow> k \<in> fst ` set kvs"
  by (simp add: map_of_eq_None_iff)

lemma limit_step:
  assumes "(case map_of kvs k of None \<Rightarrow> Inr kvs
      | Some j \<Rightarrow> res_bind (c j) (\<lambda>n. Inr (case n of None \<Rightarrow> del_arg k kvs | Some i \<Rightarrow> set_arg k (JNum (of_int i)) kvs))) = Inr out"
  shows "whole_number out k \<and> (\<forall>x. x \<noteq> k \<longrightarrow> map_of out x = map_of kvs x) \<and> fst ` set out \<subseteq> fst ` set kvs"
proof (cases "map_of kvs k")
  case None
  with assms show ?thesis by (simp add: whole_number_def)
next
  case (Some j)
  with assms obtain n where "out = (case n of None \<Rightarrow> del_arg k kvs | Some i \<Rightarrow> set_arg k (JNum (of_int i)) kvs)"
    by (auto simp: res_bind_eq_Inr)
  with key_known [of kvs k] Some show ?thesis by (cases n) (auto simp: whole_number_def)
qed

lemma default_step:
  assumes "(case map_of kvs k of None \<Rightarrow> Inr kvs
      | Some j \<Rightarrow> res_bind (c j) (\<lambda>n. Inr (set_arg k (JNum (of_int (case n of None \<Rightarrow> 0 | Some i \<Rightarrow> i))) kvs))) = Inr out"
  shows "whole_number out k \<and> (\<forall>x. x \<noteq> k \<longrightarrow> map_of out x = map_of kvs x) \<and> fst ` set out \<subseteq> fst ` set kvs"
proof (cases "map_of kvs k")
  case None
  with assms show ?thesis by (simp add: whole_number_def)
next
  case (Some j)
  with assms obtain i where "out = set_arg k (JNum (of_int i)) kvs" by (auto simp: res_bind_eq_Inr)
  with key_known [of kvs k] Some show ?thesis by (auto simp: whole_number_def)
qed

lemma normalize_grep_ok:
  assumes keys: "fst ` set kvs \<subseteq> set GREP_FIELDS" and ok: "normalize_grep tt kvs = Inr out"
  shows "tool_contract ''grep'' out"
proof -
  let ?k1 = "drop_absent ''glob'' (drop_absent ''path'' kvs)"
  obtain s k2 where s: "required_text tt (''invalid grep args: expected grep(pattern, path='' @ [CHR 0x27] @ ''.'' @ [CHR 0x27] @ '', glob=None)'') ''pattern'' kvs = Inr s"
    and k2: "(case map_of ?k1 ''max_count'' of None \<Rightarrow> Inr ?k1
        | Some j \<Rightarrow> res_bind (coerce_int tt j ''max_count'' ''grep'') (\<lambda>n. Inr (case n of
            None \<Rightarrow> del_arg ''max_count'' ?k1 | Some i \<Rightarrow> set_arg ''max_count'' (JNum (of_int i)) ?k1))) = Inr k2"
    and out: "(case map_of k2 ''context_lines'' of None \<Rightarrow> Inr k2
        | Some j \<Rightarrow> res_bind (coerce_int tt j ''context_lines'' ''grep'') (\<lambda>n.
            Inr (set_arg ''context_lines'' (JNum (of_int (case n of None \<Rightarrow> 0 | Some i \<Rightarrow> i))) k2))) = Inr out"
    using ok unfolding normalize_grep_def Let_def res_bind_eq_Inr by blast
  note 1 = limit_step [OF k2] and 2 = default_step [OF out]
  have other: "map_of out x = map_of ?k1 x" if "x \<noteq> ''max_count''" "x \<noteq> ''context_lines''" for x
    using that 1 2 by metis
  have n: "whole_number out ''max_count''" "whole_number out ''context_lines''"
    using 1 2 by (simp_all add: whole_number_def)
  have "fst ` set out \<subseteq> fst ` set k2" using 2 by (elim conjE)
  also have "\<dots> \<subseteq> fst ` set ?k1" using 1 by (elim conjE)
  also have "\<dots> \<subseteq> fst ` set (drop_absent ''path'' kvs)" by (rule keys_drop_absent)
  also have "\<dots> \<subseteq> fst ` set kvs" by (rule keys_drop_absent)
  also note keys
  finally have "fst ` set out \<subseteq> set GREP_FIELDS" .
  moreover have "text_given out ''pattern''"
    using required_text_given [OF s] other [of "''pattern''"] by (simp add: text_given_def map_of_drop_absent)
  moreover have "absent_or_given out ''path''"
    using drop_absent_given [of "''path''" kvs] other [of "''path''"]
    by (simp add: absent_or_given_def absent_def map_of_drop_absent)
  moreover have "absent_or_given out ''glob''"
    using drop_absent_given [of "''glob''" "drop_absent ''path'' kvs"] other [of "''glob''"]
    by (simp add: absent_or_given_def absent_def)
  ultimately show ?thesis using n by (simp add: tool_contract_def)
qed

lemma normalize_glob_ok:
  assumes keys: "fst ` set kvs \<subseteq> set GLOB_FIELDS" and ok: "normalize_glob tt kvs = Inr out"
  shows "tool_contract ''glob'' out"
proof -
  obtain s where s: "required_text tt ''invalid glob args: expected glob(pattern, path=None)'' ''pattern'' kvs = Inr s"
    and out: "out = drop_absent ''path'' kvs"
    using ok unfolding normalize_glob_def res_bind_eq_Inr by blast
  have "fst ` set out \<subseteq> set GLOB_FIELDS" using keys keys_drop_absent out by blast
  moreover have "text_given out ''pattern''"
    using required_text_given [OF s] by (simp add: out text_given_def map_of_drop_absent)
  ultimately show ?thesis using drop_absent_given by (simp add: tool_contract_def out)
qed

lemma normalize_ls_ok: "normalize_ls tt kvs = Inr out \<Longrightarrow> tool_contract ''ls'' out"
  by (auto simp: normalize_ls_def tool_contract_def text_given_def absent_def split: if_splits option.splits json.splits)

lemma coerce_int_given: "coerce_int tt j k tool = Inr None \<Longrightarrow> j = JNull"
  by (auto simp: coerce_int_def Let_def split: json.splits if_splits option.splits sum.splits)

lemma optional_int_step:
  assumes "optional_int tt tool k kvs = Inr out"
  shows "out = [] \<or> (\<exists>i. out = [(k, JNum (of_int i))])"
  using assms by (auto simp: optional_int_def res_bind_eq_Inr dest: coerce_int_given split: option.splits json.splits)

lemma normalize_read_ok:
  assumes "normalize_read tt tool kvs = Inr out" and "tool \<noteq> ''grep''" "tool \<noteq> ''glob''" "tool \<noteq> ''ls''"
  shows "tool_contract tool out"
proof -
  obtain p offset limit where p: "required_text tt ''invalid read args: expected read(file_path, offset=0, limit=2000)'' ''file_path'' kvs = Inr p"
    and 1: "optional_int tt tool ''offset'' kvs = Inr offset" and 2: "optional_int tt tool ''limit'' kvs = Inr limit"
    and out: "out = [(''file_path'', JStr p)] @ offset @ limit"
    using assms(1) unfolding normalize_read_def res_bind_eq_Inr by blast
  have "p \<noteq> []" using required_text_given [OF p] by simp
  then show ?thesis
    using optional_int_step [OF 1] optional_int_step [OF 2] assms(2-)
    by (auto simp: tool_contract_def out text_given_def whole_number_def READ_FIELDS_def)
qed

lemma normalize_contract:
  assumes known: "map_of NORMALIZABLE_TOOLS (py_lower (py_strip name)) \<noteq> None"
    and ok: "normalize_tool_args tt name arguments = Inr out"
  shows "tool_contract (py_lower (py_strip name)) out"
proof -
  let ?tool = "py_lower (py_strip name)"
  obtain flds aliases hint where t: "map_of NORMALIZABLE_TOOLS ?tool = Some (flds, aliases, hint)" using known by auto
  then have f: "?tool = ''grep'' \<Longrightarrow> flds = GREP_FIELDS" "?tool = ''glob'' \<Longrightarrow> flds = GLOB_FIELDS"
    by (auto simp: NORMALIZABLE_TOOLS_def)
  obtain raw where raw: "(if ?tool = ''grep'' then normalize_grep tt (rename_keys flds aliases (unwrap_sole tt raw))
      else if ?tool = ''glob'' then normalize_glob tt (rename_keys flds aliases (unwrap_sole tt raw))
      else if ?tool = ''ls'' then normalize_ls tt (rename_keys flds aliases (unwrap_sole tt raw))
      else normalize_read tt ?tool (rename_keys flds aliases (unwrap_sole tt raw))) = Inr out"
    using ok t unfolding normalize_tool_args_def Let_def by (auto simp only: option.case prod.case res_bind_eq_Inr)
  note keys = rename_keys_subset [of flds aliases "unwrap_sole tt raw"]
  consider "?tool = ''grep''" | "?tool = ''glob''" | "?tool = ''ls''" | "?tool \<noteq> ''grep''" "?tool \<noteq> ''glob''" "?tool \<noteq> ''ls''" by blast
  then show ?thesis
  proof cases
    case 1
    with raw have "normalize_grep tt (rename_keys flds aliases (unwrap_sole tt raw)) = Inr out" by simp
    from normalize_grep_ok [OF _ this] keys f(1) [OF 1] 1 show ?thesis by simp
  next
    case 2
    with raw have "normalize_glob tt (rename_keys flds aliases (unwrap_sole tt raw)) = Inr out" by simp
    from normalize_glob_ok [OF _ this] keys f(2) [OF 2] 2 show ?thesis by simp
  next
    case 3
    with raw have "normalize_ls tt (rename_keys flds aliases (unwrap_sole tt raw)) = Inr out" by simp
    from normalize_ls_ok [OF this] 3 show ?thesis by simp
  next
    case 4
    with raw have "normalize_read tt ?tool (rename_keys flds aliases (unwrap_sole tt raw)) = Inr out" by (simp only: if_False)
    from normalize_read_ok [OF this 4] show ?thesis .
  qed
qed

text \<open>
  C30: a repaired call fits its tool.  Whatever a model sends to a reading tool, as a dictionary with
  keys of any case or alias or as a JSON text, arguments that pass the normalisation name only
  parameters of the tool, carry its required text, and its counts are whole numbers; no optional path
  or glob is left empty.
\<close>

theorem normalized_args_contract:
  assumes "map_of NORMALIZABLE_TOOLS (py_lower (py_strip name)) \<noteq> None"
    and "normalize_tool_args tt name arguments = Inr out"
  shows "tool_contract (py_lower (py_strip name)) out"
  using assms by (rule normalize_contract)

definition ex_tool_text :: tool_text where
  "ex_tool_text = \<lparr>tt_loads = (\<lambda>s. if s = ''{}'' then Inr (JObj []) else Inl ''Expecting value''),
     tt_repr = (\<lambda>_. ''?''), tt_type = (\<lambda>_. ''object'')\<rparr>"

theorem normalized_args_contract_witness:
  "\<exists>out. normalize_tool_args ex_tool_text '' Grep'' (JObj [(''Query'', JStr '' f('' ), (''maxResults'', JStr ''+7''), (''dir'', JNull)]) = Inr out \<and>
     tool_contract ''grep'' out \<and> map_of out ''pattern'' = Some (JStr ''f('') \<and> map_of out ''max_count'' = Some (JNum 7)"
proof -
  have "normalize_tool_args ex_tool_text '' Grep'' (JObj [(''Query'', JStr '' f('' ), (''maxResults'', JStr ''+7''), (''dir'', JNull)]) =
      Inr [(''max_count'', JNum 7), (''pattern'', JStr ''f('')]" by code_simp
  moreover have "map_of NORMALIZABLE_TOOLS (py_lower (py_strip '' Grep'')) \<noteq> None" by code_simp
  moreover have "py_lower (py_strip '' Grep'') = ''grep''" by code_simp
  ultimately show ?thesis using normalized_args_contract [of "'' Grep''"] by simp
qed

text \<open>
  A search for the text of a JSON object, given as the only argument, is read as the arguments
  themselves and refused for its missing pattern.
\<close>

lemma grep_for_braces_refused:
  "normalize_tool_args ex_tool_text ''grep'' (JObj [(''pattern'', JStr ''{}'')]) =
     Inl (ToolArgValidationError (''invalid grep args: expected grep(pattern, path='' @ [CHR 0x27] @ ''.'' @ [CHR 0x27] @
       '', glob=None); pattern is required and must be a non-empty string''))"
  by code_simp

end
