(* ===== verification/Plan_Dispatch.thy ===== *)
theory Plan_Dispatch
  imports Plan_Execution Result_Evaluator Command_Policy Tool_Arguments Scheduler
begin

text \<open>
  How the run controller (\<open>src/src/skail/runtime/run_controller.py\<close>) executes the nodes of an
  admitted plan: settling and cancelling a node (\<open>_settle_plan_node\<close>, \<open>_cancel_plan_node\<close>), running
  a tool node under the command policy (\<open>_run_plan_tool_node\<close>), the evidence a checkpoint is given,
  the guards of an admission and of a revision, and the pump \<open>_dispatch_admitted_plan_agents\<close> for
  tool nodes with its cancellation in the \<open>finally\<close> block.

  Each journal call commits on its own, so an operation that raises halfway returns the tables it
  leaves beside the error.  Parameters: \<open>dump\<close> (the JSON of a result), the redactors, and the
  parameters of the command policy.
\<close>

section \<open>Settling and cancelling a node\<close>

definition local_of_node :: "persisted_plan \<Rightarrow> string \<Rightarrow> string option" where
  "local_of_node p nid = map_option fst (first_such (\<lambda>(l, v). v = nid) (pp_node_ids p))"

definition move_node ::
  "(string \<Rightarrow> string) \<Rightarrow> plan_db \<Rightarrow> string \<Rightarrow> string \<Rightarrow> plan_node_state \<Rightarrow> plan_node_state \<Rightarrow> plan_db \<times> unit res" where
  "move_node scrub db pid nid expected target =
     (case transition_plan_node_state scrub db pid nid expected target of
        Inl e \<Rightarrow> (db, Inl e)
      | Inr (db', cs) \<Rightarrow> (db', Inr ()))"

definition settle_from ::
  "(string \<Rightarrow> string) \<Rightarrow> plan_db \<Rightarrow> string \<Rightarrow> string \<Rightarrow> plan_node_state \<Rightarrow> plan_node_state \<Rightarrow> plan_db \<times> unit res" where
  "settle_from scrub db pid nid state target =
     (if state = N_LAUNCHING \<and> target \<noteq> N_BLOCKED
      then (case move_node scrub db pid nid N_LAUNCHING N_RUNNING of
          (db', Inl e) \<Rightarrow> (db', Inl e)
        | (db', Inr _) \<Rightarrow> move_node scrub db' pid nid N_RUNNING target)
      else if state = N_LAUNCHING \<or> state = N_RUNNING then move_node scrub db pid nid state target
      else (db, Inr ()))"

definition settle_plan_node ::
  "(string \<Rightarrow> string) \<Rightarrow> (json \<Rightarrow> json) \<Rightarrow> plan_db \<Rightarrow> string \<Rightarrow> string \<Rightarrow> json \<Rightarrow> plan_db \<times> unit res" where
  "settle_plan_node scrub sj db pid nid result =
     (let db1 = settle_plan_node_execution sj db nid result in
      case get_plan db1 pid of
        Inl e \<Rightarrow> (db1, Inl e)
      | Inr p \<Rightarrow>
          (case local_of_node p nid of
             None \<Rightarrow> (db1, Inr ())
           | Some l \<Rightarrow>
               (case map_of (pp_node_states p) l of
                  None \<Rightarrow> (db1, Inl (KeyError l))
                | Some state \<Rightarrow> settle_from scrub db1 pid nid state (settled_target result))))"

definition write_attempt_status :: "plan_db \<Rightarrow> string \<Rightarrow> attempt_status \<Rightarrow> plan_db res" where
  "write_attempt_status db a s =
     (if pd_attempts db a = None then Inl (KeyError a) else Inr (db\<lparr>pd_attempts := (pd_attempts db)(a \<mapsto> s)\<rparr>))"

definition write_task_status :: "plan_db \<Rightarrow> string \<Rightarrow> task_status \<Rightarrow> plan_db res" where
  "write_task_status db t s =
     (if pd_tasks db t = None then Inl (KeyError t) else Inr (db\<lparr>pd_tasks := (pd_tasks db)(t \<mapsto> s)\<rparr>))"

definition cancelled_result :: json where
  "cancelled_result = JObj [(''status'', JStr ''cancelled'')]"

definition cancel_plan_node ::
  "(string \<Rightarrow> string) \<Rightarrow> (json \<Rightarrow> json) \<Rightarrow> plan_db \<Rightarrow> string \<Rightarrow> string \<Rightarrow> plan_db \<times> unit res" where
  "cancel_plan_node scrub sj db pid nid =
     (case settle_plan_node scrub sj db pid nid cancelled_result of
        (db1, Inl e) \<Rightarrow> (db1, Inl e)
      | (db1, Inr _) \<Rightarrow>
          (case binding_of db1 nid of
             None \<Rightarrow> (db1, Inr ())
           | Some b \<Rightarrow>
               (case write_attempt_status db1 (bn_attempt b) A_CANCELLED of
                  Inl e \<Rightarrow> (db1, Inl e)
                | Inr db2 \<Rightarrow>
                    (case write_task_status db2 (bn_task b) CANCELLED of
                       Inl e \<Rightarrow> (db2, Inl e)
                     | Inr db3 \<Rightarrow> (db3, Inr ())))))"

section \<open>Tool nodes\<close>

definition tool_feature_keys :: "string list" where
  "tool_feature_keys = [''tool'', ''command'', ''arguments'', ''priority'']"

text \<open>\<open>features.get("arguments", ())\<close> as a list of strings, None when it is none.\<close>

definition tool_arguments :: "args \<Rightarrow> string list option" where
  "tool_arguments features =
     (case map_of features ''arguments'' of
        None \<Rightarrow> Some []
      | Some (JList xs) \<Rightarrow>
          if list_all (\<lambda>x. case x of JStr s \<Rightarrow> True | _ \<Rightarrow> False) xs
          then Some (map (\<lambda>x. case x of JStr s \<Rightarrow> s | _ \<Rightarrow> []) xs) else None
      | Some _ \<Rightarrow> None)"

definition tool_command :: "args \<Rightarrow> string option" where
  "tool_command features =
     (if map_of features ''tool'' \<noteq> Some (JStr ''execute'') then None
      else (case map_of features ''command'' of Some (JStr c) \<Rightarrow> Some c | _ \<Rightarrow> None))"

definition tool_request :: "args \<Rightarrow> string + (string \<times> string list)" where
  "tool_request features =
     (if \<not> set (map fst features) \<subseteq> set tool_feature_keys then Inl ''plan.tool_features_invalid''
      else (case tool_command features of
          None \<Rightarrow> Inl ''plan.tool_unauthorized''
        | Some c \<Rightarrow>
            (case tool_arguments features of
               None \<Rightarrow> Inl ''plan.tool_features_invalid''
             | Some arguments \<Rightarrow> Inr (c, arguments))))"

definition validate_plan_tool_node :: "plan_node \<Rightarrow> unit res" where
  "validate_plan_tool_node n =
     (case tool_request (task_features n) of Inl code \<Rightarrow> Inl (TaskValidationError code) | Inr _ \<Rightarrow> Inr ())"

text \<open>\<open>int(features.get("priority", 0))\<close>.\<close>

definition tool_priority :: "args \<Rightarrow> int res" where
  "tool_priority features =
     (case map_of features ''priority'' of
        None \<Rightarrow> Inr 0
      | Some (JNum q) \<Rightarrow> Inr (if q < 0 then - \<lfloor>- q\<rfloor> else \<lfloor>q\<rfloor>)
      | Some (JBool b) \<Rightarrow> Inr (if b then 1 else 0)
      | Some (JStr s) \<Rightarrow>
          (case parse_int (py_strip s) of
             None \<Rightarrow> Inl (ValueError ''invalid literal for int() with base 10'')
           | Some r \<Rightarrow> r)
      | Some _ \<Rightarrow> Inl (TypeError ''int() argument must be a string or a real number''))"

record tool_env =
  te_home :: "string \<Rightarrow> bool"
  te_inside :: "string \<Rightarrow> bool"
  te_process :: "command_request \<Rightarrow> int \<times> string \<times> string"
  te_trusted :: bool
  te_write_allowed :: "bool option"
  te_workspace :: string
  te_session :: string
  te_run :: string

definition tool_context :: "tool_env \<Rightarrow> plan_node \<Rightarrow> security_context" where
  "tool_context te n =
     \<lparr>sx_trusted = te_trusted te, sx_write_allowed = te_write_allowed te \<noteq> Some False,
      sx_lease_held = effect_scope n \<noteq> E_READ\<rparr>"

definition tool_command_request :: "tool_env \<Rightarrow> string \<Rightarrow> string \<Rightarrow> string \<times> string list \<Rightarrow> command_request" where
  "tool_command_request te fresh nid c =
     \<lparr>cq_executable = fst c, cq_arguments = snd c, cq_cwd = te_workspace te, cq_request = fresh,
      cq_session = te_session te, cq_run = te_run te, cq_task = nid, cq_action = ''plan-tool:'' @ nid\<rparr>"

text \<open>What the awaited operation returns, with the approvals it leaves and the request it leaves
  for the user.  The lease and the turn in the scheduler are taken around it.\<close>

definition tool_operation ::
  "tool_env \<Rightarrow> approval_store option \<Rightarrow> string \<Rightarrow> plan_node \<Rightarrow> command_request \<Rightarrow>
     (approval_store option \<times> command_request option \<times> task_result) res" where
  "tool_operation te approvals nid n q =
     res_bind (run_command (te_home te) (te_inside te) (te_process te) (tool_context te n) approvals q) (\<lambda>(approvals', r).
       Inr (approvals',
         if xr_status r = ''approval_required'' then Some q else None,
         (plain_result nid (if xr_status r = ''completed'' \<and> xr_returncode r = Some 0 then R_SUCCEEDED else R_BLOCKED)
            (''tool execute '' @ xr_status r))\<lparr>re_authority := Some ''runtime''\<rparr>))"

definition run_plan_tool_node ::
  "tool_env \<Rightarrow> string \<Rightarrow> scheduler \<Rightarrow> approval_store option \<Rightarrow> string \<Rightarrow> plan_node \<Rightarrow>
     (scheduler \<times> approval_store option \<times> command_request option \<times> task_result) res" where
  "run_plan_tool_node te fresh sched approvals nid n =
     (case tool_request (task_features n) of
        Inl code \<Rightarrow> Inr (sched, approvals, None, plain_result nid R_BLOCKED code)
      | Inr c \<Rightarrow>
          res_bind (tool_priority (task_features n)) (\<lambda>priority.
          res_bind (submit sched nid priority [] False) (\<lambda>sched'.
          res_bind (tool_operation te approvals nid n (tool_command_request te fresh nid c)) (\<lambda>(a, i, r).
            Inr (sched', a, i, r)))))"

section \<open>Checkpoints and revisions\<close>

definition artifact_text :: "artifact_ref \<Rightarrow> string" where
  "artifact_text a = ar_kind a @ '':'' @ ar_path a @ '':'' @ (case ar_digest a of Some d \<Rightarrow> d | None \<Rightarrow> [])"

definition has_digest :: "artifact_ref \<Rightarrow> bool" where
  "has_digest a \<longleftrightarrow> (\<exists>d. ar_digest a = Some d \<and> d \<noteq> [])"

definition result_references :: "task_result \<Rightarrow> string list" where
  "result_references r =
     map artifact_text (filter has_digest (re_artifacts r)) @
     List.map_filter (\<lambda>v. case vr_ref v of
         Some a \<Rightarrow> if vr_passed v \<and> has_digest a then Some (artifact_text a) else None
       | None \<Rightarrow> None) (re_verification r)"

text \<open>\<open>dict.fromkeys\<close> keeps the first occurrences; a later result of a task replaces an earlier one.\<close>

definition distinct_first :: "'a list \<Rightarrow> 'a list" where
  "distinct_first xs = rev (remdups (rev xs))"

fun checkpoint_references ::
  "plan_db \<Rightarrow> (string \<times> string) list \<Rightarrow> task_result list \<Rightarrow> string list \<Rightarrow> string list res" where
  "checkpoint_references db ids results [] = Inr []"
| "checkpoint_references db ids results (d # ds) =
     (case map_of ids d of
        None \<Rightarrow> Inl (KeyError d)
      | Some nid \<Rightarrow>
          let found = (case binding_of db nid of
                None \<Rightarrow> None
              | Some b \<Rightarrow> first_such (\<lambda>r. re_task r = bn_task b) (rev results))
          in res_bind (checkpoint_references db ids results ds) (\<lambda>refs.
            Inr ((''plan-node:'' @ d @ '':succeeded'') #
              (case found of None \<Rightarrow> [] | Some r \<Rightarrow> result_references r) @ refs)))"

definition checkpoint_evidence_refs ::
  "plan_db \<Rightarrow> persisted_plan \<Rightarrow> plan_node \<Rightarrow> task_result list \<Rightarrow> string list res" where
  "checkpoint_evidence_refs db p n results =
     res_bind (checkpoint_references db (pp_node_ids p) results (depends_on n)) (\<lambda>refs. Inr (distinct_first refs))"

text \<open>What \<open>revise_plan\<close> demands of a revision before the journal sees it.\<close>

definition revision_guard :: "string option \<Rightarrow> string list \<Rightarrow> string option \<Rightarrow> plan_delta \<Rightarrow> unit res" where
  "revision_guard active evidence checkpoint delta =
     (if active = None then Inl (TaskValidationError ''plan.revision_without_active_plan'')
      else if evidence_refs delta = [] \<or> \<not> set (evidence_refs delta) \<subseteq> set evidence
        then Inl (TaskValidationError ''plan.revision_evidence_unavailable'')
      else if (case checkpoint of
            None \<Rightarrow> False
          | Some l \<Rightarrow> l \<in> set (replaced_local_ids delta) \<union> set (cancelled_local_ids delta))
        then Inl (TaskValidationError ''plan.active_checkpoint_immutable'')
      else Inr ())"

section \<open>The pump for tool nodes\<close>

datatype tool_phase = T_LAUNCHED | T_EXECUTING | T_DONE

record tool_task =
  pt_plan :: string
  pt_node :: string
  pt_phase :: tool_phase

record tool_pump =
  tu_db :: plan_db
  tu_running :: "tool_task list"

definition tool_nodes_ready :: "plan_db \<Rightarrow> string \<Rightarrow> string list" where
  "tool_nodes_ready db pid =
     (case get_plan db pid of
        Inl e \<Rightarrow> []
      | Inr p \<Rightarrow> map fst (filter (\<lambda>(nid, l, s).
          case node_by_local (plan_nodes (pp_plan p)) l of Some n \<Rightarrow> node_kind n = K_TOOL | None \<Rightarrow> False)
          (ready_plan_nodes db pid)))"

definition launch_tool :: "(string \<Rightarrow> string) \<Rightarrow> tool_pump \<Rightarrow> string \<Rightarrow> string \<Rightarrow> tool_pump \<times> unit res" where
  "launch_tool scrub u pid nid =
     (case move_node scrub (tu_db u) pid nid N_READY N_LAUNCHING of
        (db1, Inl e) \<Rightarrow> (u\<lparr>tu_db := db1\<rparr>, Inl e)
      | (db1, Inr _) \<Rightarrow>
          (case begin_plan_node_execution db1 nid (''tool:'' @ nid) of
             Inl e \<Rightarrow> (u\<lparr>tu_db := db1\<rparr>, Inl e)
           | Inr (db2, row) \<Rightarrow>
               (u\<lparr>tu_db := db2, tu_running := tu_running u @ [\<lparr>pt_plan = pid, pt_node = nid, pt_phase = T_LAUNCHED\<rparr>]\<rparr>,
                Inr ())))"

definition set_phase :: "tool_task \<Rightarrow> tool_phase \<Rightarrow> tool_task list \<Rightarrow> tool_task list" where
  "set_phase t ph ts = map (\<lambda>x. if x = t then x\<lparr>pt_phase := ph\<rparr> else x) ts"

text \<open>
  One step of the pump: a ready tool node is launched; a launched task starts executing; an executing
  task settles its node with the result of its operation; a finished task is taken out of the set.
\<close>

inductive pump_step :: "(string \<Rightarrow> string) \<Rightarrow> (json \<Rightarrow> json) \<Rightarrow> (task_result \<Rightarrow> json) \<Rightarrow> tool_pump \<Rightarrow> tool_pump \<Rightarrow> bool"
  for scrub sj dump where
  launch: "nid \<in> set (tool_nodes_ready (tu_db u) pid) \<Longrightarrow> launch_tool scrub u pid nid = (u', Inr ()) \<Longrightarrow>
     pump_step scrub sj dump u u'"
| execute: "t \<in> set (tu_running u) \<Longrightarrow> pt_phase t = T_LAUNCHED \<Longrightarrow>
     move_node scrub (tu_db u) (pt_plan t) (pt_node t) N_LAUNCHING N_RUNNING = (db, Inr ()) \<Longrightarrow>
     pump_step scrub sj dump u (u\<lparr>tu_db := db, tu_running := set_phase t T_EXECUTING (tu_running u)\<rparr>)"
| settle: "t \<in> set (tu_running u) \<Longrightarrow> pt_phase t = T_EXECUTING \<Longrightarrow>
     settle_plan_node scrub sj (tu_db u) (pt_plan t) (pt_node t) (dump r) = (db, Inr ()) \<Longrightarrow>
     pump_step scrub sj dump u (u\<lparr>tu_db := db, tu_running := set_phase t T_DONE (tu_running u)\<rparr>)"
| reap: "t \<in> set (tu_running u) \<Longrightarrow> pt_phase t = T_DONE \<Longrightarrow>
     pump_step scrub sj dump u (u\<lparr>tu_running := filter (\<lambda>x. x \<noteq> t) (tu_running u)\<rparr>)"

text \<open>The \<open>finally\<close> block: every task still in the set is cancelled, in order.\<close>

fun cancel_all :: "(string \<Rightarrow> string) \<Rightarrow> (json \<Rightarrow> json) \<Rightarrow> plan_db \<Rightarrow> tool_task list \<Rightarrow> plan_db \<times> unit res" where
  "cancel_all scrub sj db [] = (db, Inr ())"
| "cancel_all scrub sj db (t # ts) =
     (case cancel_plan_node scrub sj db (pt_plan t) (pt_node t) of
        (db', Inl e) \<Rightarrow> (db', Inl e)
      | (db', Inr _) \<Rightarrow> cancel_all scrub sj db' ts)"

definition leave_pump :: "(string \<Rightarrow> string) \<Rightarrow> (json \<Rightarrow> json) \<Rightarrow> tool_pump \<Rightarrow> tool_pump \<times> unit res" where
  "leave_pump scrub sj u =
     (case cancel_all scrub sj (tu_db u) (tu_running u) of (db, r) \<Rightarrow> (\<lparr>tu_db = db, tu_running = []\<rparr>, r))"

section \<open>Settling is final\<close>

text \<open>A plan whose rows can be read back, and a live node of it.\<close>

definition plan_readable :: "plan_db \<Rightarrow> string \<Rightarrow> bool" where
  "plan_readable db pid \<longleftrightarrow> wf_plan_store db pid \<and>
     (\<forall>p. plan_by_id db pid = Some p \<longrightarrow>
        pr_schema p = SUPPORTED_PLAN_SCHEMA_VERSION \<and> pr_policy p = SUPPORTED_EXECUTION_POLICY_VERSION)"

definition live_node :: "plan_db \<Rightarrow> string \<Rightarrow> string \<Rightarrow> bool" where
  "live_node db pid nid \<longleftrightarrow>
     (\<exists>r \<in> set (pd_nodes db). nr_node_id r = nid \<and> nr_plan_id r = pid \<and> nr_retired r = None)"

definition in_flight_state :: "plan_node_state option \<Rightarrow> bool" where
  "in_flight_state s \<longleftrightarrow> s = Some N_LAUNCHING \<or> s = Some N_RUNNING"

text \<open>What an operation on nodes leaves alone.\<close>

definition same_plans :: "plan_db \<Rightarrow> plan_db \<Rightarrow> bool" where
  "same_plans db db' \<longleftrightarrow> pd_plans db' = pd_plans db \<and> pd_runs db' = pd_runs db \<and> pd_nodes db' = pd_nodes db \<and>
     pd_bindings db' = pd_bindings db \<and> (\<forall>x. pd_states db x \<noteq> None \<longrightarrow> pd_states db' x \<noteq> None) \<and>
     (\<forall>x. pd_tasks db x \<noteq> None \<longrightarrow> pd_tasks db' x \<noteq> None) \<and>
     (\<forall>x. pd_attempts db x \<noteq> None \<longrightarrow> pd_attempts db' x \<noteq> None)"

lemma same_plans_refl [simp]: "same_plans db db"
  by (simp add: same_plans_def)

lemma same_plans_trans [trans]: "same_plans a b \<Longrightarrow> same_plans b c \<Longrightarrow> same_plans a c"
  by (simp add: same_plans_def)

lemma same_plans_readable: "same_plans db db' \<Longrightarrow> plan_readable db pid \<Longrightarrow> plan_readable db' pid"
  unfolding same_plans_def plan_readable_def plan_by_id_def
  using wf_store_update(1) [of db pid db'] by auto

lemma same_plans_live: "same_plans db db' \<Longrightarrow> live_node db' pid nid \<longleftrightarrow> live_node db pid nid"
  by (simp add: same_plans_def live_node_def)

lemma same_plans_records: "same_plans db db' \<Longrightarrow> bindings_have_records db \<Longrightarrow> bindings_have_records db'"
  by (auto simp: same_plans_def bindings_have_records_def)

text \<open>Only the node itself leaves its state, apart from waiting nodes, which never go in flight.\<close>

definition only_moves :: "string \<Rightarrow> plan_db \<Rightarrow> plan_db \<Rightarrow> bool" where
  "only_moves nid db db' \<longleftrightarrow>
     (\<forall>x. x \<noteq> nid \<longrightarrow> pd_states db' x = pd_states db x \<or>
        (pd_states db x = Some N_WAITING \<and> pd_states db' x \<in> {Some N_READY, Some N_BLOCKED}))"

lemma only_moves_refl [simp]: "only_moves nid db db"
  by (simp add: only_moves_def)

lemma move_node_frame:
  assumes wf: "plan_readable db pid" and m: "move_node scrub db pid nid expected target = (db', Inr ())"
  shows "pd_states db' nid = Some target" "same_plans db db'" "only_moves nid db db'" "pd_execs db' = pd_execs db"
    "pd_tasks db' = pd_tasks db" "pd_attempts db' = pd_attempts db"
proof -
  have w: "wf_plan_store db pid" using wf by (simp add: plan_readable_def)
  from m obtain cs where tr: "transition_plan_node_state scrub db pid nid expected target = Inr (db', cs)"
    by (auto simp: move_node_def split: sum.splits)
  note fr = transition_frame [OF w tr]
  have "pd_states db' x \<noteq> None" if "pd_states db x \<noteq> None" for x
    using fr(1) fr(3) [of x] that by auto
  then show "same_plans db db'" using fr(4-) by (simp add: same_plans_def)
  show "only_moves nid db db'" unfolding only_moves_def using fr(3) by (metis insertCI singletonI insertE singletonD)
  show "pd_states db' nid = Some target" "pd_execs db' = pd_execs db" "pd_tasks db' = pd_tasks db"
    "pd_attempts db' = pd_attempts db" by (rule fr)+
qed

lemma move_node_ok:
  assumes wf: "plan_readable db pid" and "live_node db pid nid" and "pd_states db nid = Some expected"
    and leg: "(expected, target) \<in> set legal_node_moves"
  obtains db' where "move_node scrub db pid nid expected target = (db', Inr ())"
    "pd_states db' nid = Some target" "same_plans db db'" "only_moves nid db db'" "pd_execs db' = pd_execs db"
    "pd_tasks db' = pd_tasks db" "pd_attempts db' = pd_attempts db"
proof -
  have w: "wf_plan_store db pid" using wf by (simp add: plan_readable_def)
  obtain r where r: "r \<in> set (pd_nodes db)" "nr_node_id r = nid" "nr_plan_id r = pid" "nr_retired r = None"
    using assms(2) by (auto simp: live_node_def)
  have "pd_states db (nr_node_id r) = Some expected" using assms(3) r by simp
  from transition_total [OF w leg r(1,3,4) this, of scrub] r(2) obtain db' cs
    where "transition_plan_node_state scrub db pid nid expected target = Inr (db', cs)" by auto
  then have m: "move_node scrub db pid nid expected target = (db', Inr ())" by (simp add: move_node_def)
  from that [OF m] move_node_frame [OF wf m] show thesis by blast
qed

lemma settled_target_final: "settled_target j \<in> {N_SUCCEEDED, N_FAILED, N_BLOCKED, N_CANCELLED}"
  by (auto simp: settled_target_def split: option.splits json.splits)

lemma settle_from_ok:
  assumes wf: "plan_readable db pid" and live: "live_node db pid nid" and s: "pd_states db nid = Some s"
    and t: "t \<in> {N_SUCCEEDED, N_FAILED, N_BLOCKED, N_CANCELLED}"
  obtains db' where "settle_from scrub db pid nid s t = (db', Inr ())"
    "pd_states db' nid = Some (if in_flight_state (Some s) then t else s)" "same_plans db db'" "only_moves nid db db'"
    "pd_execs db' = pd_execs db" "\<not> in_flight_state (Some s) \<Longrightarrow> db' = db"
    "pd_tasks db' = pd_tasks db" "pd_attempts db' = pd_attempts db"
proof -
  consider (two) "s = N_LAUNCHING" "t \<noteq> N_BLOCKED" | (one) "s = N_LAUNCHING \<and> t = N_BLOCKED \<or> s = N_RUNNING"
    | (none) "s \<noteq> N_LAUNCHING" "s \<noteq> N_RUNNING" by blast
  then show thesis
  proof cases
    case two
    then have l1: "(N_LAUNCHING, N_RUNNING) \<in> set legal_node_moves" and l2: "(N_RUNNING, t) \<in> set legal_node_moves"
      using t by (auto simp: legal_node_moves_def)
    obtain db1 where 1: "move_node scrub db pid nid N_LAUNCHING N_RUNNING = (db1, Inr ())"
      "pd_states db1 nid = Some N_RUNNING" "same_plans db db1" "only_moves nid db db1" "pd_execs db1 = pd_execs db"
      "pd_tasks db1 = pd_tasks db" "pd_attempts db1 = pd_attempts db"
      by (rule move_node_ok [OF wf live _ l1]) (use s two in auto)
    obtain db2 where 2: "move_node scrub db1 pid nid N_RUNNING t = (db2, Inr ())"
      "pd_states db2 nid = Some t" "same_plans db1 db2" "only_moves nid db1 db2" "pd_execs db2 = pd_execs db1"
      "pd_tasks db2 = pd_tasks db1" "pd_attempts db2 = pd_attempts db1"
      by (rule move_node_ok [OF same_plans_readable [OF 1(3) wf] _ 1(2) l2]) (use live same_plans_live [OF 1(3)] in auto)
    have m: "only_moves nid db db2" using 1(4) 2(4) by (auto simp: only_moves_def) metis+
    show thesis
      by (rule that [of db2])
        (use 1 2 two m same_plans_trans [OF 1(3) 2(3)] in \<open>simp_all add: settle_from_def in_flight_state_def\<close>)
  next
    case one
    then have l: "(s, t) \<in> set legal_node_moves" using t by (auto simp: legal_node_moves_def)
    obtain db1 where 1: "move_node scrub db pid nid s t = (db1, Inr ())"
      "pd_states db1 nid = Some t" "same_plans db db1" "only_moves nid db db1" "pd_execs db1 = pd_execs db"
      "pd_tasks db1 = pd_tasks db" "pd_attempts db1 = pd_attempts db"
      by (rule move_node_ok [OF wf live s l])
    show thesis
      by (rule that [of db1]) (use 1 one in \<open>auto simp: settle_from_def in_flight_state_def\<close>)
  next
    case none
    show thesis by (rule that [of db]) (use none s in \<open>auto simp: settle_from_def in_flight_state_def\<close>)
  qed
qed

lemma settle_execution_frame:
  "pd_states (settle_plan_node_execution sj db nid j) = pd_states db"
  "same_plans db (settle_plan_node_execution sj db nid j)"
  "pd_tasks (settle_plan_node_execution sj db nid j) = pd_tasks db"
  "pd_attempts (settle_plan_node_execution sj db nid j) = pd_attempts db"
  by (auto simp: settle_plan_node_execution_def same_plans_def split: option.splits)

lemma get_plan_readable:
  assumes "plan_readable db pid"
  obtains p where "get_plan db pid = Inr p" "pp_node_ids p = map (\<lambda>(r, s). (nr_local_id r, nr_node_id r)) (active_rows db pid)"
    "pp_node_states p = map (\<lambda>(r, s). (nr_local_id r, s)) (active_rows db pid)" "plan_nodes (pp_plan p) = stored_nodes db pid"
proof -
  obtain q where "plan_by_id db pid = Some q" "plan_fields_ok (pr_payload q)" "plan_graph_ok (plan_nodes (pr_payload q))"
    using assms by (auto simp: plan_readable_def wf_plan_store_def)
  then show thesis
    using assms that [of "\<lparr>pp_plan_id = pid, pp_run_id = pr_run_id q, pp_plan = pr_payload q,
        pp_node_ids = map (\<lambda>(r, s). (nr_local_id r, nr_node_id r)) (active_rows db pid),
        pp_node_states = map (\<lambda>(r, s). (nr_local_id r, s)) (active_rows db pid)\<rparr>"]
    by (simp add: get_plan_def plan_readable_def load_plan_iff [THEN iffD2] stored_nodes_def)
qed

lemma live_node_row:
  assumes wf: "plan_readable db pid" and "live_node db pid nid"
  obtains r s where "(r, s) \<in> set (active_rows db pid)" "nr_node_id r = nid" "pd_states db nid = Some s"
    "\<And>r' s'. (r', s') \<in> set (active_rows db pid) \<Longrightarrow> nr_node_id r' = nid \<Longrightarrow> r' = r"
proof -
  have w: "wf_plan_store db pid" using wf by (simp add: plan_readable_def)
  obtain r where r: "r \<in> set (pd_nodes db)" "nr_node_id r = nid" "nr_plan_id r = pid" "nr_retired r = None"
    using assms(2) by (auto simp: live_node_def)
  obtain s where s: "pd_states db nid = Some s" using wf_plan_storeD(2) [OF w r(1)] r(2) by auto
  have rows: "active_rows db pid = map (\<lambda>r. (r, the (pd_states db (nr_node_id r)))) (live_nodes db pid)"
    by (rule active_rows_alt) (use wf_plan_storeD(2) [OF w] in blast)
  have d: "distinct (map nr_node_id (pd_nodes db))" by (rule wf_plan_storeD(1) [OF w])
  show thesis
  proof (rule that)
    show "(r, s) \<in> set (active_rows db pid)" using r s by (auto simp: rows live_nodes_def)
    show "r' = r" if "(r', s') \<in> set (active_rows db pid)" "nr_node_id r' = nid" for r' s'
      using that r(1,2) d by (auto simp: rows live_nodes_def distinct_map dest: inj_onD)
  qed (use r s in auto)
qed

lemma settle_plan_node_ok:
  assumes wf: "plan_readable db pid" and live: "live_node db pid nid" and s: "pd_states db nid = Some s"
  obtains db' where "settle_plan_node scrub sj db pid nid j = (db', Inr ())"
    "pd_states db' nid = Some (if in_flight_state (Some s) then settled_target j else s)"
    "same_plans db db'" "only_moves nid db db'"
    "pd_execs db' = pd_execs (settle_plan_node_execution sj db nid j)"
    "\<not> in_flight_state (Some s) \<Longrightarrow> db' = settle_plan_node_execution sj db nid j"
    "pd_tasks db' = pd_tasks db" "pd_attempts db' = pd_attempts db"
proof -
  let ?d = "settle_plan_node_execution sj db nid j"
  note sf = settle_execution_frame [where sj = sj and db = db and nid = nid and j = j]
  have wf1: "plan_readable ?d pid" by (rule same_plans_readable [OF sf(2) wf])
  have live1: "live_node ?d pid nid" using live same_plans_live [OF sf(2)] by simp
  obtain p where p: "get_plan ?d pid = Inr p"
    "pp_node_ids p = map (\<lambda>(r, s). (nr_local_id r, nr_node_id r)) (active_rows ?d pid)"
    "pp_node_states p = map (\<lambda>(r, s). (nr_local_id r, s)) (active_rows ?d pid)"
    by (rule get_plan_readable [OF wf1])
  obtain r s' where r: "(r, s') \<in> set (active_rows ?d pid)" "nr_node_id r = nid" "pd_states ?d nid = Some s'"
    "\<And>r' s'. (r', s') \<in> set (active_rows ?d pid) \<Longrightarrow> nr_node_id r' = nid \<Longrightarrow> r' = r"
    using live_node_row [OF wf1 live1] by metis
  have s': "s' = s" using r(3) s sf(1) by simp
  have loc: "local_of_node p nid = Some (nr_local_id r)"
  proof -
    have "(nr_local_id r, nid) \<in> set (pp_node_ids p)"
      using r(1,2) by (auto simp: p(2) intro!: image_eqI [of _ _ "(r, s')"])
    then have "first_such (\<lambda>(l, v). v = nid) (pp_node_ids p) \<noteq> None"
      unfolding first_such_None by auto
    then obtain q where q: "first_such (\<lambda>(l, v). v = nid) (pp_node_ids p) = Some q" by blast
    from first_such_Some [OF q] obtain r' s'' where "(r', s'') \<in> set (active_rows ?d pid)" "nr_node_id r' = nid"
      "q = (nr_local_id r', nid)" by (auto simp: p(2))
    with r(4) q show ?thesis by (auto simp: local_of_node_def)
  qed
  have d: "distinct (map (nr_local_id \<circ> fst) (active_rows ?d pid))"
    using wf1 by (auto simp: plan_readable_def dest: wf_plan_storeD(3))
  then have "distinct (map fst (pp_node_states p))" by (simp add: p(3) case_prod_beta comp_def)
  moreover have "(nr_local_id r, s) \<in> set (pp_node_states p)" using r(1) s' by (force simp: p(3))
  ultimately have st: "map_of (pp_node_states p) (nr_local_id r) = Some s" by simp
  have s1: "pd_states ?d nid = Some s" using s sf(1) by simp
  obtain db' where db': "settle_from scrub ?d pid nid s (settled_target j) = (db', Inr ())"
    "pd_states db' nid = Some (if in_flight_state (Some s) then settled_target j else s)" "same_plans ?d db'"
    "only_moves nid ?d db'" "pd_execs db' = pd_execs ?d" "\<not> in_flight_state (Some s) \<Longrightarrow> db' = ?d"
    "pd_tasks db' = pd_tasks ?d" "pd_attempts db' = pd_attempts ?d"
    using settle_from_ok [OF wf1 live1 s1 settled_target_final [of j], where scrub = scrub] by metis
  show thesis
  proof (rule that)
    show "settle_plan_node scrub sj db pid nid j = (db', Inr ())"
      by (simp add: settle_plan_node_def Let_def p(1) loc st db'(1))
    show "only_moves nid db db'" using db'(4) sf(1) by (simp add: only_moves_def)
  qed (use db' sf same_plans_trans [OF sf(2) db'(3)] in auto)
qed

lemma settled_twice:
  assumes "ex_status e = ''settled''" and "exec_of db nid = Some e"
  shows "settle_plan_node_execution sj db nid j = db"
  using assms by (simp add: settle_plan_node_execution_def)

lemma settle_again:
  assumes "exec_of db nid \<noteq> None \<Longrightarrow> \<exists>e. exec_of db nid = Some e \<and> ex_status e = ''settled''"
  shows "settle_plan_node_execution sj db nid j = db"
  using assms by (cases "exec_of db nid") (auto simp: settle_plan_node_execution_def)

lemma exec_settled:
  "exec_of (settle_plan_node_execution sj db nid j) nid \<noteq> None \<Longrightarrow>
     \<exists>e. exec_of (settle_plan_node_execution sj db nid j) nid = Some e \<and> ex_status e = ''settled''"
  by (cases "exec_of db nid") (auto simp: exec_of_settle)

text \<open>
  C0: a node is settled once.  In a readable plan, settling a launching or running node succeeds,
  moves it to the state its result names, moves nothing else but waiting nodes, and keeps the plan
  readable; settling it again with any other result changes nothing.
\<close>

theorem node_settled_once:
  assumes "plan_readable db pid" and "live_node db pid nid" and "in_flight_state (pd_states db nid)"
  shows "\<exists>db'. settle_plan_node scrub sj db pid nid result = (db', Inr ()) \<and>
     pd_states db' nid = Some (settled_target result) \<and> only_moves nid db db' \<and> plan_readable db' pid \<and>
     (\<forall>result'. settle_plan_node scrub sj db' pid nid result' = (db', Inr ()))"
proof -
  obtain s where s: "pd_states db nid = Some s" "in_flight_state (Some s)"
    using assms(3) by (auto simp: in_flight_state_def)
  obtain db' where db': "settle_plan_node scrub sj db pid nid result = (db', Inr ())"
    "pd_states db' nid = Some (settled_target result)" "same_plans db db'" "only_moves nid db db'"
    "pd_execs db' = pd_execs (settle_plan_node_execution sj db nid result)"
    using settle_plan_node_ok [OF assms(1,2) s(1), where scrub = scrub and sj = sj and j = result] s(2) by metis
  have wf: "plan_readable db' pid" by (rule same_plans_readable [OF db'(3) assms(1)])
  have live: "live_node db' pid nid" using assms(2) same_plans_live [OF db'(3)] by simp
  have fin: "\<not> in_flight_state (Some (settled_target result))"
    using settled_target_final [of result] by (auto simp: in_flight_state_def)
  have ex: "exec_of db' nid = exec_of (settle_plan_node_execution sj db nid result) nid"
    by (simp add: exec_of_def db'(5))
  have "settle_plan_node scrub sj db' pid nid result' = (db', Inr ())" for result'
  proof -
    have "settle_plan_node_execution sj db' nid result' = db'"
      by (rule settle_again) (use exec_settled ex in metis)
    with settle_plan_node_ok [OF wf live db'(2), where scrub = scrub and sj = sj and j = result'] fin
    show ?thesis by metis
  qed
  with db' wf show ?thesis by blast
qed

section \<open>Cancelling\<close>

lemma cancel_plan_node_ok:
  assumes wf: "plan_readable db pid" and live: "live_node db pid nid" and recs: "bindings_have_records db"
  obtains db' where "cancel_plan_node scrub sj db pid nid = (db', Inr ())"
    "\<not> in_flight_state (pd_states db' nid)" "same_plans db db'" "only_moves nid db db'"
proof -
  obtain s where s: "pd_states db nid = Some s" by (rule live_node_row [OF wf live])
  obtain db1 where 1: "settle_plan_node scrub sj db pid nid cancelled_result = (db1, Inr ())"
    "pd_states db1 nid = Some (if in_flight_state (Some s) then settled_target cancelled_result else s)"
    "same_plans db db1" "only_moves nid db db1"
    using settle_plan_node_ok [OF wf live s, where scrub = scrub and sj = sj and j = cancelled_result] by metis
  have stop: "\<not> in_flight_state (pd_states db1 nid)"
    using 1(2) settled_target_final [of cancelled_result] by (auto simp: in_flight_state_def)
  have recs1: "bindings_have_records db1" by (rule same_plans_records [OF 1(3) recs])
  show thesis
  proof (cases "binding_of db1 nid")
    case None
    with that [of db1] 1 stop show thesis by (simp add: cancel_plan_node_def)
  next
    case (Some b)
    then have "b \<in> set (pd_bindings db1)" by (auto simp: binding_of_def dest: find_Some_in)
    with recs1 have r: "pd_tasks db1 (bn_task b) \<noteq> None" "pd_attempts db1 (bn_attempt b) \<noteq> None"
      by (auto simp: bindings_have_records_def)
    let ?d = "db1\<lparr>pd_attempts := (pd_attempts db1)(bn_attempt b \<mapsto> A_CANCELLED),
      pd_tasks := (pd_tasks db1)(bn_task b \<mapsto> CANCELLED)\<rparr>"
    have "cancel_plan_node scrub sj db pid nid = (?d, Inr ())"
      using r by (simp add: cancel_plan_node_def 1(1) Some write_attempt_status_def write_task_status_def)
    moreover have "same_plans db ?d" using 1(3) by (auto simp: same_plans_def)
    moreover have "only_moves nid db ?d" using 1(4) by (simp add: only_moves_def)
    ultimately show thesis using that [of ?d] stop by simp
  qed
qed

text \<open>
  Cancelling a node whose task has just succeeded, which the pump does when another task that
  finished at the same moment raised, keeps the node and overwrites the status of its task.
\<close>

lemma cancel_overwrites_success:
  assumes "plan_readable db pid" and "live_node db pid nid" and "pd_states db nid = Some N_SUCCEEDED"
    and "binding_of db nid = Some b" and "pd_tasks db (bn_task b) = Some SUCCEEDED"
    and "pd_attempts db (bn_attempt b) = Some A_SUCCEEDED"
  shows "\<exists>db'. cancel_plan_node scrub sj db pid nid = (db', Inr ()) \<and> pd_states db' nid = Some N_SUCCEEDED \<and>
     pd_tasks db' (bn_task b) = Some CANCELLED \<and> pd_attempts db' (bn_attempt b) = Some A_CANCELLED"
proof -
  have s: "\<not> in_flight_state (Some N_SUCCEEDED)" by (simp add: in_flight_state_def)
  obtain db1 where 1: "settle_plan_node scrub sj db pid nid cancelled_result = (db1, Inr ())"
    "pd_states db1 nid = Some N_SUCCEEDED" "same_plans db db1" "pd_tasks db1 = pd_tasks db" "pd_attempts db1 = pd_attempts db"
    using settle_plan_node_ok [OF assms(1-3), where scrub = scrub and sj = sj and j = cancelled_result] s by metis
  have b: "binding_of db1 nid = Some b" using 1(3) assms(4) by (simp add: same_plans_def binding_of_def)
  show ?thesis
    using 1 b assms(5,6) by (simp add: cancel_plan_node_def write_attempt_status_def write_task_status_def)
qed

section \<open>Nothing is left in flight\<close>

definition live_tasks :: "tool_task list \<Rightarrow> string set" where
  "live_tasks ts = pt_node ` {t \<in> set ts. pt_phase t \<noteq> T_DONE}"

definition pump_ok :: "plan_db \<Rightarrow> tool_pump \<Rightarrow> bool" where
  "pump_ok db0 u \<longleftrightarrow> bindings_have_records (tu_db u) \<and> (\<forall>pid. plan_by_id (tu_db u) pid \<noteq> None \<longrightarrow> plan_readable (tu_db u) pid) \<and>
     (\<forall>t \<in> set (tu_running u). plan_readable (tu_db u) (pt_plan t) \<and> live_node (tu_db u) (pt_plan t) (pt_node t)) \<and>
     (\<forall>nid. in_flight_state (pd_states (tu_db u) nid) \<longrightarrow>
        in_flight_state (pd_states db0 nid) \<or> nid \<in> live_tasks (tu_running u))"

lemma same_plans_by_id: "same_plans db db' \<Longrightarrow> plan_by_id db' pid = plan_by_id db pid"
  by (simp add: same_plans_def plan_by_id_def)

lemma only_moves_flight:
  "only_moves nid db db' \<Longrightarrow> x \<noteq> nid \<Longrightarrow> in_flight_state (pd_states db' x) \<Longrightarrow> in_flight_state (pd_states db x)"
  by (fastforce simp: only_moves_def in_flight_state_def)

lemma ready_readable:
  assumes "nid \<in> set (tool_nodes_ready db pid)"
  shows "plan_by_id db pid \<noteq> None \<and> live_node db pid nid \<and> pd_states db nid = Some N_READY"
  using assms
  by (auto simp: tool_nodes_ready_def get_plan_def ready_plan_nodes_def active_rows_def live_node_def set_map_filter
      split: sum.splits option.splits if_splits)

lemma pump_move:
  assumes ok: "pump_ok db0 u" and same: "same_plans (tu_db u) db" and moves: "only_moves nid (tu_db u) db"
    and ts: "\<forall>t \<in> set ts. plan_readable (tu_db u) (pt_plan t) \<and> live_node (tu_db u) (pt_plan t) (pt_node t)"
    and keep: "live_tasks (tu_running u) - {nid} \<subseteq> live_tasks ts"
    and own: "in_flight_state (pd_states db nid) \<Longrightarrow> nid \<in> live_tasks ts"
  shows "pump_ok db0 (u\<lparr>tu_db := db, tu_running := ts\<rparr>)"
proof -
  have "bindings_have_records db"
    using ok by (intro same_plans_records [OF same]) (simp add: pump_ok_def)
  moreover have "plan_readable db pid" if "plan_by_id db pid \<noteq> None" for pid
    using ok that same_plans_by_id [OF same, of pid] by (intro same_plans_readable [OF same]) (simp add: pump_ok_def)
  moreover have "plan_readable db (pt_plan t) \<and> live_node db (pt_plan t) (pt_node t)" if "t \<in> set ts" for t
    using ts that same_plans_readable [OF same] same_plans_live [OF same] by blast
  moreover have "in_flight_state (pd_states db0 x) \<or> x \<in> live_tasks ts" if x: "in_flight_state (pd_states db x)" for x
  proof (cases "x = nid")
    case True
    with own x show ?thesis by simp
  next
    case False
    from only_moves_flight [OF moves False x] ok have "in_flight_state (pd_states db0 x) \<or> x \<in> live_tasks (tu_running u)"
      by (simp add: pump_ok_def)
    with keep False show ?thesis by blast
  qed
  ultimately show ?thesis by (simp add: pump_ok_def)
qed

lemma set_phase_tasks:
  assumes "\<forall>t \<in> set ts. P (pt_plan t) (pt_node t)"
  shows "\<forall>t \<in> set (set_phase t0 ph ts). P (pt_plan t) (pt_node t)"
  using assms by (auto simp: set_phase_def)

lemma set_phase_live:
  "t \<in> set ts \<Longrightarrow> live_tasks ts - {pt_node t} \<subseteq> live_tasks (set_phase t ph ts)"
  "t \<in> set ts \<Longrightarrow> ph \<noteq> T_DONE \<Longrightarrow> pt_node t \<in> live_tasks (set_phase t ph ts)"
proof -
  show "live_tasks ts - {pt_node t} \<subseteq> live_tasks (set_phase t ph ts)" if "t \<in> set ts"
    by (force simp: live_tasks_def set_phase_def)
  show "pt_node t \<in> live_tasks (set_phase t ph ts)" if "t \<in> set ts" "ph \<noteq> T_DONE"
  proof -
    have "t\<lparr>pt_phase := ph\<rparr> \<in> set (set_phase t ph ts)" using that(1) by (force simp: set_phase_def)
    then show ?thesis
      using that(2) unfolding live_tasks_def by (intro image_eqI [of _ _ "t\<lparr>pt_phase := ph\<rparr>"]) simp_all
  qed
qed

lemma pump_step_ok: "pump_step scrub sj dump u u' \<Longrightarrow> pump_ok db0 u \<Longrightarrow> pump_ok db0 u'"
proof (induction rule: pump_step.induct)
  case (launch nid u pid u')
  note r = ready_readable [OF launch.hyps(1)]
  with launch.prems have wf: "plan_readable (tu_db u) pid" by (simp add: pump_ok_def)
  from launch.hyps(2) obtain db1 db2 row where m: "move_node scrub (tu_db u) pid nid N_READY N_LAUNCHING = (db1, Inr ())"
    and b: "begin_plan_node_execution db1 nid (''tool:'' @ nid) = Inr (db2, row)"
    and u': "u' = u\<lparr>tu_db := db2, tu_running := tu_running u @ [\<lparr>pt_plan = pid, pt_node = nid, pt_phase = T_LAUNCHED\<rparr>]\<rparr>"
    by (auto simp: launch_tool_def split: prod.splits sum.splits)
  note fr = move_node_frame [OF wf m]
  have "db2 = db1 \<or> (\<exists>es. db2 = db1\<lparr>pd_execs := es\<rparr>)"
    using b by (auto simp: begin_plan_node_execution_def Let_def split: option.splits if_splits)
  then have same: "same_plans (tu_db u) db2" and mv: "only_moves nid (tu_db u) db2"
    using fr(2,3) by (auto simp: same_plans_def only_moves_def)
  show ?case unfolding u'
  proof (rule pump_move [OF launch.prems same mv])
    show "\<forall>t \<in> set (tu_running u @ [\<lparr>pt_plan = pid, pt_node = nid, pt_phase = T_LAUNCHED\<rparr>]).
        plan_readable (tu_db u) (pt_plan t) \<and> live_node (tu_db u) (pt_plan t) (pt_node t)"
      using launch.prems wf r by (auto simp: pump_ok_def)
    show "nid \<in> live_tasks (tu_running u @ [\<lparr>pt_plan = pid, pt_node = nid, pt_phase = T_LAUNCHED\<rparr>])"
      unfolding live_tasks_def
      by (rule image_eqI [of _ _ "\<lparr>pt_plan = pid, pt_node = nid, pt_phase = T_LAUNCHED\<rparr>"]) simp_all
  qed (auto simp: live_tasks_def)
next
  case (execute t u db)
  then have wf: "plan_readable (tu_db u) (pt_plan t)" by (simp add: pump_ok_def)
  note fr = move_node_frame [OF wf execute.hyps(3)]
  show ?case
  proof (rule pump_move [OF execute.prems fr(2,3)])
    show "\<forall>x \<in> set (set_phase t T_EXECUTING (tu_running u)).
        plan_readable (tu_db u) (pt_plan x) \<and> live_node (tu_db u) (pt_plan x) (pt_node x)"
      by (rule set_phase_tasks) (use execute.prems in \<open>simp add: pump_ok_def\<close>)
    show "live_tasks (tu_running u) - {pt_node t} \<subseteq> live_tasks (set_phase t T_EXECUTING (tu_running u))"
      by (rule set_phase_live(1) [OF execute.hyps(1)])
    show "pt_node t \<in> live_tasks (set_phase t T_EXECUTING (tu_running u))"
      by (rule set_phase_live(2) [OF execute.hyps(1)]) simp
  qed
next
  case (settle t u r db)
  then have wf: "plan_readable (tu_db u) (pt_plan t)" and live: "live_node (tu_db u) (pt_plan t) (pt_node t)"
    by (simp_all add: pump_ok_def)
  obtain s where s: "pd_states (tu_db u) (pt_node t) = Some s" by (rule live_node_row [OF wf live])
  have d: "same_plans (tu_db u) db" "only_moves (pt_node t) (tu_db u) db"
    "pd_states db (pt_node t) = Some (if in_flight_state (Some s) then settled_target (dump r) else s)"
    using settle_plan_node_ok [OF wf live s, where scrub = scrub and sj = sj and j = "dump r"] settle.hyps(3)
    by (metis prod.inject)+
  have fin: "\<not> in_flight_state (pd_states db (pt_node t))"
    using d(3) settled_target_final [of "dump r"] by (auto simp: in_flight_state_def)
  show ?case
  proof (rule pump_move [OF settle.prems d(1,2)])
    show "\<forall>x \<in> set (set_phase t T_DONE (tu_running u)).
        plan_readable (tu_db u) (pt_plan x) \<and> live_node (tu_db u) (pt_plan x) (pt_node x)"
      by (rule set_phase_tasks) (use settle.prems in \<open>simp add: pump_ok_def\<close>)
    show "live_tasks (tu_running u) - {pt_node t} \<subseteq> live_tasks (set_phase t T_DONE (tu_running u))"
      by (rule set_phase_live(1) [OF settle.hyps(1)])
    show "pt_node t \<in> live_tasks (set_phase t T_DONE (tu_running u))" if "in_flight_state (pd_states db (pt_node t))"
      using that fin by simp
  qed
next
  case (reap t u)
  have "live_tasks (filter (\<lambda>x. x \<noteq> t) (tu_running u)) = live_tasks (tu_running u)"
    using reap.hyps(2) by (auto simp: live_tasks_def)
  with reap.prems show ?case by (simp add: pump_ok_def)
qed

lemma pump_step_plans:
  "pump_step scrub sj dump u u' \<Longrightarrow> pump_ok db0 u \<Longrightarrow> pd_plans (tu_db u') = pd_plans (tu_db u)"
proof (induction rule: pump_step.induct)
  case (launch nid u pid u')
  then have wf: "plan_readable (tu_db u) pid" using ready_readable [OF launch.hyps(1)] by (simp add: pump_ok_def)
  from launch.hyps(2) show ?case
    by (auto simp: launch_tool_def begin_plan_node_execution_def Let_def same_plans_def
        dest!: move_node_frame(2) [OF wf] split: prod.splits sum.splits option.splits if_splits)
next
  case (execute t u db)
  then have "plan_readable (tu_db u) (pt_plan t)" by (simp add: pump_ok_def)
  from move_node_frame(2) [OF this execute.hyps(3)] show ?case by (simp add: same_plans_def)
next
  case (settle t u r db)
  then have wf: "plan_readable (tu_db u) (pt_plan t)" and live: "live_node (tu_db u) (pt_plan t) (pt_node t)"
    by (simp_all add: pump_ok_def)
  obtain s where s: "pd_states (tu_db u) (pt_node t) = Some s" by (rule live_node_row [OF wf live])
  have "same_plans (tu_db u) db"
    using settle_plan_node_ok [OF wf live s, where scrub = scrub and sj = sj and j = "dump r"] settle.hyps(3)
    by (metis prod.inject)
  then show ?case by (simp add: same_plans_def)
qed simp

lemma cancel_all_ok:
  assumes "\<forall>t \<in> set ts. plan_readable db (pt_plan t) \<and> live_node db (pt_plan t) (pt_node t)"
    and "bindings_have_records db"
  shows "\<exists>db'. cancel_all scrub sj db ts = (db', Inr ()) \<and> same_plans db db' \<and>
     (\<forall>x. in_flight_state (pd_states db' x) \<longrightarrow> in_flight_state (pd_states db x) \<and> x \<notin> pt_node ` set ts)"
  using assms
proof (induction ts arbitrary: db)
  case Nil
  then show ?case by simp
next
  case (Cons t ts)
  from Cons.prems have wf: "plan_readable db (pt_plan t)" and live: "live_node db (pt_plan t) (pt_node t)" by simp_all
  obtain db1 where 1: "cancel_plan_node scrub sj db (pt_plan t) (pt_node t) = (db1, Inr ())"
    "\<not> in_flight_state (pd_states db1 (pt_node t))" "same_plans db db1" "only_moves (pt_node t) db db1"
    by (rule cancel_plan_node_ok [OF wf live Cons.prems(2)])
  have "\<forall>t \<in> set ts. plan_readable db1 (pt_plan t) \<and> live_node db1 (pt_plan t) (pt_node t)"
    using Cons.prems(1) same_plans_readable [OF 1(3)] same_plans_live [OF 1(3)] by simp
  from Cons.IH [OF this same_plans_records [OF 1(3) Cons.prems(2)]] obtain db'
    where 2: "cancel_all scrub sj db1 ts = (db', Inr ())" "same_plans db1 db'"
      "\<forall>x. in_flight_state (pd_states db' x) \<longrightarrow> in_flight_state (pd_states db1 x) \<and> x \<notin> pt_node ` set ts"
    by blast
  have "in_flight_state (pd_states db x) \<and> x \<noteq> pt_node t" if "in_flight_state (pd_states db1 x)" for x
    using that 1(2) only_moves_flight [OF 1(4), of x] by metis
  then show ?case
    using 1(1) 2 same_plans_trans [OF 1(3) 2(2)] by (intro exI [of _ db']) auto
qed

text \<open>
  C34: the dispatcher leaves nothing in flight.  Whatever tool nodes the pump launched, executed,
  settled and took out of its set, in any order and over any number of plans, leaving it in the
  middle does not raise, and afterwards no node is launching or running that was not before; the plans
  stay readable.
\<close>

theorem dispatch_leaves_nothing_in_flight:
  assumes "(pump_step scrub sj dump)\<^sup>*\<^sup>* \<lparr>tu_db = db, tu_running = []\<rparr> u"
    and "bindings_have_records db" and "\<forall>pid. plan_by_id db pid \<noteq> None \<longrightarrow> plan_readable db pid"
  shows "\<exists>u'. leave_pump scrub sj u = (u', Inr ()) \<and> tu_running u' = [] \<and>
     (\<forall>nid. in_flight_state (pd_states (tu_db u') nid) \<longrightarrow> in_flight_state (pd_states db nid)) \<and>
     (\<forall>pid. plan_by_id db pid \<noteq> None \<longrightarrow> plan_by_id (tu_db u') pid = plan_by_id (tu_db u) pid \<and> plan_readable (tu_db u') pid)"
proof -
  have "pump_ok db u \<and> (\<forall>pid. plan_by_id (tu_db u) pid = plan_by_id db pid)"
  proof -
    have "pump_ok db u \<and> pd_plans (tu_db u) = pd_plans db"
      using assms(1)
    proof (induction rule: rtranclp_induct)
      case base
      with assms(2,3) show ?case by (simp add: pump_ok_def)
    next
      case (step u1 u2)
      then show ?case using pump_step_ok pump_step_plans by metis
    qed
    then show ?thesis by (simp add: plan_by_id_def)
  qed
  then have ok: "pump_ok db u" and ids: "\<And>pid. plan_by_id (tu_db u) pid = plan_by_id db pid" by auto
  obtain db' where c: "cancel_all scrub sj (tu_db u) (tu_running u) = (db', Inr ())" "same_plans (tu_db u) db'"
    "\<forall>x. in_flight_state (pd_states db' x) \<longrightarrow> in_flight_state (pd_states (tu_db u) x) \<and> x \<notin> pt_node ` set (tu_running u)"
    using cancel_all_ok [of "tu_running u" "tu_db u" scrub sj] ok by (auto simp: pump_ok_def)
  have "in_flight_state (pd_states db x)" if "in_flight_state (pd_states db' x)" for x
  proof -
    from that c(3) have x: "in_flight_state (pd_states (tu_db u) x)" "x \<notin> pt_node ` set (tu_running u)" by blast+
    have "live_tasks (tu_running u) \<subseteq> pt_node ` set (tu_running u)" by (auto simp: live_tasks_def)
    with x ok show ?thesis by (auto simp: pump_ok_def)
  qed
  moreover have "plan_readable db' pid" if "plan_by_id db pid \<noteq> None" for pid
    using ok that ids by (intro same_plans_readable [OF c(2)]) (simp add: pump_ok_def)
  ultimately show ?thesis
    using c(1) same_plans_by_id [OF c(2)] by (simp add: leave_pump_def)
qed
section \<open>The dispatcher at work\<close>

text \<open>The plan of two nodes, its agent node done and its tool node ready.\<close>

lemma ex_dispatch_plans:
  "list_all (\<lambda>r. pr_plan_id r = ''p'' \<and> pr_schema r = SUPPORTED_PLAN_SCHEMA_VERSION \<and>
     pr_policy r = SUPPORTED_EXECUTION_POLICY_VERSION) (pd_plans ex_db4)"
  by code_simp

lemma ex_dispatch_readable: "plan_by_id ex_db4 pid \<noteq> None \<Longrightarrow> plan_readable ex_db4 pid"
proof -
  assume "plan_by_id ex_db4 pid \<noteq> None"
  then obtain r where r: "plan_by_id ex_db4 pid = Some r" by blast
  then have "r \<in> set (pd_plans ex_db4)" "pr_plan_id r = pid"
    by (auto simp: plan_by_id_def dest: find_Some_in)
  with ex_dispatch_plans r have "pid = ''p''" and
    "pr_schema r = SUPPORTED_PLAN_SCHEMA_VERSION \<and> pr_policy r = SUPPORTED_EXECUTION_POLICY_VERSION"
    by (auto simp: list_all_iff)
  moreover have "wf_plan_store ex_db4 ''p''"
    using history_inv(1) [OF ex_keys ex_redaction _ ex_run(2)] ex_admitted by (auto simp: plan_store_ok_def)
  ultimately show ?thesis using r by (simp add: plan_readable_def)
qed

definition ex_pump0 :: tool_pump where "ex_pump0 = \<lparr>tu_db = ex_db4, tu_running = []\<rparr>"

definition ex_pump1 :: tool_pump where "ex_pump1 = fst (launch_tool id ex_pump0 ''p'' ''n1'')"

lemma ex_pump_launched: "pump_step id id (\<lambda>r. JNull) ex_pump0 ex_pump1"
proof (rule pump_step.launch)
  show "''n1'' \<in> set (tool_nodes_ready (tu_db ex_pump0) ''p'')"
  proof -
    have "List.member (tool_nodes_ready (tu_db ex_pump0) ''p'') ''n1''" by code_simp
    then show ?thesis by (simp add: List.member_iff)
  qed
  have "is_ok (snd (launch_tool id ex_pump0 ''p'' ''n1''))" by code_simp
  then show "launch_tool id ex_pump0 ''p'' ''n1'' = (ex_pump1, Inr ())"
    by (cases "launch_tool id ex_pump0 ''p'' ''n1''") (auto simp: ex_pump1_def is_ok_iff)
qed

lemma ex_pump_in_flight: "pd_states (tu_db ex_pump1) ''n1'' = Some N_LAUNCHING"
  by code_simp

theorem dispatch_leaves_nothing_in_flight_witness:
  "pd_states (tu_db ex_pump1) ''n1'' = Some N_LAUNCHING \<and>
   (\<exists>u'. leave_pump id id ex_pump1 = (u', Inr ()) \<and> \<not> in_flight_state (pd_states (tu_db u') ''n1''))"
proof -
  have run: "(pump_step id id (\<lambda>r. JNull))\<^sup>*\<^sup>* \<lparr>tu_db = ex_db4, tu_running = []\<rparr> ex_pump1"
    using ex_pump_launched by (simp add: ex_pump0_def)
  have "pd_bindings ex_db4 = []" by code_simp
  then have b: "bindings_have_records ex_db4" by (simp add: bindings_have_records_def)
  have "pd_states ex_db4 ''n1'' = Some N_READY" by code_simp
  then have "\<not> in_flight_state (pd_states ex_db4 ''n1'')" by (simp add: in_flight_state_def)
  with dispatch_leaves_nothing_in_flight [OF run b] ex_dispatch_readable ex_pump_in_flight show ?thesis by blast
qed

theorem node_settled_once_witness:
  "\<exists>db'. settle_plan_node id id (tu_db ex_pump1) ''p'' ''n1'' cancelled_result = (db', Inr ()) \<and>
     pd_states db' ''n1'' = Some N_CANCELLED \<and>
     settle_plan_node id id db' ''p'' ''n1'' (JObj [(''status'', JStr ''succeeded'')]) = (db', Inr ())"
proof -
  have base: "pump_ok ex_db4 ex_pump0"
  proof -
    have "pd_bindings ex_db4 = []" by code_simp
    then show ?thesis using ex_dispatch_readable
      by (simp add: pump_ok_def ex_pump0_def bindings_have_records_def)
  qed
  have "pump_ok ex_db4 ex_pump1" by (rule pump_step_ok [OF ex_pump_launched base])
  moreover have "tu_running ex_pump1 = [\<lparr>pt_plan = ''p'', pt_node = ''n1'', pt_phase = T_LAUNCHED\<rparr>]" by code_simp
  ultimately have ok: "plan_readable (tu_db ex_pump1) ''p''" "live_node (tu_db ex_pump1) ''p'' ''n1''"
    by (simp_all add: pump_ok_def)
  have fl: "in_flight_state (pd_states (tu_db ex_pump1) ''n1'')" using ex_pump_in_flight by (simp add: in_flight_state_def)
  have "settled_target cancelled_result = N_CANCELLED" by code_simp
  with node_settled_once [OF ok fl, of id id cancelled_result] show ?thesis by metis
qed

section \<open>What a tool node may do\<close>

lemma tool_node_runs_as_policy:
  assumes "run_plan_tool_node te fresh sched approvals nid n = Inr (sched', approvals', interrupt, r)"
    and "re_status r = R_SUCCEEDED"
  shows "\<exists>c arguments q. tool_request (task_features n) = Inr (c, arguments) \<and> q = tool_command_request te fresh nid (c, arguments) \<and>
     map_of (task_features n) ''tool'' = Some (JStr ''execute'') \<and> interrupt = None \<and>
     te_inside te (te_workspace te) \<and> py_lower (posix_name c) \<notin> set forbidden_names \<and>
     (te_trusted te \<or>
      (py_lower (posix_name c) = ''git'' \<and> hd arguments \<in> set git_read_only \<and>
         contains_unsafe_path (te_home te) (tl arguments) = Inr False) \<or>
      (\<exists>st. approvals = Some st \<and> snd (is_allowed st q)))"
proof -
  from assms obtain ca where ca: "tool_request (task_features n) = Inr ca"
    by (auto simp: run_plan_tool_node_def plain_result_def split: sum.splits)
  obtain c arguments where c: "ca = (c, arguments)" by (cases ca)
  let ?q = "tool_command_request te fresh nid (c, arguments)"
  from assms(1) ca c have op: "tool_operation te approvals nid n ?q = Inr (approvals', interrupt, r)"
    by (auto simp: run_plan_tool_node_def res_simps split: sum.splits)
  then obtain x where x: "run_command (te_home te) (te_inside te) (te_process te) (tool_context te n) approvals ?q = Inr (approvals', x)"
    and i: "interrupt = (if xr_status x = ''approval_required'' then Some ?q else None)"
    and r: "re_status r = (if xr_status x = ''completed'' \<and> xr_returncode x = Some 0 then R_SUCCEEDED else R_BLOCKED)"
    by (auto simp: tool_operation_def plain_result_def res_simps split: sum.splits)
  from r assms(2) have st: "xr_status x = ''completed''" by (auto split: if_splits)
  have ex: "map_of (task_features n) ''tool'' = Some (JStr ''execute'')"
    using ca by (auto simp: tool_request_def tool_command_def split: if_splits option.splits)
  have f: "cq_executable ?q = c" "cq_arguments ?q = arguments" "cq_cwd ?q = te_workspace te"
    by (simp_all add: tool_command_request_def)
  have t: "sx_trusted (tool_context te n) = te_trusted te" by (simp add: tool_context_def)
  have ni: "interrupt = None" using i st by simp
  from run_command_completed [OF x st, unfolded f t] ca c ex ni show ?thesis by fastforce
qed

text \<open>
  A priority that is no number passes the admission of the node and raises when the node runs.
\<close>

lemma tool_priority_not_validated:
  assumes "n = (mk_node ''b'' K_TOOL [])\<lparr>task_features :=
    [(''tool'', JStr ''execute''), (''command'', JStr ''ls''), (''priority'', JStr ''high'')]\<rparr>"
  shows "validate_plan_tool_node n = Inr ()" and
    "run_plan_tool_node te fresh sched approvals nid n = Inl (ValueError ''invalid literal for int() with base 10'')"
proof -
  have q: "tool_request (task_features n) = Inr (''ls'', [])" and
    p: "tool_priority (task_features n) = Inl (ValueError ''invalid literal for int() with base 10'')"
    unfolding assms by code_simp+
  show "validate_plan_tool_node n = Inr ()" using q by (simp add: validate_plan_tool_node_def)
  show "run_plan_tool_node te fresh sched approvals nid n = Inl (ValueError ''invalid literal for int() with base 10'')"
    by (simp add: run_plan_tool_node_def q p res_simps)
qed

end
