(* ===== verification/Run_Outcome.thy ===== *)
theory Run_Outcome
  imports Call_Accounting Failure_Monitor Event_Bus Result_Evaluator Decision_Gate
begin

text \<open>
  How a run of the lead ends (\<open>src/src/skail/runtime/run_controller.py\<close>): what the recorded events
  and decisions say about the work done (\<open>_gated_noop_requires_blocked\<close>,
  \<open>_decision_repairs_exhausted_requires_blocked\<close>, \<open>_required_mode_error\<close>, \<open>_question_answered\<close>,
  \<open>_stale_question_waiting_result\<close>), the budget of an assignment (\<open>_finalize_assignment_budget\<close>) and
  the transactions that close the lead's attempt, its task, the run and the session, for a first run,
  a resumed one and a rejected one.

  The state is the journal with its call tables.  A transaction is all or nothing; what follows it
  can still raise, so an ending returns the state it leaves beside its outcome.  Parameters: reading
  a stored envelope back and rendering a new one (redaction and JSON included), \<open>json.loads\<close>, and the
  identifiers of the events.  Recording which task results a run collected, rendering its messages
  and saving its checkpoint are outside the model.
\<close>

section \<open>Events of a run\<close>

datatype run_payload =
    Lifecycle_payload string "string option" "string option" json
  | Tool_payload string "string option"
  | User_payload string "string option" "string option" "string option"
  | Diagnostic_payload string string
  | Other_payload

record run_event =
  rv_type :: string
  rv_payload :: run_payload
  rv_task :: "string option"
  rv_attempt :: "string option"

record lead_run =
  lr_session :: string
  lr_run :: string
  lr_task :: string
  lr_attempt :: string
  lr_assignment :: string
  lr_reservation :: string

record run_env =
  rn_percent :: usd
  rn_view :: "string \<Rightarrow> run_event"
  rn_render :: "lead_run \<Rightarrow> string \<Rightarrow> int \<Rightarrow> run_event \<Rightarrow> string"
  rn_loads :: "string \<Rightarrow> json option"
  rn_fresh :: "nat \<Rightarrow> string"

definition recorded_events :: "run_env \<Rightarrow> 'a journal_db_scheme \<Rightarrow> string \<Rightarrow> run_event list" where
  "recorded_events env db rid = map (\<lambda>e. rn_view env (en_json e)) (events_after db rid 0)"

definition append_run_event ::
  "run_env \<Rightarrow> nat \<Rightarrow> lead_run \<Rightarrow> 'a journal_db_scheme \<Rightarrow> run_event \<Rightarrow> 'a journal_db_scheme res" where
  "append_run_event env k lr db ev =
     (let n = last_sequence db (lr_run lr) + 1 in
      append_event db \<lparr>en_id = rn_fresh env k, en_run = lr_run lr, en_seq = n,
        en_json = rn_render env lr (rn_fresh env k) n ev\<rparr>)"

fun append_run_events ::
  "run_env \<Rightarrow> nat \<Rightarrow> lead_run \<Rightarrow> 'a journal_db_scheme \<Rightarrow> run_event list \<Rightarrow> 'a journal_db_scheme res" where
  "append_run_events env k lr db [] = Inr db"
| "append_run_events env k lr db (ev # evs) =
     res_bind (append_run_event env k lr db ev) (\<lambda>db'. append_run_events env (Suc k) lr db' evs)"

section \<open>What the record says\<close>

definition decision_required_rejection :: "run_event \<Rightarrow> bool" where
  "decision_required_rejection ev \<longleftrightarrow> rv_type ev = ''tool.failed'' \<and>
     (case rv_payload ev of
        Tool_payload tool (Some reason) \<Rightarrow> starts_with reason ''execution.decision_required''
      | _ \<Rightarrow> False)"

definition gated_noop :: "task_result list \<Rightarrow> execution_decision option \<Rightarrow> run_event list \<Rightarrow> bool" where
  "gated_noop recorded decision evs \<longleftrightarrow>
     recorded = [] \<and> decision = None \<and>
     list_ex decision_required_rejection evs \<and> \<not> list_ex (\<lambda>ev. rv_type ev = ''tool.completed'') evs"

text \<open>The scan of the events, with its early returns.\<close>

fun repairs_scan :: "nat \<Rightarrow> run_event list \<Rightarrow> bool" where
  "repairs_scan n [] = (2 \<le> n)"
| "repairs_scan n (ev # evs) =
     (case rv_payload ev of
        Tool_payload tool reason \<Rightarrow>
          if rv_type ev = ''tool.completed'' \<and> tool \<noteq> ''ask_user'' \<and> tool \<noteq> ''execution_decision'' then False
          else if rv_type ev \<noteq> ''tool.failed'' then repairs_scan n evs
          else (case reason of
              None \<Rightarrow> repairs_scan n evs
            | Some r \<Rightarrow>
                if tool = ''execution_decision''
                  then repairs_scan (if starts_with r ''decision.'' then Suc n else n) evs
                else if starts_with r ''execution.decision_exhausted'' then True
                else repairs_scan n evs)
      | _ \<Rightarrow> repairs_scan n evs)"

definition repairs_exhausted :: "task_result list \<Rightarrow> execution_decision option \<Rightarrow> run_event list \<Rightarrow> bool" where
  "repairs_exhausted recorded decision evs \<longleftrightarrow> recorded = [] \<and> decision = None \<and> repairs_scan 0 evs"

fun mode_text :: "execution_mode \<Rightarrow> string" where
  "mode_text M_DIRECT = ''direct''"
| "mode_text M_DISCOVERY = ''discovery''"
| "mode_text M_PLANNED = ''planned''"

definition required_mode_error :: "execution_mode option \<Rightarrow> execution_decision option \<Rightarrow> string option" where
  "required_mode_error required decision =
     (case required of
        None \<Rightarrow> None
      | Some m \<Rightarrow>
          if map_option dec_mode decision = Some m then None
          else Some (''Execution blocked: the request explicitly requires mode='' @ mode_text m @
            '', but no matching execution decision was admitted; no work was performed.''))"

definition accepted_answer :: "run_event \<Rightarrow> bool" where
  "accepted_answer ev \<longleftrightarrow> rv_type ev = ''user.answer'' \<and>
     (case rv_payload ev of
        User_payload action (Some kind) (Some content) i \<Rightarrow> kind = ''question'' \<and> py_strip content \<noteq> []
      | _ \<Rightarrow> False)"

definition text_items :: "json option \<Rightarrow> string list" where
  "text_items j = (case j of Some (JList xs) \<Rightarrow> List.map_filter as_str xs | _ \<Rightarrow> [])"

definition answers_interrupt :: "args \<Rightarrow> string \<Rightarrow> bool" where
  "answers_interrupt interrupt answer \<longleftrightarrow>
     map_of interrupt ''kind'' = Some (JStr ''question'') \<and> py_strip answer \<noteq> [] \<and>
     (let options = text_items (map_of interrupt ''options'') in options = [] \<or> answer \<in> set options)"

definition question_answered :: "run_event list \<Rightarrow> args option \<Rightarrow> string option \<Rightarrow> bool" where
  "question_answered evs interrupt answer \<longleftrightarrow>
     (case (interrupt, answer) of (Some i, Some a) \<Rightarrow> answers_interrupt i a | _ \<Rightarrow> False) \<or>
     list_ex accepted_answer evs"

definition required_question_error :: "run_event list \<Rightarrow> bool \<Rightarrow> string option" where
  "required_question_error evs required =
     (if \<not> required \<or> question_answered evs None None then None
      else Some (''Execution blocked: this request requires a user question to be answered before work, '' @
        ''but no accepted answer was recorded.''))"

text \<open>
  \<open>str.casefold\<close> differs from \<open>str.lower\<close> below 256 on the sharp s and the micro sign only, neither
  of which folds to a letter pair of the phrases.
\<close>

definition waiting_prefixes :: "string list" where
  "waiting_prefixes = [''waiting for your answer'', ''awaiting your selection'']"

definition is_waiting :: "string \<Rightarrow> bool" where
  "is_waiting s \<longleftrightarrow>
     (let t = py_lower (dropWhile is_space s) in
      list_ex (starts_with t) waiting_prefixes \<or>
      starts_with t ''blocked for user input:'' \<and> list_ex (\<lambda>p. occurs_in p t) waiting_prefixes)"

definition is_waiting_result :: "json option \<Rightarrow> bool" where
  "is_waiting_result j \<longleftrightarrow>
     (case j of
        Some (JObj kvs) \<Rightarrow> map_of kvs ''status'' = Some (JStr ''waiting_for_user'') \<or>
          (case map_of kvs ''summary'' of Some (JStr s) \<Rightarrow> is_waiting s | _ \<Rightarrow> False)
      | _ \<Rightarrow> False)"

definition stale_waiting_result :: "run_env \<Rightarrow> json option \<Rightarrow> string \<Rightarrow> bool" where
  "stale_waiting_result env output text \<longleftrightarrow>
     is_waiting_result (case output of Some (JStr s) \<Rightarrow> rn_loads env s | j \<Rightarrow> j) \<or>
     is_waiting text \<or> is_waiting_result (rn_loads env text)"

section \<open>The budget of an assignment\<close>

text \<open>An ambiguous call of the assignment whose reconciliation is missing or not an estimate.\<close>

definition uncertain_calls :: "call_db \<Rightarrow> string \<Rightarrow> call_row list" where
  "uncertain_calls db i =
     filter (\<lambda>c. pc_assignment c = i \<and> pc_status c = C_AMBIGUOUS \<and>
       (let fs = filter (\<lambda>f. fl_call f = Some (pc_id c)) (cl_failures db) in
        fs = [] \<or> list_ex (\<lambda>f. fl_status f \<noteq> F_ESTIMATED) fs)) (cl_calls db)"

definition before_colon :: "string \<Rightarrow> string" where
  "before_colon s = takeWhile (\<lambda>c. c \<noteq> CHR '':'') s"

definition ambiguous_error_class :: "call_db \<Rightarrow> string \<Rightarrow> string" where
  "ambiguous_error_class db i =
     (case uncertain_calls db i of
        [] \<Rightarrow> ''unknown''
      | c # _ \<Rightarrow>
          (case pc_error c of
             None \<Rightarrow> ''unknown''
           | Some summary \<Rightarrow>
               let head = py_strip (before_colon summary);
                   plain = filter (\<lambda>c. c \<noteq> CHR ''_'') head
               in if summary = [] \<or> plain = [] \<or> \<not> list_all is_word plain \<or> 64 < length head
                  then ''unknown'' else head))"

definition ambiguous_error_detail :: "call_db \<Rightarrow> string \<Rightarrow> string option" where
  "ambiguous_error_detail db i =
     (case uncertain_calls db i of
        [] \<Rightarrow> None
      | c # _ \<Rightarrow>
          (case pc_error c of
             None \<Rightarrow> None
           | Some summary \<Rightarrow>
               if CHR '':'' \<notin> set summary then None
               else (let detail = py_strip (tl (dropWhile (\<lambda>c. c \<noteq> CHR '':'') summary))
                     in if detail = [] then None else Some detail)))"

definition uncertain_usage_error :: "call_db \<Rightarrow> string \<Rightarrow> py_exn" where
  "uncertain_usage_error db i = AccountingReconciliationRequired
     (''provider usage is uncertain ('' @ ambiguous_error_class db i @ ''); reservation remains held'' @
      (case ambiguous_error_detail db i of None \<Rightarrow> [] | Some d \<Rightarrow> '': '' @ d))"

definition has_calls :: "call_db \<Rightarrow> string \<Rightarrow> bool" where
  "has_calls db i \<longleftrightarrow> list_ex (\<lambda>u. cu_assignment u = i) (cl_usage db)"

definition has_completed_call :: "call_db \<Rightarrow> string \<Rightarrow> bool" where
  "has_completed_call db i \<longleftrightarrow> list_ex (\<lambda>c. pc_assignment c = i \<and> pc_status c = C_COMPLETED) (cl_calls db)"

definition committing :: "call_db \<Rightarrow> call_db res \<Rightarrow> call_db \<times> unit res" where
  "committing db r = (case r of Inl e \<Rightarrow> (db, Inl e) | Inr db' \<Rightarrow> (db', Inr ()))"

definition settle_or_release :: "usd \<Rightarrow> call_db \<Rightarrow> string \<Rightarrow> string \<Rightarrow> call_db \<times> unit res" where
  "settle_or_release percent db i rid =
     (if has_calls db i \<or> has_completed_call db i then settle_attempt percent db i
      else committing db (release_reservation percent db rid))"

definition finalize_assignment_budget :: "usd \<Rightarrow> call_db \<Rightarrow> string \<Rightarrow> string \<Rightarrow> bool \<Rightarrow> call_db \<times> unit res" where
  "finalize_assignment_budget percent db i rid cancelled =
     (let db1 = fst (mark_unreturned_calls_ambiguous db i) in
      if uncertain_calls db1 i \<noteq> [] then
        (if cancelled then (db1, Inr ()) else (db1, Inl (uncertain_usage_error db1 i)))
      else if map_option rs_status (reservation_by_id db1 rid) = Some R_SETTLED then (db1, Inr ())
      else settle_or_release percent db1 i rid)"

text \<open>Releasing the lead's allowances: an error leaves the rest, and the list, as they are.\<close>

fun release_allowances :: "usd \<Rightarrow> call_db \<Rightarrow> string list \<Rightarrow> call_db \<times> unit res" where
  "release_allowances percent db [] = (db, Inr ())"
| "release_allowances percent db (a # as) =
     (case release_reservation percent db a of
        Inl e \<Rightarrow> (db, Inl e)
      | Inr db' \<Rightarrow> release_allowances percent db' as)"

text \<open>\<open>_finalize_child_budgets\<close>: the assignments of the other tasks of the run, in order.\<close>

definition child_assignments :: "call_db \<Rightarrow> string \<Rightarrow> string \<Rightarrow> assignment_row list" where
  "child_assignments db rid lead_task =
     filter (\<lambda>a. list_ex (\<lambda>p. at_id p = as_attempt a \<and>
         list_ex (\<lambda>t. ta_id t = at_task p \<and> ta_run t = rid \<and> ta_id t \<noteq> lead_task) (jd_tasks db)) (jd_attempts db))
       (jd_assignments db)"

fun finalize_rows :: "usd \<Rightarrow> call_db \<Rightarrow> assignment_row list \<Rightarrow> call_db \<times> unit res" where
  "finalize_rows percent db [] = (db, Inr ())"
| "finalize_rows percent db (a # as) =
     (case read_assignment (as_payload a) of
        Inl e \<Rightarrow> (db, Inl e)
      | Inr t \<Rightarrow>
          (case finalize_assignment_budget percent db (tk_id t) (tk_reservation t) False of
             (db', Inl (AccountingReconciliationRequired s)) \<Rightarrow> finalize_rows percent db' as
           | (db', Inl e) \<Rightarrow> (db', Inl e)
           | (db', Inr _) \<Rightarrow> finalize_rows percent db' as))"

definition finalize_child_budgets :: "usd \<Rightarrow> call_db \<Rightarrow> string \<Rightarrow> string \<Rightarrow> call_db \<times> unit res" where
  "finalize_child_budgets percent db rid lead_task = finalize_rows percent db (child_assignments db rid lead_task)"

section \<open>Ending a run\<close>

record lead_state =
  ls_db :: call_db
  ls_allowances :: "string list"
  ls_pending :: bool
  ls_interrupt :: "args option"

record run_ending =
  ed_blocked :: bool
  ed_results :: "task_result list"
  ed_decision :: "execution_decision option"
  ed_mode :: "execution_mode option"
  ed_answer_required :: bool
  ed_output :: "json option"
  ed_text :: string

record run_report =
  rp_status :: string
  rp_interrupted :: bool
  rp_output :: string

definition lifecycle_event :: "string \<Rightarrow> string \<Rightarrow> json \<Rightarrow> run_event" where
  "lifecycle_event kind status output =
     \<lparr>rv_type = kind, rv_payload = Lifecycle_payload status None None output, rv_task = None, rv_attempt = None\<rparr>"

definition blocked_event :: run_event where
  "blocked_event = lifecycle_event ''run.blocked'' ''blocked'' JNull"

definition close_lead ::
  "run_env \<Rightarrow> lead_run \<Rightarrow> call_db \<Rightarrow> attempt_status \<Rightarrow> task_status \<Rightarrow> string \<Rightarrow> run_event list \<Rightarrow> call_db res" where
  "close_lead env lr db attempt task run evs =
     res_bind (update_attempt_status db (lr_attempt lr) attempt) (\<lambda>db.
     res_bind (update_task_status db (lr_task lr) task) (\<lambda>db.
     res_bind (update_run_status db (lr_run lr) run) (\<lambda>db.
     res_bind (update_session_status db (lr_session lr) ''idle'') (\<lambda>db.
       append_run_events env 0 lr db evs))))"

definition close_blocked :: "run_env \<Rightarrow> lead_run \<Rightarrow> call_db \<Rightarrow> call_db res" where
  "close_blocked env lr db = close_lead env lr db A_BLOCKED BLOCKED ''blocked'' [blocked_event]"

definition record_execution_gate_blocked :: "run_env \<Rightarrow> lead_run \<Rightarrow> call_db \<Rightarrow> string \<Rightarrow> string \<Rightarrow> call_db res" where
  "record_execution_gate_blocked env lr db code summary =
     close_lead env lr db A_BLOCKED BLOCKED ''blocked''
       [\<lparr>rv_type = ''diagnostic.error'', rv_payload = Diagnostic_payload code summary,
         rv_task = Some (lr_task lr), rv_attempt = Some (lr_attempt lr)\<rparr>, blocked_event]"

definition close_completed :: "run_env \<Rightarrow> lead_run \<Rightarrow> call_db \<Rightarrow> json option \<Rightarrow> call_db res" where
  "close_completed env lr db output =
     close_lead env lr db A_SUCCEEDED SUCCEEDED ''completed''
       [lifecycle_event ''run.completed'' ''completed'' (case output of None \<Rightarrow> JNull | Some j \<Rightarrow> j)]"

definition close_failed ::
  "run_env \<Rightarrow> lead_run \<Rightarrow> call_db \<Rightarrow> bool \<Rightarrow> string option \<Rightarrow> string option \<Rightarrow> call_db res" where
  "close_failed env lr db cancelled kind message =
     close_lead env lr db (if cancelled then A_INTERRUPTED else A_FAILED) (if cancelled then RETURNED_TO_LEAD else FAILED)
       (if cancelled then ''cancelled'' else ''failed'')
       [\<lparr>rv_type = (if cancelled then ''run.cancelled'' else ''run.failed''),
         rv_payload = Lifecycle_payload (if cancelled then ''cancelled'' else ''failed'') kind message JNull,
         rv_task = None, rv_attempt = None\<rparr>]"

definition release_lead :: "usd \<Rightarrow> lead_state \<Rightarrow> lead_state \<times> unit res" where
  "release_lead percent s =
     (case release_allowances percent (ls_db s) (ls_allowances s) of
        (db, Inl e) \<Rightarrow> (s\<lparr>ls_db := db\<rparr>, Inl e)
      | (db, Inr _) \<Rightarrow> (s\<lparr>ls_db := db, ls_allowances := []\<rparr>, Inr ()))"

definition settle_lead :: "usd \<Rightarrow> lead_run \<Rightarrow> bool \<Rightarrow> lead_state \<Rightarrow> lead_state \<times> unit res" where
  "settle_lead percent lr cancelled s =
     (case finalize_assignment_budget percent (ls_db s) (lr_assignment lr) (lr_reservation lr) cancelled of
        (db, Inl e) \<Rightarrow> (s\<lparr>ls_db := db\<rparr>, Inl e)
      | (db, Inr _) \<Rightarrow> release_lead percent (s\<lparr>ls_db := db\<rparr>))"

definition end_run ::
  "usd \<Rightarrow> lead_run \<Rightarrow> lead_state \<Rightarrow> call_db res \<Rightarrow> run_report \<Rightarrow> lead_state \<times> run_report res" where
  "end_run percent lr s closing report =
     (case closing of
        Inl e \<Rightarrow> (s, Inl e)
      | Inr db \<Rightarrow>
          (case settle_lead percent lr False (s\<lparr>ls_db := db\<rparr>) of
             (s', Inl e) \<Rightarrow> (s', Inl e)
           | (s', Inr _) \<Rightarrow> (s', Inr report)))"

definition exhausted_error :: string where
  "exhausted_error = ''Execution blocked: execution-decision repairs were exhausted without an '' @
     ''admitted decision; no operational work was performed.''"

definition noop_error :: string where
  "noop_error = ''Execution blocked: every operational tool call was rejected '' @
     ''because no execution decision was recorded (execution.decision_required), and no work was performed.''"

text \<open>The diagnostic code and the summary of a run that ended without meeting its demands.\<close>

definition demand_error :: "run_event list \<Rightarrow> run_ending \<Rightarrow> (string \<times> string) option" where
  "demand_error evs x =
     (case required_question_error evs (ed_answer_required x) of
        Some e \<Rightarrow> Some (''execution.question_required'', e)
      | None \<Rightarrow>
          (case required_mode_error (ed_mode x) (ed_decision x) of
             Some e \<Rightarrow> Some (''execution.intent_not_satisfied'', e)
           | None \<Rightarrow> None))"

definition gate_error :: "run_event list \<Rightarrow> run_ending \<Rightarrow> (string \<times> string) option" where
  "gate_error evs x =
     (case demand_error evs x of
        Some e \<Rightarrow> Some e
      | None \<Rightarrow>
          if repairs_exhausted (ed_results x) (ed_decision x) evs then Some (''execution.decision_exhausted'', exhausted_error)
          else if gated_noop (ed_results x) (ed_decision x) evs then Some (''execution.decision_required'', noop_error)
          else None)"

definition blocked_report :: "string \<Rightarrow> run_report" where
  "blocked_report text = \<lparr>rp_status = ''blocked'', rp_interrupted = False, rp_output = text\<rparr>"

definition completed_report :: "string \<Rightarrow> run_report" where
  "completed_report text = \<lparr>rp_status = ''completed'', rp_interrupted = False, rp_output = text\<rparr>"

text \<open>A run that waits for the approval a tool node asked for.\<close>

definition suspend_run :: "run_env \<Rightarrow> lead_run \<Rightarrow> lead_state \<Rightarrow> lead_state \<times> run_report res" where
  "suspend_run env lr s =
     (case res_bind (update_run_status (ls_db s) (lr_run lr) ''blocked'') (\<lambda>db.
           res_bind (update_session_status db (lr_session lr) ''interrupted'') (\<lambda>db.
             append_run_events env 0 lr db [blocked_event])) of
        Inl e \<Rightarrow> (s\<lparr>ls_pending := True\<rparr>, Inl e)
      | Inr db \<Rightarrow> (s\<lparr>ls_db := db, ls_pending := True\<rparr>, Inr \<lparr>rp_status = ''blocked'', rp_interrupted = True, rp_output = []\<rparr>))"

definition finish_run :: "run_env \<Rightarrow> lead_run \<Rightarrow> run_ending \<Rightarrow> lead_state \<Rightarrow> lead_state \<times> run_report res" where
  "finish_run env lr x s =
     (if ed_blocked x then
        (if ls_interrupt s \<noteq> None then suspend_run env lr s
         else end_run (rn_percent env) lr s (close_blocked env lr (ls_db s)) (blocked_report (ed_text x)))
      else (case gate_error (recorded_events env (ls_db s) (lr_run lr)) x of
          Some (code, text) \<Rightarrow>
            end_run (rn_percent env) lr s (record_execution_gate_blocked env lr (ls_db s) code text) (blocked_report text)
        | None \<Rightarrow>
            end_run (rn_percent env) lr s (close_completed env lr (ls_db s) (ed_output x)) (completed_report (ed_text x))))"

text \<open>The exception that left the dispatch: it is raised again unless the settlement raises its own.\<close>

definition dispatch_raised ::
  "run_env \<Rightarrow> lead_run \<Rightarrow> bool \<Rightarrow> py_exn \<Rightarrow> lead_state \<Rightarrow> lead_state \<times> run_report res" where
  "dispatch_raised env lr cancelled exn s =
     (case close_failed env lr (ls_db s) cancelled None None of
        Inl e \<Rightarrow> (s, Inl e)
      | Inr db \<Rightarrow>
          (case finalize_child_budgets (rn_percent env) db (lr_run lr) (lr_task lr) of
             (db, Inl e) \<Rightarrow> (s\<lparr>ls_db := db\<rparr>, Inl e)
           | (db, Inr _) \<Rightarrow>
               (case finalize_assignment_budget (rn_percent env) db (lr_assignment lr) (lr_reservation lr) cancelled of
                  (db, r) \<Rightarrow>
                    (case release_lead (rn_percent env) (s\<lparr>ls_db := db\<rparr>) of
                       (s', Inl e) \<Rightarrow> (s', Inl e)
                     | (s', Inr _) \<Rightarrow> (s', Inl (case r of Inl e \<Rightarrow> e | Inr _ \<Rightarrow> exn))))))"

section \<open>Ending a resumed run\<close>

definition drop_pending :: "lead_state \<times> 'r res \<Rightarrow> lead_state \<times> 'r res" where
  "drop_pending sr = (case sr of (s, Inl e) \<Rightarrow> (s, Inl e) | (s, Inr r) \<Rightarrow> (s\<lparr>ls_pending := False, ls_interrupt := None\<rparr>, Inr r))"

definition resumed_error :: "run_env \<Rightarrow> run_event list \<Rightarrow> run_ending \<Rightarrow> (string \<times> string) option" where
  "resumed_error env evs x =
     (case demand_error evs x of
        Some e \<Rightarrow> Some e
      | None \<Rightarrow>
          if repairs_exhausted (ed_results x) (ed_decision x) evs then Some (''execution.decision_exhausted'', exhausted_error)
          else if question_answered evs None None \<and> stale_waiting_result env (ed_output x) (ed_text x)
            then Some (''execution.answer_not_continued'',
              ''Execution blocked: the accepted answer was recorded, but the resumed run returned '' @
              ''a stale waiting summary instead of a final result.'')
          else None)"

definition complete_resumed :: "run_env \<Rightarrow> lead_run \<Rightarrow> run_ending \<Rightarrow> lead_state \<Rightarrow> lead_state \<times> run_report res" where
  "complete_resumed env lr x s =
     (case close_completed env lr (ls_db s) (ed_output x) of
        Inl e \<Rightarrow> (s, Inl e)
      | Inr db \<Rightarrow>
          (case settle_attempt (rn_percent env) db (lr_assignment lr) of
             (db, Inl e) \<Rightarrow> (s\<lparr>ls_db := db\<rparr>, Inl e)
           | (db, Inr _) \<Rightarrow>
               (case release_lead (rn_percent env) (s\<lparr>ls_db := db\<rparr>) of
                  (s', Inl e) \<Rightarrow> (s', Inl e)
                | (s', Inr _) \<Rightarrow> (s', Inr (completed_report (ed_text x))))))"

definition finish_resumed :: "run_env \<Rightarrow> lead_run \<Rightarrow> run_ending \<Rightarrow> lead_state \<Rightarrow> lead_state \<times> run_report res" where
  "finish_resumed env lr x s =
     drop_pending
       (if ed_blocked x
        then end_run (rn_percent env) lr s (close_blocked env lr (ls_db s)) (blocked_report (ed_text x))
        else (case resumed_error env (recorded_events env (ls_db s) (lr_run lr)) x of
            Some (code, text) \<Rightarrow>
              end_run (rn_percent env) lr s (record_execution_gate_blocked env lr (ls_db s) code text) (blocked_report text)
          | None \<Rightarrow> complete_resumed env lr x s))"

definition resume_raised ::
  "run_env \<Rightarrow> lead_run \<Rightarrow> bool \<Rightarrow> string option \<Rightarrow> string option \<Rightarrow> py_exn \<Rightarrow> lead_state \<Rightarrow>
     lead_state \<times> run_report res" where
  "resume_raised env lr cancelled kind message exn s =
     (case close_failed env lr (ls_db s) cancelled kind message of
        Inl e \<Rightarrow> (s, Inl e)
      | Inr db \<Rightarrow>
          (case finalize_child_budgets (rn_percent env) db (lr_run lr) (lr_task lr) of
             (db, Inl e) \<Rightarrow> (s\<lparr>ls_db := db\<rparr>, Inl e)
           | (db, Inr _) \<Rightarrow>
               (case settle_lead (rn_percent env) lr cancelled (s\<lparr>ls_db := db\<rparr>) of
                  (s', Inl e) \<Rightarrow> (s', Inl e)
                | (s', Inr _) \<Rightarrow> (s'\<lparr>ls_pending := False, ls_interrupt := None\<rparr>, Inl exn))))"

definition cancellation_event :: "args \<Rightarrow> string option \<Rightarrow> run_event" where
  "cancellation_event interrupt i =
     (let question = map_of interrupt ''kind'' = Some (JStr ''question'') in
      \<lparr>rv_type = ''user.cancellation'',
       rv_payload = User_payload ''cancellation'' (Some (if question then ''question'' else ''approval''))
         (Some (if question then ''question cancelled'' else ''approval rejected''))
         (case map_of interrupt ''question_id'' of Some (JStr q) \<Rightarrow> Some q | _ \<Rightarrow> i),
       rv_task = None, rv_attempt = None\<rparr>)"

definition reject_interrupted ::
  "run_env \<Rightarrow> lead_run \<Rightarrow> string option \<Rightarrow> lead_state \<Rightarrow> lead_state \<times> run_report res" where
  "reject_interrupted env lr i s =
     (if \<not> ls_pending s then (s, Inl (RuntimeError ''no interrupted run is available to reject''))
      else drop_pending
        (case close_lead env lr (ls_db s) A_BLOCKED BLOCKED ''blocked'' [] of
           Inl e \<Rightarrow> (s, Inl e)
         | Inr db \<Rightarrow>
             (case (if has_calls db (lr_assignment lr) then settle_attempt (rn_percent env) db (lr_assignment lr)
                    else committing db (release_reservation (rn_percent env) db (lr_reservation lr))) of
                (db, Inl e) \<Rightarrow> (s\<lparr>ls_db := db\<rparr>, Inl e)
              | (db, Inr _) \<Rightarrow>
                  (case release_lead (rn_percent env) (s\<lparr>ls_db := db\<rparr>) of
                     (s', Inl e) \<Rightarrow> (s', Inl e)
                   | (s', Inr _) \<Rightarrow>
                       (case append_run_events env 0 lr (ls_db s')
                           [cancellation_event (case ls_interrupt s of None \<Rightarrow> [] | Some a \<Rightarrow> a) i] of
                          Inl e \<Rightarrow> (s', Inl e)
                        | Inr db \<Rightarrow> (s'\<lparr>ls_db := db\<rparr>, Inr (blocked_report [])))))))"

section \<open>What an ending writes\<close>

definition lead_row :: "'a journal_db_scheme \<Rightarrow> lead_run \<Rightarrow>
    attempt_status option \<times> task_status option \<times> string option \<times> string option" where
  "lead_row db lr =
     (map_option at_status (List.find (\<lambda>a. at_id a = lr_attempt lr) (jd_attempts db)),
      map_option ta_status (List.find (\<lambda>t. ta_id t = lr_task lr) (jd_tasks db)),
      map_option ru_status (List.find (\<lambda>r. ru_id r = lr_run lr) (jd_runs db)),
      map_option se_status (List.find (\<lambda>q. se_id q = lr_session lr) (jd_sessions db)))"

definition lead_known :: "'a journal_db_scheme \<Rightarrow> lead_run \<Rightarrow> bool" where
  "lead_known db lr \<longleftrightarrow>
     list_ex (\<lambda>a. at_id a = lr_attempt lr) (jd_attempts db) \<and> list_ex (\<lambda>t. ta_id t = lr_task lr) (jd_tasks db) \<and>
     list_ex (\<lambda>r. ru_id r = lr_run lr) (jd_runs db) \<and> list_ex (\<lambda>q. se_id q = lr_session lr) (jd_sessions db)"

text \<open>The next two identifiers of events are new.\<close>

definition fresh_events :: "run_env \<Rightarrow> 'a journal_db_scheme \<Rightarrow> bool" where
  "fresh_events env db \<longleftrightarrow> rn_fresh env 0 \<noteq> rn_fresh env 1 \<and>
     rn_fresh env 0 \<notin> en_id ` set (jd_events db) \<and> rn_fresh env 1 \<notin> en_id ` set (jd_events db)"

text \<open>Reading back what was rendered keeps the type of the event.\<close>

definition keeps_types :: "run_env \<Rightarrow> lead_run \<Rightarrow> bool" where
  "keeps_types env lr \<longleftrightarrow> (\<forall>i n ev. rv_type (rn_view env (rn_render env lr i n ev)) = rv_type ev)"

definition event_types :: "run_env \<Rightarrow> 'a journal_db_scheme \<Rightarrow> string \<Rightarrow> string list" where
  "event_types env db rid = map rv_type (recorded_events env db rid)"

lemma find_status: "list_ex (\<lambda>x. f x = i) xs \<Longrightarrow> (\<And>x. f (g x) = f x) \<Longrightarrow> (\<And>x. h (g x) = s) \<Longrightarrow>
    map_option h (List.find (\<lambda>x. f x = i) (map (\<lambda>x. if f x = i then g x else x) xs)) = Some s"
  by (induction xs) auto

lemma list_ex_update:
  "(\<And>x. f (g x) = f x) \<Longrightarrow> list_ex (\<lambda>x. f x = i) (map (\<lambda>x. if f x = k then g x else x) xs) \<longleftrightarrow> list_ex (\<lambda>x. f x = i) xs"
  by (induction xs) auto

lemma lead_rows_written:
  assumes "lead_known db lr"
  shows "list_ex (\<lambda>x. at_id x = lr_attempt lr) (jd_attempts db)" "list_ex (\<lambda>x. ta_id x = lr_task lr) (jd_tasks db)"
    "list_ex (\<lambda>x. ru_id x = lr_run lr) (jd_runs db)" "list_ex (\<lambda>x. se_id x = lr_session lr) (jd_sessions db)"
  using assms by (simp_all add: lead_known_def)

lemma append_run_event_ok:
  assumes run: "has_run db (lr_run lr)" and new: "rn_fresh env k \<notin> en_id ` set (jd_events db)" and keep: "keeps_types env lr"
  obtains e where "append_run_event env k lr db ev = Inr (db\<lparr>jd_events := jd_events db @ [e]\<rparr>)" "en_id e = rn_fresh env k"
    "event_types env (db\<lparr>jd_events := jd_events db @ [e]\<rparr>) (lr_run lr) = event_types env db (lr_run lr) @ [rv_type ev]"
proof -
  let ?n = "last_sequence db (lr_run lr) + 1"
  let ?e = "\<lparr>en_id = rn_fresh env k, en_run = lr_run lr, en_seq = ?n, en_json = rn_render env lr (rn_fresh env k) ?n ev\<rparr>"
  have "en_seq x \<noteq> ?n" if "x \<in> set (jd_events db)" "en_run x = lr_run lr" for x
    using last_sequence_ge [OF that(1)] that(2) by simp
  then have clash: "\<not> envelope_clash db (jd_events db) ?e"
    using run new by (auto simp: envelope_clash_def list_ex_iff image_iff)
  then have ins: "append_event db ?e = Inr (db\<lparr>jd_events := jd_events db @ [?e]\<rparr>)"
    by (simp add: append_event_def insert_idempotent_def)
  have "0 \<le> last_sequence db (lr_run lr)"
    using fold_max_ge [of 0 "map en_seq (filter (\<lambda>x. en_run x = lr_run lr) (jd_events db))"] by (simp add: last_sequence_def)
  with append_new_event(2) [OF ins, of "lr_run lr" 0] new
  have "events_after (db\<lparr>jd_events := jd_events db @ [?e]\<rparr>) (lr_run lr) 0 = events_after db (lr_run lr) 0 @ [?e]" by simp
  then have "event_types env (db\<lparr>jd_events := jd_events db @ [?e]\<rparr>) (lr_run lr) = event_types env db (lr_run lr) @ [rv_type ev]"
    using keep by (simp add: event_types_def recorded_events_def keeps_types_def)
  with ins show thesis by (intro that [of ?e]) (simp_all add: append_run_event_def Let_def)
qed

lemma append_run_events_ok:
  assumes run: "has_run db (lr_run lr)" and fresh: "fresh_events env db" and keep: "keeps_types env lr" and n: "length evs \<le> 2"
  obtains es where "append_run_events env 0 lr db evs = Inr (db\<lparr>jd_events := jd_events db @ es\<rparr>)"
    "event_types env (db\<lparr>jd_events := jd_events db @ es\<rparr>) (lr_run lr) = event_types env db (lr_run lr) @ map rv_type evs"
proof -
  from fresh have f: "rn_fresh env 0 \<notin> en_id ` set (jd_events db)" "rn_fresh env 1 \<notin> en_id ` set (jd_events db)"
    "rn_fresh env 0 \<noteq> rn_fresh env 1" by (simp_all add: fresh_events_def)
  consider "evs = []" | a where "evs = [a]" | a b where "evs = [a, b]"
    using n by (cases evs rule: list.exhaust [OF _ list.exhaust]) (auto simp: le_Suc_eq numeral_2_eq_2 length_Suc_conv)
  then show thesis
  proof cases
    case 1
    then show thesis by (intro that [of "[]"]) simp_all
  next
    case (2 a)
    obtain e where "append_run_event env 0 lr db a = Inr (db\<lparr>jd_events := jd_events db @ [e]\<rparr>)"
      "event_types env (db\<lparr>jd_events := jd_events db @ [e]\<rparr>) (lr_run lr) = event_types env db (lr_run lr) @ [rv_type a]"
      by (rule append_run_event_ok [OF run f(1) keep])
    with 2 show thesis by (intro that [of "[e]"]) simp_all
  next
    case (3 a b)
    obtain e where e: "append_run_event env 0 lr db a = Inr (db\<lparr>jd_events := jd_events db @ [e]\<rparr>)" "en_id e = rn_fresh env 0"
      "event_types env (db\<lparr>jd_events := jd_events db @ [e]\<rparr>) (lr_run lr) = event_types env db (lr_run lr) @ [rv_type a]"
      by (rule append_run_event_ok [OF run f(1) keep])
    let ?d = "db\<lparr>jd_events := jd_events db @ [e]\<rparr>"
    have "has_run ?d (lr_run lr)" using run by (simp add: has_run_def)
    moreover have "rn_fresh env 1 \<notin> en_id ` set (jd_events ?d)" using f(2,3) e(2) by auto
    ultimately obtain e' where "append_run_event env 1 lr ?d b = Inr (?d\<lparr>jd_events := jd_events ?d @ [e']\<rparr>)"
      "event_types env (?d\<lparr>jd_events := jd_events ?d @ [e']\<rparr>) (lr_run lr) = event_types env ?d (lr_run lr) @ [rv_type b]"
      using append_run_event_ok [OF _ _ keep, of ?d 1 b] by metis
    with 3 e show thesis by (intro that [of "[e, e']"]) simp_all
  qed
qed

lemma close_lead_ok:
  assumes known: "lead_known db lr" and fresh: "fresh_events env db" and keep: "keeps_types env lr" and n: "length evs \<le> 2"
  obtains db' where "close_lead env lr db A T R evs = Inr db'" "lead_row db' lr = (Some A, Some T, Some R, Some ''idle'')"
    "event_types env db' (lr_run lr) = event_types env db (lr_run lr) @ map rv_type evs"
    "cl_calls db' = cl_calls db" "cl_usage db' = cl_usage db" "cl_failures db' = cl_failures db"
    "jd_assignments db' = jd_assignments db" "jd_reservations db' = jd_reservations db" "jd_usage db' = jd_usage db"
proof -
  let ?d = "db\<lparr>jd_attempts := map (\<lambda>r. if at_id r = lr_attempt lr then r\<lparr>at_status := A\<rparr> else r) (jd_attempts db),
    jd_tasks := map (\<lambda>r. if ta_id r = lr_task lr then r\<lparr>ta_status := T\<rparr> else r) (jd_tasks db),
    jd_runs := map (\<lambda>r. if ru_id r = lr_run lr then r\<lparr>ru_status := R\<rparr> else r) (jd_runs db),
    jd_sessions := map (\<lambda>s. if se_id s = lr_session lr then s\<lparr>se_status := ''idle''\<rparr> else s) (jd_sessions db)\<rparr>"
  note rows = lead_rows_written [OF known]
  have "has_run ?d (lr_run lr)"
    using rows(3) by (simp add: has_run_def list_ex_update)
  moreover have "fresh_events env ?d" using fresh by (simp add: fresh_events_def)
  ultimately obtain es where es: "append_run_events env 0 lr ?d evs = Inr (?d\<lparr>jd_events := jd_events ?d @ es\<rparr>)"
    "event_types env (?d\<lparr>jd_events := jd_events ?d @ es\<rparr>) (lr_run lr) = event_types env ?d (lr_run lr) @ map rv_type evs"
    using append_run_events_ok [OF _ _ keep n] by blast
  let ?e = "?d\<lparr>jd_events := jd_events ?d @ es\<rparr>"
  have "event_types env ?d (lr_run lr) = event_types env db (lr_run lr)"
    by (simp add: event_types_def recorded_events_def events_after_def)
  moreover have "lead_row ?e lr = (Some A, Some T, Some R, Some ''idle'')"
    using rows by (simp add: lead_row_def find_status)
  moreover have "close_lead env lr db A T R evs = Inr ?e"
    using rows es(1)
    by (simp add: close_lead_def update_attempt_status_def update_task_status_def update_run_status_def update_session_status_def
        has_attempt_def has_task_def has_run_def)
  ultimately show thesis using es(2) by (intro that [of ?e]) simp_all
qed

section \<open>Settling leaves the record alone\<close>

definition same_record :: "'a journal_db_scheme \<Rightarrow> 'b journal_db_scheme \<Rightarrow> bool" where
  "same_record db db' \<longleftrightarrow> jd_sessions db' = jd_sessions db \<and> jd_runs db' = jd_runs db \<and> jd_tasks db' = jd_tasks db \<and>
     jd_attempts db' = jd_attempts db \<and> jd_events db' = jd_events db"

lemma same_record_refl [simp]: "same_record db db"
  by (simp add: same_record_def)

lemma same_record_trans: "same_record a b \<Longrightarrow> same_record b c \<Longrightarrow> same_record a c"
  by (simp add: same_record_def)

lemma same_record_rows: "same_record db db' \<Longrightarrow> lead_row db' lr = lead_row db lr"
  "same_record db db' \<Longrightarrow> event_types env db' rid = event_types env db rid"
  by (simp_all add: same_record_def lead_row_def event_types_def recorded_events_def events_after_def)

lemma record_unreturned:
  "same_record db (fold (mark_unreturned i) xs db) \<and> ledger_ok (fold (mark_unreturned i) xs db) = ledger_ok db \<and>
   reservation_by_id (fold (mark_unreturned i) xs db) r = reservation_by_id db r \<and>
   jd_assignments (fold (mark_unreturned i) xs db) = jd_assignments db"
proof (induction xs arbitrary: db)
  case (Cons x xs)
  have "same_record db (mark_unreturned i x db)" "ledger_ok (mark_unreturned i x db) = ledger_ok db"
    "reservation_by_id (mark_unreturned i x db) r = reservation_by_id db r"
    "jd_assignments (mark_unreturned i x db) = jd_assignments db"
    by (simp_all add: mark_unreturned_def open_failure_def update_call_def same_record_def ledger_ok_def
        usage_reservations_def reservation_by_id_def)
  with Cons.IH [of "mark_unreturned i x db"] show ?case using same_record_trans by auto
qed simp

lemma record_release: "release_reservation percent db i = Inr db' \<Longrightarrow> same_record db db'"
  by (auto simp: release_reservation_def set_reservation_def res_simps same_record_def dest!: update_warning_Inr
      split: option.splits if_splits)

lemma record_settle: "settle percent db r uid usage key = Inr db' \<Longrightarrow> same_record db db'"
  by (auto simp: settle_def settle_new_def settle_existing_def set_reservation_def set_usage_def res_simps Let_def
      same_record_def dest!: update_warning_Inr split: option.splits if_splits prod.splits)

lemma record_settle_attempt: "same_record db (fst (settle_attempt percent db i))"
  unfolding settle_attempt_def settle_with_def
  by (auto simp: res_simps open_failure_def same_record_def dest: record_settle split: option.splits sum.splits)

lemma record_settle_or_release: "same_record db (fst (settle_or_release percent db i rid))"
  using record_settle_attempt
  by (auto simp: settle_or_release_def committing_def dest: record_release split: sum.splits)

lemma record_finalize: "same_record db (fst (finalize_assignment_budget percent db i rid cancelled))"
proof -
  have 1: "same_record db (fst (mark_unreturned_calls_ambiguous db i))"
    using record_unreturned by (simp add: mark_unreturned_calls_ambiguous_def)
  with same_record_trans [OF 1 record_settle_or_release, of percent i rid] show ?thesis
    by (simp add: finalize_assignment_budget_def Let_def)
qed

lemma record_allowances: "same_record db (fst (release_allowances percent db as))"
proof (induction as arbitrary: db)
  case (Cons a as)
  show ?case
  proof (cases "release_reservation percent db a")
    case (Inr db')
    with same_record_trans [OF record_release [OF Inr] Cons.IH] show ?thesis by simp
  qed simp
qed simp

lemma record_settle_lead: "same_record (ls_db s) (ls_db (fst (settle_lead percent lr cancelled s)))"
proof -
  obtain db r where f: "finalize_assignment_budget percent (ls_db s) (lr_assignment lr) (lr_reservation lr) cancelled = (db, r)"
    by fastforce
  have 1: "same_record (ls_db s) db"
    using record_finalize [of "ls_db s" percent "lr_assignment lr" "lr_reservation lr" cancelled] by (simp add: f)
  obtain db' r' where a: "release_allowances percent db (ls_allowances s) = (db', r')" by fastforce
  have 2: "same_record db db'" using record_allowances [of db percent "ls_allowances s"] by (simp add: a)
  from 1 same_record_trans [OF 1 2] show ?thesis
    by (simp add: settle_lead_def release_lead_def f a split: sum.split)
qed

lemma end_run_record:
  assumes "closing = Inr db"
  shows "same_record db (ls_db (fst (end_run percent lr s closing report)))"
    and "snd (end_run percent lr s closing report) = Inr p \<Longrightarrow> p = report"
proof -
  show "same_record db (ls_db (fst (end_run percent lr s closing report)))"
    using record_settle_lead [of "s\<lparr>ls_db := db\<rparr>" percent lr False]
    by (auto simp: end_run_def assms split: prod.splits sum.splits)
  show "snd (end_run percent lr s closing report) = Inr p \<Longrightarrow> p = report"
    by (simp add: end_run_def assms split: prod.splits sum.splits)
qed

section \<open>How a run ends\<close>

text \<open>What a run owes before it may be called completed.\<close>

definition demands_met :: "run_event list \<Rightarrow> run_ending \<Rightarrow> bool" where
  "demands_met evs x \<longleftrightarrow>
     (ed_answer_required x \<longrightarrow> list_ex accepted_answer evs) \<and>
     (\<forall>m. ed_mode x = Some m \<longrightarrow> map_option dec_mode (ed_decision x) = Some m)"

definition worked :: "run_event list \<Rightarrow> run_ending \<Rightarrow> bool" where
  "worked evs x \<longleftrightarrow> ed_results x \<noteq> [] \<or> ed_decision x \<noteq> None \<or>
     \<not> repairs_scan 0 evs \<and>
     (list_ex (\<lambda>ev. rv_type ev = ''tool.completed'') evs \<or> \<not> list_ex decision_required_rejection evs)"

lemma demand_error_iff: "demand_error evs x = None \<longleftrightarrow> demands_met evs x"
  by (auto simp: demand_error_def demands_met_def required_question_error_def required_mode_error_def question_answered_def
      split: option.splits if_splits)

lemma gate_error_iff: "gate_error evs x = None \<longleftrightarrow> demands_met evs x \<and> worked evs x"
  using demand_error_iff [of evs x]
  by (auto simp: gate_error_def worked_def repairs_exhausted_def gated_noop_def split: option.splits if_splits)

lemma end_run_closed:
  assumes known: "lead_known (ls_db s) lr" and fresh: "fresh_events env (ls_db s)" and keep: "keeps_types env lr"
    and n: "length evs \<le> 2" and e: "end_run percent lr s (close_lead env lr (ls_db s) A T R evs) report = (s', r)"
  shows "lead_row (ls_db s') lr = (Some A, Some T, Some R, Some ''idle'')"
    and "event_types env (ls_db s') (lr_run lr) = event_types env (ls_db s) (lr_run lr) @ map rv_type evs"
    and "r = Inr p \<Longrightarrow> p = report"
proof -
  obtain db where c: "close_lead env lr (ls_db s) A T R evs = Inr db" "lead_row db lr = (Some A, Some T, Some R, Some ''idle'')"
    "event_types env db (lr_run lr) = event_types env (ls_db s) (lr_run lr) @ map rv_type evs"
    by (rule close_lead_ok [OF known fresh keep n])
  note rec = end_run_record [OF c(1), of percent lr s report, unfolded e, simplified]
  show "lead_row (ls_db s') lr = (Some A, Some T, Some R, Some ''idle'')"
    "event_types env (ls_db s') (lr_run lr) = event_types env (ls_db s) (lr_run lr) @ map rv_type evs"
    using same_record_rows [OF rec(1)] c by simp_all
  show "r = Inr p \<Longrightarrow> p = report" using rec(2) by simp
qed

lemma suspend_run_ok:
  assumes known: "lead_known (ls_db s) lr" and fresh: "fresh_events env (ls_db s)" and keep: "keeps_types env lr"
    and e: "suspend_run env lr s = (s', r)"
  shows "lead_row (ls_db s') lr = (fst (lead_row (ls_db s) lr), fst (snd (lead_row (ls_db s) lr)), Some ''blocked'', Some ''interrupted'')"
    and "event_types env (ls_db s') (lr_run lr) = event_types env (ls_db s) (lr_run lr) @ [''run.blocked'']"
    and "r = Inr \<lparr>rp_status = ''blocked'', rp_interrupted = True, rp_output = []\<rparr> \<and> ls_pending s' \<and> ls_interrupt s' = ls_interrupt s"
proof -
  let ?d = "(ls_db s)\<lparr>jd_runs := map (\<lambda>r. if ru_id r = lr_run lr then r\<lparr>ru_status := ''blocked''\<rparr> else r) (jd_runs (ls_db s)),
    jd_sessions := map (\<lambda>q. if se_id q = lr_session lr then q\<lparr>se_status := ''interrupted''\<rparr> else q) (jd_sessions (ls_db s))\<rparr>"
  note rows = lead_rows_written [OF known]
  have "has_run ?d (lr_run lr)" using rows(3) by (simp add: has_run_def list_ex_update)
  moreover have "fresh_events env ?d" using fresh by (simp add: fresh_events_def)
  ultimately obtain es where es: "append_run_events env 0 lr ?d [blocked_event] = Inr (?d\<lparr>jd_events := jd_events ?d @ es\<rparr>)"
    "event_types env (?d\<lparr>jd_events := jd_events ?d @ es\<rparr>) (lr_run lr) = event_types env ?d (lr_run lr) @ map rv_type [blocked_event]"
    using append_run_events_ok [OF _ _ keep, of ?d "[blocked_event]"] by auto
  have s': "s' = s\<lparr>ls_db := ?d\<lparr>jd_events := jd_events ?d @ es\<rparr>, ls_pending := True\<rparr>"
    and r: "r = Inr \<lparr>rp_status = ''blocked'', rp_interrupted = True, rp_output = []\<rparr>"
    using e rows es(1) by (simp_all add: suspend_run_def update_run_status_def update_session_status_def has_run_def)
  show "lead_row (ls_db s') lr = (fst (lead_row (ls_db s) lr), fst (snd (lead_row (ls_db s) lr)), Some ''blocked'', Some ''interrupted'')"
    using rows by (simp add: s' lead_row_def find_status)
  have "event_types env ?d (lr_run lr) = event_types env (ls_db s) (lr_run lr)"
    by (simp add: event_types_def recorded_events_def events_after_def)
  with es(2) show "event_types env (ls_db s') (lr_run lr) = event_types env (ls_db s) (lr_run lr) @ [''run.blocked'']"
    by (simp add: s' blocked_event_def lifecycle_event_def)
  show "r = Inr \<lparr>rp_status = ''blocked'', rp_interrupted = True, rp_output = []\<rparr> \<and> ls_pending s' \<and> ls_interrupt s' = ls_interrupt s"
    by (simp add: r s')
qed

definition ended_row :: "bool \<Rightarrow> attempt_status option \<times> task_status option \<times> string option \<times> string option" where
  "ended_row ok = (if ok then (Some A_SUCCEEDED, Some SUCCEEDED, Some ''completed'', Some ''idle'')
     else (Some A_BLOCKED, Some BLOCKED, Some ''blocked'', Some ''idle''))"

text \<open>A run that is not suspended, as \<open>end_run\<close> leaves it: completed or blocked.\<close>

lemma end_run_rows:
  assumes known: "lead_known (ls_db s) lr" and fresh: "fresh_events env (ls_db s)" and keep: "keeps_types env lr"
  shows "end_run percent lr s (close_completed env lr (ls_db s) output) (completed_report text) = (s', r) \<Longrightarrow>
      lead_row (ls_db s') lr = ended_row True \<and> last (event_types env (ls_db s') (lr_run lr)) = ''run.completed'' \<and>
      (\<forall>p. r = Inr p \<longrightarrow> p = completed_report text)"
    and "end_run percent lr s (close_blocked env lr (ls_db s)) (blocked_report text) = (s', r) \<Longrightarrow>
      lead_row (ls_db s') lr = ended_row False \<and> last (event_types env (ls_db s') (lr_run lr)) = ''run.blocked'' \<and>
      (\<forall>p. r = Inr p \<longrightarrow> p = blocked_report text)"
    and "end_run percent lr s (record_execution_gate_blocked env lr (ls_db s) code text) (blocked_report text) = (s', r) \<Longrightarrow>
      lead_row (ls_db s') lr = ended_row False \<and> last (event_types env (ls_db s') (lr_run lr)) = ''run.blocked'' \<and>
      (\<forall>p. r = Inr p \<longrightarrow> p = blocked_report text)"
proof -
  have n: "length [e] \<le> 2" "length [e, e'] \<le> 2" for e e' :: run_event by simp_all
  note closed = end_run_closed [OF known fresh keep]
  show "lead_row (ls_db s') lr = ended_row True \<and> last (event_types env (ls_db s') (lr_run lr)) = ''run.completed'' \<and>
      (\<forall>p. r = Inr p \<longrightarrow> p = completed_report text)"
    if e: "end_run percent lr s (close_completed env lr (ls_db s) output) (completed_report text) = (s', r)"
    using closed(1,2) [OF n(1) e [unfolded close_completed_def]] closed(3) [OF n(1) e [unfolded close_completed_def]]
    by (simp add: ended_row_def lifecycle_event_def)
  show "lead_row (ls_db s') lr = ended_row False \<and> last (event_types env (ls_db s') (lr_run lr)) = ''run.blocked'' \<and>
      (\<forall>p. r = Inr p \<longrightarrow> p = blocked_report text)"
    if e: "end_run percent lr s (close_blocked env lr (ls_db s)) (blocked_report text) = (s', r)"
    using closed(1,2) [OF n(1) e [unfolded close_blocked_def]] closed(3) [OF n(1) e [unfolded close_blocked_def]]
    by (simp add: ended_row_def lifecycle_event_def blocked_event_def)
  show "lead_row (ls_db s') lr = ended_row False \<and> last (event_types env (ls_db s') (lr_run lr)) = ''run.blocked'' \<and>
      (\<forall>p. r = Inr p \<longrightarrow> p = blocked_report text)"
    if e: "end_run percent lr s (record_execution_gate_blocked env lr (ls_db s) code text) (blocked_report text) = (s', r)"
    using closed(1,2) [OF n(2) e [unfolded record_execution_gate_blocked_def]]
      closed(3) [OF n(2) e [unfolded record_execution_gate_blocked_def]]
    by (simp add: ended_row_def lifecycle_event_def blocked_event_def)
qed

lemma report_fields [simp]:
  "rp_status (blocked_report t) = ''blocked''" "rp_status (completed_report t) = ''completed''"
  "\<not> rp_interrupted (blocked_report t)" "\<not> rp_interrupted (completed_report t)"
  by (simp_all add: blocked_report_def completed_report_def)

lemma finish_run_rows:
  assumes known: "lead_known (ls_db s) lr" and fresh: "fresh_events env (ls_db s)" and keep: "keeps_types env lr"
    and e: "finish_run env lr x s = (s', r)" and open_end: "\<not> (ed_blocked x \<and> ls_interrupt s \<noteq> None)"
    and ok: "ok \<longleftrightarrow> \<not> ed_blocked x \<and> demands_met (recorded_events env (ls_db s) (lr_run lr)) x \<and>
      worked (recorded_events env (ls_db s) (lr_run lr)) x"
  shows "lead_row (ls_db s') lr = ended_row ok \<and>
     last (event_types env (ls_db s') (lr_run lr)) = (if ok then ''run.completed'' else ''run.blocked'') \<and>
     (\<forall>p. r = Inr p \<longrightarrow> rp_status p = (if ok then ''completed'' else ''blocked'') \<and> \<not> rp_interrupted p)"
proof (cases "gate_error (recorded_events env (ls_db s) (lr_run lr)) x")
  case None
  with ok gate_error_iff have w: "ok \<longleftrightarrow> \<not> ed_blocked x" by blast
  show ?thesis
  proof (cases "ed_blocked x")
    case True
    with e open_end have "end_run (rn_percent env) lr s (close_blocked env lr (ls_db s)) (blocked_report (ed_text x)) = (s', r)"
      by (simp add: finish_run_def)
    from end_run_rows(2) [OF known fresh keep this] show ?thesis
      using True w by simp (metis report_fields(1,3))
  next
    case False
    with e None have "end_run (rn_percent env) lr s (close_completed env lr (ls_db s) (ed_output x)) (completed_report (ed_text x)) = (s', r)"
      by (simp add: finish_run_def)
    from end_run_rows(1) [OF known fresh keep this] show ?thesis
      using False w by simp (metis report_fields(2,4))
  qed
next
  case (Some c)
  with ok gate_error_iff [of "recorded_events env (ls_db s) (lr_run lr)" x] have w: "\<not> ok" by auto
  show ?thesis
  proof (cases "ed_blocked x")
    case True
    with e open_end have "end_run (rn_percent env) lr s (close_blocked env lr (ls_db s)) (blocked_report (ed_text x)) = (s', r)"
      by (simp add: finish_run_def)
    from end_run_rows(2) [OF known fresh keep this] show ?thesis
      using w by simp (metis report_fields(1,3))
  next
    case False
    with e Some have "end_run (rn_percent env) lr s (record_execution_gate_blocked env lr (ls_db s) (fst c) (snd c)) (blocked_report (snd c)) = (s', r)"
      by (simp add: finish_run_def split: prod.splits)
    from end_run_rows(3) [OF known fresh keep this] show ?thesis
      using w by simp (metis report_fields(1,3))
  qed
qed


section \<open>No budget is left held\<close>

definition ledger_rows :: "'a journal_db_scheme \<Rightarrow> reservation_row list \<times> usage_row list" where
  "ledger_rows db = (jd_reservations db, jd_usage db)"

lemma rows_unreturned [simp]: "ledger_rows (fold (mark_unreturned i) xs db) = ledger_rows db"
  by (induction xs arbitrary: db) (simp_all add: mark_unreturned_def open_failure_def update_call_def ledger_rows_def)

lemma released_row:
  assumes "release_reservation percent db i = Inr db'" and "ledger_ok db"
  shows "\<exists>r. reservation_by_id db' i = Some r \<and> rs_status r \<noteq> R_RESERVED"
proof -
  obtain r where r: "reservation_by_id db i = Some r" using assms(1) by (auto simp: release_reservation_def split: option.splits)
  show ?thesis
  proof (cases "rs_status r = R_RESERVED")
    case False
    then have "db' = db" using assms(1) r by (auto simp: release_reservation_def split: if_splits)
    with r False show ?thesis by simp
  next
    case True
    then obtain w where "db' = (set_reservation db i R_RELEASED)\<lparr>jd_warning := w\<rparr>"
      using assms(1) r by (auto simp: release_reservation_def res_simps dest!: update_warning_Inr)
    moreover have "reservation_by_id (set_reservation db i R_RELEASED) i = Some (r\<lparr>rs_status := R_RELEASED\<rparr>)"
      using r reservation_by_id_Some [OF r] find_map_pred [of "\<lambda>r. rs_id r = i" "with_status i R_RELEASED" "jd_reservations db"]
      by (simp add: reservation_by_id_def set_reservation_def with_status_def)
    ultimately show ?thesis by simp
  qed
qed

lemma settle_with_rows:
  "settle_with percent reconciled db i = (db', Inl e) \<Longrightarrow> ledger_rows db' = ledger_rows db"
  by (auto simp: settle_with_def open_failure_def ledger_rows_def split: option.splits sum.splits)

lemma settle_or_release_rows:
  assumes ok: "ledger_ok db" and a: "assignment_by_id db i = Some a" and r: "payload_id (as_payload a) ''reservation_id'' = Inr rid"
    and e: "settle_or_release percent db i rid = (db', out)"
  shows "case out of Inl x \<Rightarrow> ledger_rows db' = ledger_rows db
     | Inr _ \<Rightarrow> \<exists>row. reservation_by_id db' rid = Some row \<and> rs_status row \<noteq> R_RESERVED"
proof (cases "has_calls db i \<or> has_completed_call db i")
  case True
  then have s: "settle_with percent False db i = (db', out)" using e by (simp add: settle_or_release_def settle_attempt_def)
  show ?thesis
  proof (cases out)
    case (Inl x)
    with s settle_with_rows show ?thesis by simp
  next
    case (Inr u)
    with s have "settle_with percent False db i = (db', Inr ())" by simp
    then have "\<exists>uid usage key. settle percent db rid uid usage key = Inr db'"
      by (rule settle_with_ok) (use a r in auto)
    then obtain uid usage key where "settle percent db rid uid usage key = Inr db'" by blast
    then obtain row where "reservation_by_id db' rid = Some row" "rs_status row = R_SETTLED"
      by (rule settled_row [OF ok])
    with Inr show ?thesis by simp
  qed
next
  case False
  then have s: "committing db (release_reservation percent db rid) = (db', out)" using e by (simp add: settle_or_release_def)
  show ?thesis
  proof (cases "release_reservation percent db rid")
    case (Inl x)
    with s show ?thesis by (auto simp: committing_def)
  next
    case (Inr d)
    with s have "db' = d" "out = Inr ()" by (simp_all add: committing_def)
    with released_row [OF Inr ok] show ?thesis by simp
  qed
qed

lemma finalize_rows_ok:
  assumes ok: "ledger_ok db" and a: "assignment_by_id db i = Some a" and r: "payload_id (as_payload a) ''reservation_id'' = Inr rid"
    and e: "finalize_assignment_budget percent db i rid cancelled = (db', out)"
  shows "case out of Inl x \<Rightarrow> ledger_rows db' = ledger_rows db
     | Inr _ \<Rightarrow> (\<exists>row. reservation_by_id db' rid = Some row \<and> rs_status row \<noteq> R_RESERVED) \<or>
         (cancelled \<and> uncertain_calls db' i \<noteq> [] \<and> ledger_rows db' = ledger_rows db)"
proof -
  let ?d = "fold (mark_unreturned i) (unreturned_calls db i) db"
  have fst: "fst (mark_unreturned_calls_ambiguous db i) = ?d" by (simp add: mark_unreturned_calls_ambiguous_def)
  have ok1: "ledger_ok ?d" and a1: "assignment_by_id ?d i = Some a"
    using record_unreturned [of db i "unreturned_calls db i"] ok a by (simp_all add: assignment_by_id_def)
  consider (uncertain) "uncertain_calls ?d i \<noteq> []"
    | (settled) "uncertain_calls ?d i = []" "map_option rs_status (reservation_by_id ?d rid) = Some R_SETTLED"
    | (rest) "uncertain_calls ?d i = []" "map_option rs_status (reservation_by_id ?d rid) \<noteq> Some R_SETTLED" by blast
  then show ?thesis
  proof cases
    case uncertain
    with e show ?thesis by (cases cancelled) (auto simp: finalize_assignment_budget_def fst Let_def)
  next
    case settled
    with e have "db' = ?d" "out = Inr ()" by (simp_all add: finalize_assignment_budget_def fst Let_def)
    with settled(2) show ?thesis by auto
  next
    case rest
    with e have "settle_or_release percent ?d i rid = (db', out)"
      by (simp only: finalize_assignment_budget_def fst Let_def simp_thms if_False)
    from settle_or_release_rows [OF ok1 a1 r this] show ?thesis by (auto split: sum.splits)
  qed
qed

text \<open>
  C36: finalizing an assignment leaves no budget silently held.  When it returns, the reservation is
  settled or released, except that a cancelled run keeps it while the outcome of a paid call is
  uncertain; when it raises, the reservations and the usage rows are exactly as they were.
\<close>

theorem budget_not_left_held:
  assumes "ledger_ok db" and "assignment_by_id db i = Some a"
    and "payload_id (as_payload a) ''reservation_id'' = Inr rid"
    and "finalize_assignment_budget percent db i rid cancelled = (db', out)"
  shows "case out of Inl e \<Rightarrow> ledger_rows db' = ledger_rows db
     | Inr _ \<Rightarrow> (\<exists>row. reservation_by_id db' rid = Some row \<and> rs_status row \<noteq> R_RESERVED) \<or>
         (cancelled \<and> uncertain_calls db' i \<noteq> [] \<and> ledger_rows db' = ledger_rows db)"
  using assms by (rule finalize_rows_ok)

section \<open>Resumed runs\<close>

lemma drop_pending_rows [simp]:
  "ls_db (fst (drop_pending m)) = ls_db (fst m)"
  "snd (drop_pending m) = snd m"
  by (auto simp: drop_pending_def split: prod.splits sum.splits)

lemma drop_pending_cleared: "drop_pending m = (s', Inr p) \<Longrightarrow> \<not> ls_pending s' \<and> ls_interrupt s' = None"
  by (auto simp: drop_pending_def split: prod.splits sum.splits)

lemma complete_resumed_rows:
  assumes known: "lead_known (ls_db s) lr" and fresh: "fresh_events env (ls_db s)" and keep: "keeps_types env lr"
  shows "lead_row (ls_db (fst (complete_resumed env lr x s))) lr = ended_row True"
    and "snd (complete_resumed env lr x s) = Inr p \<Longrightarrow> p = completed_report (ed_text x)"
proof -
  obtain db where c: "close_completed env lr (ls_db s) (ed_output x) = Inr db" "lead_row db lr = ended_row True"
    unfolding close_completed_def ended_row_def if_True
    by (rule close_lead_ok [OF known fresh keep]) auto
  obtain db1 u where st: "settle_attempt (rn_percent env) db (lr_assignment lr) = (db1, u)" by fastforce
  obtain db2 v where al: "release_allowances (rn_percent env) db1 (ls_allowances s) = (db2, v)" by fastforce
  have 1: "same_record db db1" using record_settle_attempt [of db "rn_percent env" "lr_assignment lr"] by (simp add: st)
  have "same_record db1 db2" using record_allowances [of db1 "rn_percent env" "ls_allowances s"] by (simp add: al)
  with 1 same_record_trans have 2: "same_record db db2" by blast
  show "lead_row (ls_db (fst (complete_resumed env lr x s))) lr = ended_row True"
    using c same_record_rows(1) [OF 1] same_record_rows(1) [OF 2]
    by (auto simp: complete_resumed_def release_lead_def st al split: sum.split)
  show "snd (complete_resumed env lr x s) = Inr p \<Longrightarrow> p = completed_report (ed_text x)"
    by (auto simp: complete_resumed_def c(1) split: prod.splits sum.splits)
qed

lemma resumed_rows:
  assumes known: "lead_known (ls_db s) lr" and fresh: "fresh_events env (ls_db s)" and keep: "keeps_types env lr"
  shows "lead_row (ls_db (fst (finish_resumed env lr x s))) lr =
     ended_row (\<not> ed_blocked x \<and> resumed_error env (recorded_events env (ls_db s) (lr_run lr)) x = None)"
proof -
  note rows = end_run_rows [OF known fresh keep]
  consider "ed_blocked x" | c where "\<not> ed_blocked x" "resumed_error env (recorded_events env (ls_db s) (lr_run lr)) x = Some c"
    | "\<not> ed_blocked x" "resumed_error env (recorded_events env (ls_db s) (lr_run lr)) x = None" by fastforce
  then show ?thesis
  proof cases
    case 1
    then show ?thesis
      using rows(2) [OF prod.collapse [symmetric], of "rn_percent env" "ed_text x"]
      by (simp add: finish_resumed_def)
  next
    case (2 c)
    then show ?thesis
      using rows(3) [OF prod.collapse [symmetric], of "rn_percent env" "fst c" "snd c"]
      by (cases c) (simp add: finish_resumed_def)
  next
    case 3
    then show ?thesis using complete_resumed_rows(1) [OF known fresh keep] by (simp add: finish_resumed_def)
  qed
qed

text \<open>
  A resumed run that stops at a second tool node waiting for approval is closed as blocked and its
  request is dropped, where a first run is suspended and keeps it.
\<close>

lemma resumed_approval_dropped:
  assumes "lead_known (ls_db s) lr" and "fresh_events env (ls_db s)" and "keeps_types env lr"
    and "ed_blocked x" and "ls_interrupt s = Some a"
  shows "finish_resumed env lr x s = (s', Inr p) \<Longrightarrow>
      ls_interrupt s' = None \<and> \<not> ls_pending s' \<and> \<not> rp_interrupted p \<and> lead_row (ls_db s') lr = ended_row False"
    and "finish_run env lr x s = (s', r) \<Longrightarrow> ls_interrupt s' = Some a \<and> ls_pending s' \<and> (\<exists>p. r = Inr p \<and> rp_interrupted p)"
proof -
  show "ls_interrupt s' = None \<and> \<not> ls_pending s' \<and> \<not> rp_interrupted p \<and> lead_row (ls_db s') lr = ended_row False"
    if e: "finish_resumed env lr x s = (s', Inr p)"
  proof -
    from e have d: "drop_pending (end_run (rn_percent env) lr s (close_blocked env lr (ls_db s)) (blocked_report (ed_text x))) = (s', Inr p)"
      using assms(4) by (simp add: finish_resumed_def)
    then have "snd (end_run (rn_percent env) lr s (close_blocked env lr (ls_db s)) (blocked_report (ed_text x))) = Inr p"
      using drop_pending_rows(2) by (metis snd_conv)
    then have "p = blocked_report (ed_text x)"
      by (auto simp: end_run_def split: prod.splits sum.splits)
    with drop_pending_cleared [OF d] resumed_rows [OF assms(1-3), of x] e assms(4) show ?thesis by simp
  qed
  show "ls_interrupt s' = Some a \<and> ls_pending s' \<and> (\<exists>p. r = Inr p \<and> rp_interrupted p)" if "finish_run env lr x s = (s', r)"
    using suspend_run_ok(3) [OF assms(1-3), of s' r] that assms(4,5) by (simp add: finish_run_def)
qed

text \<open>
  A resumed run whose operational tool calls were all rejected for want of a decision is completed,
  where a first run with the same record is blocked.
\<close>

lemma resumed_noop_completes:
  assumes "lead_known (ls_db s) lr" and "fresh_events env (ls_db s)" and "keeps_types env lr"
    and "\<not> ed_blocked x" and evs: "evs = recorded_events env (ls_db s) (lr_run lr)"
    and "demands_met evs x" and "\<not> repairs_scan 0 evs" and "gated_noop (ed_results x) (ed_decision x) evs"
    and "\<not> list_ex accepted_answer evs"
  shows "lead_row (ls_db (fst (finish_run env lr x s))) lr = ended_row False"
    and "lead_row (ls_db (fst (finish_resumed env lr x s))) lr = ended_row True"
proof -
  have "\<not> worked evs x" using assms(8) by (auto simp: gated_noop_def worked_def)
  with finish_run_rows [OF assms(1-3), of x "fst (finish_run env lr x s)" "snd (finish_run env lr x s)" False] assms(4) evs
  show "lead_row (ls_db (fst (finish_run env lr x s))) lr = ended_row False" by simp
  have "demand_error evs x = None" using assms(6) by (simp add: demand_error_iff)
  then have "resumed_error env evs x = None"
    using assms(7,9) by (simp add: resumed_error_def repairs_exhausted_def question_answered_def)
  with resumed_rows [OF assms(1-3), of x] assms(4) evs
  show "lead_row (ls_db (fst (finish_resumed env lr x s))) lr = ended_row True" by simp
qed

section \<open>A run that ends\<close>

definition ex_run_env :: run_env where
  "ex_run_env = \<lparr>rn_percent = 8 / 10, rn_view = (\<lambda>t. lifecycle_event t [] JNull), rn_render = (\<lambda>lr i n ev. rv_type ev),
     rn_loads = (\<lambda>_. None), rn_fresh = (\<lambda>k. if k = 0 then ''e0'' else ''e1'')\<rparr>"

definition ex_lead :: lead_run where
  "ex_lead = \<lparr>lr_session = ''s'', lr_run = ''r'', lr_task = ex_uuid CHR ''a'', lr_attempt = ''a1'',
     lr_assignment = ex_assignment_id, lr_reservation = en_fresh ex_assign_env 0 1\<rparr>"

definition ex_ending :: run_ending where
  "ex_ending = \<lparr>ed_blocked = False, ed_results = [], ed_decision = None, ed_mode = None, ed_answer_required = False,
     ed_output = None, ed_text = ''ok''\<rparr>"

definition ex_lead_state :: lead_state where
  "ex_lead_state = \<lparr>ls_db = ex_spent, ls_allowances = [], ls_pending = False, ls_interrupt = None\<rparr>"


theorem budget_not_left_held_witness:
  "\<exists>db' row. finalize_assignment_budget (8/10) ex_spent ex_assignment_id (en_fresh ex_assign_env 0 1) False = (db', Inr ()) \<and>
     reservation_by_id db' (en_fresh ex_assign_env 0 1) = Some row \<and> rs_status row \<noteq> R_RESERVED"
proof -
  have ok: "ledger_ok ex_spent" by code_simp
  have "assignment_by_id ex_spent ex_assignment_id \<noteq> None" by code_simp
  then obtain a where a: "assignment_by_id ex_spent ex_assignment_id = Some a" by blast
  have "map_option (\<lambda>a. payload_id (as_payload a) ''reservation_id'') (assignment_by_id ex_spent ex_assignment_id) =
      Some (Inr (en_fresh ex_assign_env 0 1))" by code_simp
  with a have r: "payload_id (as_payload a) ''reservation_id'' = Inr (en_fresh ex_assign_env 0 1)" by simp
  have "is_ok (snd (finalize_assignment_budget (8/10) ex_spent ex_assignment_id (en_fresh ex_assign_env 0 1) False))" by code_simp
  then obtain db' where f: "finalize_assignment_budget (8/10) ex_spent ex_assignment_id (en_fresh ex_assign_env 0 1) False = (db', Inr ())"
    by (cases "finalize_assignment_budget (8/10) ex_spent ex_assignment_id (en_fresh ex_assign_env 0 1) False") (auto simp: is_ok_iff)
  from budget_not_left_held [OF ok a r f] f show ?thesis by auto
qed

end
