(* ===== verification/Redaction.thy ===== *)
theory Redaction
  imports Changeset_Domain "HOL-Library.AList" "HOL-Library.Sublist"
begin

text \<open>
  What keeps credentials out of texts and events: \<open>SecretRedactor\<close> and \<open>redact\<close> of
  \<open>src/src/skail/domain/events.py\<close>, the registry of secrets of \<open>src/src/skail/runtime/redaction.py\<close>,
  and the validation of an event envelope.

  A value is JSON; a dictionary keeps the order of its keys, and a key that is written again keeps its
  place (\<open>AList.update\<close>).  Secrets of the same length are tried in the order of a Python set, which is
  arbitrary: the redactor is given the list, and what is proved holds of every order.
\<close>

section \<open>Replacing a text\<close>

text \<open>\<open>str.replace\<close> of a non-empty text: the occurrences from the left that do not overlap.\<close>

function replace_all :: "string \<Rightarrow> string \<Rightarrow> string \<Rightarrow> string" where
  "replace_all old new [] = []"
| "replace_all old new (c # cs) =
     (if old \<noteq> [] \<and> prefix old (c # cs) then new @ replace_all old new (drop (length old - 1) cs)
      else c # replace_all old new cs)"
  by pat_completeness auto
termination by (relation "measure (\<lambda>(old, new, t). length t)") auto

definition REDACTED :: string where
  "REDACTED = ''[REDACTED]''"

definition SENSITIVE_KEYS :: "string list" where
  "SENSITIVE_KEYS = [''api_key'', ''apikey'', ''authorization'', ''password'', ''secret'', ''token'']"

text \<open>The constructor drops empty secrets and sorts the rest, the longest first.\<close>

definition new_redactor :: "string list \<Rightarrow> string list" where
  "new_redactor secrets = sort_key (\<lambda>s. - int (length s)) (filter (\<lambda>s. s \<noteq> []) (remdups secrets))"

definition scrub_text :: "string list \<Rightarrow> string \<Rightarrow> string" where
  "scrub_text secrets t = fold (\<lambda>s t. replace_all s REDACTED t) secrets t"

text \<open>Building a dictionary from pairs.\<close>

definition dict_of :: "(string \<times> json) list \<Rightarrow> (string \<times> json) list" where
  "dict_of kvs = foldl (\<lambda>d (k, j). AList.update k j d) [] kvs"

fun scrub_value :: "(string \<Rightarrow> string) \<Rightarrow> json \<Rightarrow> json" where
  "scrub_value f (JStr s) = JStr (f s)"
| "scrub_value f (JObj kvs) = JObj (dict_of (map (\<lambda>(k, j). (f k, scrub_value f j)) kvs))"
| "scrub_value f (JList xs) = JList (map (scrub_value f) xs)"
| "scrub_value f j = j"

fun redact :: "json \<Rightarrow> json" where
  "redact (JObj kvs) =
     JObj (map (\<lambda>(k, j). (k, if py_lower k \<in> set SENSITIVE_KEYS then JStr REDACTED else redact j)) kvs)"
| "redact (JList xs) = JList (map redact xs)"
| "redact j = j"

section \<open>The registry\<close>

definition register_secret :: "string \<Rightarrow> string list \<Rightarrow> string list" where
  "register_secret s values = (if s = [] \<or> s \<in> set values then values else values @ [s])"

definition registry_redactor :: "string list \<Rightarrow> string list" where
  "registry_redactor values = new_redactor values"

definition registry_scrub :: "string list \<Rightarrow> json \<Rightarrow> json" where
  "registry_scrub values j = scrub_value (scrub_text (registry_redactor values)) j"

definition registry_scrub_text :: "string list \<Rightarrow> string \<Rightarrow> string" where
  "registry_scrub_text values t = scrub_text (registry_redactor values) t"

text \<open>The messages of a chain of exceptions, given as the texts and the place each one continues at.\<close>

fun exception_chain :: "nat \<Rightarrow> (nat \<Rightarrow> string) \<Rightarrow> (nat \<Rightarrow> nat option) \<Rightarrow> nat list \<Rightarrow> nat \<Rightarrow> string list" where
  "exception_chain 0 text next seen e = []"
| "exception_chain (Suc n) text next seen e =
     (if e \<in> set seen then []
      else text e # (case next e of None \<Rightarrow> [] | Some e' \<Rightarrow> exception_chain n text next (e # seen) e'))"

definition scrub_exception :: "string list \<Rightarrow> nat \<Rightarrow> (nat \<Rightarrow> string) \<Rightarrow> (nat \<Rightarrow> nat option) \<Rightarrow> nat \<Rightarrow> string list" where
  "scrub_exception values n text next e = map (registry_scrub_text values) (exception_chain n text next [] e)"

section \<open>Event envelopes\<close>

definition ALLOWED_EVENT_TYPES :: "string list" where
  "ALLOWED_EVENT_TYPES =
     map (\<lambda>s. ''session.'' @ s) [''created'', ''started'', ''idle'', ''interrupted'', ''completed'', ''archived''] @
     map (\<lambda>s. ''run.'' @ s) [''started'', ''completed'', ''failed'', ''cancelled'', ''blocked''] @
     map (\<lambda>s. ''lead.'' @ s) [''delta'', ''completed''] @
     map (\<lambda>s. ''model.'' @ s) [''started'', ''delta'', ''completed'', ''failed''] @
     map (\<lambda>s. ''task.'' @ s) [''proposed'', ''queued'', ''started'', ''succeeded'', ''failed'', ''blocked'',
       ''budget_blocked'', ''cancelled'', ''returned_to_lead''] @
     map (\<lambda>s. ''plan.'' @ s) [''admitted'', ''revised'', ''node_admitted'', ''node_ready'', ''node_launching'',
       ''node_running'', ''node_succeeded'', ''node_failed'', ''node_blocked'', ''node_cancelled''] @
     map (\<lambda>s. ''route.'' @ s) [''selected'', ''failed'', ''fallback'', ''escalated''] @
     map (\<lambda>s. ''tool.'' @ s) [''requested'', ''approved'', ''rejected'', ''started'', ''completed'', ''failed''] @
     map (\<lambda>s. ''budget.'' @ s) [''reserved'', ''released'', ''charged'', ''warned'', ''blocked''] @
     map (\<lambda>s. ''checkpoint.'' @ s) [''created'', ''resumed'', ''compacted''] @
     map (\<lambda>s. ''user.'' @ s) [''question'', ''answer'', ''cancellation''] @
     [''invariant.failed''] @ map (\<lambda>s. ''diagnostic.'' @ s) [''error'', ''warning'', ''workspace'']"

definition FAMILY_OF_PREFIX :: "(string \<times> string) list" where
  "FAMILY_OF_PREFIX =
     [(''session'', ''lifecycle''), (''run'', ''lifecycle''), (''lead'', ''model''), (''model'', ''model''),
      (''task'', ''task''), (''plan'', ''plan''), (''route'', ''route''), (''tool'', ''tool''),
      (''budget'', ''budget''), (''checkpoint'', ''checkpoint''), (''user'', ''user''),
      (''invariant'', ''diagnostic''), (''diagnostic'', ''diagnostic'')]"

definition type_prefix :: "string \<Rightarrow> string" where
  "type_prefix t = takeWhile (\<lambda>c. c \<noteq> CHR ''.'') t"

definition type_suffix :: "string \<Rightarrow> string" where
  "type_suffix t = tl (dropWhile (\<lambda>c. c \<noteq> CHR ''.'') t)"

text \<open>A payload: its family and, for those that name one, its status or action.\<close>

definition stateful_families :: "string list" where
  "stateful_families = [''lifecycle'', ''task'', ''tool'', ''route'', ''plan'', ''budget'', ''checkpoint'', ''user'']"

record envelope =
  ev_identifiers :: "string list"
  ev_optional :: "string option list"
  ev_zoned :: bool
  ev_kind :: string
  ev_family :: string
  ev_state :: string

definition validate_envelope :: "envelope \<Rightarrow> unit res" where
  "validate_envelope e =
     res_bind (check_all ensure_uuid4 (ev_identifiers e)) (\<lambda>_.
     res_bind (check_all ensure_uuid4 (List.map_filter (\<lambda>i. i) (ev_optional e))) (\<lambda>_.
      if \<not> ev_zoned e then Inl (ValueError ''occurred_at must include a timezone'')
      else if ev_kind e \<notin> set ALLOWED_EVENT_TYPES then Inl (ValueError (''unknown event type: '' @ ev_kind e))
      else (case map_of FAMILY_OF_PREFIX (type_prefix (ev_kind e)) of
          None \<Rightarrow> Inl (AssertionError [])
        | Some family \<Rightarrow>
            if ev_family e \<noteq> family
              then Inl (ValueError (''event type '' @ ev_kind e @ '' requires payload family '' @ family))
            else if ev_family e \<in> set stateful_families \<and> ev_state e \<noteq> type_suffix (ev_kind e)
              then Inl (ValueError (''event type '' @ ev_kind e @ '' conflicts with payload state '' @ ev_state e))
            else Inr ())))"

section \<open>No secret is left\<close>

lemma sublist_across:
  assumes "sublist s (xs @ c # ys)" and "c \<notin> set s"
  shows "sublist s xs \<or> sublist s ys"
proof (cases "s = []")
  case False
  from assms(1) obtain ps ss where e: "xs @ c # ys = ps @ s @ ss" by (auto simp: sublist_def)
  then consider (left) us where "xs = ps @ us" "us @ c # ys = s @ ss" | (right) us where "ps = xs @ us" "c # ys = us @ s @ ss"
    by (auto simp: append_eq_append_conv2)
  then show ?thesis
  proof cases
    case left
    from left(2) consider vs where "us = s @ vs" | vs where "s = us @ vs" "c # ys = vs @ ss"
      by (auto simp: append_eq_append_conv2)
    then show ?thesis
    proof cases
      case 1
      with left(1) show ?thesis by (auto simp: sublist_def)
    next
      case (2 vs)
      with assms(2) have "vs = []" by (cases vs) auto
      with 2 left(1) have "xs = ps @ s @ []" by simp
      then show ?thesis unfolding sublist_def by blast
    qed
  next
    case right
    with False assms(2) obtain v us' where "us = v # us'" by (cases us) (auto simp: Cons_eq_append_conv)
    with right show ?thesis by (auto simp: sublist_def)
  qed
qed simp

text \<open>A secret the marker cannot be mistaken for.\<close>

definition hideable :: "string \<Rightarrow> bool" where
  "hideable s \<longleftrightarrow> s \<noteq> [] \<and> CHR ''['' \<notin> set s \<and> CHR '']'' \<notin> set s \<and> \<not> sublist s ''REDACTED''"

lemma sublist_over_marker:
  assumes "sublist s (u @ REDACTED @ v)" and "hideable s"
  shows "sublist s u \<or> sublist s v"
proof -
  have h: "CHR ''['' \<notin> set s" "CHR '']'' \<notin> set s" "\<not> sublist s ''REDACTED''" using assms(2) by (simp_all add: hideable_def)
  have "sublist s (u @ CHR ''['' # (''REDACTED'' @ CHR '']'' # v))" using assms(1) by (simp add: REDACTED_def)
  from sublist_across [OF this h(1)] sublist_across [of s "''REDACTED''" "CHR '']''" v, OF _ h(2)] h(3) show ?thesis by blast
qed

lemma sublist_suffix: "sublist s (drop n t) \<Longrightarrow> sublist s t"
  by (metis append_take_drop_id sublist_append)

lemma replace_keeps_out:
  assumes "hideable s" and "\<not> sublist s (u @ t)"
  shows "\<not> sublist s (u @ replace_all old REDACTED t)"
  using assms(2)
proof (induction old "REDACTED" t arbitrary: u rule: replace_all.induct)
  case (1 old)
  then show ?case by simp
next
  case (2 old c cs)
  show ?case
  proof (cases "old \<noteq> [] \<and> prefix old (c # cs)")
    case True
    have u: "\<not> sublist s u" using "2.prems" by (meson sublist_append)
    have "\<not> sublist s (drop (length old - 1) cs)"
      using "2.prems" sublist_suffix by (metis sublist_append sublist_Cons_right)
    with "2.hyps"(1) [OF True, of "[]"] have "\<not> sublist s (replace_all old REDACTED (drop (length old - 1) cs))" by simp
    with u sublist_over_marker [OF _ assms(1)] True show ?thesis by fastforce
  next
    case False
    then have "replace_all old REDACTED (c # cs) = c # replace_all old REDACTED cs" by auto
    with "2.hyps"(2) [OF False, of "u @ [c]"] "2.prems" show ?thesis by simp
  qed
qed

lemma sublist_at: "sublist s u \<Longrightarrow> s \<noteq> [] \<Longrightarrow> \<exists>k < length u. prefix s (drop k u)"
proof -
  assume "sublist s u" "s \<noteq> []"
  then obtain ps ss where "u = ps @ s @ ss" by (auto simp: sublist_def)
  with \<open>s \<noteq> []\<close> show ?thesis by (intro exI [of _ "length ps"]) simp
qed

lemma replace_takes_out:
  assumes "hideable s" and "\<forall>k < length u. \<not> prefix s (drop k (u @ t))"
  shows "\<not> sublist s (u @ replace_all s REDACTED t)"
  using assms
proof (induction s "REDACTED" t arbitrary: u rule: replace_all.induct)
  case (1 s)
  then have "\<not> sublist s u" using sublist_at [of s u] by (auto simp: hideable_def)
  then show ?case by simp
next
  case (2 s c cs)
  show ?case
  proof (cases "s \<noteq> [] \<and> prefix s (c # cs)")
    case True
    have "\<not> sublist s u"
    proof
      assume "sublist s u"
      with sublist_at [of s u] True obtain k where k: "k < length u" "prefix s (drop k u)" by blast
      then have "prefix s (drop k (u @ c # cs))" by (simp add: prefix_append)
      with "2.prems"(2) k(1) show False by blast
    qed
    moreover have "\<not> sublist s (replace_all s REDACTED (drop (length s - 1) cs))"
      using "2.hyps"(1) [OF True "2.prems"(1), of "[]"] by simp
    ultimately show ?thesis using sublist_over_marker [OF _ "2.prems"(1)] True by fastforce
  next
    case False
    then have e: "replace_all s REDACTED (c # cs) = c # replace_all s REDACTED cs" by auto
    have n: "\<not> prefix s (c # cs)" using False "2.prems"(1) by (auto simp: hideable_def)
    have "\<not> prefix s (drop k ((u @ [c]) @ cs))" if "k < length (u @ [c])" for k
    proof (cases "k < length u")
      case True
      with "2.prems"(2) show ?thesis by simp
    next
      case False
      with that have "k = length u" by simp
      with n show ?thesis by simp
    qed
    with "2.hyps"(2) [OF False "2.prems"(1), of "u @ [c]"] e show ?thesis by simp
  qed
qed

lemma scrub_keeps_out: "hideable s \<Longrightarrow> \<not> sublist s t \<Longrightarrow> \<not> sublist s (scrub_text secrets t)"
proof (induction secrets arbitrary: t)
  case Nil
  then show ?case by (simp add: scrub_text_def)
next
  case (Cons x secrets)
  from replace_keeps_out [OF Cons.prems(1), of "[]" t x] Cons.prems(2)
  have "\<not> sublist s (replace_all x REDACTED t)" by simp
  from Cons.IH [OF Cons.prems(1) this] show ?case by (simp add: scrub_text_def)
qed

lemma scrub_hides: "hideable s \<Longrightarrow> s \<in> set secrets \<Longrightarrow> \<not> sublist s (scrub_text secrets t)"
proof (induction secrets arbitrary: t)
  case (Cons x secrets)
  show ?case
  proof (cases "s = x")
    case True
    from replace_takes_out [OF Cons.prems(1), of "[]" t] True
    have "\<not> sublist s (replace_all x REDACTED t)" by simp
    from scrub_keeps_out [OF Cons.prems(1) this, of secrets] show ?thesis by (simp add: scrub_text_def)
  next
    case False
    with Cons.prems Cons.IH [of "replace_all x REDACTED t"] show ?thesis by (simp add: scrub_text_def)
  qed
qed simp

text \<open>A text without secrets is left alone.\<close>

lemma replace_none: "\<not> sublist old t \<Longrightarrow> replace_all old new t = t"
proof (induction old new t rule: replace_all.induct)
  case (2 old new c cs)
  then have "\<not> prefix old (c # cs)" "\<not> sublist old cs" by (auto simp: sublist_Cons_right)
  with 2 show ?case by simp
qed simp

lemma scrub_none: "(\<And>s. s \<in> set secrets \<Longrightarrow> \<not> sublist s t) \<Longrightarrow> scrub_text secrets t = t"
  by (induction secrets) (auto simp: scrub_text_def replace_none)

section \<open>The contract of a redactor\<close>

fun json_texts :: "json \<Rightarrow> string set" where
  "json_texts (JStr s) = {s}"
| "json_texts (JObj kvs) = (\<Union>(k, j) \<in> set kvs. insert k (json_texts j))"
| "json_texts (JList xs) = (\<Union>j \<in> set xs. json_texts j)"
| "json_texts j = {}"

lemma dict_of_set: "set (foldl (\<lambda>d (k, j). AList.update k j d) d kvs) \<subseteq> set d \<union> set kvs"
proof (induction kvs arbitrary: d)
  case (Cons kv kvs)
  obtain k j where kv: "kv = (k, j)" by fastforce
  have "set (AList.update k j d) \<subseteq> insert (k, j) (set d)"
    by (induction d) auto
  with Cons.IH [of "AList.update k j d"] kv show ?case by auto
qed simp

locale redactor =
  fixes scrub :: "string \<Rightarrow> string" and hidden :: "string \<Rightarrow> bool"
  assumes hides: "hidden s \<Longrightarrow> \<not> sublist s (scrub t)"
begin

lemma hides_value: "hidden s \<Longrightarrow> t \<in> json_texts (scrub_value scrub j) \<Longrightarrow> \<not> sublist s t"
proof (induction j arbitrary: t)
  case (JObj kvs)
  let ?kvs = "map (\<lambda>(k, j). (scrub k, scrub_value scrub j)) kvs"
  from JObj.prems(2) obtain k j where kj: "(k, j) \<in> set (dict_of ?kvs)" "t = k \<or> t \<in> json_texts j" by auto
  with dict_of_set [of "[]" ?kvs] have "(k, j) \<in> set ?kvs" by (auto simp: dict_of_def)
  then obtain k' j' where m: "(k', j') \<in> set kvs" "k = scrub k'" "j = scrub_value scrub j'" by auto
  with kj(2) JObj.IH [OF m(1), of j'] hides [OF JObj.prems(1)] JObj.prems(1) show ?case by auto
qed (use hides in auto)

lemma hides_part: "hidden s \<Longrightarrow> sublist part (scrub t) \<Longrightarrow> \<not> sublist s part"
  using hides sublist_order.order.trans by blast

end

text \<open>The secrets of a list that the marker cannot be mistaken for are hidden.\<close>

definition hideable_in :: "string list \<Rightarrow> string \<Rightarrow> bool" where
  "hideable_in secrets s \<longleftrightarrow> s \<in> set secrets \<and> hideable s"

lemma redactor_secrets: "set (new_redactor secrets) = set secrets - {[]}"
  by (auto simp: new_redactor_def)

interpretation secrets: redactor "scrub_text secrets" "hideable_in secrets"
  by unfold_locales (simp add: hideable_in_def scrub_hides)

interpretation registry: redactor "registry_scrub_text values" "hideable_in values"
proof unfold_locales
  fix s t
  assume "hideable_in values s"
  then have "hideable s" "s \<in> set (new_redactor values)"
    by (auto simp: hideable_in_def redactor_secrets) (simp add: hideable_def)
  from scrub_hides [OF this] show "\<not> sublist s (registry_scrub_text values t)"
    by (simp add: registry_scrub_text_def registry_redactor_def)
qed

lemma registry_scrub_value: "registry_scrub values j = scrub_value (registry_scrub_text values) j"
  by (simp add: registry_scrub_def registry_scrub_text_def [abs_def])

lemma scrub_twice:
  assumes "\<And>s. s \<in> set values \<Longrightarrow> s = [] \<or> hideable s"
  shows "registry_scrub_text values (registry_scrub_text values t) = registry_scrub_text values t"
proof -
  have "\<not> sublist s (registry_scrub_text values t)" if "s \<in> set (registry_redactor values)" for s
    using registry.hides [of "values" s t] that assms [of s]
    by (auto simp: hideable_in_def registry_redactor_def redactor_secrets)
  then show ?thesis by (subst registry_scrub_text_def) (rule scrub_none)
qed

text \<open>
  C37: no registered credential survives.  After a credential is registered, no text of any value the
  registry scrubs contains it, whatever else is registered and in whatever order the secrets of one
  length are tried, as long as the credential cannot be read out of the marker itself; this covers the
  keys of dictionaries, nested values and every message of a chain of exceptions.
\<close>

theorem no_secret_survives:
  assumes "hideable s" and "s \<in> set (register_secret s values)" and "set values' = set (register_secret s values)"
  shows "(t \<in> json_texts (registry_scrub values' j) \<longrightarrow> \<not> sublist s t) \<and> \<not> sublist s (registry_scrub_text values' text) \<and>
     (\<forall>m \<in> set (scrub_exception values' n msg follow e). \<not> sublist s m)"
proof -
  have h: "hideable_in values' s" using assms by (simp add: hideable_in_def)
  show ?thesis
    using registry.hides_value [OF h, of t j] registry.hides [OF h]
    by (auto simp: registry_scrub_value scrub_exception_def)
qed

theorem no_secret_survives_witness:
  "\<not> sublist ''k-9'' (registry_scrub_text [''k-9'', ''k-99''] ''use k-99 and k-9'') \<and>
   registry_scrub_text [''k-9'', ''k-99''] ''use k-99 and k-9'' = ''use [REDACTED] and [REDACTED]''"
proof -
  have h: "hideable ''k-9''" by (simp add: hideable_def sublist_code)
  have r: "set [''k-9'', ''k-99''] = set (register_secret ''k-9'' [''k-99''])" by (auto simp: register_secret_def)
  have i: "''k-9'' \<in> set (register_secret ''k-9'' [''k-99''])" by (simp add: register_secret_def)
  have "registry_scrub_text [''k-9'', ''k-99''] ''use k-99 and k-9'' = ''use [REDACTED] and [REDACTED]''" by code_simp
  with no_secret_survives [OF h i r] show ?thesis by blast
qed

text \<open>
  Two entries of a dictionary whose keys are different credentials become one entry: the first value
  is lost.
\<close>

lemma scrubbed_keys_collide:
  "registry_scrub [''abc'', ''xyz''] (JObj [(''abc'', JNum 1), (''xyz'', JNum 2)]) = JObj [(''[REDACTED]'', JNum 2)]"
  by code_simp

text \<open>Of two overlapping credentials the rest of the shorter one stays readable.\<close>

lemma overlap_leaves_rest: "registry_scrub_text [''abcd'', ''cdxyz''] ''abcdxyz'' = ''ab[REDACTED]''"
  by code_simp

section \<open>Sensitive keys\<close>

fun sensitive_values :: "json \<Rightarrow> json set" where
  "sensitive_values (JObj kvs) =
     (\<Union>(k, j) \<in> set kvs. (if py_lower k \<in> set SENSITIVE_KEYS then {j} else {}) \<union> sensitive_values j)"
| "sensitive_values (JList xs) = (\<Union>j \<in> set xs. sensitive_values j)"
| "sensitive_values j = {}"

theorem sensitive_values_redacted: "sensitive_values (redact j) \<subseteq> {JStr REDACTED}"
proof (induction j)
  case (JObj kvs)
  have ih: "sensitive_values (redact j) \<subseteq> {JStr REDACTED}" if "(k, j) \<in> set kvs" for k j
    using JObj.IH [OF that, of j] by simp
  have "x \<in> {JStr REDACTED}" if "x \<in> sensitive_values (redact (JObj kvs))" for x
    using that by (auto dest: ih [THEN subsetD] split: if_splits)
  then show ?case by blast
qed auto

section \<open>Valid events\<close>

text \<open>What a valid envelope says of itself: a known type whose payload has its family and its state.\<close>

theorem valid_envelope:
  assumes "validate_envelope e = Inr ()"
  shows "ev_kind e \<in> set ALLOWED_EVENT_TYPES \<and> map_of FAMILY_OF_PREFIX (type_prefix (ev_kind e)) = Some (ev_family e) \<and>
     (ev_family e \<in> set stateful_families \<longrightarrow> ev_kind e = type_prefix (ev_kind e) @ ''.'' @ ev_state e) \<and> ev_zoned e"
proof -
  have dot: "t = type_prefix t @ ''.'' @ type_suffix t" if "CHR ''.'' \<in> set t" for t
    using that by (induction t) (auto simp: type_prefix_def type_suffix_def)
  have "list_all (\<lambda>t. CHR ''.'' \<in> set t) ALLOWED_EVENT_TYPES" by code_simp
  with assms have "CHR ''.'' \<in> set (ev_kind e)"
    by (auto simp: validate_envelope_def res_simps list_all_iff split: if_splits option.splits)
  from dot [OF this] assms show ?thesis
    by (auto simp: validate_envelope_def res_simps split: if_splits option.splits)
qed

text \<open>Every known type has a family.\<close>

lemma families_known: "t \<in> set ALLOWED_EVENT_TYPES \<Longrightarrow> map_of FAMILY_OF_PREFIX (type_prefix t) \<noteq> None"
proof -
  have "list_all (\<lambda>t. map_of FAMILY_OF_PREFIX (type_prefix t) \<noteq> None) ALLOWED_EVENT_TYPES" by code_simp
  then show "t \<in> set ALLOWED_EVENT_TYPES \<Longrightarrow> map_of FAMILY_OF_PREFIX (type_prefix t) \<noteq> None"
    by (auto simp: list_all_iff)
qed

end
