(* ===== verification/File_Tools.thy ===== *)
theory File_Tools
  imports Redaction Assignment
begin

text \<open>
  The files an agent may touch: the boundary of a workspace (\<open>FilesystemBoundary\<close> of
  \<open>src/src/skail/tools/filesystem.py\<close>) and the tools on it (\<open>PolicyFilesystemBackend\<close> of
  \<open>src/src/skail/tools/backend.py\<close>).

  Paths are the lists of their parts on a POSIX system; a disk maps canonical paths to contents.
  Parameters (\<open>file_env\<close>): what the operating system does, that is resolving symbolic links, before
  the write and once more after it, creating directories, writing and replacing; the digest of a
  content; the readers of documents and images; and the search and listing of the agent framework,
  whose results the tools filter.
\<close>

section \<open>The boundary\<close>

type_synonym path = "string list"

record boundary =
  fb_root :: path
  fb_grants :: "path list"
  fb_forbidden :: "path list"
  fb_patterns :: "string list"
  fb_secrets :: "string list"
  fb_scope :: "path list"

record file_env =
  fe_resolve :: "bool \<Rightarrow> path \<Rightarrow> path res"
  fe_late :: "path \<Rightarrow> path res"
  fe_mkdir :: "path \<Rightarrow> unit res"
  fe_replace :: "path \<Rightarrow> unit res"
  fe_digest :: "string \<Rightarrow> string"

record file_change =
  fc_path :: path
  fc_task :: string
  fc_call :: string
  fc_before :: "string option"
  fc_after :: string

record tool_files =
  tf_disk :: "path \<rightharpoonup> string"
  tf_changes :: "file_change list"
  tf_calls :: nat

definition FILE_NOT_FOUND :: py_exn where
  "FILE_NOT_FOUND = OSError ''FileNotFoundError''"

definition is_absolute :: "string \<Rightarrow> bool" where
  "is_absolute s \<longleftrightarrow> starts_with s ''/''"

definition unslash :: "string \<Rightarrow> string" where
  "unslash s = map (\<lambda>c. if c = CHR 0x5C then CHR ''/'' else c) s"

definition assert_host_path_allowed :: "file_env \<Rightarrow> boundary \<Rightarrow> string \<Rightarrow> unit res" where
  "assert_host_path_allowed env b raw =
     (if \<not> is_absolute raw then Inr ()
      else res_bind (fe_resolve env False (posix_parts raw)) (\<lambda>c.
        raise_if (list_ex (\<lambda>f. prefix f c) (fb_forbidden b))
          (PathBoundaryError ''path targets a forbidden host workspace'')))"

definition canonical :: "file_env \<Rightarrow> bool \<Rightarrow> path \<Rightarrow> path res" where
  "canonical env strict p =
     (case fe_resolve env strict p of
        Inl e \<Rightarrow> if e = FILE_NOT_FOUND then fe_resolve env False p else Inl e
      | Inr c \<Rightarrow> Inr c)"

definition resolve_path :: "file_env \<Rightarrow> boundary \<Rightarrow> bool \<Rightarrow> string \<Rightarrow> path res" where
  "resolve_path env b for_write raw =
     res_bind (assert_host_path_allowed env b raw) (\<lambda>_.
       let supplied = unslash raw in
       res_bind (canonical env (\<not> for_write)
           ((if is_absolute supplied then [] else fb_root b) @ posix_parts supplied)) (\<lambda>c.
         if c \<in> set (fb_grants b) then Inr c
         else if prefix (fb_root b) c then Inr c
         else Inl (PathBoundaryError ''path escapes workspace and has no canonical grant'')))"

text \<open>\<open>PurePath.match\<close> of one part; the patterns in use have no brackets and no separator.\<close>

fun glob_match :: "string \<Rightarrow> string \<Rightarrow> bool" where
  "glob_match [] s \<longleftrightarrow> s = []"
| "glob_match (p # ps) [] \<longleftrightarrow> p = CHR ''*'' \<and> glob_match ps []"
| "glob_match (p # ps) (c # cs) \<longleftrightarrow>
     (if p = CHR ''*'' then glob_match ps (c # cs) \<or> glob_match (p # ps) cs
      else (p = CHR ''?'' \<or> p = c) \<and> glob_match ps cs)"

definition SENSITIVE_PATTERNS :: "string list" where
  "SENSITIVE_PATTERNS = [''.env'', ''*.pem'', ''*.key'', ''id_rsa'', ''.git'', ''.skail'']"

definition matches_sensitive :: "path \<Rightarrow> string \<Rightarrow> bool" where
  "matches_sensitive relative pattern \<longleftrightarrow>
     (if list_ex (\<lambda>c. c \<in> set ''*?['') pattern then list_ex (glob_match pattern) relative
      else pattern \<in> set relative)"

definition relative_to :: "path \<Rightarrow> path \<Rightarrow> path res" where
  "relative_to base p = (if prefix base p then Inr (drop (length base) p) else Inl (ValueError ''is not in the subpath''))"

definition sensitive_path :: "boundary \<Rightarrow> path \<Rightarrow> bool" where
  "sensitive_path b p \<longleftrightarrow> list_ex (matches_sensitive (drop (length (fb_root b)) p)) (fb_patterns b)"

definition assert_not_sensitive :: "boundary \<Rightarrow> path \<Rightarrow> unit res" where
  "assert_not_sensitive b p =
     res_bind (relative_to (fb_root b) p) (\<lambda>relative.
       raise_if (list_ex (matches_sensitive relative) (fb_patterns b))
         (PermissionError ''sensitive path requires explicit stronger handling''))"

definition read_text :: "file_env \<Rightarrow> boundary \<Rightarrow> (path \<rightharpoonup> string) \<Rightarrow> string \<Rightarrow> string res" where
  "read_text env b disk raw =
     res_bind (resolve_path env b False raw) (\<lambda>p.
     res_bind (if p \<in> set (fb_grants b) then Inr () else assert_not_sensitive b p) (\<lambda>_.
       case disk p of None \<Rightarrow> Inl FILE_NOT_FOUND | Some t \<Rightarrow> Inr (registry_scrub_text (fb_secrets b) t)))"

text \<open>The steps of a write up to the replacement: what is checked, and where it goes.\<close>

definition prepare_write :: "file_env \<Rightarrow> boundary \<Rightarrow> string \<Rightarrow> path res" where
  "prepare_write env b raw =
     res_bind (resolve_path env b True raw) (\<lambda>p.
     res_bind (assert_not_sensitive b p) (\<lambda>_.
     res_bind (fe_mkdir env (butlast p)) (\<lambda>_.
     res_bind (fe_resolve env True (butlast p)) (\<lambda>parent.
     res_bind (relative_to (fb_root b) parent) (\<lambda>_.
     res_bind (fe_late env (butlast p)) (\<lambda>late.
     res_bind (raise_if (late \<noteq> parent) (PathBoundaryError ''write parent changed during authorization'')) (\<lambda>_.
     res_bind (fe_replace env p) (\<lambda>_. Inr p))))))))"

definition write_text ::
  "file_env \<Rightarrow> boundary \<Rightarrow> tool_files \<Rightarrow> string \<Rightarrow> string \<Rightarrow> string \<Rightarrow> string \<Rightarrow> tool_files \<times> file_change res" where
  "write_text env b s raw content task call =
     (case prepare_write env b raw of
        Inl e \<Rightarrow> (s, Inl e)
      | Inr p \<Rightarrow>
          let c = \<lparr>fc_path = p, fc_task = task, fc_call = call,
                fc_before = map_option (fe_digest env) (tf_disk s p), fc_after = fe_digest env content\<rparr>
          in (s\<lparr>tf_disk := (tf_disk s)(p \<mapsto> content), tf_changes := tf_changes s @ [c]\<rparr>, Inr c))"

section \<open>The tools\<close>

definition relative_of :: "file_env \<Rightarrow> boundary \<Rightarrow> string \<Rightarrow> string res" where
  "relative_of env b path =
     res_bind (assert_host_path_allowed env b path) (\<lambda>_.
       if ''..'' \<in> set (posix_parts path) \<or> ''~'' \<in> set (posix_parts path)
       then Inl (PathBoundaryError ''virtual path traversal is not permitted'')
       else Inr (let r = foldr (\<lambda>p s. if s = [] then p else p @ ''/'' @ s) (posix_parts path) [] in
         if r = [] then ''.'' else r))"

definition assert_write_scope :: "file_env \<Rightarrow> boundary \<Rightarrow> string \<Rightarrow> unit res" where
  "assert_write_scope env b relative =
     (if fb_scope b = [] then Inr ()
      else res_bind (resolve_path env b True relative) (\<lambda>c.
        raise_if (\<not> list_ex (\<lambda>a. prefix a c) (fb_scope b)) (PathBoundaryError ''write is outside the delegated task scope'')))"

definition next_call :: "string option \<Rightarrow> tool_files \<Rightarrow> tool_files \<times> string" where
  "next_call active s =
     (case active of
        Some c \<Rightarrow> (s, c)
      | None \<Rightarrow> (s\<lparr>tf_calls := Suc (tf_calls s)\<rparr>, ''filesystem-'' @ nat_text (Suc (tf_calls s))))"

datatype tool_result = Tool_error py_exn | Tool_failed string | Wrote string | Edited string nat

text \<open>\<open>except (PermissionError, OSError)\<close>: what the tools turn into a result; the rest is raised.\<close>

fun os_error :: "py_exn \<Rightarrow> bool" where
  "os_error (PathBoundaryError _) = True"
| "os_error (PermissionError _) = True"
| "os_error (OSError _) = True"
| "os_error _ = False"

definition tool_caught :: "tool_files \<times> tool_result res \<Rightarrow> tool_files \<times> tool_result res" where
  "tool_caught sr = (case sr of (s, Inl e) \<Rightarrow> (s, if os_error e then Inr (Tool_error e) else Inl e) | (s, Inr r) \<Rightarrow> (s, Inr r))"

definition write_checked ::
  "file_env \<Rightarrow> boundary \<Rightarrow> string \<Rightarrow> string option \<Rightarrow> tool_files \<Rightarrow> string \<Rightarrow> string \<Rightarrow> tool_result \<Rightarrow> tool_files \<times> tool_result res" where
  "write_checked env b task active s relative content result =
     (case next_call active s of
        (s', call) \<Rightarrow>
          (case write_text env b s' relative content task call of
             (s'', Inl e) \<Rightarrow> (s'', Inl e)
           | (s'', Inr c) \<Rightarrow> (s'', Inr result)))"

definition write_tool ::
  "file_env \<Rightarrow> boundary \<Rightarrow> string \<Rightarrow> string option \<Rightarrow> tool_files \<Rightarrow> string \<Rightarrow> string \<Rightarrow> tool_files \<times> tool_result res" where
  "write_tool env b task active s path content =
     tool_caught (case res_bind (relative_of env b path) (\<lambda>r. res_bind (assert_write_scope env b r) (\<lambda>_. Inr r)) of
        Inl e \<Rightarrow> (s, Inl e)
      | Inr r \<Rightarrow> write_checked env b task active s r content (Wrote path))"

text \<open>\<open>str.count\<close> and \<open>str.replace\<close>, the empty text included.\<close>

function count_text :: "string \<Rightarrow> string \<Rightarrow> nat" where
  "count_text old [] = (if old = [] then 1 else 0)"
| "count_text old (c # cs) =
     (if old = [] then Suc (count_text old cs)
      else if prefix old (c # cs) then Suc (count_text old (drop (length old - 1) cs))
      else count_text old cs)"
  by pat_completeness auto
termination by (relation "measure (\<lambda>(old, t). length t)") auto

fun replace_first :: "string \<Rightarrow> string \<Rightarrow> string \<Rightarrow> string" where
  "replace_first old new [] = (if old = [] then new else [])"
| "replace_first old new (c # cs) =
     (if prefix old (c # cs) then new @ drop (length old) (c # cs) else c # replace_first old new cs)"

definition replace_text :: "bool \<Rightarrow> string \<Rightarrow> string \<Rightarrow> string \<Rightarrow> string" where
  "replace_text every old new t =
     (if \<not> every then replace_first old new t
      else if old = [] then new @ concat (map (\<lambda>c. c # new) t)
      else replace_all old new t)"

text \<open>An edit reads the file before it takes the lease and the lock, and writes afterwards.\<close>

datatype edit_plan = Edit_stop tool_result | Edit_write string string nat

definition plan_edit ::
  "file_env \<Rightarrow> boundary \<Rightarrow> (path \<rightharpoonup> string) \<Rightarrow> string \<Rightarrow> string \<Rightarrow> string \<Rightarrow> bool \<Rightarrow> edit_plan res" where
  "plan_edit env b disk path old new every =
     res_bind (relative_of env b path) (\<lambda>r.
     res_bind (assert_write_scope env b r) (\<lambda>_.
     res_bind (resolve_path env b False r) (\<lambda>p.
     res_bind (assert_not_sensitive b p) (\<lambda>_.
       case disk p of
         None \<Rightarrow> Inl FILE_NOT_FOUND
       | Some t \<Rightarrow>
           let n = count_text old t in
           if n = 0 then Inr (Edit_stop (Tool_failed ''old_string was not found''))
           else if 1 < n \<and> \<not> every then Inr (Edit_stop (Tool_failed ''old_string occurs multiple times''))
           else Inr (Edit_write r (replace_text every old new t) n)))))"

definition finish_edit ::
  "file_env \<Rightarrow> boundary \<Rightarrow> string \<Rightarrow> string option \<Rightarrow> string \<Rightarrow> tool_files \<Rightarrow> edit_plan res \<Rightarrow> tool_files \<times> tool_result res" where
  "finish_edit env b task active path s plan =
     tool_caught (case plan of
        Inl e \<Rightarrow> (s, Inl e)
      | Inr (Edit_stop r) \<Rightarrow> (s, Inr r)
      | Inr (Edit_write r content n) \<Rightarrow> write_checked env b task active s r content (Edited path n))"

definition edit_tool ::
  "file_env \<Rightarrow> boundary \<Rightarrow> string \<Rightarrow> string option \<Rightarrow> tool_files \<Rightarrow> string \<Rightarrow> string \<Rightarrow> string \<Rightarrow> bool \<Rightarrow> tool_files \<times> tool_result res" where
  "edit_tool env b task active s path old new every =
     finish_edit env b task active path s (plan_edit env b (tf_disk s) path old new every)"

section \<open>Reading and searching\<close>

definition line_break :: "char \<Rightarrow> bool" where
  "line_break c \<longleftrightarrow> (of_char c :: nat) \<in> {10, 11, 12, 13, 28, 29, 30, 133}"

text \<open>\<open>str.splitlines\<close>; the current line is kept reversed.\<close>

fun split_lines_from :: "string \<Rightarrow> string \<Rightarrow> string list" where
  "split_lines_from cur [] = (if cur = [] then [] else [rev cur])"
| "split_lines_from cur (c # cs) =
     (if c = CHR 0x0D \<and> cs \<noteq> [] \<and> hd cs = CHR 0x0A then rev cur # split_lines_from [] (tl cs)
      else if line_break c then rev cur # split_lines_from [] cs
      else split_lines_from (c # cur) cs)"

definition splitlines :: "string \<Rightarrow> string list" where
  "splitlines t = split_lines_from [] t"

definition path_text :: "path \<Rightarrow> string" where
  "path_text p = concat (map (\<lambda>x. CHR ''/'' # x) p)"

definition path_suffix :: "path \<Rightarrow> string" where
  "path_suffix p =
     (let name = (if p = [] then [] else last p);
          ext = takeWhile (\<lambda>c. c \<noteq> CHR ''.'') (rev name)
      in if CHR ''.'' \<in> set name \<and> ext \<noteq> [] \<and> length ext + 1 < length name
         then py_lower (CHR ''.'' # rev ext) else [])"

definition DOCUMENT_SUFFIXES :: "string list" where
  "DOCUMENT_SUFFIXES = [''.pdf'', ''.docx'', ''.xlsx'', ''.pptx'', ''.ipynb'']"

definition ARCHIVE_SUFFIXES :: "string list" where
  "ARCHIVE_SUFFIXES = [''.zip'', ''.tar'', ''.gz'', ''.7z'', ''.rar'']"

definition LEGACY_SUFFIXES :: "string list" where
  "LEGACY_SUFFIXES = [''.doc'', ''.xls'', ''.ppt'', ''.odt'', ''.ods'', ''.odp'']"

definition MEDIA_SUFFIXES :: "string list" where
  "MEDIA_SUFFIXES = [''.mp3'', ''.wav'', ''.mp4'', ''.mov'', ''.avi'']"

datatype read_result =
    Read_caught py_exn
  | Read_error string
  | Read_text string
  | Read_base64 string

record read_env =
  rd_media :: "path \<Rightarrow> string option"
  rd_document :: "path \<Rightarrow> read_result"
  rd_image :: "path \<Rightarrow> read_result"
  rd_bom :: "path \<Rightarrow> read_result"
  rd_base :: "string \<Rightarrow> read_result"

definition is_image_type :: "string option \<Rightarrow> bool" where
  "is_image_type m \<longleftrightarrow> (case m of None \<Rightarrow> False | Some t \<Rightarrow> starts_with t ''image/'')"

definition has_bom :: "string \<Rightarrow> bool" where
  "has_bom t \<longleftrightarrow> starts_with t [CHR 0xFF, CHR 0xFE] \<or> starts_with t [CHR 0xFE, CHR 0xFF]"

definition read_base :: "read_env \<Rightarrow> boundary \<Rightarrow> string \<Rightarrow> path \<Rightarrow> read_result" where
  "read_base renv b path p =
     (case rd_base renv path of
        Read_text t \<Rightarrow> Read_text (registry_scrub_text (fb_secrets b) t)
      | Read_base64 t \<Rightarrow>
          if is_image_type (rd_media renv p) then Read_base64 t
          else Read_error ((if rd_media renv p = Some ''application/pdf'' then ''PDF'' else ''binary file'') @
            '' content cannot be read as text; extract text with a suitable tool'')
      | r \<Rightarrow> r)"

definition read_by_suffix :: "read_env \<Rightarrow> boundary \<Rightarrow> (path \<rightharpoonup> string) \<Rightarrow> string \<Rightarrow> path \<Rightarrow> read_result" where
  "read_by_suffix renv b disk path p =
     (let suffix = path_suffix p in
      if suffix \<in> set DOCUMENT_SUFFIXES then rd_document renv p
      else if suffix \<in> set ARCHIVE_SUFFIXES then Read_error ''Archive files require a separate archive inspection tool''
      else if suffix \<in> set LEGACY_SUFFIXES then Read_error ''Convert this legacy document to DOCX, XLSX, or PPTX first''
      else if suffix \<in> set MEDIA_SUFFIXES then Read_error ''Audio and video files require a separate media tool''
      else if is_image_type (rd_media renv p) \<and> suffix \<noteq> ''.svg'' then
        (if rd_media renv p \<notin> {Some ''image/png'', Some ''image/jpeg'', Some ''image/webp'', Some ''image/gif''}
         then Read_error ''Image format is unsupported; use PNG, JPEG, WebP, or GIF'' else rd_image renv p)
      else (case disk p of
          None \<Rightarrow> Read_caught FILE_NOT_FOUND
        | Some t \<Rightarrow> if has_bom t then rd_bom renv p else read_base renv b path p))"

definition read_tool :: "file_env \<Rightarrow> read_env \<Rightarrow> boundary \<Rightarrow> (path \<rightharpoonup> string) \<Rightarrow> string \<Rightarrow> read_result res" where
  "read_tool env renv b disk path =
     (case res_bind (relative_of env b path) (\<lambda>r.
        res_bind (resolve_path env b False r) (\<lambda>p. res_bind (assert_not_sensitive b p) (\<lambda>_. Inr p))) of
        Inl e \<Rightarrow> if os_error e then Inr (Read_caught e) else Inl e
      | Inr p \<Rightarrow> Inr (read_by_suffix renv b disk path p))"

definition visible_path :: "file_env \<Rightarrow> boundary \<Rightarrow> string \<Rightarrow> path res" where
  "visible_path env b v =
     res_bind (relative_of env b v) (\<lambda>r.
     res_bind (resolve_path env b False r) (\<lambda>p. res_bind (assert_not_sensitive b p) (\<lambda>_. Inr p)))"

text \<open>The entries of a listing or of a glob that the tools show.\<close>

fun visible_entries :: "file_env \<Rightarrow> boundary \<Rightarrow> string list \<Rightarrow> string list res" where
  "visible_entries env b [] = Inr []"
| "visible_entries env b (v # vs) =
     (case visible_path env b v of
        Inl e \<Rightarrow> if os_error e then visible_entries env b vs else Inl e
      | Inr p \<Rightarrow> res_bind (visible_entries env b vs) (\<lambda>out. Inr (v # out)))"

record grep_match =
  gm_path :: string
  gm_line :: int
  gm_text :: string
  gm_before :: "(int \<times> string) list"
  gm_after :: "(int \<times> string) list"

definition line_text :: "boundary \<Rightarrow> string list \<Rightarrow> int \<Rightarrow> string \<Rightarrow> string" where
  "line_text b ls n found =
     (if 1 \<le> n \<and> n \<le> int (length ls) then ls ! (nat n - 1) else registry_scrub_text (fb_secrets b) found)"

definition safe_match :: "boundary \<Rightarrow> string list \<Rightarrow> grep_match \<Rightarrow> grep_match" where
  "safe_match b ls m = m\<lparr>gm_text := line_text b ls (gm_line m) (gm_text m),
     gm_before := map (\<lambda>(n, t). (n, line_text b ls n t)) (gm_before m),
     gm_after := map (\<lambda>(n, t). (n, line_text b ls n t)) (gm_after m)\<rparr>"

fun safe_matches :: "file_env \<Rightarrow> boundary \<Rightarrow> (path \<rightharpoonup> string) \<Rightarrow> grep_match list \<Rightarrow> grep_match list res" where
  "safe_matches env b disk [] = Inr []"
| "safe_matches env b disk (m # ms) =
     (case res_bind (visible_path env b (gm_path m)) (\<lambda>p. read_text env b disk (path_text p)) of
        Inl e \<Rightarrow> if os_error e then safe_matches env b disk ms else Inl e
      | Inr t \<Rightarrow> res_bind (safe_matches env b disk ms) (\<lambda>out. Inr (safe_match b (splitlines t) m # out)))"

text \<open>The search in the scrubbed text: the matches of one file, and whether the limit was reached.\<close>

fun scan_lines ::
  "string \<Rightarrow> nat option \<Rightarrow> string \<Rightarrow> int \<Rightarrow> string list \<Rightarrow> grep_match list \<Rightarrow> grep_match list \<times> bool" where
  "scan_lines pattern limit path n [] found = (found, False)"
| "scan_lines pattern limit path n (l # ls) found =
     (if \<not> sublist pattern l then scan_lines pattern limit path (n + 1) ls found
      else (case limit of
          Some k \<Rightarrow> if k \<le> length found then (found, True)
            else scan_lines pattern limit path (n + 1) ls
              (found @ [\<lparr>gm_path = path, gm_line = n, gm_text = l, gm_before = [], gm_after = []\<rparr>])
        | None \<Rightarrow> scan_lines pattern limit path (n + 1) ls
              (found @ [\<lparr>gm_path = path, gm_line = n, gm_text = l, gm_before = [], gm_after = []\<rparr>])))"

fun utf8_matches ::
  "file_env \<Rightarrow> boundary \<Rightarrow> (path \<rightharpoonup> string) \<Rightarrow> string \<Rightarrow> nat option \<Rightarrow> string list \<Rightarrow> grep_match list \<Rightarrow>
     (grep_match list \<times> bool) res" where
  "utf8_matches env b disk pattern limit [] found = Inr (found, False)"
| "utf8_matches env b disk pattern limit (v # vs) found =
     (case res_bind (visible_path env b v) (\<lambda>p. res_bind (read_text env b disk (path_text p)) (\<lambda>t. Inr (p, t))) of
        Inl e \<Rightarrow> if os_error e then utf8_matches env b disk pattern limit vs found else Inl e
      | Inr (p, t) \<Rightarrow>
          (case scan_lines pattern limit (path_text (drop (length (fb_root b)) p)) 1 (splitlines t) found of
             (found', True) \<Rightarrow> Inr (found', True)
           | (found', False) \<Rightarrow> utf8_matches env b disk pattern limit vs found'))"

section \<open>Where the tools write\<close>

definition may_write :: "boundary \<Rightarrow> path \<Rightarrow> bool" where
  "may_write b p \<longleftrightarrow> prefix (fb_root b) p \<and> \<not> sensitive_path b p \<and>
     (fb_scope b = [] \<or> (\<exists>a \<in> set (fb_scope b). prefix a p))"

lemma assert_not_sensitive_iff:
  "assert_not_sensitive b p = Inr u \<longleftrightarrow> prefix (fb_root b) p \<and> \<not> sensitive_path b p"
  by (auto simp: assert_not_sensitive_def relative_to_def sensitive_path_def res_simps)

lemma prepare_write_ok:
  assumes "prepare_write env b raw = Inr p"
  shows "resolve_path env b True raw = Inr p \<and> prefix (fb_root b) p \<and> \<not> sensitive_path b p"
  using assms by (auto simp: prepare_write_def res_simps assert_not_sensitive_iff)

lemma assert_write_scope_iff:
  "assert_write_scope env b r = Inr u \<longleftrightarrow>
     fb_scope b = [] \<or> (\<exists>c. resolve_path env b True r = Inr c \<and> (\<exists>a \<in> set (fb_scope b). prefix a c))"
  by (auto simp: assert_write_scope_def res_simps list_ex_iff)

text \<open>What one tool call does to the disk and to the list of changes: nothing, or one write.\<close>

definition one_write :: "boundary \<Rightarrow> tool_files \<Rightarrow> tool_files \<Rightarrow> path \<Rightarrow> string \<Rightarrow> bool" where
  "one_write b s s' p content \<longleftrightarrow> may_write b p \<and> tf_disk s' = (tf_disk s)(p \<mapsto> content) \<and>
     (\<exists>c. tf_changes s' = tf_changes s @ [c] \<and> fc_path c = p)"

definition nothing_written :: "tool_files \<Rightarrow> tool_files \<Rightarrow> bool" where
  "nothing_written s s' \<longleftrightarrow> tf_disk s' = tf_disk s \<and> tf_changes s' = tf_changes s"

lemma next_call_writes_nothing: "next_call active s = (s', c) \<Longrightarrow> nothing_written s s'"
  by (auto simp: next_call_def nothing_written_def split: option.splits)

lemma write_checked_effect:
  assumes scope: "assert_write_scope env b r = Inr u" and w: "write_checked env b task active s r content result = (s', out)"
  shows "(nothing_written s s' \<and> (\<exists>e. out = Inl e)) \<or>
     (\<exists>p. resolve_path env b True r = Inr p \<and> one_write b s s' p content \<and> out = Inr result)"
proof -
  obtain s1 call where n: "next_call active s = (s1, call)" by fastforce
  note u = next_call_writes_nothing [OF n]
  show ?thesis
  proof (cases "prepare_write env b r")
    case (Inl e)
    with w n u show ?thesis by (auto simp: write_checked_def write_text_def)
  next
    case (Inr p)
    note ok = prepare_write_ok [OF Inr]
    with scope have "may_write b p" by (auto simp: may_write_def assert_write_scope_iff)
    with w n u ok Inr show ?thesis
      by (auto simp: write_checked_def write_text_def one_write_def nothing_written_def Let_def)
  qed
qed

lemma tool_caught_effect: "tool_caught (s, r) = (s', out) \<Longrightarrow> s' = s \<and>
    (\<forall>x. out = Inr x \<longrightarrow> r = Inr x \<or> (\<exists>e. r = Inl e \<and> x = Tool_error e))"
  by (auto simp: tool_caught_def split: sum.splits if_splits)

lemma write_tool_effect:
  assumes "write_tool env b task active s path content = (s', out)"
  shows "(nothing_written s s' \<and> out \<noteq> Inr (Wrote path)) \<or> (\<exists>p. one_write b s s' p content \<and> out = Inr (Wrote path))"
proof (cases "res_bind (relative_of env b path) (\<lambda>r. res_bind (assert_write_scope env b r) (\<lambda>_. Inr r))")
  case (Inl e)
  with assms show ?thesis by (auto simp: write_tool_def nothing_written_def tool_caught_def split: if_splits)
next
  case (Inr r)
  then obtain u where sc: "assert_write_scope env b r = Inr u" by (auto simp: res_simps)
  obtain s1 out1 where w: "write_checked env b task active s r content (Wrote path) = (s1, out1)" by fastforce
  have c: "tool_caught (s1, out1) = (s', out)" using assms Inr w by (simp add: write_tool_def)
  from write_checked_effect [OF sc w] show ?thesis
  proof
    assume "nothing_written s s1 \<and> (\<exists>e. out1 = Inl e)"
    with c show ?thesis by (auto simp: tool_caught_def split: if_splits)
  next
    assume "\<exists>p. resolve_path env b True r = Inr p \<and> one_write b s s1 p content \<and> out1 = Inr (Wrote path)"
    with c show ?thesis by (auto simp: tool_caught_def)
  qed
qed

lemma plan_edit_cases:
  assumes "plan_edit env b disk path old new every = Inr (Edit_write r content n)"
  obtains p t u where "assert_write_scope env b r = Inr u" "resolve_path env b False r = Inr p" "disk p = Some t"
    "content = replace_text every old new t" "n = count_text old t" "n \<noteq> 0" "n = 1 \<or> every"
  using assms by (auto simp: plan_edit_def res_simps Let_def split: option.splits if_splits)

lemma finish_edit_effect:
  assumes plan: "\<And>r content n. plan = Inr (Edit_write r content n) \<Longrightarrow> \<exists>u. assert_write_scope env b r = Inr u"
    and stop: "\<And>x. plan = Inr (Edit_stop x) \<Longrightarrow> \<exists>m. x = Tool_failed m"
    and e: "finish_edit env b task active path s plan = (s', out)"
  shows "(nothing_written s s' \<and> (\<forall>n. out \<noteq> Inr (Edited path n))) \<or>
     (\<exists>r content n p. plan = Inr (Edit_write r content n) \<and> resolve_path env b True r = Inr p \<and>
        one_write b s s' p content \<and> out = Inr (Edited path n))"
proof (cases plan)
  case (Inl x)
  with e show ?thesis by (auto simp: finish_edit_def nothing_written_def tool_caught_def split: if_splits)
next
  case (Inr ep)
  show ?thesis
  proof (cases ep)
    case (Edit_stop x)
    with e Inr stop show ?thesis by (auto simp: finish_edit_def nothing_written_def tool_caught_def)
  next
    case (Edit_write r content n)
    with plan Inr obtain u where sc: "assert_write_scope env b r = Inr u" by blast
    obtain s1 out1 where w: "write_checked env b task active s r content (Edited path n) = (s1, out1)" by fastforce
    have c: "tool_caught (s1, out1) = (s', out)" using e Inr Edit_write w by (simp add: finish_edit_def)
    from write_checked_effect [OF sc w] show ?thesis
    proof
      assume "nothing_written s s1 \<and> (\<exists>e. out1 = Inl e)"
      with c show ?thesis by (auto simp: tool_caught_def split: if_splits)
    next
      assume "\<exists>p. resolve_path env b True r = Inr p \<and> one_write b s s1 p content \<and> out1 = Inr (Edited path n)"
      with c Inr Edit_write show ?thesis by (auto simp: tool_caught_def)
    qed
  qed
qed

lemma plan_edit_stop: "plan_edit env b disk path old new every = Inr (Edit_stop x) \<Longrightarrow> \<exists>m. x = Tool_failed m"
  by (auto simp: plan_edit_def res_simps Let_def split: option.splits if_splits)

lemma edit_tool_effect:
  assumes "edit_tool env b task active s path old new every = (s', out)"
  shows "(nothing_written s s' \<and> (\<forall>n. out \<noteq> Inr (Edited path n))) \<or>
     (\<exists>r content n p. plan_edit env b (tf_disk s) path old new every = Inr (Edit_write r content n) \<and>
        resolve_path env b True r = Inr p \<and> one_write b s s' p content \<and> out = Inr (Edited path n))"
proof (rule finish_edit_effect)
  show "finish_edit env b task active path s (plan_edit env b (tf_disk s) path old new every) = (s', out)"
    using assms by (simp add: edit_tool_def)
  show "\<exists>u. assert_write_scope env b r = Inr u"
    if "plan_edit env b (tf_disk s) path old new every = Inr (Edit_write r content n)" for r content n
    using that by (rule plan_edit_cases) blast
  show "\<exists>m. x = Tool_failed m" if "plan_edit env b (tf_disk s) path old new every = Inr (Edit_stop x)" for x
    using that by (rule plan_edit_stop)
qed

text \<open>Histories of calls; the links of the file system may be others for every call.\<close>

datatype file_op =
    Write_op "string option" string string
  | Edit_op "string option" string string string bool

definition file_next :: "boundary \<Rightarrow> string \<Rightarrow> tool_files \<Rightarrow> file_env \<times> file_op \<Rightarrow> tool_files" where
  "file_next b task s op =
     (case op of
        (env, Write_op active path content) \<Rightarrow> fst (write_tool env b task active s path content)
      | (env, Edit_op active path old new every) \<Rightarrow> fst (edit_tool env b task active s path old new every))"

definition file_history :: "boundary \<Rightarrow> string \<Rightarrow> tool_files \<Rightarrow> (file_env \<times> file_op) list \<Rightarrow> tool_files" where
  "file_history b task s ops = foldl (file_next b task) s ops"

lemma file_next_effect: "nothing_written s (file_next b task s op) \<or> (\<exists>p content. one_write b s (file_next b task s op) p content)"
proof -
  obtain env x where op: "op = (env, x)" by fastforce
  show ?thesis
  proof (cases x)
    case (Write_op active path content)
    obtain s' out where w: "write_tool env b task active s path content = (s', out)" by fastforce
    with op Write_op have "file_next b task s op = s'" by (simp add: file_next_def)
    with write_tool_effect [OF w] show ?thesis by blast
  next
    case (Edit_op active path old new every)
    obtain s' out where w: "edit_tool env b task active s path old new every = (s', out)" by fastforce
    with op Edit_op have "file_next b task s op = s'" by (simp add: file_next_def)
    with edit_tool_effect [OF w] show ?thesis by blast
  qed
qed

text \<open>
  C38: the tools write only where the task may.  In every history of writes and edits, whatever links the
  file system resolves to at each call, every file that was changed lies inside the workspace, is not a
  sensitive one and is in the scope delegated to the task, and every change is recorded in order.
\<close>

theorem tools_write_in_scope:
  shows "\<exists>new. tf_changes (file_history b task s ops) = tf_changes s @ new \<and>
     (\<forall>c \<in> set new. may_write b (fc_path c)) \<and>
     (\<forall>p. tf_disk (file_history b task s ops) p \<noteq> tf_disk s p \<longrightarrow> p \<in> fc_path ` set new)"
proof (induction ops arbitrary: s)
  case Nil
  then show ?case by (simp add: file_history_def)
next
  case (Cons op ops)
  let ?s = "file_next b task s op"
  obtain new where new: "tf_changes (file_history b task ?s ops) = tf_changes ?s @ new" "\<forall>c \<in> set new. may_write b (fc_path c)"
    "\<forall>p. tf_disk (file_history b task ?s ops) p \<noteq> tf_disk ?s p \<longrightarrow> p \<in> fc_path ` set new"
    using Cons.IH by blast
  have h: "file_history b task s (op # ops) = file_history b task ?s ops" by (simp add: file_history_def)
  from file_next_effect [of s b task op] show ?case
  proof
    assume "nothing_written s ?s"
    with new show ?thesis unfolding h by (auto simp: nothing_written_def)
  next
    assume "\<exists>p content. one_write b s ?s p content"
    then obtain p content c where w: "may_write b p" "tf_disk ?s = (tf_disk s)(p \<mapsto> content)"
      "tf_changes ?s = tf_changes s @ [c]" "fc_path c = p" by (auto simp: one_write_def)
    have "q \<in> fc_path ` set (c # new)" if "tf_disk (file_history b task ?s ops) q \<noteq> tf_disk s q" for q
    proof (cases "q = p")
      case True
      with w(4) show ?thesis by simp
    next
      case False
      with w(2) that new(3) show ?thesis by (metis fun_upd_other image_insert insertI2 list.simps(15))
    qed
    with new w show ?thesis unfolding h by (intro exI [of _ "c # new"]) auto
  qed
qed

section \<open>An edit\<close>

lemma count_none: "count_text old t = 0 \<Longrightarrow> \<not> sublist old t"
proof (induction old t rule: count_text.induct)
  case (2 old c cs)
  then have "old \<noteq> []" "\<not> prefix old (c # cs)" "count_text old cs = 0" by (auto split: if_splits)
  with 2 show ?case by (simp add: sublist_Cons_right)
qed (auto split: if_splits)

lemma replace_first_split: "sublist old t \<Longrightarrow> \<exists>u v. t = u @ old @ v \<and> replace_first old new t = u @ new @ v"
proof (induction old new t rule: replace_first.induct)
  case (1 old new)
  then show ?case by (intro exI [of _ "[]"]) simp
next
  case (2 old new c cs)
  show ?case
  proof (cases "prefix old (c # cs)")
    case True
    then obtain v where v: "c # cs = old @ v" by (auto simp: prefix_def)
    then have "drop (length old) (c # cs) = v" by simp
    with True have "replace_first old new (c # cs) = new @ v" by (simp only: replace_first.simps if_True)
    with v show ?thesis by (intro exI [of _ "[]"] exI [of _ v]) (simp only: append_Nil)
  next
    case False
    with 2 obtain u v where "cs = u @ old @ v" "replace_first old new cs = u @ new @ v" by (auto simp: sublist_Cons_right)
    with False show ?thesis by (intro exI [of _ "c # u"] exI [of _ v]) simp
  qed
qed

lemma count_found: "count_text old t \<noteq> 0 \<Longrightarrow> sublist old t"
proof (induction old t rule: count_text.induct)
  case (2 old c cs)
  show ?case
  proof (cases "old = [] \<or> prefix old (c # cs)")
    case True
    then show ?thesis by (auto intro: prefix_imp_sublist)
  next
    case False
    with 2 show ?thesis by (simp add: sublist_Cons_right)
  qed
qed (auto split: if_splits)


text \<open>
  Two edits of a file that read it before either of them writes both report success, and the first one
  is lost.
\<close>

definition ex_file_env :: file_env where
  "ex_file_env = \<lparr>fe_resolve = (\<lambda>strict p. Inr p), fe_late = Inr, fe_mkdir = (\<lambda>p. Inr ()), fe_replace = (\<lambda>p. Inr ()),
     fe_digest = (\<lambda>t. t)\<rparr>"

definition ex_boundary :: boundary where
  "ex_boundary = \<lparr>fb_root = [''w''], fb_grants = [[''g'', ''f'']], fb_forbidden = [], fb_patterns = SENSITIVE_PATTERNS,
     fb_secrets = [''k-9''], fb_scope = []\<rparr>"

definition ex_files :: tool_files where
  "ex_files = \<lparr>tf_disk = [[''w'', ''f''] \<mapsto> ''ab''], tf_changes = [], tf_calls = 0\<rparr>"

lemma concurrent_edits_lose:
  defines "first \<equiv> plan_edit ex_file_env ex_boundary (tf_disk ex_files) ''f'' ''a'' ''x'' False"
    and "second \<equiv> plan_edit ex_file_env ex_boundary (tf_disk ex_files) ''f'' ''b'' ''y'' False"
  shows "case finish_edit ex_file_env ex_boundary ''t1'' None ''f'' ex_files first of
      (s1, r1) \<Rightarrow> (case finish_edit ex_file_env ex_boundary ''t2'' None ''f'' s1 second of
        (s2, r2) \<Rightarrow> r1 = Inr (Edited ''f'' 1) \<and> r2 = Inr (Edited ''f'' 1) \<and> tf_disk s2 [''w'', ''f''] = Some ''ay'')"
  unfolding first_def second_def by code_simp

text \<open>A write to a path that was granted outside the workspace raises an error no tool expects.\<close>

lemma granted_write_raises:
  "snd (write_text ex_file_env ex_boundary ex_files ''/g/f'' ''x'' ''t'' ''c'') = Inl (ValueError ''is not in the subpath'')"
  by code_simp


theorem tools_write_in_scope_witness:
  "\<exists>new. tf_changes (file_history ex_boundary ''t'' ex_files [(ex_file_env, Write_op None ''/d/g'' ''x''), (ex_file_env, Write_op None ''.env'' ''y'')]) = new \<and>
     map fc_path new = [[''w'', ''d'', ''g'']] \<and> (\<forall>c \<in> set new. may_write ex_boundary (fc_path c))"
proof -
  let ?ops = "[(ex_file_env, Write_op None ''/d/g'' ''x''), (ex_file_env, Write_op None ''.env'' ''y'')]"
  have "map fc_path (tf_changes (file_history ex_boundary ''t'' ex_files ?ops)) = [[''w'', ''d'', ''g'']]" by code_simp
  moreover have "tf_changes ex_files = []" by (simp add: ex_files_def)
  ultimately show ?thesis using tools_write_in_scope [of ex_boundary "''t''" ex_files ?ops] by auto
qed

section \<open>What the tools show\<close>

lemma split_lines_sub: "l \<in> set (split_lines_from cur t) \<Longrightarrow> sublist l (rev cur @ t)"
proof (induction cur t rule: split_lines_from.induct)
  case (1 cur)
  then show ?case by (auto split: if_splits)
next
  case (2 cur c cs)
  have tail: "sublist l (rev cur @ xs @ ys)" if "sublist l ys" for xs ys
    using that sublist_suffix [of l "length (rev cur @ xs)" "rev cur @ xs @ ys"] by simp
  have head: "sublist (rev cur) (rev cur @ xs)" for xs by (rule prefix_imp_sublist) simp
  consider (crlf) ds where "c = CHR 0x0D" "cs = CHR 0x0A # ds" | (other) "\<not> (c = CHR 0x0D \<and> cs \<noteq> [] \<and> hd cs = CHR 0x0A)"
    by (cases cs) auto
  then show ?case
  proof cases
    case crlf
    with "2.prems" have "l = rev cur \<or> l \<in> set (split_lines_from [] ds)" by auto
    with "2.IH"(1) crlf head tail [of ds "[c, CHR 0x0A]"] show ?thesis by auto
  next
    case other
    show ?thesis
    proof (cases "line_break c")
      case True
      with "2.prems" other have "l = rev cur \<or> l \<in> set (split_lines_from [] cs)" by auto
      with "2.IH"(2) [OF other True] head tail [of cs "[c]"] show ?thesis by auto
    next
      case False
      with "2.prems" other "2.IH"(3) [OF other False] show ?thesis by auto
    qed
  qed
qed

lemma splitlines_sub: "l \<in> set (splitlines t) \<Longrightarrow> sublist l t"
  using split_lines_sub [of l "[]" t] by (simp add: splitlines_def)

definition match_texts :: "grep_match \<Rightarrow> string set" where
  "match_texts m = insert (gm_text m) (snd ` set (gm_before m) \<union> snd ` set (gm_after m))"

lemma read_text_hides:
  assumes "hideable_in (fb_secrets b) x" and "read_text env b disk raw = Inr t"
  shows "\<not> sublist x t"
  using assms registry.hides by (auto simp: read_text_def res_simps split: option.splits)

lemma line_text_hides:
  assumes h: "hideable_in (fb_secrets b) x" and t: "read_text env b disk raw = Inr t"
  shows "\<not> sublist x (line_text b (splitlines t) n found)"
proof (cases "1 \<le> n \<and> n \<le> int (length (splitlines t))")
  case True
  then have "splitlines t ! (nat n - 1) \<in> set (splitlines t)" by (intro nth_mem) linarith
  from splitlines_sub [OF this] read_text_hides [OF assms] True sublist_order.order.trans show ?thesis
    by (auto simp: line_text_def)
next
  case False
  then show ?thesis using registry.hides [OF h] by (auto simp: line_text_def)
qed

lemma safe_match_hides:
  assumes "hideable_in (fb_secrets b) x" and "read_text env b disk raw = Inr t" and "y \<in> match_texts (safe_match b (splitlines t) m)"
  shows "\<not> sublist x y"
  using assms(3) line_text_hides [OF assms(1,2)] by (auto simp: match_texts_def safe_match_def)

lemma safe_matches_hide:
  assumes h: "hideable_in (fb_secrets b) x"
  shows "safe_matches env b disk ms = Inr out \<Longrightarrow> m \<in> set out \<Longrightarrow> y \<in> match_texts m \<Longrightarrow> \<not> sublist x y"
proof (induction ms arbitrary: out)
  case (Cons a ms)
  show ?case
  proof (cases "res_bind (visible_path env b (gm_path a)) (\<lambda>p. read_text env b disk (path_text p))")
    case (Inl e)
    with Cons show ?thesis by (simp split: if_splits)
  next
    case (Inr t)
    then obtain p where t: "read_text env b disk (path_text p) = Inr t" by (auto simp: res_simps)
    from Inr Cons.prems(1) obtain out' where o: "safe_matches env b disk ms = Inr out'" "out = safe_match b (splitlines t) a # out'"
      by (auto simp: res_simps)
    with Cons.IH [OF o(1)] Cons.prems(2,3) safe_match_hides [OF h t] show ?thesis by auto
  qed
qed simp

lemma one_line_match: "match_texts \<lparr>gm_path = path, gm_line = n, gm_text = l, gm_before = [], gm_after = []\<rparr> = {l}"
  by (simp add: match_texts_def)

lemma scan_lines_texts:
  "m \<in> set (fst (scan_lines pattern limit path n ls found)) \<Longrightarrow> m \<in> set found \<or> (\<exists>l \<in> set ls. match_texts m = {l})"
proof (induction ls arbitrary: n found)
  case (Cons l ls)
  let ?m = "\<lparr>gm_path = path, gm_line = n, gm_text = l, gm_before = [], gm_after = []\<rparr>"
  from Cons.prems consider "m \<in> set found" | "m \<in> set (fst (scan_lines pattern limit path (n + 1) ls found))"
    | "m \<in> set (fst (scan_lines pattern limit path (n + 1) ls (found @ [?m])))"
    by (auto split: option.splits if_splits)
  then show ?case
    using Cons.IH [of "n + 1" found] Cons.IH [of "n + 1" "found @ [?m]"] one_line_match [of path n l] by cases auto
qed simp

lemma utf8_matches_hide:
  assumes h: "hideable_in (fb_secrets b) x"
  shows "utf8_matches env b disk pattern limit vs found = Inr (out, trunc) \<Longrightarrow>
     (\<forall>m \<in> set found. \<forall>y \<in> match_texts m. \<not> sublist x y) \<Longrightarrow> m \<in> set out \<Longrightarrow> y \<in> match_texts m \<Longrightarrow> \<not> sublist x y"
proof (induction vs arbitrary: found)
  case (Cons v vs)
  show ?case
  proof (cases "res_bind (visible_path env b v) (\<lambda>p. res_bind (read_text env b disk (path_text p)) (\<lambda>t. Inr (p, t)))")
    case (Inl e)
    with Cons show ?thesis by (simp split: if_splits)
  next
    case (Inr pt)
    then obtain p t where pt: "pt = (p, t)" and t: "read_text env b disk (path_text p) = Inr t" by (auto simp: res_simps)
    obtain found' stop where sc: "scan_lines pattern limit (path_text (drop (length (fb_root b)) p)) 1 (splitlines t) found = (found', stop)"
      by fastforce
    have f: "\<forall>m \<in> set found'. \<forall>y \<in> match_texts m. \<not> sublist x y"
    proof (intro ballI)
      fix m y
      assume "m \<in> set found'" "y \<in> match_texts m"
      with scan_lines_texts [of m pattern limit _ 1 "splitlines t" found] sc Cons.prems(2)
      consider "\<not> sublist x y" | "y \<in> set (splitlines t)" by (metis fst_conv singletonD)
      then show "\<not> sublist x y"
        using splitlines_sub [of y t] read_text_hides [OF h t] sublist_order.order.trans by cases blast+
    qed
    show ?thesis
    proof (cases stop)
      case True
      with Cons.prems Inr pt sc f show ?thesis by auto
    next
      case False
      with Cons.prems(1) Inr pt sc have "utf8_matches env b disk pattern limit vs found' = Inr (out, trunc)" by simp
      from Cons.IH [OF this f Cons.prems(3,4)] show ?thesis .
    qed
  qed
qed simp



end
