(* ===== verification/Spec2Isabelle.thy ===== *)
theory Spec2Isabelle
  imports Plan_Revision Plan_Execution Workspace_Capture Call_Accounting Leases Task_Lifecycle
    Decision_Gate Event_Bus Questions Failure_Monitor Command_Policy Tool_Arguments
    Plan_Dispatch Run_Outcome File_Tools
begin

text \<open>
  Verification library of Skail, a terminal coding agent whose runtime plans, routes, pays for and
  supervises the work of delegated child agents.  The models follow the Python sources under
  \<open>src/src/skail/\<close>; each theory begins with the files it translates.

  Parts of the program and their theories.

  \<^item> Shared notions (\<open>Prelude\<close>): errors as the left summand of a result, traversals of lists
    in the order of a Python loop, JSON values, identifiers, the lifecycle interface.
  \<^item> The plan of a run.  \<open>Status_Machines\<close> has the status enums and transition tables of tasks,
    attempts and sessions (\<open>domain/tasks.py\<close>, \<open>domain/sessions.py\<close>); \<open>Plan_Domain\<close> and
    \<open>Plan_Contract\<close> the plan, its graph validator and the execution decision
    (\<open>domain/plans.py\<close>, \<open>domain/decisions.py\<close>) over the finite graphs of
    \<open>Dependency_Graph\<close>; \<open>Plan_Store\<close> the methods of \<open>sessions/journal.py\<close> that store,
    transition and revise plans; \<open>Plan_Admission\<close>, \<open>Plan_Revision\<close> and
    \<open>Plan_Execution\<close> their properties over histories, revisions and restarts.
  \<^item> The journal.  \<open>Journal_Tables\<close> has the keyed, idempotent writes of \<open>sessions/journal.py\<close>
    on tables with the constraints of \<open>sessions/schema.py\<close>; rows are records, a table is a list in
    insertion order, a transaction is one function that returns the new tables or an error.
  \<^item> Money.  \<open>Budget_Ledger\<close> is \<open>routing/budget.py\<close>; \<open>Routing_Requirements\<close>,
    \<open>Model_Selector\<close> and \<open>Assignment\<close> are the routing decision (\<open>routing/requirements.py\<close>,
    \<open>estimates.py\<close>, \<open>selector.py\<close>, \<open>assignment.py\<close>, \<open>runtime/escalation.py\<close>), which
    reserves what it assigns; \<open>Call_Accounting\<close> is the settler in \<open>routing/assignment.py\<close> that
    records the paid calls of an attempt and books them on the ledger.
  \<^item> Files.  \<open>Changeset_Domain\<close>, \<open>Changeset_Store\<close>, \<open>Workspace_Files\<close>,
    \<open>Changeset_Integration\<close> and \<open>Workspace_Capture\<close> model how the changes a child made in an
    isolated worktree are captured, recorded, integrated into the workspace and recovered after a
    crash (\<open>domain/changesets.py\<close>, \<open>runtime/changeset_integration.py\<close>,
    \<open>runtime/workspace_capture.py\<close>).
  \<^item> Delegation.  \<open>Task_Validation\<close> (\<open>runtime/task_validation.py\<close>) freezes a request as a
    specification, \<open>Task_Registry\<close> (\<open>runtime/task_registry.py\<close>) registers it,
    \<open>Context_Packet\<close> (\<open>agents/context.py\<close>) bounds what the child reads,
    \<open>Result_Evaluator\<close> (\<open>agents/result_evaluator.py\<close>) decides what is believed of its report and
    \<open>Task_Lifecycle\<close> (\<open>agents/task_graph.py\<close>) is the graph that runs it, at most twice.
    \<open>Scheduler\<close> and \<open>Leases\<close> (\<open>runtime/scheduler.py\<close>, \<open>runtime/leases.py\<close>) are the
    interleavings of children.
  \<^item> Control.  \<open>Decision_Gate\<close> (\<open>runtime/decisions.py\<close>) stands in front of every tool call of
    the lead.
  \<^item> Guards of a run.  \<open>Failure_Monitor\<close> (\<open>runtime/failure_monitor.py\<close>) bounds the model
    calls and recognises repetition, \<open>Questions\<close> (\<open>runtime/interrupts.py\<close>) holds what the user
    is asked, \<open>Event_Bus\<close> (\<open>runtime/event_bus.py\<close>) numbers and distributes the events.
  \<^item> The run controller (\<open>runtime/run_controller.py\<close>).  \<open>Plan_Dispatch\<close> runs the nodes of
    a plan: tool nodes under the command policy, settling, and cancelling what is in flight;
    \<open>Run_Outcome\<close> ends a run, a resumed run and a rejected one on the journal and the ledger.
  \<^item> Tools.  \<open>Command_Policy\<close> (\<open>tools/execution.py\<close>, \<open>tools/approvals.py\<close>) decides which
    commands run, \<open>Tool_Arguments\<close> (\<open>tools/assembly.py\<close>) repairs the arguments of the reading
    tools, \<open>File_Tools\<close> (\<open>tools/filesystem.py\<close>, \<open>tools/backend.py\<close>) confines what is
    read and written, and \<open>Redaction\<close> (\<open>domain/events.py\<close>, \<open>runtime/redaction.py\<close>) hides
    credentials; the tools rest on the interface of a redactor that \<open>Redaction\<close> interprets.

  How they interact.  A decision admitted by the gate stores its plan in the journal; a plan node
  that becomes ready is validated and registered as a task, assigned (which reserves budget) and run
  by the scheduler under a lease; its calls are recorded and settled on the ledger; its changes are
  captured and integrated; its result moves the task, the plan node and the registry to a final
  status.  Statements that span components rest on the interfaces: the lifecycle interface of
  \<open>Prelude\<close> is interpreted on every transition table, the keyed insertion on the journal's writes,
  and the ledger's invariant \<open>ledger_ok\<close> is carried by the assignment and the call accounting, whose
  states extend the tables of the ledger as records.

  State and errors.  A class with mutable state is a record and its methods return the new record;
  an exception is \<open>Inl\<close> of an error value, and a method that fails leaves the state as the code
  leaves it (a transaction that raises returns no state).  Objects shared between threads become step
  relations.  Clocks, fresh identifiers, hashes, the redactor, the JSON parser, Unicode normalisation,
  the file system calls that may fail, the provider and the user are parameters.  Money is an exact
  rational, as are the binary floats of capability scores, which the code rounds to two decimals.

  What the lemmas show, by group: status machines are absorbing at terminal statuses; the stored plan
  satisfies its contract after every history of admissions, transitions and revisions, dependencies
  precede, and no admitted plan gets stuck; keyed writes are replayed without effect and refused for
  other content; no history of reservations, assignments, batches and settlements overcommits a run;
  calls are recorded once and unknown outcomes block further spending; a change set writes at most
  once and captures round-trip; routing meets a declarative contract independently of the catalog's
  order; tasks run at most twice, succeed only with evidence and are never retried after exhaustion;
  no tool call passes the gate without an admitted decision; the dispatcher leaves no node in flight, and a
  run ends in one consistent set of statuses with its budget settled, released or knowingly held; the
  file tools write only in the scope of the task and show no registered credential.

  Bounds and fuel.  The depth-first search of the graph validators carries the number of nodes as
  fuel, which suffices because a path in it visits distinct nodes (\<open>Dependency_Graph\<close>); blocking the
  dependents of a child carries one more than the number of children, the depth of the recursion over
  distinct children; the scheduler's loop has a decreasing measure; the lifecycle graph is unrolled for
  eight steps, as every run of it ends within eight (at most two rounds of three nodes, then the end).

  Not modelled, and why.
  The rest of the run controller (\<open>runtime/run_controller.py\<close>) is the asynchronous glue between these
  services and the agent framework: building the lead and its children, restoring a run from its
  checkpoint, streaming their events; model calls, the framework's middleware and adapters, the terminal
  interface, the command line, the HTTP clients of the providers, the configuration files, the
  SQLite connections, file locks and checkpoints, git worktrees and the document readers are input
  and output around the modelled decisions.  Development scripts, evaluations and benchmarks are not
  part of the program.  Of modelled files, messages for display, the free text stored beside a
  decision and thread-level locking inside one method are left out.
\<close>

end
